(* ===== verification/Prelude.thy ===== *)
theory Prelude
  imports Main "HOL-Library.Char_ord" "HOL-Library.List_Lexorder" "HOL-Library.Product_Lexorder"
begin

text \<open>
  Shared vocabulary of the AISummoner development.

  \<^item> Names for the Go types the model uses: a Go \<^verbatim>\<open>string\<close> is a sequence of bytes
    (\<open>string\<close>, one \<open>char\<close> per byte), a \<^verbatim>\<open>time.Time\<close> is its number of
    nanoseconds since the epoch (\<open>int\<close>).
  \<^item> The error-state monad: a Go function that reads and writes state and returns a
    value or an error is a function \<open>'s \<Rightarrow> ('e + 'a) \<times> 's\<close>.  \<open>etry\<close> is
    Go's \<^verbatim>\<open>x, err := f()\<close>: it hands the error over as a value.
  \<^item> Reasoning about such functions: \<open>moves R m\<close> says that \<open>m\<close> takes every state to
    an \<open>R\<close>-related one, whatever it returns.  The locale \<open>step_order\<close> has the rules
    for every preorder \<open>R\<close>; an invariant \<open>P\<close> is the preorder
    \<open>P s \<longrightarrow> P t\<close>.
  \<^item> Reachable states of a transition system and the invariant rule, as the locale
    \<open>invariant_of\<close>.
  \<^item> Tables as lists of rows, with the UPDATE, DELETE and SELECT they support.
\<close>

subsection \<open>Names of types\<close>

type_synonym ident = string
type_synonym time = int
type_synonym duration = int
type_synonym ('s, 'e, 'a) em = "'s \<Rightarrow> ('e + 'a) \<times> 's"

datatype ctx_err = Canceled | DeadlineExceeded

text \<open>The zero \<^verbatim>\<open>time.Time\<close>, January 1 of year 1.\<close>

definition zeroTime :: time where "zeroTime = - 62135596800 * 1000000000"

named_theorems em_simps \<open>evaluation of the error-state monad\<close>

abbreviation second :: duration where "second \<equiv> 1000000000"
abbreviation millisecond :: duration where "millisecond \<equiv> 1000000"

subsection \<open>The error-state monad\<close>

definition ereturn :: "'a \<Rightarrow> ('s, 'e, 'a) em" where
  "ereturn x = (\<lambda>s. (Inr x, s))"

definition ethrow :: "'e \<Rightarrow> ('s, 'e, 'a) em" where
  "ethrow e = (\<lambda>s. (Inl e, s))"

definition ebind :: "('s, 'e, 'a) em \<Rightarrow> ('a \<Rightarrow> ('s, 'e, 'b) em) \<Rightarrow> ('s, 'e, 'b) em" where
  "ebind m f = (\<lambda>s. case m s of (Inl e, t) \<Rightarrow> (Inl e, t) | (Inr x, t) \<Rightarrow> f x t)"

definition etry :: "('s, 'e, 'a) em \<Rightarrow> ('s, 'f, 'e + 'a) em" where
  "etry m = (\<lambda>s. case m s of (r, t) \<Rightarrow> (Inr r, t))"

definition eget :: "('s \<Rightarrow> 'a) \<Rightarrow> ('s, 'e, 'a) em" where
  "eget f = (\<lambda>s. (Inr (f s), s))"

definition emodify :: "('s \<Rightarrow> 's) \<Rightarrow> ('s, 'e, unit) em" where
  "emodify f = (\<lambda>s. (Inr (), f s))"

text \<open>\<open>ethen m k\<close> sequences two functions and drops the first one's value.\<close>

abbreviation ethen :: "('s, 'e, 'a) em \<Rightarrow> ('s, 'e, 'b) em \<Rightarrow> ('s, 'e, 'b) em" where
  "ethen m k \<equiv> ebind m (\<lambda>_. k)"

lemma ereturn_apply [em_simps]: "ereturn x s = (Inr x, s)"
  by (simp add: ereturn_def)

lemma ethrow_apply [em_simps]: "ethrow e s = (Inl e, s)"
  by (simp add: ethrow_def)

lemma ebind_apply [em_simps]:
  "ebind m f s = (case m s of (Inl e, t) \<Rightarrow> (Inl e, t) | (Inr x, t) \<Rightarrow> f x t)"
  by (simp add: ebind_def)

lemma etry_apply [em_simps]: "etry m s = (Inr (fst (m s)), snd (m s))"
  by (simp add: etry_def split: prod.split)

lemma eget_apply [em_simps]: "eget f s = (Inr (f s), s)"
  by (simp add: eget_def)

lemma emodify_apply [em_simps]: "emodify f s = (Inr (), f s)"
  by (simp add: emodify_def)

lemma ebind_Inr: "m s = (Inr x, t) \<Longrightarrow> ebind m f s = f x t"
  by (simp add: ebind_def)

lemma ebind_Inl: "m s = (Inl e, t) \<Longrightarrow> ebind m f s = (Inl e, t)"
  by (simp add: ebind_def)

lemma ebind_InrE:
  assumes "ebind m f s = (Inr y, u)"
  obtains x t where "m s = (Inr x, t)" and "f x t = (Inr y, u)"
  using assms by (auto simp: ebind_def split: prod.splits sum.splits)

lemma ebind_assoc: "ebind (ebind m f) g = ebind m (\<lambda>x. ebind (f x) g)"
  by (auto simp: ebind_def fun_eq_iff split: prod.splits sum.splits)

lemma ebind_return [simp]: "ebind (ereturn x) f = f x" "ebind m ereturn = m"
  by (auto simp: ebind_def ereturn_def fun_eq_iff split: prod.splits sum.splits)

lemma ebind_throw [simp]: "ebind (ethrow e) f = ethrow e"
  by (simp add: ebind_def ethrow_def)

subsection \<open>What a computation does to the state\<close>

definition moves :: "('s \<Rightarrow> 's \<Rightarrow> bool) \<Rightarrow> ('s, 'e, 'a) em \<Rightarrow> bool" where
  "moves R m \<longleftrightarrow> (\<forall>s. R s (snd (m s)))"

definition implies_after :: "('s \<Rightarrow> bool) \<Rightarrow> 's \<Rightarrow> 's \<Rightarrow> bool" where
  "implies_after P s t \<longleftrightarrow> (P s \<longrightarrow> P t)"

lemma movesI: "(\<And>s. R s (snd (m s))) \<Longrightarrow> moves R m"
  by (simp add: moves_def)

lemma movesD: "moves R m \<Longrightarrow> R s (snd (m s))"
  by (simp add: moves_def)

lemma moves_result: "moves R m \<Longrightarrow> m s = (r, t) \<Longrightarrow> R s t"
  by (metis movesD snd_conv)

locale step_order =
  fixes R :: "'s \<Rightarrow> 's \<Rightarrow> bool"
  assumes R_refl: "R s s"
    and R_trans: "R s t \<Longrightarrow> R t u \<Longrightarrow> R s u"
begin

lemma moves_return: "moves R (ereturn x)"
  by (simp add: moves_def ereturn_def R_refl)

lemma moves_throw: "moves R (ethrow e)"
  by (simp add: moves_def ethrow_def R_refl)

lemma moves_get: "moves R (eget f)"
  by (simp add: moves_def eget_def R_refl)

lemma moves_bind:
  assumes "moves R m" and "\<And>x. moves R (f x)"
  shows "moves R (ebind m f)"
proof (rule movesI)
  fix s
  obtain r t where m: "m s = (r, t)" by fastforce
  then have st: "R s t" by (rule moves_result [OF assms(1)])
  show "R s (snd (ebind m f s))"
  proof (cases r)
    case (Inl e)
    with m st show ?thesis by (simp add: ebind_def)
  next
    case (Inr x)
    have "R t (snd (f x t))" by (rule movesD [OF assms(2)])
    with st have "R s (snd (f x t))" by (rule R_trans)
    with m Inr show ?thesis by (simp add: ebind_def)
  qed
qed

lemma moves_try: "moves R m \<Longrightarrow> moves R (etry m)"
  by (simp add: moves_def etry_def split_def)

lemma moves_modify: "(\<And>s. R s (f s)) \<Longrightarrow> moves R (emodify f)"
  by (simp add: moves_def emodify_def)

lemma moves_if: "(b \<Longrightarrow> moves R m) \<Longrightarrow> (\<not> b \<Longrightarrow> moves R n) \<Longrightarrow> moves R (if b then m else n)"
  by simp

lemma moves_case_option:
  "moves R m \<Longrightarrow> (\<And>y. moves R (f y)) \<Longrightarrow> moves R (case x of None \<Rightarrow> m | Some y \<Rightarrow> f y)"
  by (cases x) auto

lemma moves_case_sum:
  "(\<And>y. moves R (f y)) \<Longrightarrow> (\<And>y. moves R (g y)) \<Longrightarrow> moves R (case x of Inl y \<Rightarrow> f y | Inr y \<Rightarrow> g y)"
  by (cases x) auto

lemma moves_case_prod: "(\<And>y z. moves R (f y z)) \<Longrightarrow> moves R (case x of (y, z) \<Rightarrow> f y z)"
  by (cases x) auto

lemma moves_case_list:
  "moves R m \<Longrightarrow> (\<And>y ys. moves R (f y ys)) \<Longrightarrow> moves R (case x of [] \<Rightarrow> m | y # ys \<Rightarrow> f y ys)"
  by (cases x) auto

lemmas moves_rules =
  moves_return moves_throw moves_get moves_bind moves_try moves_if
  moves_case_option moves_case_sum moves_case_prod moves_case_list

end

lemma step_order_implies: "step_order (implies_after P)"
  by unfold_locales (auto simp: implies_after_def)

text \<open>Two preorders at once: a step that keeps both.\<close>

lemma step_order_both:
  assumes "step_order R" and "step_order S"
  shows "step_order (\<lambda>s t. R s t \<and> S s t)"
  using assms unfolding step_order_def by blast

subsection \<open>Reachable states and invariants\<close>

inductive reach :: "('s \<Rightarrow> bool) \<Rightarrow> ('s \<Rightarrow> 's \<Rightarrow> bool) \<Rightarrow> 's \<Rightarrow> bool" for I T where
  reach_init: "I s \<Longrightarrow> reach I T s"
| reach_step: "reach I T s \<Longrightarrow> T s t \<Longrightarrow> reach I T t"

locale invariant_of =
  fixes I :: "'s \<Rightarrow> bool" and T :: "'s \<Rightarrow> 's \<Rightarrow> bool" and inv :: "'s \<Rightarrow> bool"
  assumes init: "I s \<Longrightarrow> inv s"
    and step: "T s t \<Longrightarrow> inv s \<Longrightarrow> inv t"
begin

lemma reach_inv: "reach I T s \<Longrightarrow> inv s"
  by (induction rule: reach.induct) (auto intro: init step)

lemma steps_inv: "T\<^sup>*\<^sup>* s t \<Longrightarrow> inv s \<Longrightarrow> inv t"
  by (induction rule: rtranclp_induct) (auto intro: step)

end

lemma reach_steps: "reach I T s \<Longrightarrow> T\<^sup>*\<^sup>* s t \<Longrightarrow> reach I T t"
  by (rotate_tac, induction rule: rtranclp_induct) (auto intro: reach_step)

lemma rtranclp_preorder:
  assumes "T\<^sup>*\<^sup>* s t" and "\<And>s t. T s t \<Longrightarrow> R s t" and "step_order R"
  shows "R s t"
  using assms(1)
  by (induction rule: rtranclp_induct)
     (use assms(2,3) in \<open>auto simp: step_order_def\<close>)

subsection \<open>Tables\<close>

lemma pred_option_case [code]: "pred_option p x = (case x of None \<Rightarrow> True | Some y \<Rightarrow> p y)"
  by (cases x) simp_all

text \<open>
  \<open>upd_rows p f\<close> is \<^verbatim>\<open>UPDATE ... SET f WHERE p\<close>, \<open>count_rows p\<close> the number of
  rows it touches, \<open>del_rows p\<close> is \<^verbatim>\<open>DELETE ... WHERE p\<close> and \<open>find\<close> a
  \<^verbatim>\<open>SELECT\<close> of one row.
\<close>

definition upd_rows :: "('r \<Rightarrow> bool) \<Rightarrow> ('r \<Rightarrow> 'r) \<Rightarrow> 'r list \<Rightarrow> 'r list" where
  "upd_rows p f = map (\<lambda>r. if p r then f r else r)"

definition count_rows :: "('r \<Rightarrow> bool) \<Rightarrow> 'r list \<Rightarrow> nat" where
  "count_rows p rs = length (filter p rs)"

definition del_rows :: "('r \<Rightarrow> bool) \<Rightarrow> 'r list \<Rightarrow> 'r list" where
  "del_rows p = filter (\<lambda>r. \<not> p r)"

lemma set_upd_rows: "set (upd_rows p f rs) = (\<lambda>r. if p r then f r else r) ` set rs"
  by (simp add: upd_rows_def)

lemma upd_rowsE:
  assumes "x \<in> set (upd_rows p f rs)"
  obtains (changed) r where "r \<in> set rs" "p r" "x = f r" | (kept) "x \<in> set rs" "\<not> p x"
  using assms by (auto simp: set_upd_rows split: if_splits)

lemma upd_rows_changed: "r \<in> set rs \<Longrightarrow> p r \<Longrightarrow> f r \<in> set (upd_rows p f rs)"
  by (force simp: set_upd_rows)

lemma upd_rows_kept: "r \<in> set rs \<Longrightarrow> \<not> p r \<Longrightarrow> r \<in> set (upd_rows p f rs)"
  by (force simp: set_upd_rows)

lemma upd_rows_keeps:
  assumes "r \<in> set rs" and "\<And>r. p r \<Longrightarrow> g (f r) = g r"
  shows "\<exists>r' \<in> set (upd_rows p f rs). g r' = g r"
  using assms by (cases "p r") (auto dest: upd_rows_changed upd_rows_kept)

lemma del_rows_keyE:
  assumes "a \<in> k ` set (del_rows p rs)"
  obtains r where "r \<in> set rs" "k r = a" "\<not> p r"
  using assms by (auto simp: del_rows_def)

lemma upd_rows_key:
  "(\<And>r. k (f r) = k r) \<Longrightarrow> map k (upd_rows p f rs) = map k rs"
  by (simp add: upd_rows_def)

lemma upd_rows_none: "count_rows p rs = 0 \<Longrightarrow> upd_rows p f rs = rs"
  by (induction rs) (auto simp: upd_rows_def count_rows_def split: if_splits)

lemma count_rows_0 [simp]: "count_rows p rs = 0 \<longleftrightarrow> (\<forall>r \<in> set rs. \<not> p r)"
  by (auto simp: count_rows_def filter_empty_conv)

lemma count_rows_key:
  assumes "distinct (map k rs)" and "\<And>r. p r \<Longrightarrow> k r = a"
  shows "count_rows p rs \<le> 1"
  using assms
proof (induction rs)
  case Nil
  then show ?case by (simp add: count_rows_def)
next
  case (Cons r rs)
  show ?case
  proof (cases "p r")
    case True
    with Cons.prems have "k r = a" and "\<forall>x \<in> set rs. k x \<noteq> a" by auto
    with Cons.prems(2) have "filter p rs = []" by (auto simp: filter_empty_conv)
    with True show ?thesis by (simp add: count_rows_def)
  next
    case False
    with Cons show ?thesis by (simp add: count_rows_def)
  qed
qed

text \<open>With a unique key, an UPDATE that names the key touches one row or none.\<close>

lemma count_rows_one:
  assumes "distinct (map k rs)" and "\<And>r. p r \<Longrightarrow> k r = a" and "r \<in> set rs" and "p r"
  shows "count_rows p rs = 1"
proof -
  have "count_rows p rs \<le> 1" by (rule count_rows_key [OF assms(1,2)])
  moreover have "count_rows p rs \<noteq> 0" using assms(3,4) by auto
  ultimately show ?thesis by linarith
qed

text \<open>A relation between rows, lifted to tables: every row has a successor.\<close>

definition rows_le :: "('r \<Rightarrow> 'r \<Rightarrow> bool) \<Rightarrow> 'r list \<Rightarrow> 'r list \<Rightarrow> bool" where
  "rows_le le rs rs' \<longleftrightarrow> (\<forall>r \<in> set rs. \<exists>r' \<in> set rs'. le r r')"

lemma rows_le_subset: "(\<And>r. le r r) \<Longrightarrow> set rs \<subseteq> set rs' \<Longrightarrow> rows_le le rs rs'"
  by (auto simp: rows_le_def)

lemma rows_le_trans:
  assumes "\<And>r s t. le r s \<Longrightarrow> le s t \<Longrightarrow> le r t" and "rows_le le rs rs'" and "rows_le le rs' rs''"
  shows "rows_le le rs rs''"
  using assms unfolding rows_le_def by meson

lemma rows_le_upd:
  assumes "\<And>r. le r r" and "\<And>r. p r \<Longrightarrow> le r (f r)"
  shows "rows_le le rs (upd_rows p f rs)"
  using assms upd_rows_changed upd_rows_kept unfolding rows_le_def by metis

lemma rows_leE:
  assumes "rows_le le rs rs'" and "r \<in> set rs"
  obtains r' where "r' \<in> set rs'" and "le r r'"
  using assms unfolding rows_le_def by blast

lemma find_Some_iff:
  assumes "distinct (map k rs)" and "\<And>r. p r \<Longrightarrow> k r = a"
  shows "find p rs = Some r \<longleftrightarrow> r \<in> set rs \<and> p r"
  using assms
proof (induction rs)
  case Nil
  then show ?case by simp
next
  case (Cons x rs)
  then show ?case by (cases "p x") (force simp: image_iff)+
qed

lemma find_SomeD: "find p rs = Some r \<Longrightarrow> r \<in> set rs \<and> p r"
  by (induction rs) (auto split: if_splits)

lemma find_None_ball: "find p rs = None \<longleftrightarrow> (\<forall>r \<in> set rs. \<not> p r)"
  by (induction rs) auto

lemma distinct_map_filter_key: "distinct (map k rs) \<Longrightarrow> distinct (map k (filter p rs))"
  by (rule distinct_map_filter)

lemma key_inj:
  "distinct (map k rs) \<Longrightarrow> r \<in> set rs \<Longrightarrow> r' \<in> set rs \<Longrightarrow> k r = k r' \<Longrightarrow> r = r'"
  by (meson distinct_map inj_onD)

text \<open>Counting in a list of program counters after one of them moved.\<close>

lemma count_update:
  "i < length xs \<Longrightarrow> length (filter P (xs[i := y])) + of_bool (P (xs ! i)) = length (filter P xs) + of_bool (P y)"
proof (induction xs arbitrary: i)
  case (Cons x xs)
  then show ?case by (cases i) auto
qed simp

end
