(* ===== verification/Store_Types.thy ===== *)
theory Store_Types
  imports Prelude
begin

text \<open>
  The persistent state of the server (\<^verbatim>\<open>internal/store\<close> and the schema in
  \<^verbatim>\<open>migrations/*.sql\<close>): one record per Go struct, which is also the row type of its
  table, and the database as one list of rows per table.

  A store method is a sequence of SQL statements over one connection
  (\<^verbatim>\<open>SetMaxOpenConns(1)\<close>), so statements and transactions of different callers never
  overlap.  Each statement is \<open>sql_query\<close> or \<open>sql_exec\<close>; the SQLite engine rejects
  a statement whose result breaks a constraint of the schema (\<open>schema_ok\<close>), and any
  statement may fail for reasons of its own (I/O, a canceled context): the oracle
  \<open>faults\<close> of the database state says which of the next statements do.  A
  transaction (\<open>tx\<close>) that fails leaves the tables as they were.
\<close>

subsection \<open>Errors\<close>

datatype store_err =
    ErrNotFound | ErrConflict | ErrPairingInvalid | ErrPairingExpired
  | ErrInvalidArg string  \<comment> \<open>\<^verbatim>\<open>errors.New\<close> of a rejected argument\<close>
  | ErrDriver string      \<comment> \<open>\<^verbatim>\<open>fmt.Errorf("...: %w", err)\<close> around a driver error\<close>

subsection \<open>Rows\<close>

record User =
  u_id :: ident
  u_username :: string
  u_password_hash :: string
  u_created_at :: time

record WebSession =
  ws_id :: ident
  ws_user_id :: ident
  ws_token_digest :: string
  ws_expires_at :: time
  ws_created_at :: time

record Device =
  d_id :: ident
  d_public_key :: string
  d_owner_user_id :: "ident option"
  d_name :: string
  d_platform :: string
  d_arch :: string
  d_client_version :: string
  d_created_at :: time
  d_paired_at :: "time option"
  d_last_seen_at :: "time option"

record PairingCode =
  pc_id :: ident
  pc_device_id :: ident
  pc_code_digest :: string
  pc_expires_at :: time
  pc_consumed_at :: "time option"
  pc_created_at :: time

record AuditEvent =
  ae_id :: ident
  ae_actor_user_id :: "ident option"
  ae_device_id :: "ident option"
  ae_event_type :: string
  ae_metadata_json :: string
  ae_created_at :: time

record AgentSession =
  as_id :: ident
  as_user_id :: ident
  as_device_id :: ident
  as_approval_mode :: string
  as_provider :: string
  as_external_session_id :: "string option"
  as_state :: string
  as_created_at :: time
  as_updated_at :: time
  as_archived_at :: "time option"

record AgentMessage =
  am_id :: ident
  am_session_id :: ident
  am_role :: string
  am_content :: string
  am_created_at :: time

record ToolCall =
  tc_id :: ident
  tc_session_id :: ident
  tc_name :: string
  tc_arguments_json :: string
  tc_status :: string
  tc_decision :: "string option"
  tc_exit_code :: "int option"
  tc_output_excerpt :: "string option"
  tc_created_at :: time
  tc_completed_at :: "time option"

record AgentSettingsRow =
  st_user_id :: ident
  st_default_approval_mode :: string
  st_updated_at :: time

record AgentSettings =
  DefaultApprovalMode :: string
  SettingsUpdatedAt :: "time option"

record AgentSnapshot =
  sn_session :: AgentSession
  sn_messages :: "AgentMessage list"
  sn_tool_calls :: "ToolCall list"

record AgentSessionSummary =
  sm_id :: ident
  sm_device_id :: ident
  sm_device_name :: string
  sm_approval_mode :: string
  sm_provider :: string
  sm_state :: string
  sm_title :: string
  sm_created_at :: time
  sm_updated_at :: time
  sm_archived_at :: "time option"

subsection \<open>Constants\<close>

definition AgentApprovalPerCommand :: string where "AgentApprovalPerCommand = ''per_command''"
definition AgentApprovalFullAccess :: string where "AgentApprovalFullAccess = ''full_access''"

definition AgentSessionIdle :: string where "AgentSessionIdle = ''idle''"
definition AgentSessionRunning :: string where "AgentSessionRunning = ''running''"
definition AgentSessionWaitingApproval :: string where
  "AgentSessionWaitingApproval = ''waiting_approval''"
definition AgentSessionFailed :: string where "AgentSessionFailed = ''failed''"
definition AgentSessionRevoked :: string where "AgentSessionRevoked = ''revoked''"

definition ToolCallPending :: string where "ToolCallPending = ''pending''"
definition ToolCallStarted :: string where "ToolCallStarted = ''started''"
definition ToolCallCompleted :: string where "ToolCallCompleted = ''completed''"
definition ToolCallDenied :: string where "ToolCallDenied = ''denied''"
definition ToolCallFailed :: string where "ToolCallFailed = ''failed''"

definition DecisionApproveOnce :: string where "DecisionApproveOnce = ''approve_once''"
definition DecisionApproveSession :: string where "DecisionApproveSession = ''approve_session''"
definition DecisionDeny :: string where "DecisionDeny = ''deny''"

definition recentAgentSessionLimit :: nat where "recentAgentSessionLimit = 50"
definition agentSessionTitleRunes :: nat where "agentSessionTitleRunes = 80"

lemmas state_consts =
  AgentSessionIdle_def AgentSessionRunning_def AgentSessionWaitingApproval_def
  AgentSessionFailed_def AgentSessionRevoked_def
lemmas status_consts =
  ToolCallPending_def ToolCallStarted_def ToolCallCompleted_def ToolCallDenied_def
  ToolCallFailed_def
lemmas decision_consts =
  DecisionApproveOnce_def DecisionApproveSession_def DecisionDeny_def
lemmas mode_consts = AgentApprovalPerCommand_def AgentApprovalFullAccess_def

lemma state_neq_simps [simp]:
  "AgentSessionIdle \<noteq> AgentSessionRevoked" "AgentSessionRevoked \<noteq> AgentSessionIdle"
  "AgentSessionRunning \<noteq> AgentSessionRevoked" "AgentSessionRevoked \<noteq> AgentSessionRunning"
  "AgentSessionWaitingApproval \<noteq> AgentSessionRevoked"
  "AgentSessionRevoked \<noteq> AgentSessionWaitingApproval"
  "AgentSessionFailed \<noteq> AgentSessionRevoked" "AgentSessionRevoked \<noteq> AgentSessionFailed"
  "AgentSessionIdle \<noteq> AgentSessionRunning" "AgentSessionRunning \<noteq> AgentSessionIdle"
  "AgentSessionFailed \<noteq> AgentSessionRunning" "AgentSessionRunning \<noteq> AgentSessionFailed"
  "AgentSessionIdle \<noteq> AgentSessionFailed" "AgentSessionFailed \<noteq> AgentSessionIdle"
  "AgentSessionWaitingApproval \<noteq> AgentSessionIdle" "AgentSessionIdle \<noteq> AgentSessionWaitingApproval"
  "AgentSessionWaitingApproval \<noteq> AgentSessionFailed" "AgentSessionFailed \<noteq> AgentSessionWaitingApproval"
  "AgentSessionWaitingApproval \<noteq> AgentSessionRunning" "AgentSessionRunning \<noteq> AgentSessionWaitingApproval"
  by (simp_all add: state_consts)

lemma status_neq_simps [simp]:
  "ToolCallPending \<noteq> ToolCallStarted" "ToolCallStarted \<noteq> ToolCallPending"
  "ToolCallPending \<noteq> ToolCallCompleted" "ToolCallCompleted \<noteq> ToolCallPending"
  "ToolCallPending \<noteq> ToolCallDenied" "ToolCallDenied \<noteq> ToolCallPending"
  "ToolCallPending \<noteq> ToolCallFailed" "ToolCallFailed \<noteq> ToolCallPending"
  "ToolCallStarted \<noteq> ToolCallCompleted" "ToolCallCompleted \<noteq> ToolCallStarted"
  "ToolCallStarted \<noteq> ToolCallDenied" "ToolCallDenied \<noteq> ToolCallStarted"
  "ToolCallStarted \<noteq> ToolCallFailed" "ToolCallFailed \<noteq> ToolCallStarted"
  "ToolCallCompleted \<noteq> ToolCallDenied" "ToolCallDenied \<noteq> ToolCallCompleted"
  "ToolCallCompleted \<noteq> ToolCallFailed" "ToolCallFailed \<noteq> ToolCallCompleted"
  "ToolCallDenied \<noteq> ToolCallFailed" "ToolCallFailed \<noteq> ToolCallDenied"
  by (simp_all add: status_consts)

lemma decision_neq_simps [simp]:
  "DecisionApproveOnce \<noteq> DecisionApproveSession" "DecisionApproveSession \<noteq> DecisionApproveOnce"
  "DecisionApproveOnce \<noteq> DecisionDeny" "DecisionDeny \<noteq> DecisionApproveOnce"
  "DecisionApproveSession \<noteq> DecisionDeny" "DecisionDeny \<noteq> DecisionApproveSession"
  by (simp_all add: decision_consts)

lemma mode_neq_simps [simp]:
  "AgentApprovalPerCommand \<noteq> AgentApprovalFullAccess"
  "AgentApprovalFullAccess \<noteq> AgentApprovalPerCommand"
  by (simp_all add: mode_consts)

definition validApprovalMode :: "string \<Rightarrow> bool" where
  "validApprovalMode mode \<longleftrightarrow> mode = AgentApprovalPerCommand \<or> mode = AgentApprovalFullAccess"

definition validAgentSessionState :: "string \<Rightarrow> bool" where
  "validAgentSessionState state \<longleftrightarrow>
     state = AgentSessionIdle \<or> state = AgentSessionRunning \<or>
     state = AgentSessionWaitingApproval \<or> state = AgentSessionFailed"

subsection \<open>The database and the constraints of its schema\<close>

record db =
  users :: "User list"
  web_sessions :: "WebSession list"
  devices :: "Device list"
  pairing_codes :: "PairingCode list"
  agent_sessions :: "AgentSession list"
  agent_messages :: "AgentMessage list"
  tool_calls :: "ToolCall list"
  agent_user_settings :: "AgentSettingsRow list"
  audit_events :: "AuditEvent list"

definition empty_db :: db where
  "empty_db = \<lparr>users = [], web_sessions = [], devices = [], pairing_codes = [],
     agent_sessions = [], agent_messages = [], tool_calls = [], agent_user_settings = [],
     audit_events = []\<rparr>"

definition users_ok :: "db \<Rightarrow> bool" where
  "users_ok d \<longleftrightarrow> distinct (map u_id (users d)) \<and> distinct (map u_username (users d))"

definition web_sessions_ok :: "db \<Rightarrow> bool" where
  "web_sessions_ok d \<longleftrightarrow> distinct (map ws_id (web_sessions d)) \<and>
     distinct (map ws_token_digest (web_sessions d)) \<and>
     ws_user_id ` set (web_sessions d) \<subseteq> u_id ` set (users d)"

definition devices_ok :: "db \<Rightarrow> bool" where
  "devices_ok d \<longleftrightarrow> distinct (map d_id (devices d)) \<and> distinct (map d_public_key (devices d)) \<and>
     (\<forall>r \<in> set (devices d). pred_option (\<lambda>u. u \<in> u_id ` set (users d)) (d_owner_user_id r))"

definition pairing_codes_ok :: "db \<Rightarrow> bool" where
  "pairing_codes_ok d \<longleftrightarrow> distinct (map pc_id (pairing_codes d)) \<and>
     distinct (map pc_code_digest (pairing_codes d)) \<and>
     pc_device_id ` set (pairing_codes d) \<subseteq> d_id ` set (devices d)"

definition agent_sessions_ok :: "db \<Rightarrow> bool" where
  "agent_sessions_ok d \<longleftrightarrow> distinct (map as_id (agent_sessions d)) \<and>
     as_user_id ` set (agent_sessions d) \<subseteq> u_id ` set (users d) \<and>
     as_device_id ` set (agent_sessions d) \<subseteq> d_id ` set (devices d) \<and>
     list_all (\<lambda>s. validApprovalMode (as_approval_mode s)) (agent_sessions d) \<and>
     distinct (filter (\<lambda>e. e \<noteq> None) (map as_external_session_id (agent_sessions d)))"

definition agent_messages_ok :: "db \<Rightarrow> bool" where
  "agent_messages_ok d \<longleftrightarrow> distinct (map am_id (agent_messages d)) \<and>
     am_session_id ` set (agent_messages d) \<subseteq> as_id ` set (agent_sessions d)"

definition tool_calls_ok :: "db \<Rightarrow> bool" where
  "tool_calls_ok d \<longleftrightarrow> distinct (map tc_id (tool_calls d)) \<and>
     tc_session_id ` set (tool_calls d) \<subseteq> as_id ` set (agent_sessions d) \<and>
     list_all (\<lambda>t. pred_option (\<lambda>x. length x \<le> 8192) (tc_output_excerpt t)) (tool_calls d)"

definition settings_ok :: "db \<Rightarrow> bool" where
  "settings_ok d \<longleftrightarrow> distinct (map st_user_id (agent_user_settings d)) \<and>
     st_user_id ` set (agent_user_settings d) \<subseteq> u_id ` set (users d) \<and>
     list_all (\<lambda>s. validApprovalMode (st_default_approval_mode s)) (agent_user_settings d)"

definition audit_events_ok :: "db \<Rightarrow> bool" where
  "audit_events_ok d \<longleftrightarrow> distinct (map ae_id (audit_events d)) \<and>
     (\<forall>r \<in> set (audit_events d). pred_option (\<lambda>u. u \<in> u_id ` set (users d)) (ae_actor_user_id r)) \<and>
     (\<forall>r \<in> set (audit_events d). pred_option (\<lambda>v. v \<in> d_id ` set (devices d)) (ae_device_id r))"

definition schema_ok :: "db \<Rightarrow> bool" where
  "schema_ok d \<longleftrightarrow> users_ok d \<and> web_sessions_ok d \<and> devices_ok d \<and> pairing_codes_ok d \<and>
     agent_sessions_ok d \<and> agent_messages_ok d \<and> tool_calls_ok d \<and> settings_ok d \<and>
     audit_events_ok d"

lemmas schema_defs =
  schema_ok_def users_ok_def web_sessions_ok_def devices_ok_def pairing_codes_ok_def
  agent_sessions_ok_def agent_messages_ok_def tool_calls_ok_def settings_ok_def
  audit_events_ok_def

end
