(* ===== verification/Store_Sql.thy ===== *)
theory Store_Sql
  imports Store_Types
begin

text \<open>
  Statements and transactions of the store over a database state that carries its fault
  oracle, and the rules to reason about them.  The locale \<open>table_order\<close> lifts a
  preorder on the tables to every store method built from these statements: a failed
  statement and a rolled-back transaction leave the tables unchanged.
\<close>

record dbst =
  tables :: db
  faults :: "bool list"

type_synonym 'a dbm = "(dbst, store_err, 'a) em"

definition pop_fault :: "dbst \<Rightarrow> bool \<times> dbst" where
  "pop_fault s = (case faults s of [] \<Rightarrow> (False, s) | b # bs \<Rightarrow> (b, s\<lparr>faults := bs\<rparr>))"

definition sql_query :: "string \<Rightarrow> (db \<Rightarrow> 'a) \<Rightarrow> 'a dbm" where
  "sql_query msg q = (\<lambda>s. case pop_fault s of
     (True, t) \<Rightarrow> (Inl (ErrDriver msg), t)
   | (False, t) \<Rightarrow> (Inr (q (tables t)), t))"

definition sql_exec :: "string \<Rightarrow> (db \<Rightarrow> nat \<times> db) \<Rightarrow> nat dbm" where
  "sql_exec msg f = (\<lambda>s. case pop_fault s of
     (True, t) \<Rightarrow> (Inl (ErrDriver msg), t)
   | (False, t) \<Rightarrow> (case f (tables t) of (n, d) \<Rightarrow>
       if schema_ok d then (Inr n, t\<lparr>tables := d\<rparr>) else (Inl (ErrDriver msg), t)))"

text \<open>\<^verbatim>\<open>result.RowsAffected()\<close> may fail too, after the statement has taken effect.\<close>

definition rows_affected :: "string \<Rightarrow> nat \<Rightarrow> nat dbm" where
  "rows_affected msg n = sql_query msg (\<lambda>_. n)"

definition requireOneRow :: "nat \<Rightarrow> unit dbm" where
  "requireOneRow n = ebind (rows_affected ''inspect rows affected'' n) (\<lambda>affected.
     if affected \<noteq> 1 then ethrow ErrNotFound else ereturn ())"

definition tx :: "string \<Rightarrow> string \<Rightarrow> 'a dbm \<Rightarrow> 'a dbm" where
  "tx begin_msg commit_msg body = (\<lambda>s. case pop_fault s of
     (True, t) \<Rightarrow> (Inl (ErrDriver begin_msg), t)
   | (False, t) \<Rightarrow> (case body t of
       (Inl e, u) \<Rightarrow> (Inl e, u\<lparr>tables := tables s\<rparr>)
     | (Inr x, u) \<Rightarrow> (case pop_fault u of
         (True, v) \<Rightarrow> (Inl (ErrDriver commit_msg), v\<lparr>tables := tables s\<rparr>)
       | (False, v) \<Rightarrow> (Inr x, v))))"

text \<open>The statements, as functions on the tables that also give the rows they touch.\<close>

definition upd_devices :: "(Device \<Rightarrow> bool) \<Rightarrow> (Device \<Rightarrow> Device) \<Rightarrow> db \<Rightarrow> nat \<times> db" where
  "upd_devices p f d = (count_rows p (devices d), d\<lparr>devices := upd_rows p f (devices d)\<rparr>)"

definition upd_codes :: "(PairingCode \<Rightarrow> bool) \<Rightarrow> (PairingCode \<Rightarrow> PairingCode) \<Rightarrow> db \<Rightarrow> nat \<times> db" where
  "upd_codes p f d =
     (count_rows p (pairing_codes d), d\<lparr>pairing_codes := upd_rows p f (pairing_codes d)\<rparr>)"

definition upd_sessions :: "(AgentSession \<Rightarrow> bool) \<Rightarrow> (AgentSession \<Rightarrow> AgentSession) \<Rightarrow> db \<Rightarrow> nat \<times> db" where
  "upd_sessions p f d =
     (count_rows p (agent_sessions d), d\<lparr>agent_sessions := upd_rows p f (agent_sessions d)\<rparr>)"

definition upd_tools :: "(ToolCall \<Rightarrow> bool) \<Rightarrow> (ToolCall \<Rightarrow> ToolCall) \<Rightarrow> db \<Rightarrow> nat \<times> db" where
  "upd_tools p f d =
     (count_rows p (tool_calls d), d\<lparr>tool_calls := upd_rows p f (tool_calls d)\<rparr>)"

text \<open>\<^verbatim>\<open>DELETE FROM agent_sessions\<close> cascades to the messages and tool calls of the session.\<close>

definition delete_sessions :: "(AgentSession \<Rightarrow> bool) \<Rightarrow> db \<Rightarrow> nat \<times> db" where
  "delete_sessions p d =
     (let gone = map as_id (filter p (agent_sessions d)) in
      (count_rows p (agent_sessions d),
       d\<lparr>agent_sessions := del_rows p (agent_sessions d),
         agent_messages := del_rows (\<lambda>m. am_session_id m \<in> set gone) (agent_messages d),
         tool_calls := del_rows (\<lambda>t. tc_session_id t \<in> set gone) (tool_calls d)\<rparr>))"

subsection \<open>Evaluation when no statement fails\<close>

lemma pop_fault_none [simp]: "faults s = [] \<Longrightarrow> pop_fault s = (False, s)"
  by (simp add: pop_fault_def)

lemma pop_fault_tables [simp]: "pop_fault s = (b, t) \<Longrightarrow> tables t = tables s"
  by (auto simp: pop_fault_def split: list.splits)

lemma sql_query_ok [em_simps]: "faults s = [] \<Longrightarrow> sql_query msg q s = (Inr (q (tables s)), s)"
  by (simp add: sql_query_def)

lemma sql_exec_ok [em_simps]:
  "faults s = [] \<Longrightarrow> sql_exec msg f s =
     (if schema_ok (snd (f (tables s))) then (Inr (fst (f (tables s))), s\<lparr>tables := snd (f (tables s))\<rparr>)
      else (Inl (ErrDriver msg), s))"
  by (simp add: sql_exec_def split: prod.split)

lemma rows_affected_ok [em_simps]: "faults s = [] \<Longrightarrow> rows_affected msg n s = (Inr n, s)"
  by (simp add: rows_affected_def em_simps)

lemma requireOneRow_ok [em_simps]:
  "faults s = [] \<Longrightarrow> requireOneRow n s = (if n = 1 then Inr () else Inl ErrNotFound, s)"
  by (simp add: requireOneRow_def em_simps)

lemma tx_ok [em_simps]:
  "faults s = [] \<Longrightarrow> faults (snd (body s)) = [] \<Longrightarrow>
   tx b c body s = (case body s of (Inl e, u) \<Rightarrow> (Inl e, u\<lparr>tables := tables s\<rparr>) | (Inr x, u) \<Rightarrow> (Inr x, u))"
  by (auto simp: tx_def split: prod.splits sum.splits)

text \<open>A transaction that returns an error has changed no table, whatever failed in it.\<close>

lemma tx_error_unchanged: "tx b c body s = (Inl e, t) \<Longrightarrow> tables t = tables s"
  by (auto simp: tx_def split: prod.splits sum.splits bool.splits)

lemma tx_success: "tx b c body s = (Inr x, t) \<Longrightarrow>
   \<exists>s' u. tables s' = tables s \<and> body s' = (Inr x, u) \<and> tables t = tables u"
  by (auto simp: tx_def split: prod.splits sum.splits bool.splits)
     (metis pop_fault_tables)+

lemma sql_query_Inr: "sql_query msg q s = (Inr x, t) \<Longrightarrow> x = q (tables s) \<and> tables t = tables s"
  by (auto simp: sql_query_def split: prod.splits bool.splits)

lemma sql_query_tables [simp]: "tables (snd (sql_query msg q s)) = tables s"
  by (auto simp: sql_query_def split: prod.splits bool.splits)

lemma sql_exec_Inr:
  "sql_exec msg f s = (Inr n, t) \<Longrightarrow>
   n = fst (f (tables s)) \<and> tables t = snd (f (tables s)) \<and> schema_ok (tables t)"
  by (auto simp: sql_exec_def split: prod.splits bool.splits if_splits)

lemma sql_exec_Inl: "sql_exec msg f s = (Inl e, t) \<Longrightarrow> tables t = tables s"
  by (auto simp: sql_exec_def split: prod.splits bool.splits if_splits)

lemma rows_affected_Inr: "rows_affected msg n s = (Inr m, t) \<Longrightarrow> m = n \<and> tables t = tables s"
  unfolding rows_affected_def by (drule sql_query_Inr) simp

lemma requireOneRow_Inr: "requireOneRow n s = (Inr x, t) \<Longrightarrow> n = 1 \<and> tables t = tables s"
  unfolding requireOneRow_def
  by (elim ebind_InrE) (auto simp: em_simps dest: rows_affected_Inr split: if_splits)

subsection \<open>Lifting a preorder on the tables\<close>

definition on_tables :: "(db \<Rightarrow> db \<Rightarrow> bool) \<Rightarrow> dbst \<Rightarrow> dbst \<Rightarrow> bool" where
  "on_tables Q s t \<longleftrightarrow> Q (tables s) (tables t)"

locale table_order =
  fixes Q :: "db \<Rightarrow> db \<Rightarrow> bool"
  assumes Q_refl: "Q d d"
    and Q_trans: "Q d e \<Longrightarrow> Q e f \<Longrightarrow> Q d f"
begin

lemma tables_step_order: "step_order (on_tables Q)"
  by unfold_locales (auto simp: on_tables_def intro: Q_refl Q_trans)

lemma moves_query: "moves (on_tables Q) (sql_query msg q)"
  by (simp add: moves_def on_tables_def Q_refl)

lemma moves_rows_affected: "moves (on_tables Q) (rows_affected msg n)"
  by (simp add: rows_affected_def moves_query)

lemma moves_exec:
  assumes "\<And>d. schema_ok (snd (f d)) \<Longrightarrow> Q d (snd (f d))"
  shows "moves (on_tables Q) (sql_exec msg f)"
proof (rule movesI)
  fix s
  obtain r t where m: "sql_exec msg f s = (r, t)" by fastforce
  show "on_tables Q s (snd (sql_exec msg f s))"
  proof (cases r)
    case (Inl e)
    with m have "tables t = tables s" by (auto dest: sql_exec_Inl)
    with m show ?thesis by (simp add: on_tables_def Q_refl)
  next
    case (Inr n)
    with m have "tables t = snd (f (tables s))" and "schema_ok (tables t)"
      by (auto dest: sql_exec_Inr)
    with m show ?thesis by (simp add: on_tables_def assms)
  qed
qed

lemma moves_tx: "moves (on_tables Q) body \<Longrightarrow> moves (on_tables Q) (tx b c body)"
proof (rule movesI)
  fix s
  assume body: "moves (on_tables Q) body"
  obtain r t where m: "tx b c body s = (r, t)" by fastforce
  show "on_tables Q s (snd (tx b c body s))"
  proof (cases r)
    case (Inl e)
    with m have "tables t = tables s" by (auto dest: tx_error_unchanged)
    with m show ?thesis by (simp add: on_tables_def Q_refl)
  next
    case (Inr x)
    with m obtain s' u where "tables s' = tables s" "body s' = (Inr x, u)" "tables t = tables u"
      by (auto dest: tx_success)
    with moves_result [OF body] m show ?thesis by (fastforce simp: on_tables_def)
  qed
qed

lemma moves_requireOneRow: "moves (on_tables Q) (requireOneRow n)"
  unfolding requireOneRow_def
  by (intro step_order.moves_rules [OF tables_step_order] moves_rows_affected)

lemmas moves_sql =
  step_order.moves_rules [OF tables_step_order]
  moves_query moves_rows_affected moves_requireOneRow moves_tx moves_exec

end

subsection \<open>UPDATEs that keep the constraints of the schema\<close>

lemma image_upd_rows: "(\<And>r. k (f r) = k r) \<Longrightarrow> k ` set (upd_rows p f rs) = k ` set rs"
  by (metis list.set_map upd_rows_key)

lemma list_all_upd_rows:
  "list_all P rs \<Longrightarrow> (\<And>r. P r \<Longrightarrow> p r \<Longrightarrow> P (f r)) \<Longrightarrow> list_all P (upd_rows p f rs)"
  by (auto simp: list_all_iff set_upd_rows)

lemma ball_upd_rows:
  "\<forall>r \<in> set rs. P r \<Longrightarrow> (\<And>r. P r \<Longrightarrow> p r \<Longrightarrow> P (f r)) \<Longrightarrow> \<forall>r \<in> set (upd_rows p f rs). P r"
  by (auto simp: set_upd_rows)

lemma schema_upd_sessions:
  assumes "schema_ok d"
    and "\<And>r. as_id (f r) = as_id r" "\<And>r. as_user_id (f r) = as_user_id r"
        "\<And>r. as_device_id (f r) = as_device_id r"
        "\<And>r. as_external_session_id (f r) = as_external_session_id r"
    and "\<And>r. validApprovalMode (as_approval_mode r) \<Longrightarrow> validApprovalMode (as_approval_mode (f r))"
  shows "schema_ok (snd (upd_sessions p f d))"
  using assms
  by (simp add: schema_defs upd_sessions_def upd_rows_key image_upd_rows list_all_upd_rows)

lemma schema_upd_tools:
  assumes "schema_ok d"
    and "\<And>r. tc_id (f r) = tc_id r" "\<And>r. tc_session_id (f r) = tc_session_id r"
    and "\<And>r. pred_option (\<lambda>x. length x \<le> 8192) (tc_output_excerpt r) \<Longrightarrow>
            pred_option (\<lambda>x. length x \<le> 8192) (tc_output_excerpt (f r))"
  shows "schema_ok (snd (upd_tools p f d))"
  using assms
  by (simp add: schema_defs upd_tools_def upd_rows_key image_upd_rows list_all_upd_rows)

lemma schema_upd_codes:
  assumes "schema_ok d"
    and "\<And>r. pc_id (f r) = pc_id r" "\<And>r. pc_device_id (f r) = pc_device_id r"
        "\<And>r. pc_code_digest (f r) = pc_code_digest r"
  shows "schema_ok (snd (upd_codes p f d))"
  using assms by (simp add: schema_defs upd_codes_def upd_rows_key image_upd_rows)

lemma schema_upd_devices:
  assumes "schema_ok d"
    and "\<And>r. d_id (f r) = d_id r" "\<And>r. d_public_key (f r) = d_public_key r"
    and "\<And>r. pred_option (\<lambda>u. u \<in> u_id ` set (users d)) (d_owner_user_id r) \<Longrightarrow>
            pred_option (\<lambda>u. u \<in> u_id ` set (users d)) (d_owner_user_id (f r))"
  shows "schema_ok (snd (upd_devices p f d))"
proof -
  have "\<forall>r \<in> set (upd_rows p f (devices d)).
          pred_option (\<lambda>u. u \<in> u_id ` set (users d)) (d_owner_user_id r)"
    by (rule ball_upd_rows) (use assms(1,4) in \<open>auto simp: schema_ok_def devices_ok_def\<close>)
  with assms(1-3) show ?thesis
    by (simp add: schema_defs upd_devices_def upd_rows_key image_upd_rows)
qed

end
