(* ===== verification/GoText.thy ===== *)
theory GoText
  imports Prelude
begin

text \<open>
  What the program uses of Go's standard library on strings: UTF-8
  (\<^verbatim>\<open>utf8.ValidString\<close>, the conversion to runes), \<^verbatim>\<open>strings.TrimSpace\<close>,
  \<^verbatim>\<open>strings.Fields\<close>, \<^verbatim>\<open>strings.Join\<close>, \<^verbatim>\<open>strings.ReplaceAll\<close> of one
  byte, \<^verbatim>\<open>strings.HasPrefix\<close>/\<^verbatim>\<open>TrimPrefix\<close> and their suffix versions.  A Go string is a byte sequence; a string is cut into
  chunks, one per rune, and a byte that starts no valid encoding is a chunk of its own
  (which Go reads as U+FFFD).
\<close>

subsection \<open>UTF-8\<close>

abbreviation byte :: "char \<Rightarrow> nat" where "byte c \<equiv> of_char c"

definition in_range :: "nat \<Rightarrow> nat \<Rightarrow> nat \<Rightarrow> bool" where
  "in_range lo x hi \<longleftrightarrow> lo \<le> x \<and> x \<le> hi"

definition cont :: "char \<Rightarrow> bool" where
  "cont c \<longleftrightarrow> in_range 128 (byte c) 191"

text \<open>
  The length of the valid encoding at the head of a string, 0 if there is none: the first
  byte gives the length, and after E0, ED, F0 and F4 the second byte has a smaller range.
\<close>

definition utf8_need :: "nat \<Rightarrow> nat" where
  "utf8_need x = (if x < 128 then 1 else if in_range 194 x 223 then 2
     else if in_range 224 x 239 then 3 else if in_range 240 x 244 then 4 else 0)"

definition second_ok :: "nat \<Rightarrow> nat \<Rightarrow> bool" where
  "second_ok x y \<longleftrightarrow> (if x = 224 then in_range 160 y 191 else if x = 237 then in_range 128 y 159
     else if x = 240 then in_range 144 y 191 else if x = 244 then in_range 128 y 143 else True)"

definition tail_ok :: "nat \<Rightarrow> nat \<Rightarrow> string \<Rightarrow> bool" where
  "tail_ok n x ts \<longleftrightarrow> Suc (length ts) = n \<and> list_all cont ts \<and>
     (case ts of [] \<Rightarrow> True | b # _ \<Rightarrow> second_ok x (byte b))"

fun utf8_len :: "string \<Rightarrow> nat" where
  "utf8_len [] = 0"
| "utf8_len (a # cs) = (let n = utf8_need (byte a) in
     if tail_ok n (byte a) (take (n - 1) cs) then n else 0)"

lemma utf8_need_le4: "utf8_need x \<le> 4"
  by (simp add: utf8_need_def)

lemma utf8_len_le: "utf8_len s \<le> length s"
  by (cases s) (auto simp: Let_def tail_ok_def)

lemma utf8_len_le4: "utf8_len s \<le> 4"
  by (cases s) (auto simp: Let_def utf8_need_le4)

function chunks :: "string \<Rightarrow> string list" where
  "chunks [] = []"
| "chunks (c # cs) =
     (let n = max 1 (utf8_len (c # cs)) in take n (c # cs) # chunks (drop n (c # cs)))"
  by pat_completeness auto
termination
  by (relation "measure length") (auto simp: Let_def)

declare chunks.simps [simp del]
lemmas chunks_Nil [simp] = chunks.simps(1)

lemma concat_chunks [simp]: "concat (chunks s) = s"
  by (induction s rule: chunks.induct) (simp_all add: chunks.simps(2) Let_def)

fun valid_chunk :: "string \<Rightarrow> bool" where
  "valid_chunk c \<longleftrightarrow> utf8_len c = length c \<and> c \<noteq> []"

definition ValidString :: "string \<Rightarrow> bool" where
  "ValidString s \<longleftrightarrow> list_all valid_chunk (chunks s)"

lemma ValidString_Nil [simp]: "ValidString []"
  by (simp add: ValidString_def)

lemma utf8_len_take: "utf8_len s = n \<Longrightarrow> n \<noteq> 0 \<Longrightarrow> utf8_len (take n s) = n"
  by (cases s) (auto simp: Let_def take_Cons' split: if_splits)

lemma ValidString_Cons:
  "ValidString (c # cs) \<longleftrightarrow>
     utf8_len (c # cs) \<noteq> 0 \<and> ValidString (drop (utf8_len (c # cs)) (c # cs))"
proof (cases "utf8_len (c # cs) = 0")
  case True
  then have "chunks (c # cs) = [c] # chunks cs" by (simp add: chunks.simps(2) Let_def)
  moreover have "\<not> valid_chunk [c]"
  proof
    assume "valid_chunk [c]"
    then have "utf8_need (byte c) = 1" by (auto simp: Let_def split: if_splits)
    with True show False by (simp add: tail_ok_def)
  qed
  ultimately show ?thesis using True by (simp add: ValidString_def)
next
  case False
  let ?n = "utf8_len (c # cs)"
  have n: "max 1 ?n = ?n" using False by simp
  have "valid_chunk (take ?n (c # cs))"
    using False utf8_len_take [of "c # cs" ?n] utf8_len_le [of "c # cs"] by simp
  then show ?thesis
    using False by (simp add: ValidString_def chunks.simps(2) [of c cs] n Let_def del: utf8_len.simps)
qed

text \<open>The rune a chunk stands for; an invalid byte is U+FFFD, as in \<^verbatim>\<open>[]rune(s)\<close>.\<close>

definition rune_of :: "string \<Rightarrow> nat" where
  "rune_of c = (if valid_chunk c then
     (case map byte c of
        [a] \<Rightarrow> a
      | [a, b] \<Rightarrow> (a - 192) * 64 + (b - 128)
      | [a, b, d] \<Rightarrow> (a - 224) * 4096 + (b - 128) * 64 + (d - 128)
      | [a, b, d, e] \<Rightarrow> (a - 240) * 262144 + (b - 128) * 4096 + (d - 128) * 64 + (e - 128)
      | _ \<Rightarrow> 65533)
     else 65533)"

text \<open>A rune written back as bytes: the chunk itself, or the encoding of U+FFFD.\<close>

definition rune_bytes :: "string \<Rightarrow> string" where
  "rune_bytes c = (if valid_chunk c then c else [char_of (239::nat), char_of (191::nat), char_of (189::nat)])"

definition isSpaceRune :: "nat \<Rightarrow> bool" where
  "isSpaceRune r \<longleftrightarrow> r \<in> set [9, 10, 11, 12, 13, 32, 133, 160, 5760, 8232, 8233, 8239, 8287, 12288] \<or>
     in_range 8192 r 8202"

definition space_chunk :: "string \<Rightarrow> bool" where
  "space_chunk c \<longleftrightarrow> isSpaceRune (rune_of c)"

subsection \<open>Package strings\<close>

definition trim_chunks :: "string list \<Rightarrow> string list" where
  "trim_chunks cs = rev (dropWhile space_chunk (rev (dropWhile space_chunk cs)))"

definition TrimSpace :: "string \<Rightarrow> string" where
  "TrimSpace s = concat (trim_chunks (chunks s))"

text \<open>\<^verbatim>\<open>strings.Fields\<close>: the maximal runs of non-space runes.\<close>

function fields_chunks :: "string list \<Rightarrow> string list list" where
  "fields_chunks cs = (case dropWhile space_chunk cs of
      [] \<Rightarrow> []
    | d # ds \<Rightarrow> (d # takeWhile (Not \<circ> space_chunk) ds) #
                fields_chunks (dropWhile (Not \<circ> space_chunk) ds))"
  by pat_completeness auto
termination
proof (relation "measure length", simp)
  fix cs d ds
  assume "dropWhile space_chunk cs = d # ds"
  then have "length (d # ds) \<le> length cs" by (metis length_dropWhile_le)
  moreover have "length (dropWhile (Not \<circ> space_chunk) ds) \<le> length ds"
    by (rule length_dropWhile_le)
  ultimately show "(dropWhile (Not \<circ> space_chunk) ds, cs) \<in> measure length" by simp
qed

declare fields_chunks.simps [simp del]

definition Fields :: "string \<Rightarrow> string list" where
  "Fields s = map concat (fields_chunks (chunks s))"

fun Join :: "string list \<Rightarrow> string \<Rightarrow> string" where
  "Join [] sep = []"
| "Join [x] sep = x"
| "Join (x # y # ys) sep = x @ sep @ Join (y # ys) sep"

definition HasPrefix :: "string \<Rightarrow> string \<Rightarrow> bool" where
  "HasPrefix s p \<longleftrightarrow> take (length p) s = p"

definition HasSuffix :: "string \<Rightarrow> string \<Rightarrow> bool" where
  "HasSuffix s p \<longleftrightarrow> HasPrefix (rev s) (rev p)"

definition TrimPrefix :: "string \<Rightarrow> string \<Rightarrow> string" where
  "TrimPrefix s p = (if HasPrefix s p then drop (length p) s else s)"

definition TrimSuffix :: "string \<Rightarrow> string \<Rightarrow> string" where
  "TrimSuffix s p = (if HasSuffix s p then take (length s - length p) s else s)"

lemma HasPrefix_append [simp]: "HasPrefix (p @ s) p"
  by (simp add: HasPrefix_def)

lemma HasPrefix_iff: "HasPrefix s p \<longleftrightarrow> (\<exists>t. s = p @ t)"
  unfolding HasPrefix_def by (metis append_eq_conv_conj append_take_drop_id)

lemma HasSuffix_iff: "HasSuffix s p \<longleftrightarrow> (\<exists>t. s = t @ p)"
proof -
  have "HasSuffix s p \<longleftrightarrow> (\<exists>t. rev s = rev p @ t)" by (simp add: HasSuffix_def HasPrefix_iff)
  also have "\<dots> \<longleftrightarrow> (\<exists>t. s = t @ p)" by (metis rev_append rev_rev_ident)
  finally show ?thesis .
qed

subsection \<open>Trimming keeps only whole runes\<close>

lemma chunks_nonempty: "c \<in> set (chunks s) \<Longrightarrow> c \<noteq> []"
  by (induction s rule: chunks.induct) (auto simp: chunks.simps(2) Let_def)

lemma concat_eq_Nil_chunks: "\<forall>c \<in> set cs. c \<noteq> [] \<Longrightarrow> concat cs = [] \<longleftrightarrow> cs = []"
  by (cases cs) auto

lemma trim_chunks_Nil: "trim_chunks cs = [] \<longleftrightarrow> list_all space_chunk cs"
proof
  assume "trim_chunks cs = []"
  then have all: "\<forall>c \<in> set (dropWhile space_chunk cs). space_chunk c"
    by (simp add: trim_chunks_def dropWhile_eq_Nil_conv)
  have "dropWhile space_chunk cs = []"
  proof (rule ccontr)
    assume ne: "dropWhile space_chunk cs \<noteq> []"
    then have "\<not> space_chunk (hd (dropWhile space_chunk cs))" by (rule hd_dropWhile)
    with all ne show False by (meson hd_in_set)
  qed
  then show "list_all space_chunk cs" by (simp add: dropWhile_eq_Nil_conv list_all_iff)
next
  assume "list_all space_chunk cs"
  then have "dropWhile space_chunk cs = []"
    by (simp only: dropWhile_eq_Nil_conv list_all_iff)
  then show "trim_chunks cs = []" by (simp only: trim_chunks_def rev.simps dropWhile.simps)
qed

lemma set_trim_chunks: "set (trim_chunks cs) \<subseteq> set cs"
  unfolding trim_chunks_def by (auto dest!: set_dropWhileD)

text \<open>\<^verbatim>\<open>strings.TrimSpace(s) == ""\<close> holds exactly when every rune is white space.\<close>

lemma TrimSpace_empty: "TrimSpace s = [] \<longleftrightarrow> list_all space_chunk (chunks s)"
proof -
  have "\<forall>c \<in> set (trim_chunks (chunks s)). c \<noteq> []"
    using set_trim_chunks [of "chunks s"] chunks_nonempty [of _ s] by blast
  then have "concat (trim_chunks (chunks s)) = [] \<longleftrightarrow> trim_chunks (chunks s) = []"
    by (rule concat_eq_Nil_chunks)
  then show ?thesis by (simp only: TrimSpace_def trim_chunks_Nil)
qed


subsection \<open>ASCII strings\<close>

definition ascii :: "string \<Rightarrow> bool" where
  "ascii s \<longleftrightarrow> list_all (\<lambda>c. byte c < 128) s"

lemma utf8_len_ascii: "byte c < 128 \<Longrightarrow> utf8_len (c # cs) = 1"
  by (simp add: utf8_need_def tail_ok_def)

lemma chunks_ascii: "ascii s \<Longrightarrow> chunks s = map (\<lambda>c. [c]) s"
proof (induction s)
  case (Cons c cs)
  then have "utf8_len (c # cs) = 1" by (intro utf8_len_ascii) (simp add: ascii_def)
  with Cons show ?case by (simp add: chunks.simps(2) Let_def ascii_def del: utf8_len.simps)
qed simp

lemma rune_of_ascii: "byte c < 128 \<Longrightarrow> rune_of [c] = byte c"
  using utf8_len_ascii [of c "[]"] by (simp add: rune_of_def del: utf8_len.simps)

lemma dropWhile_none: "list_all (\<lambda>c. \<not> P c) cs \<Longrightarrow> dropWhile P cs = cs"
  by (cases cs) simp_all

lemma trim_none: "list_all (\<lambda>c. \<not> space_chunk c) cs \<Longrightarrow> trim_chunks cs = cs"
  by (simp only: trim_chunks_def dropWhile_none list_all_rev rev_rev_ident)

lemma TrimSpace_ascii:
  assumes "ascii s" "list_all (\<lambda>c. \<not> isSpaceRune (byte c)) s"
  shows "TrimSpace s = s"
proof -
  have "list_all (\<lambda>c. \<not> space_chunk c) (chunks s)"
    using assms by (auto simp: chunks_ascii list_all_iff ascii_def space_chunk_def rune_of_ascii)
  then show ?thesis by (simp only: TrimSpace_def trim_none concat_chunks)
qed

end
