(* ===== verification/GoJson.thy ===== *)
theory GoJson
  imports GoText
begin

text \<open>
  \<^verbatim>\<open>json.Valid\<close> of Go's \<^verbatim>\<open>encoding/json\<close>, which the store and the event hub use
  to check audit metadata and event payloads.  It runs the package's scanner, an
  automaton that reads one byte at a time and keeps a stack of the open objects and
  arrays (at most 10000 of them); \<open>None\<close> is a syntax error.
\<close>

datatype json_ctx = ObjectKey | ObjectValue | ArrayValue

datatype json_state =
    BeginValue | BeginValueOrEmpty | BeginString | BeginStringOrEmpty | EndValue | EndTop
  | InString | InStringEsc | InStringEscU nat
  | Neg | Digits1 | Zero | Dot | Dot0 | Exp | ExpSign | Exp0
  | Literal string

definition json_space :: "char \<Rightarrow> bool" where
  "json_space c \<longleftrightarrow> byte c \<in> set [32, 9, 13, 10]"

definition digit :: "char \<Rightarrow> bool" where
  "digit c \<longleftrightarrow> in_range 48 (byte c) 57"

definition hex_digit :: "char \<Rightarrow> bool" where
  "hex_digit c \<longleftrightarrow> digit c \<or> in_range 97 (byte c) 102 \<or> in_range 65 (byte c) 70"

definition json_push :: "json_ctx \<Rightarrow> json_state \<Rightarrow> json_ctx list \<Rightarrow> (json_state \<times> json_ctx list) option" where
  "json_push k st stack = (if Suc (length stack) \<le> 10000 then Some (st, k # stack) else None)"

definition json_pop :: "json_ctx list \<Rightarrow> (json_state \<times> json_ctx list) option" where
  "json_pop stack = Some (if tl stack = [] then EndTop else EndValue, tl stack)"

definition json_end_top :: "json_ctx list \<Rightarrow> char \<Rightarrow> (json_state \<times> json_ctx list) option" where
  "json_end_top stack c = (if json_space c then Some (EndTop, stack) else None)"

definition json_end_value :: "json_ctx list \<Rightarrow> char \<Rightarrow> (json_state \<times> json_ctx list) option" where
  "json_end_value stack c = (case stack of
     [] \<Rightarrow> json_end_top stack c
   | k # ks \<Rightarrow>
       if json_space c then Some (EndValue, stack)
       else (case k of
           ObjectKey \<Rightarrow> if c = CHR '':'' then Some (BeginValue, ObjectValue # ks) else None
         | ObjectValue \<Rightarrow> if c = CHR '','' then Some (BeginString, ObjectKey # ks)
             else if c = CHR ''}'' then json_pop stack else None
         | ArrayValue \<Rightarrow> if c = CHR '','' then Some (BeginValue, stack)
             else if c = CHR '']'' then json_pop stack else None))"

definition json_begin_value :: "json_ctx list \<Rightarrow> char \<Rightarrow> (json_state \<times> json_ctx list) option" where
  "json_begin_value stack c =
     (if json_space c then Some (BeginValue, stack)
      else if c = CHR ''{'' then json_push ObjectKey BeginStringOrEmpty stack
      else if c = CHR ''['' then json_push ArrayValue BeginValueOrEmpty stack
      else if byte c = 34 then Some (InString, stack)
      else if c = CHR ''-'' then Some (Neg, stack)
      else if c = CHR ''0'' then Some (Zero, stack)
      else if c = CHR ''t'' then Some (Literal ''rue'', stack)
      else if c = CHR ''f'' then Some (Literal ''alse'', stack)
      else if c = CHR ''n'' then Some (Literal ''ull'', stack)
      else if digit c then Some (Digits1, stack)
      else None)"

definition json_begin_string :: "json_ctx list \<Rightarrow> char \<Rightarrow> (json_state \<times> json_ctx list) option" where
  "json_begin_string stack c =
     (if json_space c then Some (BeginString, stack)
      else if byte c = 34 then Some (InString, stack) else None)"

definition json_exp_start :: "json_ctx list \<Rightarrow> char \<Rightarrow> (json_state \<times> json_ctx list) option" where
  "json_exp_start stack c =
     (if c = CHR ''e'' \<or> c = CHR ''E'' then Some (Exp, stack) else json_end_value stack c)"

definition json_zero :: "json_ctx list \<Rightarrow> char \<Rightarrow> (json_state \<times> json_ctx list) option" where
  "json_zero stack c = (if c = CHR ''.'' then Some (Dot, stack) else json_exp_start stack c)"

fun json_step :: "json_state \<Rightarrow> json_ctx list \<Rightarrow> char \<Rightarrow> (json_state \<times> json_ctx list) option" where
  "json_step BeginValueOrEmpty stack c =
     (if json_space c then Some (BeginValueOrEmpty, stack)
      else if c = CHR '']'' then json_end_value stack c else json_begin_value stack c)"
| "json_step BeginValue stack c = json_begin_value stack c"
| "json_step BeginStringOrEmpty stack c =
     (if json_space c then Some (BeginStringOrEmpty, stack)
      else if c = CHR ''}'' then json_end_value (ObjectValue # tl stack) c
      else json_begin_string stack c)"
| "json_step BeginString stack c = json_begin_string stack c"
| "json_step EndValue stack c = json_end_value stack c"
| "json_step EndTop stack c = json_end_top stack c"
| "json_step InString stack c =
     (if byte c = 34 then Some (EndValue, stack)
      else if byte c = 92 then Some (InStringEsc, stack)
      else if byte c < 32 then None else Some (InString, stack))"
| "json_step InStringEsc stack c =
     (if c \<in> set ''bfnrt/'' \<or> byte c = 92 \<or> byte c = 34 then Some (InString, stack)
      else if c = CHR ''u'' then Some (InStringEscU 3, stack) else None)"
| "json_step (InStringEscU n) stack c =
     (if hex_digit c then Some (if n = 0 then InString else InStringEscU (n - 1), stack) else None)"
| "json_step Neg stack c =
     (if c = CHR ''0'' then Some (Zero, stack) else if digit c then Some (Digits1, stack) else None)"
| "json_step Digits1 stack c = (if digit c then Some (Digits1, stack) else json_zero stack c)"
| "json_step Zero stack c = json_zero stack c"
| "json_step Dot stack c = (if digit c then Some (Dot0, stack) else None)"
| "json_step Dot0 stack c = (if digit c then Some (Dot0, stack) else json_exp_start stack c)"
| "json_step Exp stack c =
     (if c = CHR ''+'' \<or> c = CHR ''-'' then Some (ExpSign, stack)
      else if digit c then Some (Exp0, stack) else None)"
| "json_step ExpSign stack c = (if digit c then Some (Exp0, stack) else None)"
| "json_step Exp0 stack c = (if digit c then Some (Exp0, stack) else json_end_value stack c)"
| "json_step (Literal rest) stack c = (case rest of
     [] \<Rightarrow> json_end_value stack c
   | x # xs \<Rightarrow> if c = x then Some (if xs = [] then EndValue else Literal xs, stack) else None)"

fun json_scan :: "json_state \<Rightarrow> json_ctx list \<Rightarrow> string \<Rightarrow> (json_state \<times> json_ctx list) option" where
  "json_scan st stack [] = Some (st, stack)"
| "json_scan st stack (c # cs) = (case json_step st stack c of
     None \<Rightarrow> None | Some (st', stack') \<Rightarrow> json_scan st' stack' cs)"

text \<open>At the end of the input the scanner is stepped once more with a space.\<close>

definition json_Valid :: "string \<Rightarrow> bool" where
  "json_Valid s = (case json_scan BeginValue [] (s @ '' '') of
     Some (st, stack) \<Rightarrow> st = EndTop | None \<Rightarrow> False)"

end
