(* ===== verification/Store_Users.thy ===== *)
theory Store_Users
  imports Store_Sql GoJson
begin

text \<open>
  \<^verbatim>\<open>internal/store/users.go\<close> and \<^verbatim>\<open>audit.go\<close>: the administrator account, the web
  sessions and the audit log.  The lemmas give the behaviour of each method on every
  branch when no statement fails.
\<close>

definition HasUsers :: "bool dbm" where
  "HasUsers = sql_query ''check users'' (\<lambda>d. users d \<noteq> [])"

definition findFirstUser :: "User dbm" where
  "findFirstUser = ebind (sql_query ''find first user'' (\<lambda>d. sort_key u_created_at (users d)))
     (\<lambda>rows. case rows of [] \<Rightarrow> ethrow ErrNotFound | u # _ \<Rightarrow> ereturn u)"

definition insert_user :: "User \<Rightarrow> db \<Rightarrow> nat \<times> db" where
  "insert_user u d = (1, d\<lparr>users := users d @ [u]\<rparr>)"

definition BootstrapAdmin :: "ident \<Rightarrow> string \<Rightarrow> string \<Rightarrow> time \<Rightarrow> (User \<times> bool) dbm" where
  "BootstrapAdmin id' username passwordHash now =
     tx ''begin admin bootstrap'' ''commit admin bootstrap''
       (ebind (etry findFirstUser) (\<lambda>found. case found of
          Inr user \<Rightarrow> ereturn (user, False)
        | Inl err \<Rightarrow>
            if err \<noteq> ErrNotFound then ethrow err
            else if id' = [] \<or> username = [] \<or> passwordHash = []
            then ethrow (ErrInvalidArg ''admin bootstrap fields are required'')
            else (let user = \<lparr>u_id = id', u_username = username,
                              u_password_hash = passwordHash, u_created_at = now\<rparr>
              in ethen (sql_exec ''insert bootstrap admin'' (insert_user user))
                   (ereturn (user, True)))))"

definition UserByUsername :: "string \<Rightarrow> User dbm" where
  "UserByUsername username =
     ebind (sql_query ''find user'' (\<lambda>d. find (\<lambda>u. u_username u = username) (users d)))
       (\<lambda>row. case row of None \<Rightarrow> ethrow ErrNotFound | Some u \<Rightarrow> ereturn u)"

definition insert_web_session :: "WebSession \<Rightarrow> db \<Rightarrow> nat \<times> db" where
  "insert_web_session w d = (1, d\<lparr>web_sessions := web_sessions d @ [w]\<rparr>)"

definition CreateWebSession :: "WebSession \<Rightarrow> unit dbm" where
  "CreateWebSession session =
     ethen (sql_exec ''create web session'' (insert_web_session session)) (ereturn ())"

text \<open>The join of \<^verbatim>\<open>web_sessions\<close> with \<^verbatim>\<open>users\<close>, in the order of the sessions.\<close>

definition session_user :: "string \<Rightarrow> time \<Rightarrow> db \<Rightarrow> User option" where
  "session_user digest now d =
     (case find (\<lambda>w. ws_token_digest w = digest \<and> ws_expires_at w > now \<and>
                     (\<exists>u \<in> set (users d). u_id u = ws_user_id w)) (web_sessions d) of
        None \<Rightarrow> None
      | Some w \<Rightarrow> find (\<lambda>u. u_id u = ws_user_id w) (users d))"

definition UserBySessionDigest :: "string \<Rightarrow> time \<Rightarrow> User dbm" where
  "UserBySessionDigest digest now =
     ebind (sql_query ''authenticate web session'' (session_user digest now))
       (\<lambda>row. case row of None \<Rightarrow> ethrow ErrNotFound | Some u \<Rightarrow> ereturn u)"

definition delete_web_sessions :: "(WebSession \<Rightarrow> bool) \<Rightarrow> db \<Rightarrow> nat \<times> db" where
  "delete_web_sessions p d =
     (count_rows p (web_sessions d), d\<lparr>web_sessions := del_rows p (web_sessions d)\<rparr>)"

definition DeleteWebSession :: "string \<Rightarrow> unit dbm" where
  "DeleteWebSession digest =
     ethen (sql_exec ''delete web session'' (delete_web_sessions (\<lambda>w. ws_token_digest w = digest)))
       (ereturn ())"

definition insert_audit_event :: "AuditEvent \<Rightarrow> db \<Rightarrow> nat \<times> db" where
  "insert_audit_event e d = (1, d\<lparr>audit_events := audit_events d @ [e]\<rparr>)"

definition CreateAuditEvent :: "AuditEvent \<Rightarrow> unit dbm" where
  "CreateAuditEvent event =
     (if ae_id event = [] \<or> ae_event_type event = [] \<or> \<not> json_Valid (ae_metadata_json event)
      then ethrow (ErrInvalidArg ''invalid audit event'')
      else if length (ae_metadata_json event) > 8192
      then ethrow (ErrInvalidArg ''audit event metadata is too large'')
      else ethen (sql_exec ''create audit event'' (insert_audit_event event)) (ereturn ()))"

subsection \<open>Behaviour\<close>

lemma UserByUsername_ok [em_simps]:
  "faults s = [] \<Longrightarrow> UserByUsername name s =
     (case find (\<lambda>u. u_username u = name) (users (tables s)) of
        None \<Rightarrow> Inl ErrNotFound | Some u \<Rightarrow> Inr u, s)"
  by (simp add: UserByUsername_def em_simps split: option.split)

lemma UserBySessionDigest_ok [em_simps]:
  "faults s = [] \<Longrightarrow> UserBySessionDigest digest now s =
     (case session_user digest now (tables s) of None \<Rightarrow> Inl ErrNotFound | Some u \<Rightarrow> Inr u, s)"
  by (simp add: UserBySessionDigest_def em_simps split: option.split)

lemma HasUsers_ok [em_simps]: "faults s = [] \<Longrightarrow> HasUsers s = (Inr (users (tables s) \<noteq> []), s)"
  by (simp add: HasUsers_def em_simps)

lemma schema_insert_user:
  assumes "schema_ok d" "u_id u \<notin> u_id ` set (users d)" "u_username u \<notin> u_username ` set (users d)"
  shows "schema_ok (snd (insert_user u d))"
proof -
  have "pred_option (\<lambda>u. u \<in> u_id ` set (users d)) x \<Longrightarrow>
        pred_option (\<lambda>v. v = u_id u \<or> v \<in> u_id ` set (users d)) x" for x
    by (cases x) auto
  then show ?thesis
    using assms by (auto simp: schema_defs insert_user_def)
qed

lemma schema_insert_web_session:
  assumes "schema_ok d" "ws_id w \<notin> ws_id ` set (web_sessions d)"
    "ws_token_digest w \<notin> ws_token_digest ` set (web_sessions d)"
    "ws_user_id w \<in> u_id ` set (users d)"
  shows "schema_ok (snd (insert_web_session w d))"
  using assms by (auto simp: schema_defs insert_web_session_def)

lemma schema_delete_web_sessions:
  "schema_ok d \<Longrightarrow> schema_ok (snd (delete_web_sessions p d))"
  by (auto simp: schema_defs delete_web_sessions_def del_rows_def distinct_map_filter_key)

text \<open>The first start creates the administrator; every later one returns it unchanged.\<close>

lemma BootstrapAdmin_first:
  assumes "faults s = []" "schema_ok (tables s)" "users (tables s) = []"
    "id' \<noteq> []" "username \<noteq> []" "hash \<noteq> []"
  shows "BootstrapAdmin id' username hash now s =
    (let u = \<lparr>u_id = id', u_username = username, u_password_hash = hash, u_created_at = now\<rparr>
     in (Inr (u, True), s\<lparr>tables := (tables s)\<lparr>users := [u]\<rparr>\<rparr>))"
  using assms schema_insert_user [OF assms(2)]
  by (simp add: BootstrapAdmin_def findFirstUser_def em_simps Let_def insert_user_def)

lemma BootstrapAdmin_again:
  assumes "faults s = []" "users (tables s) = [u]"
  shows "BootstrapAdmin id' username hash now s = (Inr (u, False), s)"
  using assms by (simp add: BootstrapAdmin_def findFirstUser_def em_simps)

lemma CreateWebSession_ok:
  assumes "faults s = []" "schema_ok (tables s)"
    "ws_id w \<notin> ws_id ` set (web_sessions (tables s))"
    "ws_token_digest w \<notin> ws_token_digest ` set (web_sessions (tables s))"
    "ws_user_id w \<in> u_id ` set (users (tables s))"
  shows "CreateWebSession w s =
    (Inr (), s\<lparr>tables := (tables s)\<lparr>web_sessions := web_sessions (tables s) @ [w]\<rparr>\<rparr>)"
  using assms(1) schema_insert_web_session [OF assms(2-)]
  by (simp add: CreateWebSession_def em_simps insert_web_session_def)

lemma DeleteWebSession_ok:
  assumes "faults s = []" "schema_ok (tables s)"
  shows "DeleteWebSession digest s = (Inr (), s\<lparr>tables := (tables s)\<lparr>web_sessions :=
    filter (\<lambda>w. ws_token_digest w \<noteq> digest) (web_sessions (tables s))\<rparr>\<rparr>)"
  using assms(1) schema_delete_web_sessions [OF assms(2)]
  by (simp add: DeleteWebSession_def em_simps delete_web_sessions_def del_rows_def)

text \<open>With unique digests and ids, the join finds the one session and its one user.\<close>

lemma session_user_Some:
  assumes "schema_ok d" "w \<in> set (web_sessions d)" "u \<in> set (users d)" "ws_user_id w = u_id u"
  shows "session_user (ws_token_digest w) now d = (if ws_expires_at w > now then Some u else None)"
proof -
  let ?p = "\<lambda>v. ws_token_digest v = ws_token_digest w \<and> ws_expires_at v > now \<and>
     (\<exists>u \<in> set (users d). u_id u = ws_user_id v)"
  have k: "distinct (map ws_token_digest (web_sessions d))" "distinct (map u_id (users d))"
    using assms(1) by (auto simp: schema_defs)
  have "find ?p (web_sessions d) = (if ws_expires_at w > now then Some w else None)"
  proof (cases "ws_expires_at w > now")
    case True
    then show ?thesis
      using find_Some_iff [OF k(1), of ?p "ws_token_digest w" w] assms(2-4) by auto
  next
    case False
    then show ?thesis
      using key_inj [OF k(1) assms(2)] by (fastforce simp: find_None_ball)
  qed
  moreover have "find (\<lambda>v. u_id v = ws_user_id w) (users d) = Some u"
    using find_Some_iff [OF k(2), of "\<lambda>v. u_id v = ws_user_id w" "ws_user_id w" u] assms(3,4) by auto
  ultimately show ?thesis by (simp add: session_user_def)
qed

end
