(* ===== verification/Store_Devices.thy ===== *)
theory Store_Devices
  imports Store_Sql
begin

text \<open>
  \<^verbatim>\<open>internal/store/devices.go\<close> and \<^verbatim>\<open>pairing.go\<close>: device registration and
  ownership, one-time pairing codes, and the unpair transaction that revokes the agent
  sessions of the device.
\<close>

definition deviceUnpairedToolExcerpt :: string where
  "deviceUnpairedToolExcerpt = ''device unpaired''"

definition scanDevice :: "Device option \<Rightarrow> Device dbm" where
  "scanDevice row = (case row of None \<Rightarrow> ethrow ErrNotFound | Some r \<Rightarrow> ereturn r)"

definition DeviceByID :: "ident \<Rightarrow> Device dbm" where
  "DeviceByID deviceID =
     ebind (sql_query ''scan device'' (\<lambda>d. find (\<lambda>r. d_id r = deviceID) (devices d))) scanDevice"

definition DeviceByOwner :: "ident \<Rightarrow> ident \<Rightarrow> Device dbm" where
  "DeviceByOwner ownerUserID deviceID =
     ebind (sql_query ''scan device''
       (\<lambda>d. find (\<lambda>r. d_id r = deviceID \<and> d_owner_user_id r = Some ownerUserID) (devices d))) scanDevice"

definition DevicesByOwner :: "ident \<Rightarrow> Device list dbm" where
  "DevicesByOwner ownerUserID = sql_query ''list devices''
     (\<lambda>d. sort_key d_created_at (filter (\<lambda>r. d_owner_user_id r = Some ownerUserID) (devices d)))"

text \<open>
  \<^verbatim>\<open>INSERT ... ON CONFLICT(id) DO UPDATE ... WHERE public_key = excluded.public_key\<close>.
  A key that another device holds violates its UNIQUE constraint, which the conflict
  target does not cover.
\<close>

definition upsert_device :: "Device \<Rightarrow> db \<Rightarrow> nat \<times> db" where
  "upsert_device v d =
     (if d_id v \<notin> d_id ` set (devices d) \<or>
         (\<exists>r \<in> set (devices d). d_public_key r = d_public_key v \<and> d_id r \<noteq> d_id v)
      then (1, d\<lparr>devices := devices d @ [v]\<rparr>)
      else upd_devices (\<lambda>r. d_id r = d_id v \<and> d_public_key r = d_public_key v)
             (\<lambda>r. r\<lparr>d_name := d_name v, d_platform := d_platform v, d_arch := d_arch v,
                    d_client_version := d_client_version v\<rparr>) d)"

definition RegisterDevice :: "Device \<Rightarrow> Device dbm" where
  "RegisterDevice device =
     (if d_id device = [] \<or> d_public_key device = [] \<or> d_name device = [] \<or>
         d_platform device = [] \<or> d_arch device = [] \<or> d_client_version device = []
      then ethrow (ErrInvalidArg ''device registration fields are required'')
      else ebind (sql_exec ''register device'' (upsert_device device)) (\<lambda>result.
           ebind (rows_affected ''inspect device registration'' result) (\<lambda>affected.
           if affected \<noteq> 1 then ethrow ErrConflict else DeviceByID (d_id device))))"

definition touch_device :: "ident \<Rightarrow> time \<Rightarrow> db \<Rightarrow> nat \<times> db" where
  "touch_device deviceID at = upd_devices (\<lambda>r. d_id r = deviceID) (\<lambda>r. r\<lparr>d_last_seen_at := Some at\<rparr>)"

definition UpdateDeviceLastSeen :: "ident \<Rightarrow> time \<Rightarrow> unit dbm" where
  "UpdateDeviceLastSeen deviceID at =
     ebind (sql_exec ''update device last seen'' (touch_device deviceID at)) (\<lambda>result.
     ebind (rows_affected ''inspect device last seen update'' result) (\<lambda>affected.
     if affected \<noteq> 1 then ethrow ErrNotFound else ereturn ()))"

definition consume_codes :: "ident \<Rightarrow> time \<Rightarrow> db \<Rightarrow> nat \<times> db" where
  "consume_codes deviceID now = upd_codes
     (\<lambda>c. pc_device_id c = deviceID \<and> pc_consumed_at c = None) (\<lambda>c. c\<lparr>pc_consumed_at := Some now\<rparr>)"

definition owned_by :: "ident \<Rightarrow> ident \<Rightarrow> Device \<Rightarrow> bool" where
  "owned_by ownerUserID deviceID r \<longleftrightarrow> d_id r = deviceID \<and> d_owner_user_id r = Some ownerUserID"

definition session_of :: "ident \<Rightarrow> ident \<Rightarrow> AgentSession \<Rightarrow> bool" where
  "session_of ownerUserID deviceID s \<longleftrightarrow> as_user_id s = ownerUserID \<and> as_device_id s = deviceID"

definition revoke_sessions :: "ident \<Rightarrow> ident \<Rightarrow> time \<Rightarrow> db \<Rightarrow> nat \<times> db" where
  "revoke_sessions ownerUserID deviceID now = upd_sessions (session_of ownerUserID deviceID)
     (\<lambda>s. s\<lparr>as_state := AgentSessionRevoked, as_updated_at := now\<rparr>)"

definition terminalize_tools :: "ident \<Rightarrow> ident \<Rightarrow> time \<Rightarrow> db \<Rightarrow> nat \<times> db" where
  "terminalize_tools ownerUserID deviceID now d = upd_tools
     (\<lambda>t. (tc_status t = ToolCallPending \<or> tc_status t = ToolCallStarted) \<and> tc_completed_at t = None \<and>
          (\<exists>s \<in> set (agent_sessions d). as_id s = tc_session_id t \<and> session_of ownerUserID deviceID s))
     (\<lambda>t. t\<lparr>tc_status := ToolCallFailed, tc_exit_code := None,
            tc_output_excerpt := Some deviceUnpairedToolExcerpt, tc_completed_at := Some now\<rparr>) d"

definition release_device :: "ident \<Rightarrow> ident \<Rightarrow> db \<Rightarrow> nat \<times> db" where
  "release_device ownerUserID deviceID = upd_devices (owned_by ownerUserID deviceID)
     (\<lambda>r. r\<lparr>d_owner_user_id := None, d_paired_at := None\<rparr>)"

definition UnpairDevice :: "ident \<Rightarrow> ident \<Rightarrow> time \<Rightarrow> ident list dbm" where
  "UnpairDevice ownerUserID deviceID now =
     tx ''begin device unpair'' ''commit device unpair''
       (ebind (sql_query ''authorize device unpair''
          (\<lambda>d. list_ex (owned_by ownerUserID deviceID) (devices d))) (\<lambda>exists.
        if \<not> exists then ethrow ErrNotFound
        else ebind (sql_query ''select revoked agent sessions''
          (\<lambda>d. sort (map as_id (filter (session_of ownerUserID deviceID) (agent_sessions d))))) (\<lambda>sessionIDs.
        ethen (sql_exec ''consume device pairing codes'' (consume_codes deviceID now))
        (ethen (sql_exec ''revoke device agent sessions'' (revoke_sessions ownerUserID deviceID now))
        (ethen (sql_exec ''terminalize device agent tools'' (terminalize_tools ownerUserID deviceID now))
        (ebind (sql_exec ''unpair device'' (release_device ownerUserID deviceID)) (\<lambda>result.
        ebind (rows_affected ''inspect device unpair'' result) (\<lambda>affected.
        if affected \<noteq> 1 then ethrow ErrNotFound else ereturn sessionIDs))))))))"

definition insert_code :: "PairingCode \<Rightarrow> db \<Rightarrow> nat \<times> db" where
  "insert_code c d = (1, d\<lparr>pairing_codes := pairing_codes d @ [c\<lparr>pc_consumed_at := None\<rparr>]\<rparr>)"

definition CreatePairingCode :: "PairingCode \<Rightarrow> time \<Rightarrow> unit dbm" where
  "CreatePairingCode pairing now =
     tx ''begin pairing code creation'' ''commit pairing code creation''
       (ebind (sql_query ''find pairing device''
          (\<lambda>d. find (\<lambda>r. d_id r = pc_device_id pairing) (devices d))) (\<lambda>row.
        case row of
          None \<Rightarrow> ethrow ErrNotFound
        | Some r \<Rightarrow>
            if d_owner_user_id r \<noteq> None then ethrow ErrConflict
            else ethen (sql_exec ''replace active pairing code'' (consume_codes (pc_device_id pairing) now))
                 (ethen (sql_exec ''create pairing code'' (insert_code pairing)) (ereturn ()))))"

definition bind_device :: "ident \<Rightarrow> ident \<Rightarrow> time \<Rightarrow> db \<Rightarrow> nat \<times> db" where
  "bind_device deviceID userID now = upd_devices
     (\<lambda>r. d_id r = deviceID \<and> d_owner_user_id r = None)
     (\<lambda>r. r\<lparr>d_owner_user_id := Some userID, d_paired_at := Some now\<rparr>)"

definition consume_code :: "ident \<Rightarrow> time \<Rightarrow> db \<Rightarrow> nat \<times> db" where
  "consume_code codeID now = upd_codes
     (\<lambda>x. pc_id x = codeID \<and> pc_consumed_at x = None) (\<lambda>x. x\<lparr>pc_consumed_at := Some now\<rparr>)"

definition ClaimPairing :: "ident \<Rightarrow> string \<Rightarrow> time \<Rightarrow> Device dbm" where
  "ClaimPairing userID digest now =
     tx ''begin pairing claim'' ''commit pairing claim''
       (ebind (sql_query ''find pairing code''
          (\<lambda>d. find (\<lambda>c. pc_code_digest c = digest) (pairing_codes d))) (\<lambda>row.
        case row of
          None \<Rightarrow> ethrow ErrPairingInvalid
        | Some c \<Rightarrow>
            if pc_consumed_at c \<noteq> None then ethrow ErrPairingInvalid
            else if \<not> now < pc_expires_at c then ethrow ErrPairingExpired
            else ebind (sql_exec ''bind pairing device'' (bind_device (pc_device_id c) userID now)) (\<lambda>result.
                 ebind (rows_affected ''inspect pairing device binding'' result) (\<lambda>affected.
                 if affected \<noteq> 1 then ethrow ErrConflict
                 else ebind (sql_exec ''consume pairing code'' (consume_code (pc_id c) now)) (\<lambda>result.
                 ebind (rows_affected ''inspect pairing code consumption'' result) (\<lambda>affected.
                 if affected \<noteq> 1 then ethrow ErrPairingInvalid
                 else ebind (sql_query ''scan device''
                        (\<lambda>d. find (\<lambda>r. d_id r = pc_device_id c) (devices d))) scanDevice))))))"

subsection \<open>Statements keep the constraints of the schema\<close>

lemma schema_consume_codes: "schema_ok d \<Longrightarrow> schema_ok (snd (consume_codes v now d))"
  unfolding consume_codes_def by (rule schema_upd_codes) auto

lemma schema_revoke_sessions: "schema_ok d \<Longrightarrow> schema_ok (snd (revoke_sessions u v now d))"
  unfolding revoke_sessions_def by (rule schema_upd_sessions) auto

lemma schema_terminalize_tools: "schema_ok d \<Longrightarrow> schema_ok (snd (terminalize_tools u v now d))"
  unfolding terminalize_tools_def
  by (rule schema_upd_tools) (auto simp: deviceUnpairedToolExcerpt_def)

lemma schema_release_device: "schema_ok d \<Longrightarrow> schema_ok (snd (release_device u v d))"
  unfolding release_device_def by (rule schema_upd_devices) auto

lemma schema_insert_code:
  assumes "schema_ok d" "pc_id c \<notin> pc_id ` set (pairing_codes d)"
    "pc_code_digest c \<notin> pc_code_digest ` set (pairing_codes d)"
    "pc_device_id c \<in> d_id ` set (devices d)"
  shows "schema_ok (snd (insert_code c d))"
  using assms by (auto simp: schema_defs insert_code_def)

subsection \<open>Behaviour\<close>

lemma DeviceByOwner_ok [em_simps]:
  "faults s = [] \<Longrightarrow> DeviceByOwner u v s =
     (case find (owned_by u v) (devices (tables s)) of None \<Rightarrow> Inl ErrNotFound | Some r \<Rightarrow> Inr r, s)"
  by (simp add: DeviceByOwner_def scanDevice_def em_simps owned_by_def [abs_def] split: option.split)

lemma DeviceByID_ok [em_simps]:
  "faults s = [] \<Longrightarrow> DeviceByID v s =
     (case find (\<lambda>r. d_id r = v) (devices (tables s)) of None \<Rightarrow> Inl ErrNotFound | Some r \<Rightarrow> Inr r, s)"
  by (simp add: DeviceByID_def scanDevice_def em_simps split: option.split)

text \<open>The tables after a successful unpair, as one function.\<close>

definition unpaired :: "ident \<Rightarrow> ident \<Rightarrow> time \<Rightarrow> db \<Rightarrow> db" where
  "unpaired u v now d = snd (release_device u v (snd (terminalize_tools u v now
     (snd (revoke_sessions u v now (snd (consume_codes v now d)))))))"

definition revoked_ids :: "ident \<Rightarrow> ident \<Rightarrow> db \<Rightarrow> ident list" where
  "revoked_ids u v d = sort (map as_id (filter (session_of u v) (agent_sessions d)))"

lemma frame_statements [simp]:
  "devices (snd (consume_codes v now d)) = devices d"
  "agent_sessions (snd (consume_codes v now d)) = agent_sessions d"
  "tool_calls (snd (consume_codes v now d)) = tool_calls d"
  "devices (snd (revoke_sessions u v now d)) = devices d"
  "tool_calls (snd (revoke_sessions u v now d)) = tool_calls d"
  "pairing_codes (snd (revoke_sessions u v now d)) = pairing_codes d"
  "devices (snd (terminalize_tools u v now d)) = devices d"
  "agent_sessions (snd (terminalize_tools u v now d)) = agent_sessions d"
  "pairing_codes (snd (terminalize_tools u v now d)) = pairing_codes d"
  "agent_sessions (snd (release_device u v d)) = agent_sessions d"
  "tool_calls (snd (release_device u v d)) = tool_calls d"
  "pairing_codes (snd (release_device u v d)) = pairing_codes d"
  by (simp_all add: consume_codes_def upd_codes_def revoke_sessions_def upd_sessions_def
      terminalize_tools_def upd_tools_def release_device_def upd_devices_def)

lemma devices_key: "schema_ok d \<Longrightarrow> distinct (map d_id (devices d))"
  by (simp add: schema_ok_def devices_ok_def)

lemma release_device_one:
  assumes "schema_ok d" "list_ex (owned_by u v) (devices d)"
  shows "fst (release_device u v d) = 1"
proof -
  obtain r where r: "r \<in> set (devices d)" "owned_by u v r"
    using assms(2) by (auto simp: list_ex_iff)
  have "count_rows (owned_by u v) (devices d) = 1"
    by (rule count_rows_one [OF devices_key [OF assms(1)] _ r(1), of _ v])
       (auto simp: owned_by_def r(2) [unfolded owned_by_def])
  then show ?thesis by (simp add: release_device_def upd_devices_def)
qed

lemma UnpairDevice_ok:
  assumes "faults s = []" "schema_ok (tables s)"
  shows "UnpairDevice u v now s =
    (if list_ex (owned_by u v) (devices (tables s))
     then (Inr (revoked_ids u v (tables s)), s\<lparr>tables := unpaired u v now (tables s)\<rparr>)
     else (Inl ErrNotFound, s))"
proof (cases "list_ex (owned_by u v) (devices (tables s))")
  case True
  note sch = schema_consume_codes [OF assms(2)] schema_revoke_sessions schema_terminalize_tools
    schema_release_device
  have "fst (release_device u v (snd (terminalize_tools u v now
     (snd (revoke_sessions u v now (snd (consume_codes v now (tables s)))))))) = 1"
    using True by (intro release_device_one sch) simp
  with True show ?thesis
    by (simp add: UnpairDevice_def em_simps assms(1) sch unpaired_def revoked_ids_def)
next
  case False
  with assms(1) show ?thesis by (simp add: UnpairDevice_def em_simps)
qed

end
