(* ===== verification/Store_Agent.thy ===== *)
theory Store_Agent
  imports Store_Devices GoText
begin

text \<open>
  \<^verbatim>\<open>internal/store/agent.go\<close>: agent sessions, their messages and their tool calls.
  Every statement carries the owner predicate of the source: a session is visible to a
  user while it is theirs, not revoked, not archived, and its device is still owned by
  that user.
\<close>

subsection \<open>Owner predicates\<close>

definition device_owned :: "db \<Rightarrow> AgentSession \<Rightarrow> bool" where
  "device_owned d s \<longleftrightarrow> list_ex (owned_by (as_user_id s) (as_device_id s)) (devices d)"

definition agentSessionOwnershipPredicate :: "db \<Rightarrow> ident \<Rightarrow> AgentSession \<Rightarrow> bool" where
  "agentSessionOwnershipPredicate d owner s \<longleftrightarrow>
     as_user_id s = owner \<and> as_state s \<noteq> AgentSessionRevoked \<and> device_owned d s"

definition agentSessionOwnerPredicate :: "db \<Rightarrow> ident \<Rightarrow> AgentSession \<Rightarrow> bool" where
  "agentSessionOwnerPredicate d owner s \<longleftrightarrow>
     agentSessionOwnershipPredicate d owner s \<and> as_archived_at s = None"

definition agentToolOwnerPredicate :: "db \<Rightarrow> ident \<Rightarrow> ToolCall \<Rightarrow> bool" where
  "agentToolOwnerPredicate d owner t \<longleftrightarrow>
     list_ex (\<lambda>s. as_id s = tc_session_id t \<and> as_user_id s = owner \<and>
        as_state s \<noteq> AgentSessionRevoked \<and> as_archived_at s = None \<and> device_owned d s)
       (agent_sessions d)"

definition at_rest :: "AgentSession \<Rightarrow> bool" where
  "at_rest s \<longleftrightarrow> as_state s = AgentSessionIdle \<or> as_state s = AgentSessionFailed"

subsection \<open>Reading sessions, messages and tool calls\<close>

text \<open>A row of the schema always decodes; the one branch left is the missing row.\<close>

definition scanAgentSession :: "AgentSession option \<Rightarrow> AgentSession dbm" where
  "scanAgentSession row = (case row of None \<Rightarrow> ethrow ErrNotFound | Some r \<Rightarrow> ereturn r)"

definition scanToolCall :: "ToolCall option \<Rightarrow> ToolCall dbm" where
  "scanToolCall row = (case row of None \<Rightarrow> ethrow ErrNotFound | Some r \<Rightarrow> ereturn r)"

definition agentSessionByOwnerQuery :: "ident \<Rightarrow> ident \<Rightarrow> AgentSession dbm" where
  "agentSessionByOwnerQuery ownerUserID sessionID =
     ebind (sql_query ''scan agent session'' (\<lambda>d.
       find (\<lambda>s. as_id s = sessionID \<and> agentSessionOwnerPredicate d ownerUserID s) (agent_sessions d)))
     scanAgentSession"

definition agentSessionByManagingOwnerQuery :: "ident \<Rightarrow> ident \<Rightarrow> AgentSession dbm" where
  "agentSessionByManagingOwnerQuery ownerUserID sessionID =
     ebind (sql_query ''scan agent session'' (\<lambda>d.
       find (\<lambda>s. as_id s = sessionID \<and> agentSessionOwnershipPredicate d ownerUserID s) (agent_sessions d)))
     scanAgentSession"

definition agentToolCallByOwnerQuery :: "ident \<Rightarrow> ident \<Rightarrow> ToolCall dbm" where
  "agentToolCallByOwnerQuery ownerUserID toolCallID =
     ebind (sql_query ''scan agent tool call'' (\<lambda>d.
       find (\<lambda>t. tc_id t = toolCallID \<and> agentToolOwnerPredicate d ownerUserID t) (tool_calls d)))
     scanToolCall"

definition agentMessagesByOwnerQuery :: "ident \<Rightarrow> ident \<Rightarrow> AgentMessage list dbm" where
  "agentMessagesByOwnerQuery ownerUserID sessionID = sql_query ''list agent messages'' (\<lambda>d.
     sort_key (\<lambda>m. (am_created_at m, am_id m))
       (filter (\<lambda>m. am_session_id m = sessionID \<and>
          list_ex (\<lambda>s. as_id s = am_session_id m \<and> agentSessionOwnerPredicate d ownerUserID s)
            (agent_sessions d)) (agent_messages d)))"

definition agentToolCallsByOwnerQuery :: "ident \<Rightarrow> ident \<Rightarrow> ToolCall list dbm" where
  "agentToolCallsByOwnerQuery ownerUserID sessionID = sql_query ''list agent tool calls'' (\<lambda>d.
     sort_key (\<lambda>t. (tc_created_at t, tc_id t))
       (filter (\<lambda>t. tc_session_id t = sessionID \<and> agentToolOwnerPredicate d ownerUserID t) (tool_calls d)))"

definition AgentSessionByOwner :: "ident \<Rightarrow> ident \<Rightarrow> AgentSession dbm" where
  "AgentSessionByOwner ownerUserID sessionID = agentSessionByOwnerQuery ownerUserID sessionID"

definition AgentToolCallByOwner :: "ident \<Rightarrow> ident \<Rightarrow> ToolCall dbm" where
  "AgentToolCallByOwner ownerUserID toolCallID = agentToolCallByOwnerQuery ownerUserID toolCallID"

definition AgentSnapshotByOwner :: "ident \<Rightarrow> ident \<Rightarrow> AgentSnapshot dbm" where
  "AgentSnapshotByOwner ownerUserID sessionID =
     tx ''begin agent snapshot'' ''commit agent snapshot''
       (ebind (agentSessionByOwnerQuery ownerUserID sessionID) (\<lambda>session.
        ebind (agentMessagesByOwnerQuery ownerUserID sessionID) (\<lambda>messages.
        ebind (agentToolCallsByOwnerQuery ownerUserID sessionID) (\<lambda>toolCalls.
        ereturn \<lparr>sn_session = session, sn_messages = messages, sn_tool_calls = toolCalls\<rparr>))))"

text \<open>\<^verbatim>\<open>ORDER BY created_at DESC, id DESC LIMIT 1\<close>: the last row of the ascending order.\<close>

definition LatestAgentSnapshotByDeviceOwner :: "ident \<Rightarrow> ident \<Rightarrow> AgentSnapshot dbm" where
  "LatestAgentSnapshotByDeviceOwner ownerUserID deviceID =
     tx ''begin latest agent snapshot'' ''commit latest agent snapshot''
       (ebind (sql_query ''scan agent session'' (\<lambda>d.
          case rev (sort_key (\<lambda>s. (as_created_at s, as_id s))
                (filter (\<lambda>s. session_of ownerUserID deviceID s \<and> agentSessionOwnerPredicate d ownerUserID s)
                  (agent_sessions d))) of [] \<Rightarrow> None | s # _ \<Rightarrow> Some s)) (\<lambda>row.
        ebind (scanAgentSession row) (\<lambda>session.
        ebind (agentMessagesByOwnerQuery ownerUserID (as_id session)) (\<lambda>messages.
        ebind (agentToolCallsByOwnerQuery ownerUserID (as_id session)) (\<lambda>toolCalls.
        ereturn \<lparr>sn_session = session, sn_messages = messages, sn_tool_calls = toolCalls\<rparr>)))))"

subsection \<open>Bounded indexes\<close>

text \<open>The ellipsis U+2026 that marks a shortened title.\<close>

definition ellipsis :: string where
  "ellipsis = [char_of (226::nat), char_of (128::nat), char_of (166::nat)]"

definition normalizeAgentSessionTitle :: "string \<Rightarrow> string" where
  "normalizeAgentSessionTitle raw =
     (let text = Join (Fields raw) '' '' in
      if text = [] then ''New conversation''
      else (let runes = chunks text in
        if length runes \<le> agentSessionTitleRunes then text
        else TrimSpace (concat (map rune_bytes (take (agentSessionTitleRunes - 1) runes))) @ ellipsis))"

text \<open>\<^verbatim>\<open>substr(content, 1, 512)\<close> of the first user message, by its characters.\<close>

definition first_user_text :: "db \<Rightarrow> ident \<Rightarrow> string" where
  "first_user_text d sessionID =
     (case sort_key (\<lambda>m. (am_created_at m, am_id m))
        (filter (\<lambda>m. am_session_id m = sessionID \<and> am_role m = ''user'') (agent_messages d)) of
        [] \<Rightarrow> []
      | m # _ \<Rightarrow> concat (take 512 (chunks (am_content m))))"

definition device_name :: "db \<Rightarrow> ident \<Rightarrow> string" where
  "device_name d deviceID = (case find (\<lambda>r. d_id r = deviceID) (devices d) of None \<Rightarrow> [] | Some r \<Rightarrow> d_name r)"

definition session_summary :: "db \<Rightarrow> AgentSession \<Rightarrow> AgentSessionSummary" where
  "session_summary d s = \<lparr>sm_id = as_id s, sm_device_id = as_device_id s,
     sm_device_name = device_name d (as_device_id s), sm_approval_mode = as_approval_mode s,
     sm_provider = as_provider s, sm_state = as_state s,
     sm_title = normalizeAgentSessionTitle (first_user_text d (as_id s)),
     sm_created_at = as_created_at s, sm_updated_at = as_updated_at s, sm_archived_at = as_archived_at s\<rparr>"

definition RecentAgentSessionsByDeviceOwner :: "ident \<Rightarrow> ident \<Rightarrow> AgentSessionSummary list dbm" where
  "RecentAgentSessionsByDeviceOwner ownerUserID deviceID = sql_query ''list recent agent sessions'' (\<lambda>d.
     map (session_summary d) (take recentAgentSessionLimit
       (rev (sort_key (\<lambda>s. (as_updated_at s, as_created_at s, as_id s))
         (filter (\<lambda>s. session_of ownerUserID deviceID s \<and> agentSessionOwnerPredicate d ownerUserID s)
           (agent_sessions d))))))"

definition ArchivedAgentSessionsByOwner :: "ident \<Rightarrow> AgentSessionSummary list dbm" where
  "ArchivedAgentSessionsByOwner ownerUserID = sql_query ''list archived agent sessions'' (\<lambda>d.
     map (session_summary d) (take recentAgentSessionLimit
       (rev (sort_key (\<lambda>s. (the (as_archived_at s), as_updated_at s, as_id s))
         (filter (\<lambda>s. as_archived_at s \<noteq> None \<and> agentSessionOwnershipPredicate d ownerUserID s)
           (agent_sessions d))))))"

subsection \<open>Sessions\<close>

definition insert_session :: "AgentSession \<Rightarrow> db \<Rightarrow> nat \<times> db" where
  "insert_session session d =
     (if list_ex (owned_by (as_user_id session) (as_device_id session)) (devices d)
      then (1, d\<lparr>agent_sessions := agent_sessions d @ [session\<lparr>as_archived_at := None\<rparr>]\<rparr>)
      else (0, d))"

definition CreateAgentSession :: "AgentSession \<Rightarrow> unit dbm" where
  "CreateAgentSession session =
     (if as_id session = [] \<or> as_user_id session = [] \<or> as_device_id session = [] \<or>
         as_provider session = [] \<or> \<not> validApprovalMode (as_approval_mode session) \<or>
         \<not> validAgentSessionState (as_state session)
      then ethrow (ErrInvalidArg ''invalid agent session'')
      else ebind (sql_exec ''create agent session'' (insert_session session)) (\<lambda>result.
           ebind (rows_affected ''inspect agent session creation'' result) (\<lambda>affected.
           if affected \<noteq> 1 then ethrow ErrNotFound else ereturn ())))"

definition AgentSettingsByOwner :: "ident \<Rightarrow> AgentSettings dbm" where
  "AgentSettingsByOwner ownerUserID =
     ebind (sql_query ''get agent settings''
       (\<lambda>d. find (\<lambda>r. st_user_id r = ownerUserID \<and> ownerUserID \<in> u_id ` set (users d))
              (agent_user_settings d))) (\<lambda>row.
     case row of
       Some r \<Rightarrow> ereturn \<lparr>DefaultApprovalMode = st_default_approval_mode r, SettingsUpdatedAt = Some (st_updated_at r)\<rparr>
     | None \<Rightarrow> ebind (sql_query ''look up agent settings owner'' (\<lambda>d. ownerUserID \<in> u_id ` set (users d))) (\<lambda>exists.
         if \<not> exists then ethrow ErrNotFound
         else ereturn \<lparr>DefaultApprovalMode = AgentApprovalPerCommand, SettingsUpdatedAt = None\<rparr>))"

definition upsert_settings :: "ident \<Rightarrow> string \<Rightarrow> time \<Rightarrow> db \<Rightarrow> nat \<times> db" where
  "upsert_settings ownerUserID mode now d =
     (if ownerUserID \<notin> u_id ` set (users d) then (0, d)
      else if ownerUserID \<in> st_user_id ` set (agent_user_settings d)
      then (1, d\<lparr>agent_user_settings := upd_rows (\<lambda>r. st_user_id r = ownerUserID)
             (\<lambda>r. r\<lparr>st_default_approval_mode := mode, st_updated_at := now\<rparr>) (agent_user_settings d)\<rparr>)
      else (1, d\<lparr>agent_user_settings := agent_user_settings d @
             [\<lparr>st_user_id = ownerUserID, st_default_approval_mode = mode, st_updated_at = now\<rparr>]\<rparr>))"

definition UpdateAgentSettings :: "ident \<Rightarrow> string \<Rightarrow> time \<Rightarrow> AgentSettings dbm" where
  "UpdateAgentSettings ownerUserID approvalMode now =
     (if \<not> validApprovalMode approvalMode
      then ethrow (ErrInvalidArg ''invalid default agent approval mode'')
      else ebind (sql_exec ''update agent settings'' (upsert_settings ownerUserID approvalMode now)) (\<lambda>result.
           ethen (requireOneRow result) (AgentSettingsByOwner ownerUserID)))"

definition set_mode :: "ident \<Rightarrow> ident \<Rightarrow> string \<Rightarrow> time \<Rightarrow> db \<Rightarrow> nat \<times> db" where
  "set_mode ownerUserID sessionID approvalMode now d = upd_sessions
             (\<lambda>s. as_id s = sessionID \<and> at_rest s \<and> agentSessionOwnerPredicate d ownerUserID s)
             (\<lambda>s. s\<lparr>as_approval_mode := approvalMode, as_updated_at := now\<rparr>) d"

definition UpdateAgentSessionApprovalMode :: "ident \<Rightarrow> ident \<Rightarrow> string \<Rightarrow> time \<Rightarrow> AgentSession dbm" where
  "UpdateAgentSessionApprovalMode ownerUserID sessionID approvalMode now =
     (if \<not> validApprovalMode approvalMode
      then ethrow (ErrInvalidArg ''invalid agent approval mode'')
      else ebind (sql_exec ''update agent approval mode'' (set_mode ownerUserID sessionID approvalMode now)) (\<lambda>result.
           ebind (rows_affected ''inspect agent approval update'' result) (\<lambda>affected.
           if affected \<noteq> 1
           then ethen (AgentSessionByOwner ownerUserID sessionID) (ethrow ErrConflict)
           else AgentSessionByOwner ownerUserID sessionID)))"

definition set_archived :: "ident \<Rightarrow> ident \<Rightarrow> time option \<Rightarrow> time \<Rightarrow> db \<Rightarrow> nat \<times> db" where
  "set_archived ownerUserID sessionID archivedAt now d = upd_sessions
        (\<lambda>s. as_id s = sessionID \<and> at_rest s \<and> agentSessionOwnershipPredicate d ownerUserID s)
        (\<lambda>s. s\<lparr>as_archived_at := archivedAt, as_updated_at := now\<rparr>) d"

definition SetAgentSessionArchived :: "ident \<Rightarrow> ident \<Rightarrow> bool \<Rightarrow> time \<Rightarrow> AgentSession dbm" where
  "SetAgentSessionArchived ownerUserID sessionID archived now =
     (let archivedAt = (if archived then Some now else None) in
      ebind (sql_exec ''set agent session archived'' (set_archived ownerUserID sessionID archivedAt now)) (\<lambda>result.
      ebind (rows_affected ''inspect agent archive update'' result) (\<lambda>affected.
      if affected \<noteq> 1
      then ethen (agentSessionByManagingOwnerQuery ownerUserID sessionID) (ethrow ErrConflict)
      else agentSessionByManagingOwnerQuery ownerUserID sessionID)))"

definition delete_session :: "ident \<Rightarrow> ident \<Rightarrow> db \<Rightarrow> nat \<times> db" where
  "delete_session ownerUserID sessionID d = delete_sessions
          (\<lambda>s. as_id s = sessionID \<and> at_rest s \<and> agentSessionOwnershipPredicate d ownerUserID s) d"

definition DeleteAgentSessionByOwner :: "ident \<Rightarrow> ident \<Rightarrow> AgentSession dbm" where
  "DeleteAgentSessionByOwner ownerUserID sessionID =
     tx ''begin agent session deletion'' ''commit agent session deletion''
       (ebind (agentSessionByManagingOwnerQuery ownerUserID sessionID) (\<lambda>session.
        ebind (sql_exec ''delete agent session'' (delete_session ownerUserID sessionID)) (\<lambda>result.
        ebind (rows_affected ''inspect agent session deletion'' result) (\<lambda>affected.
        if affected \<noteq> 1 then ethrow ErrConflict else ereturn session))))"

definition set_state :: "ident \<Rightarrow> ident \<Rightarrow> string \<Rightarrow> time \<Rightarrow> db \<Rightarrow> nat \<times> db" where
  "set_state ownerUserID sessionID state now d = upd_sessions
             (\<lambda>s. as_id s = sessionID \<and> agentSessionOwnerPredicate d ownerUserID s)
             (\<lambda>s. s\<lparr>as_state := state, as_updated_at := now\<rparr>) d"

definition UpdateAgentSessionState :: "ident \<Rightarrow> ident \<Rightarrow> string \<Rightarrow> time \<Rightarrow> unit dbm" where
  "UpdateAgentSessionState ownerUserID sessionID state now =
     (if \<not> validAgentSessionState state
      then ethrow (ErrInvalidArg ''invalid agent session state'')
      else ebind (sql_exec ''update agent session state'' (set_state ownerUserID sessionID state now)) requireOneRow)"

definition begin_turn :: "ident \<Rightarrow> ident \<Rightarrow> time \<Rightarrow> db \<Rightarrow> nat \<times> db" where
  "begin_turn ownerUserID sessionID now d = upd_sessions
       (\<lambda>s. as_id s = sessionID \<and> at_rest s \<and> agentSessionOwnerPredicate d ownerUserID s)
       (\<lambda>s. s\<lparr>as_state := AgentSessionRunning, as_updated_at := now\<rparr>) d"

definition BeginAgentTurn :: "ident \<Rightarrow> ident \<Rightarrow> time \<Rightarrow> unit dbm" where
  "BeginAgentTurn ownerUserID sessionID now =
     ebind (sql_exec ''begin agent turn'' (begin_turn ownerUserID sessionID now)) (\<lambda>result.
     ebind (rows_affected ''inspect agent turn start'' result) (\<lambda>affected.
     if affected \<noteq> 1
     then ethen (AgentSessionByOwner ownerUserID sessionID) (ethrow ErrConflict)
     else ereturn ()))"

definition set_external :: "ident \<Rightarrow> ident \<Rightarrow> string \<Rightarrow> time \<Rightarrow> db \<Rightarrow> nat \<times> db" where
  "set_external ownerUserID sessionID externalSessionID now d = upd_sessions
             (\<lambda>s. as_id s = sessionID \<and> agentSessionOwnerPredicate d ownerUserID s)
             (\<lambda>s. s\<lparr>as_external_session_id := Some externalSessionID, as_updated_at := now\<rparr>) d"

definition UpdateAgentExternalSessionID :: "ident \<Rightarrow> ident \<Rightarrow> string \<Rightarrow> time \<Rightarrow> unit dbm" where
  "UpdateAgentExternalSessionID ownerUserID sessionID externalSessionID now =
     (if externalSessionID = [] \<or> length externalSessionID > 512
      then ethrow (ErrInvalidArg ''invalid external agent session id'')
      else ebind (sql_exec ''update external agent session id'' (set_external ownerUserID sessionID externalSessionID now))
           requireOneRow)"

subsection \<open>Messages and tool calls\<close>

definition owned_session :: "db \<Rightarrow> ident \<Rightarrow> ident \<Rightarrow> bool" where
  "owned_session d ownerUserID sessionID =
     list_ex (\<lambda>s. as_id s = sessionID \<and> agentSessionOwnerPredicate d ownerUserID s) (agent_sessions d)"

definition insert_message :: "ident \<Rightarrow> AgentMessage \<Rightarrow> db \<Rightarrow> nat \<times> db" where
  "insert_message ownerUserID m d =
     (if owned_session d ownerUserID (am_session_id m)
      then (1, d\<lparr>agent_messages := agent_messages d @ [m]\<rparr>) else (0, d))"

definition CreateAgentMessage :: "ident \<Rightarrow> AgentMessage \<Rightarrow> unit dbm" where
  "CreateAgentMessage ownerUserID message =
     (if am_id message = [] \<or> am_session_id message = [] \<or>
         (am_role message \<noteq> ''user'' \<and> am_role message \<noteq> ''assistant'' \<and> am_role message \<noteq> ''reasoning'') \<or>
         am_content message = []
      then ethrow (ErrInvalidArg ''invalid agent message'')
      else ebind (sql_exec ''create agent message'' (insert_message ownerUserID message)) requireOneRow)"

definition insert_tool :: "ident \<Rightarrow> ToolCall \<Rightarrow> db \<Rightarrow> nat \<times> db" where
  "insert_tool ownerUserID t d =
     (if owned_session d ownerUserID (tc_session_id t)
      then (1, d\<lparr>tool_calls := tool_calls d @ [t\<lparr>tc_decision := None, tc_exit_code := None,
             tc_output_excerpt := None, tc_completed_at := None\<rparr>]\<rparr>)
      else (0, d))"

definition CreateAgentToolCall :: "ident \<Rightarrow> ToolCall \<Rightarrow> unit dbm" where
  "CreateAgentToolCall ownerUserID toolCall =
     (if tc_id toolCall = [] \<or> tc_session_id toolCall = [] \<or> tc_name toolCall = [] \<or>
         tc_arguments_json toolCall = [] \<or>
         (tc_status toolCall \<noteq> ToolCallPending \<and> tc_status toolCall \<noteq> ToolCallStarted)
      then ethrow (ErrInvalidArg ''invalid agent tool call'')
      else ebind (sql_exec ''create agent tool call'' (insert_tool ownerUserID toolCall)) requireOneRow)"

definition undecided :: "ToolCall \<Rightarrow> bool" where
  "undecided t \<longleftrightarrow> tc_status t = ToolCallPending \<and> tc_decision t = None"

definition record_decision :: "ident \<Rightarrow> ident \<Rightarrow> string \<Rightarrow> db \<Rightarrow> nat \<times> db" where
  "record_decision ownerUserID toolCallID decision d = upd_tools
     (\<lambda>t. tc_id t = toolCallID \<and> undecided t \<and> agentToolOwnerPredicate d ownerUserID t)
     (\<lambda>t. t\<lparr>tc_decision := Some decision\<rparr>) d"

definition upgrade_session :: "ident \<Rightarrow> ident \<Rightarrow> time \<Rightarrow> db \<Rightarrow> nat \<times> db" where
  "upgrade_session ownerUserID sessionID now d = upd_sessions
     (\<lambda>s. as_id s = sessionID \<and> agentSessionOwnerPredicate d ownerUserID s)
     (\<lambda>s. s\<lparr>as_approval_mode := AgentApprovalFullAccess, as_updated_at := now\<rparr>) d"

definition DecideAgentToolCall :: "ident \<Rightarrow> ident \<Rightarrow> string \<Rightarrow> time \<Rightarrow> (ToolCall \<times> AgentSession) dbm" where
  "DecideAgentToolCall ownerUserID toolCallID decision now =
     (if decision \<noteq> DecisionApproveOnce \<and> decision \<noteq> DecisionApproveSession \<and> decision \<noteq> DecisionDeny
      then ethrow (ErrInvalidArg ''invalid tool decision'')
      else tx ''begin tool decision'' ''commit tool decision''
        (ebind (sql_exec ''record tool decision'' (record_decision ownerUserID toolCallID decision)) (\<lambda>result.
         ebind (etry (requireOneRow result)) (\<lambda>one. case one of
           Inl _ \<Rightarrow> ethen (agentToolCallByOwnerQuery ownerUserID toolCallID) (ethrow ErrConflict)
         | Inr _ \<Rightarrow>
             ebind (agentToolCallByOwnerQuery ownerUserID toolCallID) (\<lambda>toolCall.
             ethen (if decision = DecisionApproveSession
                    then ebind (sql_exec ''upgrade agent session approval''
                           (upgrade_session ownerUserID (tc_session_id toolCall) now)) requireOneRow
                    else ereturn ())
             (ebind (agentToolCallByOwnerQuery ownerUserID toolCallID) (\<lambda>toolCall.
              ebind (agentSessionByOwnerQuery ownerUserID (tc_session_id toolCall)) (\<lambda>session.
              ereturn (toolCall, session)))))))))"

text \<open>
  \<^verbatim>\<open>FailPendingAgentToolCall\<close> returns the existing row together with
  \<^verbatim>\<open>ErrConflict\<close>; the model returns that pair as a value.
\<close>

datatype fail_pending = is_FailedNow: FailedNow ToolCall | FailConflict ToolCall

definition fail_undecided :: "ident \<Rightarrow> ident \<Rightarrow> string \<Rightarrow> time \<Rightarrow> db \<Rightarrow> nat \<times> db" where
  "fail_undecided ownerUserID toolCallID outputExcerpt now d = upd_tools
             (\<lambda>t. tc_id t = toolCallID \<and> undecided t \<and> agentToolOwnerPredicate d ownerUserID t)
             (\<lambda>t. t\<lparr>tc_status := ToolCallFailed, tc_output_excerpt := Some outputExcerpt,
                    tc_completed_at := Some now\<rparr>) d"

definition FailPendingAgentToolCall :: "ident \<Rightarrow> ident \<Rightarrow> string \<Rightarrow> time \<Rightarrow> fail_pending dbm" where
  "FailPendingAgentToolCall ownerUserID toolCallID outputExcerpt now =
     (if length outputExcerpt > 8192
      then ethrow (ErrInvalidArg ''tool output excerpt exceeds 8192 bytes'')
      else ebind (sql_exec ''fail pending agent tool call'' (fail_undecided ownerUserID toolCallID outputExcerpt now)) (\<lambda>result.
           ebind (etry (requireOneRow result)) (\<lambda>one. case one of
             Inl _ \<Rightarrow> ebind (AgentToolCallByOwner ownerUserID toolCallID) (\<lambda>existing.
                        ereturn (FailConflict existing))
           | Inr _ \<Rightarrow> ebind (AgentToolCallByOwner ownerUserID toolCallID) (\<lambda>t. ereturn (FailedNow t)))))"

definition approved :: "ToolCall \<Rightarrow> bool" where
  "approved t \<longleftrightarrow> tc_decision t = Some DecisionApproveOnce \<or> tc_decision t = Some DecisionApproveSession"

definition start_tool :: "ident \<Rightarrow> ident \<Rightarrow> db \<Rightarrow> nat \<times> db" where
  "start_tool ownerUserID toolCallID d = upd_tools
       (\<lambda>t. tc_id t = toolCallID \<and> tc_status t = ToolCallPending \<and> approved t \<and>
            agentToolOwnerPredicate d ownerUserID t)
       (\<lambda>t. t\<lparr>tc_status := ToolCallStarted\<rparr>) d"

definition StartAgentToolCall :: "ident \<Rightarrow> ident \<Rightarrow> unit dbm" where
  "StartAgentToolCall ownerUserID toolCallID =
     ebind (sql_exec ''start agent tool call'' (start_tool ownerUserID toolCallID)) (\<lambda>result.
     ebind (etry (requireOneRow result)) (\<lambda>one. case one of
       Inl _ \<Rightarrow> ethen (AgentToolCallByOwner ownerUserID toolCallID) (ethrow ErrConflict)
     | Inr _ \<Rightarrow> ereturn ()))"

definition finish_from :: "string \<Rightarrow> ToolCall \<Rightarrow> bool" where
  "finish_from status t \<longleftrightarrow>
     (if status = ToolCallDenied then tc_status t = ToolCallPending \<and> tc_decision t = Some DecisionDeny
      else if status = ToolCallFailed
      then tc_status t = ToolCallStarted \<or> (tc_status t = ToolCallPending \<and> tc_decision t \<noteq> None)
      else tc_status t = ToolCallStarted)"

definition finish_tool :: "ident \<Rightarrow> ident \<Rightarrow> string \<Rightarrow> int option \<Rightarrow> string option \<Rightarrow> time \<Rightarrow> db \<Rightarrow> nat \<times> db" where
  "finish_tool ownerUserID toolCallID status exitCode outputExcerpt now d = upd_tools
             (\<lambda>t. tc_id t = toolCallID \<and> finish_from status t \<and> agentToolOwnerPredicate d ownerUserID t)
             (\<lambda>t. t\<lparr>tc_status := status, tc_exit_code := exitCode, tc_output_excerpt := outputExcerpt,
                    tc_completed_at := Some now\<rparr>) d"

definition FinishAgentToolCall ::
  "ident \<Rightarrow> ident \<Rightarrow> string \<Rightarrow> int option \<Rightarrow> string option \<Rightarrow> time \<Rightarrow> unit dbm" where
  "FinishAgentToolCall ownerUserID toolCallID status exitCode outputExcerpt now =
     (if status \<noteq> ToolCallCompleted \<and> status \<noteq> ToolCallDenied \<and> status \<noteq> ToolCallFailed
      then ethrow (ErrInvalidArg ''invalid completed tool status'')
      else if \<not> pred_option (\<lambda>x. length x \<le> 8192) outputExcerpt
      then ethrow (ErrInvalidArg ''tool output excerpt exceeds 8192 bytes'')
      else ebind (sql_exec ''finish agent tool call'' (finish_tool ownerUserID toolCallID status exitCode outputExcerpt now)) (\<lambda>result.
           ebind (etry (requireOneRow result)) (\<lambda>one. case one of
             Inl _ \<Rightarrow> ethen (AgentToolCallByOwner ownerUserID toolCallID) (ethrow ErrConflict)
           | Inr _ \<Rightarrow> ereturn ())))"

end
