(* ===== verification/Store_Steps.thy ===== *)
theory Store_Steps
  imports Store_Users Store_Agent
begin

text \<open>
  The contract of the store as a transition system on the tables.  \<open>db_step\<close> has one
  rule per effect a store method can have; \<open>store_op\<close> is one call of a method, with any
  arguments and under any pattern of statement failures.  \<open>store_op_refines\<close> shows that
  a call leaves the tables as they were or takes exactly one \<open>db_step\<close>: no caller, not
  even one whose call failed half-way, sees part of an effect.  The invariants of the
  store are then proved once per rule of \<open>db_step\<close>.
\<close>

subsection \<open>Effects\<close>

definition claimed :: "PairingCode \<Rightarrow> ident \<Rightarrow> time \<Rightarrow> db \<Rightarrow> db" where
  "claimed c u now d = snd (consume_code (pc_id c) now (snd (bind_device (pc_device_id c) u now d)))"

definition offered :: "PairingCode \<Rightarrow> time \<Rightarrow> db \<Rightarrow> db" where
  "offered c now d = snd (insert_code c (snd (consume_codes (pc_device_id c) now d)))"

definition decided :: "ident \<Rightarrow> ident \<Rightarrow> string \<Rightarrow> ident \<Rightarrow> time \<Rightarrow> db \<Rightarrow> db" where
  "decided u k decision sid now d =
     (let e = snd (record_decision u k decision d) in
      if decision = DecisionApproveSession then snd (upgrade_session u sid now e) else e)"

definition decisions :: "string set" where
  "decisions = {DecisionApproveOnce, DecisionApproveSession, DecisionDeny}"

inductive db_step :: "db \<Rightarrow> db \<Rightarrow> bool" where
  user_created: "\<lbrakk>schema_ok (snd (insert_user u d)); users d = []\<rbrakk> \<Longrightarrow> db_step d (snd (insert_user u d))"
| web_session_created: "schema_ok (snd (insert_web_session w d)) \<Longrightarrow> db_step d (snd (insert_web_session w d))"
| web_session_deleted: "schema_ok (snd (delete_web_sessions p d)) \<Longrightarrow> db_step d (snd (delete_web_sessions p d))"
| audit_recorded: "schema_ok (snd (insert_audit_event e d)) \<Longrightarrow> db_step d (snd (insert_audit_event e d))"
| device_registered: "schema_ok (snd (upsert_device v d)) \<Longrightarrow> db_step d (snd (upsert_device v d))"
| device_seen: "schema_ok (snd (touch_device v now d)) \<Longrightarrow> db_step d (snd (touch_device v now d))"
| device_unpaired: "\<lbrakk>schema_ok (unpaired u v now d); list_ex (owned_by u v) (devices d)\<rbrakk>
    \<Longrightarrow> db_step d (unpaired u v now d)"
| code_offered: "\<lbrakk>schema_ok (offered c now d); r \<in> set (devices d); d_id r = pc_device_id c;
    d_owner_user_id r = None\<rbrakk> \<Longrightarrow> db_step d (offered c now d)"
| code_claimed: "\<lbrakk>schema_ok (claimed c u now d); c \<in> set (pairing_codes d); pc_consumed_at c = None;
    now < pc_expires_at c; fst (bind_device (pc_device_id c) u now d) = 1\<rbrakk>
    \<Longrightarrow> db_step d (claimed c u now d)"
| session_created: "\<lbrakk>schema_ok (snd (insert_session s d)); validAgentSessionState (as_state s)\<rbrakk>
    \<Longrightarrow> db_step d (snd (insert_session s d))"
| settings_updated: "schema_ok (snd (upsert_settings u m now d)) \<Longrightarrow> db_step d (snd (upsert_settings u m now d))"
| mode_set: "schema_ok (snd (set_mode u i m now d)) \<Longrightarrow> db_step d (snd (set_mode u i m now d))"
| archived_set: "schema_ok (snd (set_archived u i a now d)) \<Longrightarrow> db_step d (snd (set_archived u i a now d))"
| session_deleted: "schema_ok (snd (delete_session u i d)) \<Longrightarrow> db_step d (snd (delete_session u i d))"
| state_set: "\<lbrakk>schema_ok (snd (set_state u i st now d)); validAgentSessionState st\<rbrakk>
    \<Longrightarrow> db_step d (snd (set_state u i st now d))"
| turn_begun: "schema_ok (snd (begin_turn u i now d)) \<Longrightarrow> db_step d (snd (begin_turn u i now d))"
| external_set: "schema_ok (snd (set_external u i x now d)) \<Longrightarrow> db_step d (snd (set_external u i x now d))"
| message_created: "schema_ok (snd (insert_message u m d)) \<Longrightarrow> db_step d (snd (insert_message u m d))"
| tool_created: "\<lbrakk>schema_ok (snd (insert_tool u t d));
    tc_status t = ToolCallPending \<or> tc_status t = ToolCallStarted\<rbrakk> \<Longrightarrow> db_step d (snd (insert_tool u t d))"
| tool_decided: "\<lbrakk>schema_ok (decided u k dc sid now d); dc \<in> decisions\<rbrakk>
    \<Longrightarrow> db_step d (decided u k dc sid now d)"
| tool_failed_undecided: "schema_ok (snd (fail_undecided u k x now d)) \<Longrightarrow>
    db_step d (snd (fail_undecided u k x now d))"
| tool_started: "schema_ok (snd (start_tool u k d)) \<Longrightarrow> db_step d (snd (start_tool u k d))"
| tool_finished: "\<lbrakk>schema_ok (snd (finish_tool u k st ec x now d));
    st \<in> {ToolCallCompleted, ToolCallDenied, ToolCallFailed}\<rbrakk>
    \<Longrightarrow> db_step d (snd (finish_tool u k st ec x now d))"

lemma db_step_schema: "db_step d e \<Longrightarrow> schema_ok e"
  by (induction rule: db_step.induct) simp_all

subsection \<open>Calls\<close>

inductive store_op :: "dbst \<Rightarrow> dbst \<Rightarrow> bool" where
  "BootstrapAdmin i n h now s = (r1, t) \<Longrightarrow> store_op s t"
| "CreateWebSession w s = (r2, t) \<Longrightarrow> store_op s t"
| "DeleteWebSession dg s = (r2, t) \<Longrightarrow> store_op s t"
| "CreateAuditEvent e s = (r2, t) \<Longrightarrow> store_op s t"
| "RegisterDevice v s = (r3, t) \<Longrightarrow> store_op s t"
| "UpdateDeviceLastSeen i now s = (r2, t) \<Longrightarrow> store_op s t"
| "UnpairDevice u i now s = (r4, t) \<Longrightarrow> store_op s t"
| "CreatePairingCode c now s = (r2, t) \<Longrightarrow> store_op s t"
| "ClaimPairing u dg now s = (r3, t) \<Longrightarrow> store_op s t"
| "CreateAgentSession a s = (r2, t) \<Longrightarrow> store_op s t"
| "UpdateAgentSettings u m now s = (r5, t) \<Longrightarrow> store_op s t"
| "UpdateAgentSessionApprovalMode u i m now s = (r6, t) \<Longrightarrow> store_op s t"
| "SetAgentSessionArchived u i b now s = (r6, t) \<Longrightarrow> store_op s t"
| "DeleteAgentSessionByOwner u i s = (r6, t) \<Longrightarrow> store_op s t"
| "UpdateAgentSessionState u i st now s = (r2, t) \<Longrightarrow> store_op s t"
| "BeginAgentTurn u i now s = (r2, t) \<Longrightarrow> store_op s t"
| "UpdateAgentExternalSessionID u i x now s = (r2, t) \<Longrightarrow> store_op s t"
| "CreateAgentMessage u msg s = (r2, t) \<Longrightarrow> store_op s t"
| "CreateAgentToolCall u tc s = (r2, t) \<Longrightarrow> store_op s t"
| "DecideAgentToolCall u i dc now s = (r7, t) \<Longrightarrow> store_op s t"
| "FailPendingAgentToolCall u i x now s = (r8, t) \<Longrightarrow> store_op s t"
| "StartAgentToolCall u i s = (r2, t) \<Longrightarrow> store_op s t"
| "FinishAgentToolCall u i st ec xo now s = (r2, t) \<Longrightarrow> store_op s t"

subsection \<open>Every call is one step or none\<close>

definition one_step :: "db \<Rightarrow> db \<Rightarrow> bool" where
  "one_step d e \<longleftrightarrow> e = d \<or> db_step d e"

interpretation same: table_order "(=)"
  by unfold_locales auto

lemma tables_same: "moves (on_tables (=)) m \<Longrightarrow> m s = (r, t) \<Longrightarrow> tables t = tables s"
  using moves_result [of "on_tables (=)" m s r t] by (simp add: on_tables_def)

lemmas agent_queries =
  agentToolCallByOwnerQuery_def agentSessionByOwnerQuery_def agentSessionByManagingOwnerQuery_def
  AgentSessionByOwner_def AgentToolCallByOwner_def AgentSettingsByOwner_def DeviceByID_def
  scanAgentSession_def scanToolCall_def scanDevice_def findFirstUser_def

text \<open>One statement followed by reads only.\<close>

lemma exec_then_reads:
  assumes m: "ebind (sql_exec msg f) k s = (r, t)"
    and f: "schema_ok (snd (f (tables s))) \<Longrightarrow> db_step (tables s) (snd (f (tables s)))"
    and k: "\<And>n. moves (on_tables (=)) (k n)"
  shows "one_step (tables s) (tables t)"
proof -
  obtain r' u where e: "sql_exec msg f s = (r', u)" by fastforce
  show ?thesis
  proof (cases r')
    case (Inl x)
    with e m show ?thesis by (auto simp: ebind_def one_step_def dest: sql_exec_Inl)
  next
    case (Inr n)
    with e m have "k n u = (r, t)" by (simp add: ebind_def)
    then have "tables t = tables u" by (rule tables_same [OF k])
    with sql_exec_Inr [of msg f s n u] e Inr f show ?thesis by (auto simp: one_step_def)
  qed
qed

text \<open>A transaction whose successful body amounts to one step.\<close>

lemma tx_one_step:
  assumes "tx b c body s = (r, t)"
    and "\<And>s' x u. body s' = (Inr x, u) \<Longrightarrow> one_step (tables s') (tables u)"
  shows "one_step (tables s) (tables t)"
proof (cases r)
  case (Inl e)
  with assms(1) show ?thesis by (auto simp: one_step_def dest: tx_error_unchanged)
next
  case (Inr x)
  with assms(1) obtain s' u where "tables s' = tables s" "body s' = (Inr x, u)" "tables t = tables u"
    by (auto dest: tx_success)
  with assms(2) show ?thesis by metis
qed

lemma throw_one_step: "ethrow e s = (r, t) \<Longrightarrow> one_step (tables s) (tables t)"
  by (auto simp: ethrow_def one_step_def)


lemma guarded_one_step:
  assumes "(if b then ethrow e else m) s = (r, t)"
    and "\<not> b \<Longrightarrow> m s = (r, t) \<Longrightarrow> one_step (tables s) (tables t)"
  shows "one_step (tables s) (tables t)"
  using assms by (cases b) (auto intro: throw_one_step)

lemmas effects = db_step.intros
lemmas reads = same.moves_sql

text \<open>The methods of one statement, in the order of the source files.\<close>

lemma op_web_session_created: "CreateWebSession w s = (r, t) \<Longrightarrow> one_step (tables s) (tables t)"
  unfolding CreateWebSession_def by (erule exec_then_reads) (auto intro: effects reads)

lemma op_web_session_deleted: "DeleteWebSession dg s = (r, t) \<Longrightarrow> one_step (tables s) (tables t)"
  unfolding DeleteWebSession_def by (erule exec_then_reads) (auto intro: effects reads)

lemma op_audit: "CreateAuditEvent e s = (r, t) \<Longrightarrow> one_step (tables s) (tables t)"
  unfolding CreateAuditEvent_def
  by (elim guarded_one_step exec_then_reads) (auto intro: effects reads)

lemma op_register: "RegisterDevice v s = (r, t) \<Longrightarrow> one_step (tables s) (tables t)"
  unfolding RegisterDevice_def agent_queries
  by (elim guarded_one_step exec_then_reads) (auto intro: effects, intro reads)

lemma op_seen: "UpdateDeviceLastSeen i now s = (r, t) \<Longrightarrow> one_step (tables s) (tables t)"
  unfolding UpdateDeviceLastSeen_def
  by (erule exec_then_reads) (auto intro: effects, intro reads)

lemma op_session_created: "CreateAgentSession a s = (r, t) \<Longrightarrow> one_step (tables s) (tables t)"
  unfolding CreateAgentSession_def
  by (elim guarded_one_step exec_then_reads) (auto intro: effects, intro reads)

lemma op_settings: "UpdateAgentSettings u m now s = (r, t) \<Longrightarrow> one_step (tables s) (tables t)"
  unfolding UpdateAgentSettings_def agent_queries
  by (elim guarded_one_step exec_then_reads) (auto intro: effects, intro reads)

lemma op_mode: "UpdateAgentSessionApprovalMode u i m now s = (r, t) \<Longrightarrow> one_step (tables s) (tables t)"
  unfolding UpdateAgentSessionApprovalMode_def agent_queries
  by (elim guarded_one_step exec_then_reads) (auto intro: effects, intro reads)

lemma op_archived: "SetAgentSessionArchived u i b now s = (r, t) \<Longrightarrow> one_step (tables s) (tables t)"
  unfolding SetAgentSessionArchived_def agent_queries Let_def
  by (erule exec_then_reads) (auto intro: effects, intro reads)

lemma op_state: "UpdateAgentSessionState u i st now s = (r, t) \<Longrightarrow> one_step (tables s) (tables t)"
  unfolding UpdateAgentSessionState_def
  by (elim guarded_one_step exec_then_reads) (auto intro: effects reads)

lemma op_turn: "BeginAgentTurn u i now s = (r, t) \<Longrightarrow> one_step (tables s) (tables t)"
  unfolding BeginAgentTurn_def agent_queries
  by (erule exec_then_reads) (auto intro: effects, intro reads)

lemma op_external: "UpdateAgentExternalSessionID u i x now s = (r, t) \<Longrightarrow> one_step (tables s) (tables t)"
  unfolding UpdateAgentExternalSessionID_def
  by (elim guarded_one_step exec_then_reads) (auto intro: effects reads)

lemma op_message: "CreateAgentMessage u m s = (r, t) \<Longrightarrow> one_step (tables s) (tables t)"
  unfolding CreateAgentMessage_def
  by (elim guarded_one_step exec_then_reads) (auto intro: effects reads)

lemma op_tool_created: "CreateAgentToolCall u tc s = (r, t) \<Longrightarrow> one_step (tables s) (tables t)"
  unfolding CreateAgentToolCall_def
  by (elim guarded_one_step exec_then_reads) (auto intro: effects reads)

lemma op_fail_pending: "FailPendingAgentToolCall u i x now s = (r, t) \<Longrightarrow> one_step (tables s) (tables t)"
  unfolding FailPendingAgentToolCall_def agent_queries
  by (elim guarded_one_step exec_then_reads) (auto intro: effects, intro reads)

lemma op_start: "StartAgentToolCall u i s = (r, t) \<Longrightarrow> one_step (tables s) (tables t)"
  unfolding StartAgentToolCall_def agent_queries
  by (erule exec_then_reads) (auto intro: effects, intro reads)

lemma op_finish: "FinishAgentToolCall u i st ec xo now s = (r, t) \<Longrightarrow> one_step (tables s) (tables t)"
  unfolding FinishAgentToolCall_def agent_queries
  by (elim guarded_one_step exec_then_reads) (auto intro: effects, (intro reads)+)

text \<open>The transactions.\<close>

lemma query_InrE:
  assumes "ebind (sql_query msg q) k s = (Inr x, t)"
  obtains s' where "tables s' = tables s" and "k (q (tables s)) s' = (Inr x, t)"
  using assms by (elim ebind_InrE) (auto dest: sql_query_Inr)

lemma exec_InrE:
  assumes "ebind (sql_exec msg f) k s = (Inr x, t)"
  obtains s' where "tables s' = snd (f (tables s))" "schema_ok (tables s')"
    and "k (fst (f (tables s))) s' = (Inr x, t)"
  using assms by (elim ebind_InrE) (auto dest: sql_exec_Inr)

lemma affected_InrE:
  assumes "ebind (rows_affected msg n) k s = (Inr x, t)"
  obtains s' where "tables s' = tables s" and "k n s' = (Inr x, t)"
  using assms by (elim ebind_InrE) (auto dest: rows_affected_Inr)

lemma guarded_InrE:
  assumes "(if b then ethrow e else m) s = (Inr x, t)"
  obtains "\<not> b" and "m s = (Inr x, t)"
  using assms by (auto simp: ethrow_def split: if_splits)

lemma tx_successE:
  assumes "tx b c body s = (Inr x, t)"
  obtains s' u where "tables s' = tables s" "tables t = tables u" and "body s' = (Inr x, u)"
  using tx_success [OF assms] by auto

lemma requireOneRow_tables: "requireOneRow n s = (r, t) \<Longrightarrow> tables t = tables s"
  by (rule tables_same [OF same.moves_requireOneRow])

lemma try_one_InrE:
  assumes "ebind (etry (requireOneRow n)) k s = (Inr x, t)"
  obtains r s' where "tables s' = tables s" and "k r s' = (Inr x, t)" and "r = Inr () \<Longrightarrow> n = 1"
  using assms
proof (elim ebind_InrE)
  fix r s'
  assume "etry (requireOneRow n) s = (Inr r, s')" and k: "k r s' = (Inr x, t)"
  then have q: "requireOneRow n s = (r, s')" by (auto simp: etry_def split: prod.splits)
  show thesis
    by (rule that [OF requireOneRow_tables [OF q] k]) (use q requireOneRow_Inr in blast)
qed

lemma return_Inr [simp]: "ereturn y s = (Inr x, t) \<longleftrightarrow> x = y \<and> t = s"
  by (auto simp: ereturn_def)

lemma throw_Inr [simp]: "ethrow e s = (Inr x, t) \<longleftrightarrow> False"
  by (simp add: ethrow_def)

lemma findFirstUser_none:
  assumes "findFirstUser s = (Inl ErrNotFound, t)"
  shows "users (tables s) = []"
proof -
  obtain b u where p: "pop_fault s = (b, u)" by fastforce
  with assms have "\<not> b" "sort_key u_created_at (users (tables u)) = []"
    by (auto simp: findFirstUser_def ebind_def sql_query_def ethrow_def ereturn_def
        split: bool.splits list.splits)
  then have "length (users (tables u)) = 0" by (metis length_0_conv length_sort)
  with p show ?thesis by simp
qed

lemma op_bootstrap: "BootstrapAdmin i n h now s = (r, t) \<Longrightarrow> one_step (tables s) (tables t)"
  unfolding BootstrapAdmin_def
proof (erule tx_one_step, erule ebind_InrE)
  fix s' x u found t'
  assume f: "etry findFirstUser s' = (Inr found, t')"
    and k: "(case found of Inl err \<Rightarrow>
            if err \<noteq> ErrNotFound then ethrow err
            else if i = [] \<or> n = [] \<or> h = []
            then ethrow (ErrInvalidArg ''admin bootstrap fields are required'')
            else (let user = \<lparr>u_id = i, u_username = n, u_password_hash = h, u_created_at = now\<rparr>
              in ethen (sql_exec ''insert bootstrap admin'' (insert_user user)) (ereturn (user, True)))
          | Inr user \<Rightarrow> ereturn (user, False)) t' = (Inr x, u)"
  have mv: "moves (on_tables (=)) findFirstUser"
    unfolding agent_queries by (intro reads)
  have "findFirstUser s' = (found, t')"
    using f by (auto simp: etry_def split: prod.splits)
  then have t': "tables t' = tables s'" by (rule tables_same [OF mv])
  show "one_step (tables s') (tables u)"
  proof (cases found)
    case (Inr y)
    with k t' show ?thesis by (simp add: one_step_def)
  next
    case (Inl err)
    with f have "findFirstUser s' = (Inl err, t')"
      by (auto simp: etry_def split: prod.splits)
    then have "err = ErrNotFound \<Longrightarrow> users (tables s') = []"
      by (auto dest: findFirstUser_none)
    moreover from k Inl have "err = ErrNotFound" by (auto split: if_splits)
    ultimately have e: "users (tables t') = []" using t' by simp
    from k Inl have "\<exists>w. ethen (sql_exec ''insert bootstrap admin'' (insert_user w)) (ereturn (w, True)) t' = (Inr x, u)"
      by (auto simp: Let_def split: if_splits)
    then show ?thesis
      unfolding t' [symmetric] one_step_def
      by (elim exE exec_InrE) (use e in \<open>auto intro: user_created\<close>)
  qed
qed


lemma op_unpair: "UnpairDevice u v now s = (r, t) \<Longrightarrow> one_step (tables s) (tables t)"
  unfolding UnpairDevice_def
  by (erule tx_one_step)
     (auto simp: one_step_def device_unpaired [unfolded unpaired_def] split: if_splits
       elim!: query_InrE exec_InrE affected_InrE)

lemma op_delete: "DeleteAgentSessionByOwner u i s = (r, t) \<Longrightarrow> one_step (tables s) (tables t)"
  unfolding DeleteAgentSessionByOwner_def agent_queries
  by (erule tx_one_step)
     (auto simp: one_step_def ebind_assoc split: if_splits option.splits
       elim!: query_InrE exec_InrE affected_InrE simp: session_deleted)

lemma op_offer: "CreatePairingCode c now s = (r, t) \<Longrightarrow> one_step (tables s) (tables t)"
  unfolding CreatePairingCode_def
proof (erule tx_one_step, erule query_InrE)
  fix s0 x u s'
  assume s': "tables s' = tables s0"
    and k: "(case find (\<lambda>r. d_id r = pc_device_id c) (devices (tables s0)) of None \<Rightarrow> ethrow ErrNotFound
        | Some r \<Rightarrow> if d_owner_user_id r \<noteq> None then ethrow ErrConflict
            else ethen (sql_exec ''replace active pairing code'' (consume_codes (pc_device_id c) now))
                 (ethen (sql_exec ''create pairing code'' (insert_code c)) (ereturn ()))) s' = (Inr x, u)"
  from k obtain r where r: "find (\<lambda>r. d_id r = pc_device_id c) (devices (tables s0)) = Some r"
    "d_owner_user_id r = None"
    and k': "ethen (sql_exec ''replace active pairing code'' (consume_codes (pc_device_id c) now))
                 (ethen (sql_exec ''create pairing code'' (insert_code c)) (ereturn ())) s' = (Inr x, u)"
    by (auto split: option.splits if_splits)
  from k' have "tables u = offered c now (tables s0)" "schema_ok (tables u)"
    using s' by (auto elim!: exec_InrE simp: offered_def)
  with r find_SomeD [OF r(1)] show "one_step (tables s0) (tables u)"
    unfolding one_step_def by (metis code_offered)
qed

lemma op_claim: "ClaimPairing u dg now s = (r, t) \<Longrightarrow> one_step (tables s) (tables t)"
  unfolding ClaimPairing_def
proof (erule tx_one_step, erule query_InrE)
  fix s0 x y s'
  let ?k = "\<lambda>c. ebind (sql_exec ''bind pairing device'' (bind_device (pc_device_id c) u now)) (\<lambda>result.
                 ebind (rows_affected ''inspect pairing device binding'' result) (\<lambda>affected.
                 if affected \<noteq> 1 then ethrow ErrConflict
                 else ebind (sql_exec ''consume pairing code'' (consume_code (pc_id c) now)) (\<lambda>result.
                 ebind (rows_affected ''inspect pairing code consumption'' result) (\<lambda>affected.
                 if affected \<noteq> 1 then ethrow ErrPairingInvalid
                 else ebind (sql_query ''scan device''
                        (\<lambda>d. find (\<lambda>r. d_id r = pc_device_id c) (devices d))) scanDevice))))"
  assume s': "tables s' = tables s0"
    and k: "(case find (\<lambda>c. pc_code_digest c = dg) (pairing_codes (tables s0)) of
        None \<Rightarrow> ethrow ErrPairingInvalid
      | Some c \<Rightarrow> if pc_consumed_at c \<noteq> None then ethrow ErrPairingInvalid
            else if \<not> now < pc_expires_at c then ethrow ErrPairingExpired else ?k c) s' = (Inr x, y)"
  from k obtain c where c: "find (\<lambda>c. pc_code_digest c = dg) (pairing_codes (tables s0)) = Some c"
    "pc_consumed_at c = None" "now < pc_expires_at c" and k': "?k c s' = (Inr x, y)"
    by (auto split: option.splits if_splits)
  from k' have "tables y = claimed c u now (tables s0) \<and> schema_ok (tables y) \<and>
      fst (bind_device (pc_device_id c) u now (tables s0)) = 1"
    using s' by (auto elim!: exec_InrE affected_InrE query_InrE
        simp: claimed_def scanDevice_def split: if_splits option.splits)
  with c find_SomeD [OF c(1)] show "one_step (tables s0) (tables y)"
    unfolding one_step_def by (metis code_claimed)
qed

lemma decided_one_step:
  "schema_ok (snd (record_decision u k dc d)) \<Longrightarrow> dc \<noteq> DecisionApproveSession \<Longrightarrow> dc \<in> decisions \<Longrightarrow>
     one_step d (snd (record_decision u k dc d))"
  "schema_ok (snd (upgrade_session u sid now (snd (record_decision u k DecisionApproveSession d)))) \<Longrightarrow>
     one_step d (snd (upgrade_session u sid now (snd (record_decision u k DecisionApproveSession d))))"
  using tool_decided [of u k dc sid now d] tool_decided [of u k DecisionApproveSession sid now d]
  by (simp_all add: one_step_def decided_def Let_def decisions_def)

lemma op_decide: "DecideAgentToolCall u k dc now s = (r, t) \<Longrightarrow> one_step (tables s) (tables t)"
  unfolding DecideAgentToolCall_def agent_queries
  by (elim guarded_one_step tx_one_step exec_InrE try_one_InrE)
     (auto simp: ebind_assoc requireOneRow_def decided_one_step decisions_def split: if_splits option.splits sum.splits
       elim!: query_InrE exec_InrE affected_InrE)

lemmas store_ops =
  op_bootstrap op_web_session_created op_web_session_deleted op_audit op_register op_seen op_unpair
  op_offer op_claim op_session_created op_settings op_mode op_archived op_delete op_state op_turn
  op_external op_message op_tool_created op_decide op_fail_pending op_start op_finish

lemma store_op_one_step: "store_op s t \<Longrightarrow> one_step (tables s) (tables t)"
  by (induction rule: store_op.induct) (erule store_ops)+

end
