(* ===== verification/Store_Inv.thy ===== *)
theory Store_Inv
  imports Store_Steps
begin

text \<open>
  Invariants of the tables and preorders along runs of store calls: sessions stay with
  the owner of their device, revoked sessions stay revoked, open tool calls never sit in
  a revoked session, a device has at most one active pairing code and none once it is
  owned, and a tool call only moves forward in its life cycle.
\<close>

subsection \<open>The invariant\<close>

definition open_tool :: "ToolCall \<Rightarrow> bool" where
  "open_tool t \<longleftrightarrow> tc_status t = ToolCallPending \<or> tc_status t = ToolCallStarted"

definition live :: "AgentSession \<Rightarrow> bool" where
  "live s \<longleftrightarrow> as_state s \<noteq> AgentSessionRevoked"

definition active :: "PairingCode \<Rightarrow> bool" where
  "active c \<longleftrightarrow> pc_consumed_at c = None"

definition sessions_owned :: "db \<Rightarrow> bool" where
  "sessions_owned d \<longleftrightarrow> (\<forall>s \<in> set (agent_sessions d). live s \<longrightarrow> device_owned d s)"

definition tools_closed :: "db \<Rightarrow> bool" where
  "tools_closed d \<longleftrightarrow> (\<forall>t \<in> set (tool_calls d). open_tool t \<longleftrightarrow> tc_completed_at t = None)"

definition tools_live :: "db \<Rightarrow> bool" where
  "tools_live d \<longleftrightarrow> (\<forall>t \<in> set (tool_calls d). open_tool t \<longrightarrow>
     (\<exists>s \<in> set (agent_sessions d). as_id s = tc_session_id t \<and> live s))"

definition codes_single :: "db \<Rightarrow> bool" where
  "codes_single d \<longleftrightarrow> distinct (map pc_device_id (filter active (pairing_codes d)))"

definition codes_unowned :: "db \<Rightarrow> bool" where
  "codes_unowned d \<longleftrightarrow> (\<forall>c \<in> set (pairing_codes d). active c \<longrightarrow>
     (\<forall>r \<in> set (devices d). d_id r = pc_device_id c \<longrightarrow> d_owner_user_id r = None))"

definition store_inv :: "db \<Rightarrow> bool" where
  "store_inv d \<longleftrightarrow> schema_ok d \<and> sessions_owned d \<and> tools_closed d \<and> tools_live d \<and>
     codes_single d \<and> codes_unowned d"

lemmas statements =
  insert_user_def insert_web_session_def delete_web_sessions_def insert_audit_event_def
  upsert_device_def touch_device_def consume_codes_def revoke_sessions_def terminalize_tools_def
  release_device_def unpaired_def insert_code_def bind_device_def consume_code_def claimed_def
  offered_def insert_session_def upsert_settings_def set_mode_def set_archived_def delete_session_def
  set_state_def begin_turn_def set_external_def insert_message_def insert_tool_def record_decision_def
  upgrade_session_def decided_def fail_undecided_def start_tool_def finish_tool_def
  upd_devices_def upd_codes_def upd_sessions_def upd_tools_def delete_sessions_def

named_theorems tab \<open>the four security-relevant tables after an effect\<close>

lemma owner_predicate_tools:
  "agentSessionOwnerPredicate (d\<lparr>tool_calls := ts\<rparr>) u s = agentSessionOwnerPredicate d u s"
  by (simp add: agentSessionOwnerPredicate_def agentSessionOwnershipPredicate_def device_owned_def)

lemma tab_insert_user [tab]:
  "devices (snd (insert_user u d)) = devices d"
  "pairing_codes (snd (insert_user u d)) = pairing_codes d"
  "agent_sessions (snd (insert_user u d)) = agent_sessions d"
  "tool_calls (snd (insert_user u d)) = tool_calls d"
  by (simp_all add: statements Let_def)

lemma tab_insert_web_session [tab]:
  "devices (snd (insert_web_session w d)) = devices d"
  "pairing_codes (snd (insert_web_session w d)) = pairing_codes d"
  "agent_sessions (snd (insert_web_session w d)) = agent_sessions d"
  "tool_calls (snd (insert_web_session w d)) = tool_calls d"
  by (simp_all add: statements Let_def)

lemma tab_delete_web_sessions [tab]:
  "devices (snd (delete_web_sessions p d)) = devices d"
  "pairing_codes (snd (delete_web_sessions p d)) = pairing_codes d"
  "agent_sessions (snd (delete_web_sessions p d)) = agent_sessions d"
  "tool_calls (snd (delete_web_sessions p d)) = tool_calls d"
  by (simp_all add: statements Let_def)

lemma tab_insert_audit_event [tab]:
  "devices (snd (insert_audit_event e d)) = devices d"
  "pairing_codes (snd (insert_audit_event e d)) = pairing_codes d"
  "agent_sessions (snd (insert_audit_event e d)) = agent_sessions d"
  "tool_calls (snd (insert_audit_event e d)) = tool_calls d"
  by (simp_all add: statements Let_def)

lemma tab_upsert_settings [tab]:
  "devices (snd (upsert_settings u m now d)) = devices d"
  "pairing_codes (snd (upsert_settings u m now d)) = pairing_codes d"
  "agent_sessions (snd (upsert_settings u m now d)) = agent_sessions d"
  "tool_calls (snd (upsert_settings u m now d)) = tool_calls d"
  by (simp_all add: statements Let_def)

lemma tab_insert_message [tab]:
  "devices (snd (insert_message u m d)) = devices d"
  "pairing_codes (snd (insert_message u m d)) = pairing_codes d"
  "agent_sessions (snd (insert_message u m d)) = agent_sessions d"
  "tool_calls (snd (insert_message u m d)) = tool_calls d"
  by (simp_all add: statements Let_def)

lemma tab_touch_device [tab]:
  "devices (snd (touch_device v now d)) =
     upd_rows (\<lambda>r. d_id r = v) (\<lambda>r. r\<lparr>d_last_seen_at := Some now\<rparr>) (devices d)"
  "pairing_codes (snd (touch_device v now d)) = pairing_codes d"
  "agent_sessions (snd (touch_device v now d)) = agent_sessions d"
  "tool_calls (snd (touch_device v now d)) = tool_calls d"
  by (simp_all add: statements Let_def)

lemma tab_upsert_device [tab]:
  "pairing_codes (snd (upsert_device v d)) = pairing_codes d"
  "agent_sessions (snd (upsert_device v d)) = agent_sessions d"
  "tool_calls (snd (upsert_device v d)) = tool_calls d"
  by (simp_all add: statements Let_def)

lemma tab_unpaired [tab]:
  "devices (unpaired u v now d) =
     upd_rows (owned_by u v) (\<lambda>r. r\<lparr>d_owner_user_id := None, d_paired_at := None\<rparr>) (devices d)"
  "pairing_codes (unpaired u v now d) =
     upd_rows (\<lambda>c. pc_device_id c = v \<and> pc_consumed_at c = None) (\<lambda>c. c\<lparr>pc_consumed_at := Some now\<rparr>) (pairing_codes d)"
  "agent_sessions (unpaired u v now d) =
     upd_rows (session_of u v) (\<lambda>s. s\<lparr>as_state := AgentSessionRevoked, as_updated_at := now\<rparr>) (agent_sessions d)"
  by (simp_all add: statements Let_def)

lemma tab_offered [tab]:
  "devices (offered c now d) = devices d"
  "pairing_codes (offered c now d) =
     upd_rows (\<lambda>x. pc_device_id x = pc_device_id c \<and> pc_consumed_at x = None) (\<lambda>c. c\<lparr>pc_consumed_at := Some now\<rparr>) (pairing_codes d) @ [c\<lparr>pc_consumed_at := None\<rparr>]"
  "agent_sessions (offered c now d) = agent_sessions d"
  "tool_calls (offered c now d) = tool_calls d"
  by (simp_all add: statements Let_def)

lemma tab_claimed [tab]:
  "devices (claimed c u now d) =
     upd_rows (\<lambda>r. d_id r = pc_device_id c \<and> d_owner_user_id r = None) (\<lambda>r. r\<lparr>d_owner_user_id := Some u, d_paired_at := Some now\<rparr>) (devices d)"
  "pairing_codes (claimed c u now d) =
     upd_rows (\<lambda>x. pc_id x = pc_id c \<and> pc_consumed_at x = None) (\<lambda>c. c\<lparr>pc_consumed_at := Some now\<rparr>) (pairing_codes d)"
  "agent_sessions (claimed c u now d) = agent_sessions d"
  "tool_calls (claimed c u now d) = tool_calls d"
  by (simp_all add: statements Let_def)

lemma tab_insert_session [tab]:
  "devices (snd (insert_session s d)) = devices d"
  "pairing_codes (snd (insert_session s d)) = pairing_codes d"
  "agent_sessions (snd (insert_session s d)) =
     (if list_ex (owned_by (as_user_id s) (as_device_id s)) (devices d) then agent_sessions d @ [s\<lparr>as_archived_at := None\<rparr>] else agent_sessions d)"
  "tool_calls (snd (insert_session s d)) = tool_calls d"
  by (simp_all add: statements Let_def)

lemma tab_set_mode [tab]:
  "devices (snd (set_mode u i m now d)) = devices d"
  "pairing_codes (snd (set_mode u i m now d)) = pairing_codes d"
  "agent_sessions (snd (set_mode u i m now d)) =
     upd_rows (\<lambda>s. as_id s = i \<and> at_rest s \<and> agentSessionOwnerPredicate d u s) (\<lambda>s. s\<lparr>as_approval_mode := m, as_updated_at := now\<rparr>) (agent_sessions d)"
  "tool_calls (snd (set_mode u i m now d)) = tool_calls d"
  by (simp_all add: statements Let_def)

lemma tab_set_archived [tab]:
  "devices (snd (set_archived u i a now d)) = devices d"
  "pairing_codes (snd (set_archived u i a now d)) = pairing_codes d"
  "agent_sessions (snd (set_archived u i a now d)) =
     upd_rows (\<lambda>s. as_id s = i \<and> at_rest s \<and> agentSessionOwnershipPredicate d u s) (\<lambda>s. s\<lparr>as_archived_at := a, as_updated_at := now\<rparr>) (agent_sessions d)"
  "tool_calls (snd (set_archived u i a now d)) = tool_calls d"
  by (simp_all add: statements Let_def)

lemma tab_delete_session [tab]:
  "devices (snd (delete_session u i d)) = devices d"
  "pairing_codes (snd (delete_session u i d)) = pairing_codes d"
  "agent_sessions (snd (delete_session u i d)) =
     del_rows (\<lambda>s. as_id s = i \<and> at_rest s \<and> agentSessionOwnershipPredicate d u s) (agent_sessions d)"
  by (simp_all add: statements Let_def)

lemma tab_set_state [tab]:
  "devices (snd (set_state u i st now d)) = devices d"
  "pairing_codes (snd (set_state u i st now d)) = pairing_codes d"
  "agent_sessions (snd (set_state u i st now d)) =
     upd_rows (\<lambda>s. as_id s = i \<and> agentSessionOwnerPredicate d u s) (\<lambda>s. s\<lparr>as_state := st, as_updated_at := now\<rparr>) (agent_sessions d)"
  "tool_calls (snd (set_state u i st now d)) = tool_calls d"
  by (simp_all add: statements Let_def)

lemma tab_begin_turn [tab]:
  "devices (snd (begin_turn u i now d)) = devices d"
  "pairing_codes (snd (begin_turn u i now d)) = pairing_codes d"
  "agent_sessions (snd (begin_turn u i now d)) =
     upd_rows (\<lambda>s. as_id s = i \<and> at_rest s \<and> agentSessionOwnerPredicate d u s) (\<lambda>s. s\<lparr>as_state := AgentSessionRunning, as_updated_at := now\<rparr>) (agent_sessions d)"
  "tool_calls (snd (begin_turn u i now d)) = tool_calls d"
  by (simp_all add: statements Let_def)

lemma tab_set_external [tab]:
  "devices (snd (set_external u i x now d)) = devices d"
  "pairing_codes (snd (set_external u i x now d)) = pairing_codes d"
  "agent_sessions (snd (set_external u i x now d)) =
     upd_rows (\<lambda>s. as_id s = i \<and> agentSessionOwnerPredicate d u s) (\<lambda>s. s\<lparr>as_external_session_id := Some x, as_updated_at := now\<rparr>) (agent_sessions d)"
  "tool_calls (snd (set_external u i x now d)) = tool_calls d"
  by (simp_all add: statements Let_def)

lemma tab_insert_tool [tab]:
  "devices (snd (insert_tool u t d)) = devices d"
  "pairing_codes (snd (insert_tool u t d)) = pairing_codes d"
  "agent_sessions (snd (insert_tool u t d)) = agent_sessions d"
  "tool_calls (snd (insert_tool u t d)) =
     (if owned_session d u (tc_session_id t) then tool_calls d @ [t\<lparr>tc_decision := None, tc_exit_code := None, tc_output_excerpt := None, tc_completed_at := None\<rparr>] else tool_calls d)"
  by (simp_all add: statements Let_def)

lemma upd_rows_never [simp]: "upd_rows (\<lambda>r. False) f rs = rs"
  by (simp add: upd_rows_def)

lemma tab_decided [tab]:
  "devices (decided u k dc sid now d) = devices d"
  "pairing_codes (decided u k dc sid now d) = pairing_codes d"
  "agent_sessions (decided u k dc sid now d) =
     upd_rows (\<lambda>s. dc = DecisionApproveSession \<and> as_id s = sid \<and> agentSessionOwnerPredicate d u s) (\<lambda>s. s\<lparr>as_approval_mode := AgentApprovalFullAccess, as_updated_at := now\<rparr>) (agent_sessions d)"
  "tool_calls (decided u k dc sid now d) =
     upd_rows (\<lambda>t. tc_id t = k \<and> undecided t \<and> agentToolOwnerPredicate d u t) (\<lambda>t. t\<lparr>tc_decision := Some dc\<rparr>) (tool_calls d)"
  by (simp_all add: statements Let_def owner_predicate_tools)

lemma tab_fail_undecided [tab]:
  "devices (snd (fail_undecided u k x now d)) = devices d"
  "pairing_codes (snd (fail_undecided u k x now d)) = pairing_codes d"
  "agent_sessions (snd (fail_undecided u k x now d)) = agent_sessions d"
  "tool_calls (snd (fail_undecided u k x now d)) =
     upd_rows (\<lambda>t. tc_id t = k \<and> undecided t \<and> agentToolOwnerPredicate d u t) (\<lambda>t. t\<lparr>tc_status := ToolCallFailed, tc_output_excerpt := Some x, tc_completed_at := Some now\<rparr>) (tool_calls d)"
  by (simp_all add: statements Let_def)

lemma tab_start_tool [tab]:
  "devices (snd (start_tool u k d)) = devices d"
  "pairing_codes (snd (start_tool u k d)) = pairing_codes d"
  "agent_sessions (snd (start_tool u k d)) = agent_sessions d"
  "tool_calls (snd (start_tool u k d)) =
     upd_rows (\<lambda>t. tc_id t = k \<and> tc_status t = ToolCallPending \<and> approved t \<and> agentToolOwnerPredicate d u t) (\<lambda>t. t\<lparr>tc_status := ToolCallStarted\<rparr>) (tool_calls d)"
  by (simp_all add: statements Let_def)

lemma tab_finish_tool [tab]:
  "devices (snd (finish_tool u k st ec x now d)) = devices d"
  "pairing_codes (snd (finish_tool u k st ec x now d)) = pairing_codes d"
  "agent_sessions (snd (finish_tool u k st ec x now d)) = agent_sessions d"
  "tool_calls (snd (finish_tool u k st ec x now d)) =
     upd_rows (\<lambda>t. tc_id t = k \<and> finish_from st t \<and> agentToolOwnerPredicate d u t) (\<lambda>t. t\<lparr>tc_status := st, tc_exit_code := ec, tc_output_excerpt := x, tc_completed_at := Some now\<rparr>) (tool_calls d)"
  by (simp_all add: statements Let_def)


subsection \<open>Sessions stay with the owner of their device\<close>

lemma sessions_owned_frame:
  assumes "sessions_owned d" and "agent_sessions e = agent_sessions d" and "devices e = devices d"
  shows "sessions_owned e"
  using assms by (simp add: sessions_owned_def device_owned_def)

lemma sessions_owned_upd:
  assumes "sessions_owned d" and "devices e = devices d"
    and "agent_sessions e = upd_rows p f (agent_sessions d)"
    and "\<And>s. as_user_id (f s) = as_user_id s" "\<And>s. as_device_id (f s) = as_device_id s"
    and "\<And>s. p s \<Longrightarrow> live (f s) \<Longrightarrow> live s"
  shows "sessions_owned e"
  using assms by (auto simp: sessions_owned_def device_owned_def set_upd_rows split: if_splits)

text \<open>Devices may change as long as the owner of each stays.\<close>

lemma sessions_owned_devices:
  assumes "sessions_owned d" and "agent_sessions e = agent_sessions d"
    and "\<And>r. r \<in> set (devices d) \<Longrightarrow> d_owner_user_id r \<noteq> None \<Longrightarrow>
           \<exists>r' \<in> set (devices e). d_id r' = d_id r \<and> d_owner_user_id r' = d_owner_user_id r"
  shows "sessions_owned e"
  unfolding sessions_owned_def
proof (intro ballI impI)
  fix s assume "s \<in> set (agent_sessions e)" "live s"
  with assms(1,2) obtain r where "r \<in> set (devices d)" "d_id r = as_device_id s"
    "d_owner_user_id r = Some (as_user_id s)"
    by (auto simp: sessions_owned_def device_owned_def list_ex_iff owned_by_def)
  with assms(3) [of r] show "device_owned e s"
    by (auto simp: device_owned_def list_ex_iff owned_by_def)
qed

lemma visible_live: "agentSessionOwnershipPredicate d u s \<Longrightarrow> live s"
  by (simp add: agentSessionOwnershipPredicate_def live_def)

lemma owner_visible: "agentSessionOwnerPredicate d u s \<Longrightarrow> agentSessionOwnershipPredicate d u s"
  by (simp add: agentSessionOwnerPredicate_def)

lemma sessions_owned_unpaired:
  assumes "sessions_owned d"
  shows "sessions_owned (unpaired u v now d)"
proof -
  have "device_owned (unpaired u v now d) s"
    if s: "s \<in> set (agent_sessions (unpaired u v now d))" "live s" for s
  proof -
    have "s \<in> set (agent_sessions d)" and ns: "\<not> session_of u v s"
      using s unfolding tab by (auto simp: live_def elim: upd_rowsE)
    with assms s(2) obtain r where "r \<in> set (devices d)" "owned_by (as_user_id s) (as_device_id s) r"
      by (auto simp: sessions_owned_def device_owned_def list_ex_iff)
    moreover from this ns have "\<not> owned_by u v r" by (auto simp: owned_by_def session_of_def)
    ultimately show ?thesis
      unfolding device_owned_def list_ex_iff tab by (blast intro: upd_rows_kept)
  qed
  then show ?thesis by (simp add: sessions_owned_def)
qed

lemma upsert_device_keeps:
  assumes "r \<in> set (devices d)"
  shows "\<exists>r' \<in> set (devices (snd (upsert_device v d))). (d_id r', d_owner_user_id r') = (d_id r, d_owner_user_id r)"
  using assms upd_rows_keeps [of r "devices d" _ "\<lambda>r. (d_id r, d_owner_user_id r)"]
  by (auto simp: upsert_device_def upd_devices_def)

lemma step_sessions_owned: "db_step d e \<Longrightarrow> sessions_owned d \<Longrightarrow> sessions_owned e"
proof (induction rule: db_step.induct)
  case (device_registered v d)
  show ?case
    by (rule sessions_owned_devices [OF device_registered(2)])
       (auto simp: tab dest: upsert_device_keeps [of _ d v])
next
  case (device_seen v now d)
  show ?case
    by (rule sessions_owned_devices [OF device_seen(2)])
       (auto simp: tab dest: upd_rows_keeps [of _ "devices d" "\<lambda>r. d_id r = v" "\<lambda>r. (d_id r, d_owner_user_id r)"
          "\<lambda>r. r\<lparr>d_last_seen_at := Some now\<rparr>"])
next
  case (device_unpaired u v now d)
  then show ?case by (blast intro: sessions_owned_unpaired)
next
  case (code_claimed c u now d)
  show ?case
    by (rule sessions_owned_devices [OF code_claimed(6)]) (auto simp: tab intro!: bexI [OF _ upd_rows_kept])
next
  case (session_created s d)
  then show ?case by (auto simp: tab sessions_owned_def device_owned_def)
next
  case (session_deleted u i d)
  then show ?case by (auto simp: tab del_rows_def sessions_owned_def device_owned_def)
next
  case (tool_decided u k dc sid now d)
  show ?case by (rule sessions_owned_upd [OF tool_decided(3) tab_decided(1,3)]) (auto simp: live_def)
next
  case (state_set u i st now d)
  show ?case
    by (rule sessions_owned_upd [OF state_set(3) tab_set_state(1,3)])
       (auto dest!: owner_visible visible_live)
next
  case (turn_begun u i now d)
  show ?case
    by (rule sessions_owned_upd [OF turn_begun(2) tab_begin_turn(1,3)])
       (auto dest!: owner_visible visible_live)
next
  case (mode_set u i m now d)
  show ?case by (rule sessions_owned_upd [OF mode_set(2) tab_set_mode(1,3)]) (auto simp: live_def)
next
  case (archived_set u i a now d)
  show ?case by (rule sessions_owned_upd [OF archived_set(2) tab_set_archived(1,3)]) (auto simp: live_def)
next
  case (external_set u i x now d)
  show ?case by (rule sessions_owned_upd [OF external_set(2) tab_set_external(1,3)]) (auto simp: live_def)
qed (erule sessions_owned_frame; simp add: tab)+


subsection \<open>Tool calls are closed exactly when they are terminal\<close>

lemma tools_closed_upd:
  assumes "tools_closed d" and "tool_calls e = upd_rows p f (tool_calls d)"
    and "\<And>t. p t \<Longrightarrow> (open_tool t \<longleftrightarrow> tc_completed_at t = None) \<Longrightarrow>
           (open_tool (f t) \<longleftrightarrow> tc_completed_at (f t) = None)"
  shows "tools_closed e"
  using assms(1,3) unfolding tools_closed_def assms(2) by (auto elim!: upd_rowsE)

lemma tools_closed_frame: "tools_closed d \<Longrightarrow> tool_calls e = tool_calls d \<Longrightarrow> tools_closed e"
  by (simp add: tools_closed_def)

lemma tools_closed_subset:
  "tools_closed d \<Longrightarrow> set (tool_calls e) \<subseteq> set (tool_calls d) \<Longrightarrow> tools_closed e"
  by (auto simp: tools_closed_def)

lemma delete_session_tools: "set (tool_calls (snd (delete_session u i d))) \<subseteq> set (tool_calls d)"
  by (auto simp: delete_session_def delete_sessions_def Let_def del_rows_def)

lemma tools_of_unpaired:
  "\<exists>p. tool_calls (unpaired u v now d) = upd_rows p
     (\<lambda>t. t\<lparr>tc_status := ToolCallFailed, tc_exit_code := None,
            tc_output_excerpt := Some deviceUnpairedToolExcerpt, tc_completed_at := Some now\<rparr>) (tool_calls d)"
  unfolding unpaired_def terminalize_tools_def upd_tools_def by simp (rule exI, rule refl)

lemma step_tools_closed: "db_step d e \<Longrightarrow> tools_closed d \<Longrightarrow> tools_closed e"
proof (induction rule: db_step.induct)
  case (device_unpaired u v now d)
  obtain p where "tool_calls (unpaired u v now d) = upd_rows p
     (\<lambda>t. t\<lparr>tc_status := ToolCallFailed, tc_exit_code := None,
            tc_output_excerpt := Some deviceUnpairedToolExcerpt, tc_completed_at := Some now\<rparr>) (tool_calls d)"
    using tools_of_unpaired by blast
  then show ?case by (rule tools_closed_upd [OF device_unpaired(3)]) (simp add: open_tool_def)
next
  case (session_deleted u i d)
  show ?case by (rule tools_closed_subset [OF session_deleted(2) delete_session_tools])
next
  case (tool_created u t d)
  then show ?case by (auto simp: tools_closed_def tab open_tool_def)
next
  case (tool_decided u k dc sid now d)
  show ?case by (rule tools_closed_upd [OF tool_decided(3) tab_decided(4)]) (simp add: open_tool_def)
next
  case (tool_failed_undecided u k x now d)
  show ?case by (rule tools_closed_upd [OF tool_failed_undecided(2) tab_fail_undecided(4)]) (simp add: open_tool_def)
next
  case (tool_started u k d)
  show ?case by (rule tools_closed_upd [OF tool_started(2) tab_start_tool(4)]) (auto simp: open_tool_def)
next
  case (tool_finished u k st ec x now d)
  show ?case
    by (rule tools_closed_upd [OF tool_finished(3) tab_finish_tool(4)])
       (use tool_finished(2) in \<open>auto simp: open_tool_def\<close>)
qed (erule tools_closed_frame; simp add: tab)+

subsection \<open>An open tool call belongs to a live session\<close>

text \<open>The statement of \<^verbatim>\<open>UnpairDevice\<close> that closes the tools sees the revoked sessions.\<close>

lemma tools_unpaired_open:
  assumes "t \<in> set (tool_calls (unpaired u v now d))" "open_tool t" "tools_closed d"
  shows "t \<in> set (tool_calls d) \<and> \<not> (\<exists>s \<in> set (agent_sessions d). as_id s = tc_session_id t \<and> session_of u v s)"
proof -
  let ?rev = "\<lambda>s. s\<lparr>as_state := AgentSessionRevoked, as_updated_at := now\<rparr>"
  have t: "t \<in> set (upd_rows (\<lambda>t. (tc_status t = ToolCallPending \<or> tc_status t = ToolCallStarted) \<and>
      tc_completed_at t = None \<and> (\<exists>s \<in> set (upd_rows (session_of u v) ?rev (agent_sessions d)).
         as_id s = tc_session_id t \<and> session_of u v s))
     (\<lambda>t. t\<lparr>tc_status := ToolCallFailed, tc_exit_code := None,
            tc_output_excerpt := Some deviceUnpairedToolExcerpt, tc_completed_at := Some now\<rparr>) (tool_calls d))"
    using assms(1)
    by (simp add: unpaired_def terminalize_tools_def upd_tools_def revoke_sessions_def upd_sessions_def)
  have "session_of u v (?rev s)" if "session_of u v s" for s
    using that by (simp add: session_of_def)
  then have vis: "\<exists>s \<in> set (upd_rows (session_of u v) ?rev (agent_sessions d)). as_id s = k \<and> session_of u v s"
    if "s \<in> set (agent_sessions d)" "as_id s = k" "session_of u v s" for s k
    using that by (intro bexI [OF _ upd_rows_changed]) auto
  from t show ?thesis
  proof (cases rule: upd_rowsE)
    case (changed r)
    with assms(2) show ?thesis by (simp add: open_tool_def)
  next
    case kept
    with assms(2,3) vis show ?thesis unfolding open_tool_def tools_closed_def by blast
  qed
qed

lemma tools_live_unpaired:
  assumes "tools_live d" "tools_closed d"
  shows "tools_live (unpaired u v now d)"
  unfolding tools_live_def
proof (intro ballI impI)
  fix t assume "t \<in> set (tool_calls (unpaired u v now d))" "open_tool t"
  then have t: "t \<in> set (tool_calls d)"
    and ns: "\<not> (\<exists>s \<in> set (agent_sessions d). as_id s = tc_session_id t \<and> session_of u v s)"
    using tools_unpaired_open [OF _ _ assms(2)] by blast+
  from assms(1) t \<open>open_tool t\<close> obtain s where
    "s \<in> set (agent_sessions d)" "as_id s = tc_session_id t" "live s"
    by (auto simp: tools_live_def)
  with ns show "\<exists>s \<in> set (agent_sessions (unpaired u v now d)). as_id s = tc_session_id t \<and> live s"
    unfolding tab by (auto intro!: bexI [OF _ upd_rows_kept])
qed

lemma tools_live_upd:
  assumes "tools_live d" and "agent_sessions e = agent_sessions d"
    and "tool_calls e = upd_rows p f (tool_calls d)"
    and "\<And>t. p t \<Longrightarrow> open_tool (f t) \<Longrightarrow> open_tool t" "\<And>t. tc_session_id (f t) = tc_session_id t"
  shows "tools_live e"
  using assms unfolding tools_live_def assms(2,3) by (auto elim!: upd_rowsE)

lemma tools_live_sessions:
  assumes "tools_live d" and "tool_calls e = tool_calls d"
    and "agent_sessions e = upd_rows p f (agent_sessions d)"
    and "\<And>s. as_id (f s) = as_id s" "\<And>s. live s \<Longrightarrow> live (f s)"
  shows "tools_live e"
  unfolding tools_live_def assms(2,3)
proof (intro ballI impI)
  fix t assume "t \<in> set (tool_calls d)" "open_tool t"
  with assms(1) obtain s where s: "s \<in> set (agent_sessions d)" "as_id s = tc_session_id t" "live s"
    by (auto simp: tools_live_def)
  then show "\<exists>s \<in> set (upd_rows p f (agent_sessions d)). as_id s = tc_session_id t \<and> live s"
    using upd_rows_keeps [of s "agent_sessions d" p "\<lambda>s. (as_id s, live s)" f] assms(4,5)
    by (cases "p s") (metis upd_rows_changed, metis upd_rows_kept)
qed

lemma tools_live_frame:
  "tools_live d \<Longrightarrow> tool_calls e = tool_calls d \<Longrightarrow> agent_sessions e = agent_sessions d \<Longrightarrow> tools_live e"
  by (simp add: tools_live_def)

lemma tools_live_decided:
  assumes "tools_live d"
  shows "tools_live (decided u k dc sid now d)"
proof -
  let ?e = "d\<lparr>tool_calls := tool_calls (decided u k dc sid now d)\<rparr>"
  have "tool_calls ?e = upd_rows (\<lambda>t. tc_id t = k \<and> undecided t \<and> agentToolOwnerPredicate d u t)
      (\<lambda>t. t\<lparr>tc_decision := Some dc\<rparr>) (tool_calls d)"
    by (simp add: tab)
  then have e: "tools_live ?e"
    by (rule tools_live_upd [OF assms, rotated]) (auto simp: open_tool_def)
  have "agent_sessions (decided u k dc sid now d) =
      upd_rows (\<lambda>s. dc = DecisionApproveSession \<and> as_id s = sid \<and> agentSessionOwnerPredicate d u s)
        (\<lambda>s. s\<lparr>as_approval_mode := AgentApprovalFullAccess, as_updated_at := now\<rparr>) (agent_sessions ?e)"
    by (simp add: tab)
  then show ?thesis
    by (rule tools_live_sessions [OF e, rotated]) (auto simp: live_def)
qed


lemma tools_live_deleted:
  assumes "tools_live d"
  shows "tools_live (snd (delete_session u i d))"
proof -
  let ?p = "\<lambda>s. as_id s = i \<and> at_rest s \<and> agentSessionOwnershipPredicate d u s"
  have "\<exists>s \<in> set (del_rows ?p (agent_sessions d)). as_id s = tc_session_id t \<and> live s"
    if t: "t \<in> set (tool_calls d)" "open_tool t"
      "tc_session_id t \<notin> as_id ` set (filter ?p (agent_sessions d))" for t
  proof -
    from assms t(1,2) obtain s where "s \<in> set (agent_sessions d)" "as_id s = tc_session_id t" "live s"
      by (auto simp: tools_live_def)
    with t(3) show ?thesis by (force simp: del_rows_def)
  qed
  then show ?thesis
    by (auto simp: tools_live_def delete_session_def delete_sessions_def Let_def del_rows_def)
qed

lemma tools_live_created:
  assumes "tools_live d"
  shows "tools_live (snd (insert_tool u t d))"
proof -
  have "\<exists>s \<in> set (agent_sessions d). as_id s = tc_session_id t \<and> live s"
    if "owned_session d u (tc_session_id t)"
    using that unfolding owned_session_def list_ex_iff by (metis visible_live owner_visible)
  with assms show ?thesis by (auto simp: tools_live_def tab)
qed

lemma step_tools_live: "db_step d e \<Longrightarrow> tools_live d \<Longrightarrow> tools_closed d \<Longrightarrow> tools_live e"
proof (induction rule: db_step.induct)
  case (device_unpaired u v now d)
  show ?case by (rule tools_live_unpaired [OF device_unpaired(3,4)])
next
  case (session_created s d)
  then show ?case by (auto simp: tools_live_def tab)
next
  case (session_deleted u i d)
  show ?case by (rule tools_live_deleted [OF session_deleted(2)])
next
  case (tool_created u t d)
  show ?case by (rule tools_live_created [OF tool_created(3)])
next
  case (tool_decided u k dc sid now d)
  show ?case by (rule tools_live_decided [OF tool_decided(3)])
next
  case (tool_failed_undecided u k x now d)
  show ?case
    by (rule tools_live_upd [OF tool_failed_undecided(2) tab_fail_undecided(3,4)]) (auto simp: open_tool_def)
next
  case (tool_started u k d)
  show ?case by (rule tools_live_upd [OF tool_started(2) tab_start_tool(3,4)]) (auto simp: open_tool_def)
next
  case (tool_finished u k st ec x now d)
  show ?case
    by (rule tools_live_upd [OF tool_finished(3) tab_finish_tool(3,4)])
       (use tool_finished(2) in \<open>auto simp: open_tool_def\<close>)
next
  case (state_set u i st now d)
  have "st \<noteq> AgentSessionRevoked" using state_set(2) by (auto simp: validAgentSessionState_def)
  then show ?case by (intro tools_live_sessions [OF state_set(3) tab_set_state(4,3)]) (auto simp: live_def)
next
  case (turn_begun u i now d)
  show ?case by (rule tools_live_sessions [OF turn_begun(2) tab_begin_turn(4,3)]) (auto simp: live_def)
next
  case (mode_set u i m now d)
  show ?case by (rule tools_live_sessions [OF mode_set(2) tab_set_mode(4,3)]) (auto simp: live_def)
next
  case (archived_set u i a now d)
  show ?case by (rule tools_live_sessions [OF archived_set(2) tab_set_archived(4,3)]) (auto simp: live_def)
next
  case (external_set u i x now d)
  show ?case by (rule tools_live_sessions [OF external_set(2) tab_set_external(4,3)]) (auto simp: live_def)
qed (erule tools_live_frame; simp add: tab)+

subsection \<open>Pairing codes\<close>

lemma active_after:
  "filter active (upd_rows (\<lambda>c. p c \<and> pc_consumed_at c = None) (\<lambda>c. c\<lparr>pc_consumed_at := Some now\<rparr>) cs) =
   filter (\<lambda>c. \<not> p c) (filter active cs)"
  by (induction cs) (auto simp: upd_rows_def active_def)

lemma active_unpaired:
  "filter active (pairing_codes (unpaired u v now d)) =
   filter (\<lambda>c. pc_device_id c \<noteq> v) (filter active (pairing_codes d))"
  unfolding tab by (rule active_after)

lemma active_offered:
  "filter active (pairing_codes (offered c now d)) =
   filter (\<lambda>x. pc_device_id x \<noteq> pc_device_id c) (filter active (pairing_codes d)) @ [c\<lparr>pc_consumed_at := None\<rparr>]"
  unfolding tab filter_append active_after by (simp add: active_def)

lemma active_claimed:
  "filter active (pairing_codes (claimed c u now d)) =
   filter (\<lambda>x. pc_id x \<noteq> pc_id c) (filter active (pairing_codes d))"
  unfolding tab by (rule active_after)

lemma step_codes_single: "db_step d e \<Longrightarrow> codes_single d \<Longrightarrow> codes_single e"
proof (induction rule: db_step.induct)
  case (device_unpaired u v now d)
  then show ?case unfolding codes_single_def active_unpaired by (blast intro: distinct_map_filter_key)
next
  case (code_offered c now d r)
  have "distinct (map pc_device_id (filter (\<lambda>x. pc_device_id x \<noteq> pc_device_id c) (filter active (pairing_codes d))))"
    using code_offered(5) unfolding codes_single_def by (rule distinct_map_filter_key)
  then show ?case unfolding codes_single_def active_offered by auto
next
  case (code_claimed c u now d)
  then show ?case unfolding codes_single_def active_claimed by (blast intro: distinct_map_filter_key)
qed (simp_all add: codes_single_def tab)


lemma codes_unowned_weaken:
  assumes "codes_unowned d"
    and "set (filter active (pairing_codes e)) \<subseteq> set (filter active (pairing_codes d))"
    and "\<And>r' c. r' \<in> set (devices e) \<Longrightarrow> d_owner_user_id r' \<noteq> None \<Longrightarrow>
           c \<in> set (filter active (pairing_codes e)) \<Longrightarrow> pc_device_id c = d_id r' \<Longrightarrow>
           \<exists>r \<in> set (devices d). d_id r = d_id r' \<and> d_owner_user_id r \<noteq> None"
  shows "codes_unowned e"
proof -
  have "d_owner_user_id r' = None"
    if c: "c \<in> set (pairing_codes e)" "active c" and r': "r' \<in> set (devices e)" "d_id r' = pc_device_id c" for c r'
  proof (rule ccontr)
    assume "d_owner_user_id r' \<noteq> None"
    with assms(3) [of r' c] c r' obtain r where
      r: "r \<in> set (devices d)" "d_id r = pc_device_id c" "d_owner_user_id r \<noteq> None" by auto
    from c assms(2) have "c \<in> set (pairing_codes d)" by auto
    with assms(1) c(2) r show False unfolding codes_unowned_def by auto
  qed
  then show ?thesis unfolding codes_unowned_def by blast
qed

lemma upsert_device_owner:
  assumes "schema_ok d" "schema_ok (snd (upsert_device v d))"
    "r' \<in> set (devices (snd (upsert_device v d)))" "d_owner_user_id r' \<noteq> None"
    "c \<in> set (pairing_codes d)" "pc_device_id c = d_id r'"
  shows "\<exists>r \<in> set (devices d). d_id r = d_id r' \<and> d_owner_user_id r \<noteq> None"
proof (cases "devices (snd (upsert_device v d)) = devices d @ [v]")
  case True
  with devices_key [OF assms(2)] have "d_id v \<notin> d_id ` set (devices d)" by simp
  moreover have "pc_device_id c \<in> d_id ` set (devices d)"
    using assms(1,5) by (auto simp: schema_ok_def pairing_codes_ok_def)
  ultimately show ?thesis using True assms(3,4,6) by auto
next
  case False
  then have "devices (snd (upsert_device v d)) = upd_rows (\<lambda>r. d_id r = d_id v \<and> d_public_key r = d_public_key v)
             (\<lambda>r. r\<lparr>d_name := d_name v, d_platform := d_platform v, d_arch := d_arch v,
                    d_client_version := d_client_version v\<rparr>) (devices d)"
    by (auto simp: upsert_device_def upd_devices_def split: if_splits)
  with assms(3) have "r' \<in> set (upd_rows (\<lambda>r. d_id r = d_id v \<and> d_public_key r = d_public_key v)
             (\<lambda>r. r\<lparr>d_name := d_name v, d_platform := d_platform v, d_arch := d_arch v,
                    d_client_version := d_client_version v\<rparr>) (devices d))" by simp
  then show ?thesis by (rule upd_rowsE) (use assms(4) in auto)
qed

lemma codes_unowned_offered:
  assumes "codes_unowned d" "schema_ok d" "r \<in> set (devices d)" "d_id r = pc_device_id c" "d_owner_user_id r = None"
  shows "codes_unowned (offered c now d)"
proof -
  have "r' = r" if "r' \<in> set (devices d)" "d_id r' = pc_device_id c" for r'
    using key_inj [OF devices_key [OF assms(2)] that(1) assms(3)] that(2) assms(4) by simp
  moreover have "x \<in> set (filter active (pairing_codes d)) \<or> pc_device_id x = pc_device_id c"
    if "x \<in> set (pairing_codes (offered c now d))" "active x" for x
  proof -
    from that have "x \<in> set (filter active (pairing_codes (offered c now d)))" by simp
    then show ?thesis unfolding active_offered by auto
  qed
  ultimately show ?thesis using assms(1,5) by (auto simp: codes_unowned_def tab(1-3))
     (metis tab_offered(1))
qed

lemma codes_unowned_claimed:
  assumes "codes_unowned d" "codes_single d" "c \<in> set (pairing_codes d)" "pc_consumed_at c = None"
  shows "codes_unowned (claimed c u now d)"
proof (rule codes_unowned_weaken [OF assms(1)])
  show "set (filter active (pairing_codes (claimed c u now d))) \<subseteq> set (filter active (pairing_codes d))"
    unfolding active_claimed by auto
next
  fix r' x
  assume r': "r' \<in> set (devices (claimed c u now d))" "d_owner_user_id r' \<noteq> None"
    and x: "x \<in> set (filter active (pairing_codes (claimed c u now d)))" "pc_device_id x = d_id r'"
  from x(1) have x': "x \<in> set (filter active (pairing_codes d))" "pc_id x \<noteq> pc_id c"
    unfolding active_claimed by auto
  have "c \<in> set (filter active (pairing_codes d))" using assms(3,4) by (simp add: active_def)
  with assms(2) x' have ne: "pc_device_id x \<noteq> pc_device_id c"
    unfolding codes_single_def by (metis key_inj)
  from r'(1) show "\<exists>r \<in> set (devices d). d_id r = d_id r' \<and> d_owner_user_id r \<noteq> None"
    unfolding tab
  proof (cases rule: upd_rowsE)
    case (changed r)
    with ne x(2) show ?thesis by simp
  next
    case kept
    with r'(2) show ?thesis by blast
  qed
qed

lemma step_codes_unowned:
  "db_step d e \<Longrightarrow> codes_unowned d \<Longrightarrow> codes_single d \<Longrightarrow> schema_ok d \<Longrightarrow> codes_unowned e"
proof (induction rule: db_step.induct)
  case (device_registered v d)
  show ?case
    by (rule codes_unowned_weaken [OF device_registered(2)])
       (use upsert_device_owner [OF device_registered(4,1)] in \<open>auto simp: tab_upsert_device\<close>)
next
  case (device_seen v now d)
  show ?case
    by (rule codes_unowned_weaken [OF device_seen(2)]) (auto simp: tab_touch_device elim!: upd_rowsE)
next
  case (device_unpaired u v now d)
  show ?case
    by (rule codes_unowned_weaken [OF device_unpaired(3)])
       (auto simp: active_unpaired tab_unpaired(1) elim!: upd_rowsE)
next
  case (code_offered c now d r)
  show ?case by (rule codes_unowned_offered [OF code_offered(5,7,2,3,4)])
next
  case (code_claimed c u now d)
  show ?case by (rule codes_unowned_claimed [OF code_claimed(6,7,2,3)])
qed (simp_all add: codes_unowned_def tab)

subsection \<open>The invariant holds along every run\<close>

lemma store_inv_empty: "store_inv empty_db"
  by (simp add: store_inv_def empty_db_def schema_defs sessions_owned_def tools_closed_def
      tools_live_def codes_single_def codes_unowned_def)

lemma store_inv_step: "db_step d e \<Longrightarrow> store_inv d \<Longrightarrow> store_inv e"
  unfolding store_inv_def
  using db_step_schema step_sessions_owned step_tools_closed step_tools_live step_codes_single
    step_codes_unowned
  by blast

interpretation store: invariant_of "\<lambda>d. d = empty_db" db_step store_inv
  by unfold_locales (auto intro: store_inv_empty store_inv_step)

end
