(* ===== verification/Store_Runs.thy ===== *)
theory Store_Runs
  imports Store_Inv
begin

text \<open>
  What runs of store calls can do to one row: a revoked session stays revoked whatever is
  called after it, and a tool call only moves forward (undecided, decided, started,
  terminal) as long as its session is not deleted.  Each is a preorder that every
  \<open>db_step\<close> respects.
\<close>

subsection \<open>Revocation is final\<close>

definition revoked_le :: "AgentSession \<Rightarrow> AgentSession \<Rightarrow> bool" where
  "revoked_le s s' \<longleftrightarrow> as_id s' = as_id s \<and> as_user_id s' = as_user_id s \<and> as_device_id s' = as_device_id s \<and>
     (\<not> live s \<longrightarrow> \<not> live s')"

definition revoked_stay :: "db \<Rightarrow> db \<Rightarrow> bool" where
  "revoked_stay d e \<longleftrightarrow>
     rows_le revoked_le (filter (\<lambda>s. \<not> live s) (agent_sessions d)) (agent_sessions e)"

lemma revoked_le_refl [simp]: "revoked_le s s"
  by (simp add: revoked_le_def)

lemma revoked_stay_trans:
  assumes "revoked_stay d e" "revoked_stay e f"
  shows "revoked_stay d f"
  unfolding revoked_stay_def rows_le_def
proof
  fix s assume s: "s \<in> set (filter (\<lambda>s. \<not> live s) (agent_sessions d))"
  with assms(1) obtain s' where s': "s' \<in> set (agent_sessions e)" "revoked_le s s'"
    unfolding revoked_stay_def by (rule rows_leE)
  with s have "s' \<in> set (filter (\<lambda>s. \<not> live s) (agent_sessions e))" by (auto simp: revoked_le_def)
  with assms(2) obtain s'' where "s'' \<in> set (agent_sessions f)" "revoked_le s' s''"
    unfolding revoked_stay_def by (rule rows_leE)
  with s' show "\<exists>s' \<in> set (agent_sessions f). revoked_le s s'" by (auto simp: revoked_le_def)
qed

lemma revoked_stay_subset:
  "set (filter (\<lambda>s. \<not> live s) (agent_sessions d)) \<subseteq> set (agent_sessions e) \<Longrightarrow> revoked_stay d e"
  unfolding revoked_stay_def by (rule rows_le_subset) simp_all

lemma revoked_stay_frame: "agent_sessions e = agent_sessions d \<Longrightarrow> revoked_stay d e"
  by (rule revoked_stay_subset) simp

interpretation revocation: table_order revoked_stay
  by unfold_locales (rule revoked_stay_frame [OF refl], rule revoked_stay_trans)

lemma revoked_stay_upd:
  assumes "agent_sessions e = upd_rows p f (agent_sessions d)"
    and "\<And>s. p s \<Longrightarrow> revoked_le s (f s)"
  shows "revoked_stay d e"
proof -
  have "rows_le revoked_le (agent_sessions d) (upd_rows p f (agent_sessions d))"
    by (rule rows_le_upd) (auto simp: assms(2))
  then show ?thesis unfolding revoked_stay_def assms(1) rows_le_def by auto
qed

lemma step_revoked_stay: "db_step d e \<Longrightarrow> revoked_stay d e"
proof (induction rule: db_step.induct)
  case (device_unpaired u v now d)
  show ?case by (rule revoked_stay_upd [OF tab_unpaired(3)]) (auto simp: revoked_le_def live_def)
next
  case (session_created s d)
  show ?case by (rule revoked_stay_subset) (auto simp: tab)
next
  case (session_deleted u i d)
  show ?case by (rule revoked_stay_subset) (auto simp: tab del_rows_def dest: visible_live)
next
  case (tool_decided u k dc sid now d)
  show ?case by (rule revoked_stay_upd [OF tab_decided(3)]) (auto simp: revoked_le_def live_def)
next
  case (state_set u i st now d)
  show ?case
    by (rule revoked_stay_upd [OF tab_set_state(3)]) (auto simp: revoked_le_def dest!: owner_visible visible_live)
next
  case (turn_begun u i now d)
  show ?case
    by (rule revoked_stay_upd [OF tab_begin_turn(3)]) (auto simp: revoked_le_def dest!: owner_visible visible_live)
next
  case (mode_set u i m now d)
  show ?case by (rule revoked_stay_upd [OF tab_set_mode(3)]) (auto simp: revoked_le_def live_def)
next
  case (archived_set u i a now d)
  show ?case by (rule revoked_stay_upd [OF tab_set_archived(3)]) (auto simp: revoked_le_def live_def)
next
  case (external_set u i x now d)
  show ?case by (rule revoked_stay_upd [OF tab_set_external(3)]) (auto simp: revoked_le_def live_def)
qed (rule revoked_stay_frame; simp add: tab)+

subsection \<open>The life cycle of a tool call\<close>

definition same_call :: "ToolCall \<Rightarrow> ToolCall \<Rightarrow> bool" where
  "same_call t t' \<longleftrightarrow> tc_id t' = tc_id t \<and> tc_session_id t' = tc_session_id t \<and>
     tc_name t' = tc_name t \<and> tc_arguments_json t' = tc_arguments_json t \<and> tc_created_at t' = tc_created_at t"

definition tool_le :: "ToolCall \<Rightarrow> ToolCall \<Rightarrow> bool" where
  "tool_le t t' \<longleftrightarrow> same_call t t' \<and>
     (\<not> open_tool t \<longrightarrow> t' = t) \<and>
     (tc_decision t \<noteq> None \<longrightarrow> tc_decision t' = tc_decision t) \<and>
     (tc_status t = ToolCallStarted \<longrightarrow> tc_decision t' = tc_decision t \<and>
        tc_status t' \<in> {ToolCallStarted, ToolCallCompleted, ToolCallFailed}) \<and>
     (tc_status t = ToolCallPending \<and> tc_decision t = Some DecisionDeny \<longrightarrow>
        tc_status t' \<in> {ToolCallPending, ToolCallDenied, ToolCallFailed}) \<and>
     (tc_status t = ToolCallPending \<and> tc_decision t' = None \<longrightarrow>
        tc_status t' \<in> {ToolCallPending, ToolCallFailed})"

lemma tool_le_refl [simp]: "tool_le t t"
  by (auto simp: tool_le_def same_call_def open_tool_def)

lemma tool_le_closed: "tool_le t u \<Longrightarrow> \<not> open_tool t \<Longrightarrow> u = t"
  by (simp add: tool_le_def)

lemma tool_le_decision: "tool_le t u \<Longrightarrow> tc_decision t \<noteq> None \<Longrightarrow> tc_decision u = tc_decision t"
  by (simp add: tool_le_def)

lemma tool_le_started:
  "tool_le t u \<Longrightarrow> tc_status t = ToolCallStarted \<Longrightarrow> tc_decision u = tc_decision t \<and>
     tc_status u \<in> {ToolCallStarted, ToolCallCompleted, ToolCallFailed}"
  by (simp add: tool_le_def)

lemma tool_le_denied:
  "tool_le t u \<Longrightarrow> tc_status t = ToolCallPending \<Longrightarrow> tc_decision t = Some DecisionDeny \<Longrightarrow>
     tc_status u \<in> {ToolCallPending, ToolCallDenied, ToolCallFailed}"
  by (simp add: tool_le_def)

lemma tool_le_undecided:
  "tool_le t u \<Longrightarrow> tc_status t = ToolCallPending \<Longrightarrow> tc_decision u = None \<Longrightarrow>
     tc_status u \<in> {ToolCallPending, ToolCallFailed}"
  by (simp add: tool_le_def)

lemma tool_le_open:
  assumes tu: "tool_le t u" and uw: "tool_le u w" and o: "open_tool t" "open_tool u"
  shows "tool_le t w"
proof -
  have s: "tc_decision w = tc_decision t \<and> tc_status w \<in> {ToolCallStarted, ToolCallCompleted, ToolCallFailed}"
    if "tc_status t = ToolCallStarted"
  proof -
    have "tc_status u = ToolCallStarted" "tc_decision u = tc_decision t"
      using tool_le_started [OF tu that] o(2) by (auto simp: open_tool_def)
    with tool_le_started [OF uw] show ?thesis by simp
  qed
  have d: "tc_status w \<in> {ToolCallPending, ToolCallDenied, ToolCallFailed}"
    if "tc_status t = ToolCallPending" "tc_decision t = Some DecisionDeny"
  proof -
    have "tc_status u = ToolCallPending" "tc_decision u = Some DecisionDeny"
      using tool_le_denied [OF tu that] tool_le_decision [OF tu] that(2) o(2) by (auto simp: open_tool_def)
    then show ?thesis by (rule tool_le_denied [OF uw])
  qed
  have n: "tc_status w \<in> {ToolCallPending, ToolCallFailed}"
    if "tc_status t = ToolCallPending" "tc_decision w = None"
  proof -
    have u: "tc_decision u = None" using tool_le_decision [OF uw] that(2) by fastforce
    then have "tc_status u = ToolCallPending"
      using tool_le_undecided [OF tu that(1)] o(2) by (auto simp: open_tool_def)
    then show ?thesis using tool_le_undecided [OF uw] that(2) by simp
  qed
  have c: "same_call t w" using tu uw by (simp add: tool_le_def same_call_def)
  have "tc_decision t \<noteq> None \<Longrightarrow> tc_decision w = tc_decision t"
    using tool_le_decision [OF tu] tool_le_decision [OF uw] by simp
  with s d n c o(1) show ?thesis unfolding tool_le_def by simp
qed

lemma tool_le_trans:
  assumes tu: "tool_le t u" and uw: "tool_le u w"
  shows "tool_le t w"
proof (cases "open_tool t \<and> open_tool u")
  case False
  then consider "u = t" | "w = u" using tool_le_closed [OF tu] tool_le_closed [OF uw] by auto
  then show ?thesis using assms by cases simp_all
next
  case True
  then show ?thesis using tool_le_open [OF assms] by simp
qed

definition tools_forward :: "db \<Rightarrow> db \<Rightarrow> bool" where
  "tools_forward d e \<longleftrightarrow> rows_le tool_le (tool_calls d) (tool_calls e)"

lemma tools_forward_trans:
  assumes "tools_forward d e" "tools_forward e f"
  shows "tools_forward d f"
  unfolding tools_forward_def rows_le_def
proof
  fix t assume "t \<in> set (tool_calls d)"
  with assms(1) obtain t' where t': "t' \<in> set (tool_calls e)" "tool_le t t'"
    unfolding tools_forward_def by (rule rows_leE)
  from assms(2) t'(1) obtain t'' where "t'' \<in> set (tool_calls f)" "tool_le t' t''"
    unfolding tools_forward_def by (rule rows_leE)
  with tool_le_trans [OF t'(2)] show "\<exists>t' \<in> set (tool_calls f). tool_le t t'" by auto
qed

interpretation tool_life: table_order tools_forward
proof
  show "tools_forward d d" for d unfolding tools_forward_def by (rule rows_le_subset) simp_all
qed (rule tools_forward_trans)

text \<open>A step that deletes no session.\<close>

definition keep_step :: "db \<Rightarrow> db \<Rightarrow> bool" where
  "keep_step d e \<longleftrightarrow> db_step d e \<and> as_id ` set (agent_sessions d) \<subseteq> as_id ` set (agent_sessions e)"

lemma tools_forward_subset: "set (tool_calls d) \<subseteq> set (tool_calls e) \<Longrightarrow> tools_forward d e"
  unfolding tools_forward_def by (rule rows_le_subset) simp_all

lemma tools_forward_frame: "tool_calls e = tool_calls d \<Longrightarrow> tools_forward d e"
  by (simp add: tools_forward_subset)

lemma tools_forward_upd:
  assumes "tool_calls e = upd_rows p f (tool_calls d)" and "\<And>t. p t \<Longrightarrow> tool_le t (f t)"
  shows "tools_forward d e"
  unfolding tools_forward_def assms(1) by (rule rows_le_upd) (auto simp: assms(2))

lemma tools_forward_deleted:
  assumes "as_id ` set (agent_sessions d) \<subseteq> as_id ` set (agent_sessions (snd (delete_session u i d)))"
    and "schema_ok d"
  shows "tools_forward d (snd (delete_session u i d))"
proof -
  let ?p = "\<lambda>s. as_id s = i \<and> at_rest s \<and> agentSessionOwnershipPredicate d u s"
  have k: "distinct (map as_id (agent_sessions d))"
    using assms(2) by (simp add: schema_ok_def agent_sessions_ok_def)
  have "\<not> ?p s" if s: "s \<in> set (agent_sessions d)" for s
  proof
    assume "?p s"
    from assms(1) s have "as_id s \<in> as_id ` set (del_rows ?p (agent_sessions d))"
      unfolding tab_delete_session by (rule subsetD [OF _ imageI])
    then obtain s' where "s' \<in> set (agent_sessions d)" "as_id s' = as_id s" "\<not> ?p s'"
      by (rule del_rows_keyE)
    with key_inj [OF k _ s, of s'] \<open>?p s\<close> show False by simp
  qed
  then have "filter ?p (agent_sessions d) = []" by (simp add: filter_empty_conv)
  then have "tool_calls (snd (delete_session u i d)) = tool_calls d"
    by (simp add: delete_session_def delete_sessions_def Let_def del_rows_def)
  then show ?thesis by (rule tools_forward_frame)
qed

lemma tool_le_failed:
  "open_tool t \<Longrightarrow> tool_le t (t\<lparr>tc_status := ToolCallFailed, tc_exit_code := ec,
     tc_output_excerpt := x, tc_completed_at := c\<rparr>)"
  by (simp add: tool_le_def same_call_def)

lemma tools_forward_unpaired: "tools_forward d (unpaired u v now d)"
proof -
  let ?f = "\<lambda>t. t\<lparr>tc_status := ToolCallFailed, tc_exit_code := None,
    tc_output_excerpt := Some deviceUnpairedToolExcerpt, tc_completed_at := Some now\<rparr>"
  let ?p = "\<lambda>t. (tc_status t = ToolCallPending \<or> tc_status t = ToolCallStarted) \<and> tc_completed_at t = None \<and>
    (\<exists>s \<in> set (agent_sessions (snd (revoke_sessions u v now (snd (consume_codes v now d))))).
       as_id s = tc_session_id t \<and> session_of u v s)"
  have e: "tool_calls (unpaired u v now d) = upd_rows ?p ?f (tool_calls d)"
    unfolding unpaired_def terminalize_tools_def upd_tools_def by simp
  show ?thesis
    by (rule tools_forward_upd [OF e]) (rule tool_le_failed, simp add: open_tool_def)
qed

lemma step_tools_forward:
  "db_step d e \<Longrightarrow> as_id ` set (agent_sessions d) \<subseteq> as_id ` set (agent_sessions e) \<Longrightarrow> schema_ok d \<Longrightarrow>
   tools_forward d e"
proof (induction rule: db_step.induct)
  case (device_unpaired u v now d)
  show ?case by (rule tools_forward_unpaired)
next
  case (session_deleted u i d)
  show ?case by (rule tools_forward_deleted [OF session_deleted(2,3)])
next
  case (tool_created u t d)
  show ?case by (rule tools_forward_subset) (auto simp: tab)
next
  case (tool_decided u k dc sid now d)
  show ?case
    by (rule tools_forward_upd [OF tab_decided(4)])
       (auto simp: tool_le_def same_call_def open_tool_def undecided_def)
next
  case (tool_failed_undecided u k x now d)
  show ?case
    by (rule tools_forward_upd [OF tab_fail_undecided(4)])
       (auto simp: tool_le_def same_call_def open_tool_def undecided_def)
next
  case (tool_started u k d)
  show ?case
    by (rule tools_forward_upd [OF tab_start_tool(4)])
       (auto simp: tool_le_def same_call_def open_tool_def approved_def)
next
  case (tool_finished u k st ec x now d)
  show ?case
    by (rule tools_forward_upd [OF tab_finish_tool(4)])
       (use tool_finished(2) in \<open>auto simp: tool_le_def same_call_def open_tool_def finish_from_def split: if_splits\<close>)
qed (rule tools_forward_frame; simp add: tab)+

lemma run_tools_forward:
  assumes "keep_step\<^sup>*\<^sup>* d e" and "schema_ok d"
  shows "tools_forward d e \<and> schema_ok e"
  using assms(1)
proof (induction rule: rtranclp_induct)
  case base
  show ?case using assms(2) tool_life.Q_refl by simp
next
  case (step y z)
  then have "tools_forward y z" using step_tools_forward by (simp add: keep_step_def)
  with step show ?case
    using tool_life.Q_trans db_step_schema unfolding keep_step_def by blast
qed


subsection \<open>A pairing code is used once\<close>

definition code_le :: "PairingCode \<Rightarrow> PairingCode \<Rightarrow> bool" where
  "code_le c c' \<longleftrightarrow> pc_id c' = pc_id c \<and> pc_device_id c' = pc_device_id c \<and>
     pc_code_digest c' = pc_code_digest c \<and> pc_expires_at c' = pc_expires_at c \<and>
     (\<not> active c \<longrightarrow> c' = c)"

lemma code_le_refl [simp]: "code_le c c"
  by (simp add: code_le_def)

lemma code_le_trans: "code_le c c' \<Longrightarrow> code_le c' c'' \<Longrightarrow> code_le c c''"
  by (auto simp: code_le_def)

definition codes_forward :: "db \<Rightarrow> db \<Rightarrow> bool" where
  "codes_forward d e \<longleftrightarrow> rows_le code_le (pairing_codes d) (pairing_codes e)"

lemma codes_forward_subset: "set (pairing_codes d) \<subseteq> set (pairing_codes e) \<Longrightarrow> codes_forward d e"
  unfolding codes_forward_def by (rule rows_le_subset) simp_all

lemma codes_forward_trans:
  assumes "codes_forward d e" "codes_forward e f"
  shows "codes_forward d f"
  unfolding codes_forward_def rows_le_def
proof
  fix t assume "t \<in> set (pairing_codes d)"
  with assms(1) obtain t' where t': "t' \<in> set (pairing_codes e)" "code_le t t'"
    unfolding codes_forward_def by (rule rows_leE)
  from assms(2) t'(1) obtain t'' where "t'' \<in> set (pairing_codes f)" "code_le t' t''"
    unfolding codes_forward_def by (rule rows_leE)
  with code_le_trans [OF t'(2)] show "\<exists>t' \<in> set (pairing_codes f). code_le t t'" by auto
qed

interpretation code_life: table_order codes_forward
proof
  show "codes_forward d d" for d by (rule codes_forward_subset) simp
qed (rule codes_forward_trans)

lemma codes_forward_upd:
  assumes "pairing_codes e = upd_rows (\<lambda>c. p c \<and> pc_consumed_at c = None)
     (\<lambda>c. c\<lparr>pc_consumed_at := Some now\<rparr>) (pairing_codes d)"
  shows "codes_forward d e"
  unfolding codes_forward_def assms by (rule rows_le_upd) (auto simp: code_le_def active_def)

lemma codes_forward_offered: "codes_forward d (offered c now d)"
proof -
  let ?e = "d\<lparr>pairing_codes := upd_rows (\<lambda>x. pc_device_id x = pc_device_id c \<and> pc_consumed_at x = None)
    (\<lambda>c. c\<lparr>pc_consumed_at := Some now\<rparr>) (pairing_codes d)\<rparr>"
  have "codes_forward d ?e" by (rule codes_forward_upd) simp
  moreover have "codes_forward ?e (offered c now d)"
    by (rule codes_forward_subset) (simp add: tab subset_insertI)
  ultimately show ?thesis by (rule codes_forward_trans)
qed

lemma step_codes_forward: "db_step d e \<Longrightarrow> codes_forward d e"
proof (induction rule: db_step.induct)
  case (device_unpaired u v now d)
  show ?case by (rule codes_forward_upd [OF tab_unpaired(2)])
next
  case (code_offered c now d r)
  show ?case by (rule codes_forward_offered)
next
  case (code_claimed c u now d)
  show ?case by (rule codes_forward_upd [OF tab_claimed(2)])
qed (rule codes_forward_subset; simp add: tab)+

subsection \<open>Runs of calls\<close>

lemma store_run_steps: "store_op\<^sup>*\<^sup>* s t \<Longrightarrow> db_step\<^sup>*\<^sup>* (tables s) (tables t)"
proof (induction rule: rtranclp_induct)
  case base
  show ?case by simp
next
  case (step y z)
  from store_op_one_step [OF step(2)] step(3) show ?case
    by (auto simp: one_step_def intro: rtranclp.rtrancl_into_rtrancl)
qed

lemma run_preorder:
  assumes "store_op\<^sup>*\<^sup>* s t" and "\<And>d e. db_step d e \<Longrightarrow> Q d e" and "table_order Q"
  shows "Q (tables s) (tables t)"
  using store_run_steps [OF assms(1)]
  by (rule rtranclp_preorder [OF _ assms(2)]) (use assms(3) in \<open>auto simp: table_order_def step_order_def\<close>)

lemmas run_revoked_stay = run_preorder [OF _ step_revoked_stay revocation.table_order_axioms]
lemmas run_codes_forward = run_preorder [OF _ step_codes_forward code_life.table_order_axioms]

lemma run_inv: "store_op\<^sup>*\<^sup>* s t \<Longrightarrow> store_inv (tables s) \<Longrightarrow> store_inv (tables t)"
  using store_run_steps store.steps_inv by blast

lemma run_schema: "store_op\<^sup>*\<^sup>* s t \<Longrightarrow> schema_ok (tables s) \<Longrightarrow> schema_ok (tables t)"
proof -
  assume r: "store_op\<^sup>*\<^sup>* s t" and s: "schema_ok (tables s)"
  from store_run_steps [OF r] s show ?thesis
    by (induction rule: rtranclp_induct) (auto dest: db_step_schema)
qed

end
