(* ===== verification/Store_Props.thy ===== *)
theory Store_Props
  imports Store_Runs
begin

text \<open>
  What the callers of the store rely on: the outcome of a successful unpair, decision,
  claim and turn start under any pattern of statement failures, and the consequences of
  these outcomes along every later run.  \<open>ex_db\<close> is a small database the examples run on.
\<close>

subsection \<open>Outcome of successful calls\<close>

lemma unpair_success:
  assumes "UnpairDevice u v now s = (Inr ids, t)"
  shows "tables t = unpaired u v now (tables s) \<and> ids = revoked_ids u v (tables s) \<and>
    list_ex (owned_by u v) (devices (tables s)) \<and> schema_ok (tables t)"
proof -
  from assms [unfolded UnpairDevice_def, THEN tx_success] show ?thesis
    by (auto simp: revoked_ids_def unpaired_def split: if_splits
        elim!: query_InrE exec_InrE affected_InrE)
qed

lemma claim_success:
  assumes "ClaimPairing u dg now s = (Inr dev, t)"
  shows "\<exists>c \<in> set (pairing_codes (tables s)). pc_code_digest c = dg \<and> active c \<and> now < pc_expires_at c \<and>
    tables t = claimed c u now (tables s) \<and> fst (bind_device (pc_device_id c) u now (tables s)) = 1 \<and>
    dev \<in> set (devices (tables t)) \<and> d_id dev = pc_device_id c"
proof -
  from assms [unfolded ClaimPairing_def, THEN tx_success] obtain s0 y where
    s0: "tables s0 = tables s" "tables t = tables y" and
    q: "ebind (sql_query ''find pairing code'' (\<lambda>d. find (\<lambda>c. pc_code_digest c = dg) (pairing_codes d)))
      (\<lambda>row. case row of None \<Rightarrow> ethrow ErrPairingInvalid
        | Some c \<Rightarrow> if pc_consumed_at c \<noteq> None then ethrow ErrPairingInvalid
            else if \<not> now < pc_expires_at c then ethrow ErrPairingExpired
            else ebind (sql_exec ''bind pairing device'' (bind_device (pc_device_id c) u now)) (\<lambda>result.
                 ebind (rows_affected ''inspect pairing device binding'' result) (\<lambda>affected.
                 if affected \<noteq> 1 then ethrow ErrConflict
                 else ebind (sql_exec ''consume pairing code'' (consume_code (pc_id c) now)) (\<lambda>result.
                 ebind (rows_affected ''inspect pairing code consumption'' result) (\<lambda>affected.
                 if affected \<noteq> 1 then ethrow ErrPairingInvalid
                 else ebind (sql_query ''scan device''
                        (\<lambda>d. find (\<lambda>r. d_id r = pc_device_id c) (devices d))) scanDevice))))) s0 = (Inr dev, y)"
    by blast
  from q obtain c where c: "find (\<lambda>c. pc_code_digest c = dg) (pairing_codes (tables s)) = Some c"
    and "active c \<and> now < pc_expires_at c \<and> tables y = claimed c u now (tables s) \<and>
      fst (bind_device (pc_device_id c) u now (tables s)) = 1 \<and>
      find (\<lambda>r. d_id r = pc_device_id c) (devices (tables y)) = Some dev"
    by (auto elim!: query_InrE exec_InrE affected_InrE
        simp: s0 claimed_def scanDevice_def active_def split: if_splits option.splits)
  with s0(2) find_SomeD [OF c] show ?thesis by (auto dest!: find_SomeD)
qed

lemma count_one_row: "count_rows p rs = Suc 0 \<Longrightarrow> \<exists>r \<in> set rs. p r"
  by (metis count_rows_0 nat.distinct(1))

lemma decide_success:
  assumes "DecideAgentToolCall u k dc now s = (Inr r, t)"
  shows "dc \<in> decisions \<and> (\<exists>row \<in> set (tool_calls (tables s)). tc_id row = k \<and> undecided row \<and>
      agentToolOwnerPredicate (tables s) u row) \<and> (\<exists>sid. tables t = decided u k dc sid now (tables s))"
proof -
  have dc: "dc \<in> decisions"
    using assms by (auto simp: DecideAgentToolCall_def decisions_def split: if_splits)
  have "fst (record_decision u k dc (tables s)) = 1 \<and> (\<exists>sid. tables t = decided u k dc sid now (tables s))"
    using assms unfolding DecideAgentToolCall_def agent_queries
    by (elim guarded_InrE tx_successE exec_InrE try_one_InrE)
       (auto simp: ebind_assoc requireOneRow_def decided_def Let_def split: if_splits option.splits sum.splits
         elim!: query_InrE exec_InrE affected_InrE, rule exI, rule refl)
  then show ?thesis
    using dc count_one_row by (fastforce simp: record_decision_def upd_tools_def)
qed

lemma fail_pending_outcome:
  assumes "FailPendingAgentToolCall u k x now s = (Inr out, t)"
  shows "tables t = snd (fail_undecided u k x now (tables s)) \<and>
    (case out of FailedNow row \<Rightarrow> fst (fail_undecided u k x now (tables s)) = 1
     | FailConflict row \<Rightarrow> True) \<and>
    (case out of FailedNow row \<Rightarrow> row \<in> set (tool_calls (tables t)) \<and> tc_id row = k
     | FailConflict row \<Rightarrow> row \<in> set (tool_calls (tables t)) \<and> tc_id row = k)"
  using assms unfolding FailPendingAgentToolCall_def agent_queries
  by (elim guarded_InrE exec_InrE try_one_InrE)
     (auto simp: ebind_assoc split: option.splits sum.splits elim!: query_InrE dest!: find_SomeD)

lemma turn_success:
  assumes "BeginAgentTurn u i now s = (Inr x, t)"
  shows "tables t = snd (begin_turn u i now (tables s)) \<and> fst (begin_turn u i now (tables s)) = 1"
  using assms unfolding BeginAgentTurn_def agent_queries
  by (elim exec_InrE affected_InrE)
     (auto simp: ebind_assoc split: if_splits option.splits elim!: query_InrE)


subsection \<open>Consequences\<close>

lemma tools_key: "schema_ok d \<Longrightarrow> distinct (map tc_id (tool_calls d))"
  by (simp add: schema_ok_def tool_calls_ok_def)

lemma sessions_key: "schema_ok d \<Longrightarrow> distinct (map as_id (agent_sessions d))"
  by (simp add: schema_ok_def agent_sessions_ok_def)

lemma codes_key: "schema_ok d \<Longrightarrow> distinct (map pc_code_digest (pairing_codes d))"
  by (simp add: schema_ok_def pairing_codes_ok_def)

text \<open>The one row a later state has for a tool call that is present now.\<close>

lemma later_row:
  assumes "keep_step\<^sup>*\<^sup>* d e" "schema_ok d" "row \<in> set (tool_calls d)"
  obtains row' where "row' \<in> set (tool_calls e)" "tool_le row row'"
    "\<forall>x \<in> set (tool_calls e). tc_id x = tc_id row \<longrightarrow> x = row'"
proof -
  from run_tools_forward [OF assms(1,2)] have f: "rows_le tool_le (tool_calls d) (tool_calls e)"
    and sch: "schema_ok e" by (auto simp: tools_forward_def)
  from f assms(3) obtain row' where r: "row' \<in> set (tool_calls e)" "tool_le row row'" by (rule rows_leE)
  then have i: "tc_id row' = tc_id row" by (simp add: tool_le_def same_call_def)
  have "x = row'" if "x \<in> set (tool_calls e)" "tc_id x = tc_id row" for x
    by (rule key_inj [OF tools_key [OF sch] that(1) r(1)]) (simp add: that(2) i)
  then show thesis by (intro that [OF r] ballI impI)
qed

lemma decided_row:
  assumes "row \<in> set (tool_calls d)" "tc_id row = k" "undecided row" "agentToolOwnerPredicate d u row"
  shows "row\<lparr>tc_decision := Some dc\<rparr> \<in> set (tool_calls (decided u k dc sid now d))"
  unfolding tab using assms by (intro upd_rows_changed) auto

lemma no_update_when_decided:
  assumes "\<And>x. x \<in> set (tool_calls d) \<Longrightarrow> tc_id x = k \<Longrightarrow> \<not> undecided x"
  shows "fail_undecided u k x now d = (0, d)" "record_decision u k dc d = (0, d)"
proof -
  have z: "count_rows (\<lambda>t. tc_id t = k \<and> undecided t \<and> agentToolOwnerPredicate d u t) (tool_calls d) = 0"
    using assms by auto
  show "fail_undecided u k x now d = (0, d)" "record_decision u k dc d = (0, d)"
    unfolding fail_undecided_def record_decision_def upd_tools_def z upd_rows_none [OF z] by simp_all
qed

lemma one_claim:
  assumes "ClaimPairing u dg now s = (Inr dev, t)" "schema_ok (tables s)" "store_op\<^sup>*\<^sup>* t s'"
  shows "\<exists>c \<in> set (pairing_codes (tables s')). pc_code_digest c = dg \<and> \<not> active c"
proof -
  obtain c where c: "c \<in> set (pairing_codes (tables s))" "pc_code_digest c = dg" "active c"
    "tables t = claimed c u now (tables s)"
    using claim_success [OF assms(1)] by blast
  then have "c\<lparr>pc_consumed_at := Some now\<rparr> \<in> set (pairing_codes (tables t))"
    unfolding c(4) tab by (intro upd_rows_changed [where f = "\<lambda>c. c\<lparr>pc_consumed_at := Some now\<rparr>"]) (auto simp: active_def)
  with run_codes_forward [OF assms(3)] obtain c' where
    "c' \<in> set (pairing_codes (tables s'))" "code_le (c\<lparr>pc_consumed_at := Some now\<rparr>) c'"
    unfolding codes_forward_def by (rule rows_leE)
  with c(2) show ?thesis by (auto simp: code_le_def active_def)
qed

lemma invisible_revoked:
  assumes "schema_ok d" "a \<in> set (agent_sessions d)" "\<not> live a"
  shows "find (\<lambda>s. as_id s = as_id a \<and> agentSessionOwnershipPredicate d u s) (agent_sessions d) = None"
  unfolding find_None_ball
proof
  fix s assume "s \<in> set (agent_sessions d)"
  with key_inj [OF sessions_key [OF assms(1)] _ assms(2)] visible_live assms(3)
  show "\<not> (as_id s = as_id a \<and> agentSessionOwnershipPredicate d u s)" by blast
qed

lemma islI: "(\<And>x t. m s = (Inr x, t) \<Longrightarrow> False) \<Longrightarrow> isl (fst (m s))"
  by (metis prod.collapse sum.collapse(2))

text \<open>A method on an invisible session finds no row to update and no row to read.\<close>

lemma by_owner_success:
  "AgentSessionByOwner u i s = (Inr x, t) \<Longrightarrow>
     x \<in> set (agent_sessions (tables s)) \<and> as_id x = i \<and> agentSessionOwnerPredicate (tables s) u x"
  unfolding agent_queries
  by (erule query_InrE) (auto split: option.splits dest!: find_SomeD)

lemma archived_success:
  "SetAgentSessionArchived u i b now s = (Inr x, t) \<Longrightarrow>
     \<exists>a \<in> set (agent_sessions (tables s)). as_id a = i \<and> agentSessionOwnershipPredicate (tables s) u a"
  unfolding SetAgentSessionArchived_def agent_queries Let_def
  by (elim exec_InrE affected_InrE)
     (auto simp: ebind_assoc set_archived_def upd_sessions_def count_rows_def filter_empty_conv length_Suc_conv
       filter_eq_Cons_iff split: if_splits option.splits elim!: query_InrE)

lemma invisible_session:
  assumes "schema_ok (tables s)" "a \<in> set (agent_sessions (tables s))" "\<not> live a"
  shows "isl (fst (AgentSessionByOwner u (as_id a) s))"
    "isl (fst (BeginAgentTurn u (as_id a) now s))"
    "isl (fst (SetAgentSessionArchived u (as_id a) b now s))"
proof -
  have no: False if "x \<in> set (agent_sessions (tables s))" "as_id x = as_id a"
    "agentSessionOwnershipPredicate (tables s) u x" for x
    using key_inj [OF sessions_key [OF assms(1)] that(1) assms(2)] that(2,3) assms(3) visible_live by auto
  show "isl (fst (AgentSessionByOwner u (as_id a) s))"
    by (rule islI) (use no owner_visible in \<open>auto dest!: by_owner_success\<close>)
  show "isl (fst (BeginAgentTurn u (as_id a) now s))"
  proof (rule islI)
    fix x t assume "BeginAgentTurn u (as_id a) now s = (Inr x, t)"
    from turn_success [OF this] obtain y where "y \<in> set (agent_sessions (tables s))" "as_id y = as_id a"
      "agentSessionOwnerPredicate (tables s) u y"
      unfolding begin_turn_def upd_sessions_def by (auto dest!: count_one_row)
    with no owner_visible show False by auto
  qed
  show "isl (fst (SetAgentSessionArchived u (as_id a) b now s))"
    by (rule islI) (use no in \<open>auto dest!: archived_success\<close>)
qed

text \<open>The methods that need a session at rest.\<close>

lemma mode_success:
  "UpdateAgentSessionApprovalMode u i m now s = (Inr x, t) \<Longrightarrow> fst (set_mode u i m now (tables s)) = Suc 0"
  unfolding UpdateAgentSessionApprovalMode_def agent_queries
  by (elim guarded_InrE exec_InrE affected_InrE)
     (auto simp: ebind_assoc split: if_splits option.splits elim!: query_InrE)

lemma archived_success_one:
  "SetAgentSessionArchived u i b now s = (Inr x, t) \<Longrightarrow>
     \<exists>a. fst (set_archived u i a now (tables s)) = Suc 0"
  unfolding SetAgentSessionArchived_def agent_queries Let_def
  by (elim exec_InrE affected_InrE)
     (auto simp: ebind_assoc split: if_splits option.splits elim!: query_InrE)

lemma delete_success:
  "DeleteAgentSessionByOwner u i s = (Inr x, t) \<Longrightarrow> fst (delete_session u i (tables s)) = Suc 0"
  unfolding DeleteAgentSessionByOwner_def agent_queries
  by (elim tx_successE) (auto simp: ebind_assoc split: if_splits option.splits
      elim!: query_InrE exec_InrE affected_InrE)

lemma not_at_rest:
  assumes "\<And>y. y \<in> set (agent_sessions (tables s)) \<Longrightarrow> as_id y = i \<Longrightarrow> \<not> at_rest y"
  shows "isl (fst (BeginAgentTurn u i now s))" "isl (fst (UpdateAgentSessionApprovalMode u i m now s))"
    "isl (fst (SetAgentSessionArchived u i b now s))" "isl (fst (DeleteAgentSessionByOwner u i s))"
proof -
  have z: "count_rows (\<lambda>s. as_id s = i \<and> at_rest s \<and> q s) (agent_sessions (tables s)) = 0" for q
    using assms by auto
  note defs = begin_turn_def set_mode_def set_archived_def delete_session_def upd_sessions_def
    delete_sessions_def Let_def fst_conv
  have none: "fst (begin_turn u i now (tables s)) = 0" "fst (set_mode u i m now (tables s)) = 0"
    "fst (set_archived u i a now (tables s)) = 0" "fst (delete_session u i (tables s)) = 0" for a
    by (simp_all only: defs z)
  show "isl (fst (BeginAgentTurn u i now s))"
    by (rule islI, drule turn_success) (simp add: none)
  show "isl (fst (UpdateAgentSessionApprovalMode u i m now s))"
    by (rule islI, drule mode_success) (simp add: none)
  show "isl (fst (SetAgentSessionArchived u i b now s))"
    by (rule islI, drule archived_success_one) (simp add: none)
  show "isl (fst (DeleteAgentSessionByOwner u i s))"
    by (rule islI, drule delete_success) (simp add: none)
qed

lemma sorted_fst_key: "sorted (map f (sort_key (\<lambda>x. (f x, g x)) xs))"
  for f :: "'a \<Rightarrow> 'b :: linorder" and g :: "'a \<Rightarrow> 'c :: linorder"
proof -
  have "sorted_wrt (\<lambda>x y. (f x, g x) \<le> (f y, g y)) (sort_key (\<lambda>x. (f x, g x)) xs)"
    using sorted_sort_key [of "\<lambda>x. (f x, g x)" xs] by (simp add: sorted_map)
  then have "sorted_wrt (\<lambda>x y. f x \<le> f y) (sort_key (\<lambda>x. (f x, g x)) xs)"
    by (rule sorted_wrt_mono_rel [rotated]) (auto simp: less_eq_prod_def)
  then show ?thesis by (simp add: sorted_map)
qed

text \<open>The one row of the device is the one its owner releases.\<close>

lemma unpaired_owner:
  assumes "schema_ok d" "list_ex (owned_by u v) (devices d)" "r \<in> set (devices d)" "d_id r = v"
  shows "owned_by u v r"
proof -
  from assms(2) obtain r' where "r' \<in> set (devices d)" "owned_by u v r'" by (auto simp: list_ex_iff)
  with key_inj [OF devices_key [OF assms(1)] assms(3), of r'] assms(4) show ?thesis
    by (simp add: owned_by_def)
qed

lemma filter_upd_other:
  "(\<And>r. p r \<Longrightarrow> \<not> q r) \<Longrightarrow> (\<And>r. p r \<Longrightarrow> \<not> q (f r)) \<Longrightarrow> filter q (upd_rows p f rs) = filter q rs"
  by (induction rs) (auto simp: upd_rows_def)

subsection \<open>A database for the examples\<close>

definition ex_db :: db where
  "ex_db = \<lparr>users = [\<lparr>u_id = ''usr_1'', u_username = ''admin'', u_password_hash = ''h'', u_created_at = 1\<rparr>],
     web_sessions = [],
     devices = [\<lparr>d_id = ''dev_1'', d_public_key = ''k1'', d_owner_user_id = Some ''usr_1'', d_name = ''box'',
        d_platform = ''linux'', d_arch = ''amd64'', d_client_version = ''1'', d_created_at = 1,
        d_paired_at = Some 2, d_last_seen_at = None\<rparr>,
       \<lparr>d_id = ''dev_2'', d_public_key = ''k2'', d_owner_user_id = None, d_name = ''lap'',
        d_platform = ''linux'', d_arch = ''amd64'', d_client_version = ''1'', d_created_at = 1,
        d_paired_at = None, d_last_seen_at = None\<rparr>],
     pairing_codes = [\<lparr>pc_id = ''pair_1'', pc_device_id = ''dev_2'', pc_code_digest = ''g'',
        pc_expires_at = 100, pc_consumed_at = None, pc_created_at = 2\<rparr>],
     agent_sessions = [\<lparr>as_id = ''ses_1'', as_user_id = ''usr_1'', as_device_id = ''dev_1'',
        as_approval_mode = ''per_command'', as_provider = ''fake'', as_external_session_id = None,
        as_state = ''idle'', as_created_at = 3, as_updated_at = 3, as_archived_at = None\<rparr>],
     agent_messages = [\<lparr>am_id = ''msg_1'', am_session_id = ''ses_1'', am_role = ''user'',
        am_content = ''hi'', am_created_at = 4\<rparr>],
     tool_calls = [\<lparr>tc_id = ''tool_1'', tc_session_id = ''ses_1'', tc_name = ''remote_exec'',
        tc_arguments_json = ''{}'', tc_status = ''pending'', tc_decision = None, tc_exit_code = None,
        tc_output_excerpt = None, tc_created_at = 5, tc_completed_at = None\<rparr>],
     agent_user_settings = [], audit_events = []\<rparr>"

definition ex_st :: dbst where
  "ex_st = \<lparr>tables = ex_db, faults = []\<rparr>"

lemma ex_inv: "store_inv ex_db" "schema_ok ex_db"
proof -
  show "schema_ok ex_db"
    by (simp add: ex_db_def schema_defs validApprovalMode_def mode_consts)
  then show "store_inv ex_db"
    by (simp add: store_inv_def sessions_owned_def tools_closed_def tools_live_def codes_single_def
        codes_unowned_def) (simp add: ex_db_def device_owned_def owned_by_def open_tool_def live_def active_def
        status_consts state_consts)
qed

lemma ex_tables [simp]: "tables ex_st = ex_db" "faults ex_st = []"
  by (simp_all add: ex_st_def)


lemma succeeds: "\<not> isl (fst (m s)) \<Longrightarrow> \<exists>r. m s = (Inr r, snd (m s))"
  by (metis prod.collapse sum.collapse(2))

abbreviation ex_decide :: "(ToolCall \<times> AgentSession) dbm" where
  "ex_decide \<equiv> DecideAgentToolCall ''usr_1'' ''tool_1'' ''approve_session'' 6"

lemma ex_decide_ok: "\<not> isl (fst (ex_decide ex_st))"
  by code_simp

lemma ex_claim_ok: "\<not> isl (fst (ClaimPairing ''usr_1'' ''g'' 7 ex_st))"
  by code_simp

lemma ex_unpair_ok: "UnpairDevice ''usr_1'' ''dev_1'' 8 ex_st = (Inr [''ses_1''], snd (UnpairDevice ''usr_1'' ''dev_1'' 8 ex_st))"
  by (rule prod_eqI) (code_simp, simp)


lemma ex_fail_ok: "\<not> isl (fst (FailPendingAgentToolCall ''usr_1'' ''tool_1'' ''timeout'' 6 ex_st)) \<and>
    is_FailedNow (projr (fst (FailPendingAgentToolCall ''usr_1'' ''tool_1'' ''timeout'' 6 ex_st)))"
  by code_simp

lemma ex_fail_after: "\<not> isl (fst (FailPendingAgentToolCall ''usr_1'' ''tool_1'' ''timeout'' 9 (snd (ex_decide ex_st))))"
  by code_simp

subsection \<open>Properties\<close>



text \<open>
  C6: Along every run of store calls from an empty database, whatever fails, the
  constraints of the schema hold, every live agent session belongs to the owner of its
  device, a tool call has a completion time exactly when it is terminal, no open tool
  call sits in a revoked session, a device has at most one active pairing code, and a
  device with an owner has none.
\<close>

theorem store_invariant:
  assumes "store_op\<^sup>*\<^sup>* s t" and "tables s = empty_db"
  shows "store_inv (tables t)"
  using run_inv [OF assms(1)] store_inv_empty assms(2) by simp

theorem store_invariant_witness:
  "store_inv (tables (snd (BootstrapAdmin ''usr_1'' ''admin'' ''h'' 1 \<lparr>tables = empty_db, faults = [True]\<rparr>)))"
  by (rule store_invariant [of "\<lparr>tables = empty_db, faults = [True]\<rparr>"],
      rule r_into_rtranclp, rule store_op.intros(1), rule surjective_pairing, simp)

text \<open>
  C7: A successful unpair, under any pattern of statement failures, leaves the device
  with no owner and no active pairing code, has revoked every agent session the user had
  on it (and returns exactly their ids, in order), has closed every open tool call of
  these sessions, and has not changed any other device or session.
\<close>

theorem UnpairDevice_effect:
  assumes "UnpairDevice u v now s = (Inr ids, t)" and "store_inv (tables s)"
  shows "(\<forall>r \<in> set (devices (tables t)). d_id r = v \<longrightarrow> d_owner_user_id r = None) \<and>
    (\<forall>c \<in> set (pairing_codes (tables t)). pc_device_id c = v \<longrightarrow> \<not> active c) \<and>
    (\<forall>a \<in> set (agent_sessions (tables t)). session_of u v a \<longrightarrow> as_state a = AgentSessionRevoked) \<and>
    (\<forall>x \<in> set (tool_calls (tables t)). open_tool x \<longrightarrow>
       \<not> (\<exists>a \<in> set (agent_sessions (tables s)). as_id a = tc_session_id x \<and> session_of u v a)) \<and>
    ids = sort (map as_id (filter (session_of u v) (agent_sessions (tables s)))) \<and>
    filter (\<lambda>r. d_id r \<noteq> v) (devices (tables t)) = filter (\<lambda>r. d_id r \<noteq> v) (devices (tables s)) \<and>
    filter (\<lambda>a. \<not> session_of u v a) (agent_sessions (tables t)) =
      filter (\<lambda>a. \<not> session_of u v a) (agent_sessions (tables s))"
proof -
  let ?d = "tables s"
  have t: "tables t = unpaired u v now ?d" "ids = revoked_ids u v ?d" "list_ex (owned_by u v) (devices ?d)"
    using unpair_success [OF assms(1)] by auto
  have sch: "schema_ok ?d" "tools_closed ?d" using assms(2) by (auto simp: store_inv_def)
  have 1: "d_owner_user_id r = None" if r: "r \<in> set (devices (unpaired u v now ?d))" "d_id r = v" for r
    using r(1) unfolding tab by (rule upd_rowsE) (use r(2) unpaired_owner [OF sch(1) t(3)] in auto)
  have 2: "\<not> active c" if c: "c \<in> set (pairing_codes (unpaired u v now ?d))" "pc_device_id c = v" for c
    using c(1) unfolding tab by (rule upd_rowsE) (use c(2) in \<open>auto simp: active_def\<close>)
  have 3: "as_state a = AgentSessionRevoked" if "a \<in> set (agent_sessions (unpaired u v now ?d))" "session_of u v a" for a
    using that(1) unfolding tab by (rule upd_rowsE) (use that(2) in auto)
  have 4: "\<not> (\<exists>a \<in> set (agent_sessions ?d). as_id a = tc_session_id x \<and> session_of u v a)"
    if "x \<in> set (tool_calls (unpaired u v now ?d))" "open_tool x" for x
    using tools_unpaired_open [OF that sch(2)] by simp
  have 5: "filter (\<lambda>r. d_id r \<noteq> v) (devices (unpaired u v now ?d)) = filter (\<lambda>r. d_id r \<noteq> v) (devices ?d)"
    unfolding tab by (rule filter_upd_other) (auto simp: owned_by_def)
  have 6: "filter (\<lambda>a. \<not> session_of u v a) (agent_sessions (unpaired u v now ?d)) =
      filter (\<lambda>a. \<not> session_of u v a) (agent_sessions ?d)"
    unfolding tab by (rule filter_upd_other) (auto simp: session_of_def)
  show ?thesis
    unfolding t(1) t(2) revoked_ids_def 5 6 by (intro conjI ballI impI 1 2 3 4 refl)
qed

theorem UnpairDevice_effect_witness:
  "d_owner_user_id (hd (devices (tables (snd (UnpairDevice ''usr_1'' ''dev_1'' 8 ex_st))))) = None"
proof -
  let ?r = "hd (devices (tables (snd (UnpairDevice ''usr_1'' ''dev_1'' 8 ex_st))))"
  have "?r \<in> set (devices (tables (snd (UnpairDevice ''usr_1'' ''dev_1'' 8 ex_st))))" "d_id ?r = ''dev_1''"
    by code_simp+
  with UnpairDevice_effect [OF ex_unpair_ok] ex_inv show ?thesis by simp
qed

text \<open>
  C13: A revoked agent session is never usable again: after any run of store calls,
  including calls that pair the device anew with the same user, no user can read it,
  start a turn in it, or manage it.
\<close>

theorem revoked_session_is_final:
  assumes "store_op\<^sup>*\<^sup>* s t" and "schema_ok (tables s)"
    and "a \<in> set (agent_sessions (tables s))" and "as_state a = AgentSessionRevoked"
  shows "isl (fst (AgentSessionByOwner u (as_id a) t)) \<and> isl (fst (BeginAgentTurn u (as_id a) now t)) \<and>
    isl (fst (SetAgentSessionArchived u (as_id a) b now t))"
proof -
  have "a \<in> set (filter (\<lambda>s. \<not> live s) (agent_sessions (tables s)))"
    using assms(3,4) by (simp add: live_def)
  with run_revoked_stay [OF assms(1)] obtain a' where
    a': "a' \<in> set (agent_sessions (tables t))" "revoked_le a a'"
    unfolding revoked_stay_def by (rule rows_leE)
  then have l: "\<not> live a'" "as_id a' = as_id a" using assms(4) by (auto simp: revoked_le_def live_def)
  show ?thesis
    using invisible_session [OF run_schema [OF assms(1,2)] a'(1) l(1), unfolded l(2)] by blast
qed

theorem revoked_session_is_final_witness:
  "let s = snd (UnpairDevice ''usr_1'' ''dev_1'' 8 ex_st) in
   \<exists>a \<in> set (agent_sessions (tables s)). as_state a = AgentSessionRevoked \<and>
     isl (fst (BeginAgentTurn ''usr_1'' (as_id a) 9 s))"
proof -
  let ?s = "snd (UnpairDevice ''usr_1'' ''dev_1'' 8 ex_st)"
  let ?a = "hd (agent_sessions (tables ?s))"
  have "?a \<in> set (agent_sessions (tables ?s))" "as_state ?a = AgentSessionRevoked" by code_simp+
  with revoked_session_is_final [of ?s ?s ?a "''usr_1''" 9] unpair_success [OF ex_unpair_ok]
  show ?thesis unfolding Let_def by auto
qed



text \<open>
  Conversely, once the abandonment is recorded, no later decision succeeds: the call
  stays failed and the session is never upgraded to full access by it.
\<close>

theorem timeout_beats_decision:
  assumes "FailPendingAgentToolCall u k x now s = (Inr (FailedNow row0), t)" and "schema_ok (tables s)"
    and "keep_step\<^sup>*\<^sup>* (tables t) (tables s')"
  shows "isl (fst (DecideAgentToolCall u' k dc now' s'))"
proof (rule islI)
  fix r t' assume d: "DecideAgentToolCall u' k dc now' s' = (Inr r, t')"
  obtain row where row: "row \<in> set (tool_calls (tables s))" "tc_id row = k" "undecided row"
    "agentToolOwnerPredicate (tables s) u row"
    using fail_pending_outcome [OF assms(1)] unfolding fail_undecided_def upd_tools_def
    by (auto dest!: count_one_row)
  let ?f = "\<lambda>t. t\<lparr>tc_status := ToolCallFailed, tc_output_excerpt := Some x, tc_completed_at := Some now\<rparr>"
  have sch: "schema_ok (tables t)"
    using op_fail_pending [OF assms(1)] assms(2) by (auto simp: one_step_def dest: db_step_schema)
  have "?f row \<in> set (tool_calls (tables t))"
    using fail_pending_outcome [OF assms(1)] row
    by (simp add: tab_fail_undecided) (rule upd_rows_changed [where f = ?f], auto)
  from later_row [OF assms(3) sch this] obtain row' where
    r: "row' \<in> set (tool_calls (tables s'))" "tool_le (?f row) row'"
    and u': "\<forall>x \<in> set (tool_calls (tables s')). tc_id x = tc_id (?f row) \<longrightarrow> x = row'" .
  have u: "x \<in> set (tool_calls (tables s')) \<Longrightarrow> tc_id x = k \<Longrightarrow> x = row'" for x
    using u' row(2) by simp
  have "row' = ?f row" by (rule tool_le_closed [OF r(2)]) (simp add: open_tool_def)
  moreover obtain y where "y \<in> set (tool_calls (tables s'))" "tc_id y = k" "undecided y"
    using decide_success [OF d] by blast
  ultimately show False using u [of y] by (simp add: undecided_def)
qed

theorem timeout_beats_decision_witness:
  "isl (fst (DecideAgentToolCall ''usr_1'' ''tool_1'' ''approve_session'' 9
     (snd (FailPendingAgentToolCall ''usr_1'' ''tool_1'' ''timeout'' 6 ex_st))))"
  using timeout_beats_decision [OF _ _ rtranclp.rtrancl_refl] ex_fail_ok ex_inv
    succeeds [of "FailPendingAgentToolCall ''usr_1'' ''tool_1'' ''timeout'' 6" ex_st]
  by (metis ex_tables(1) fail_pending.exhaust_disc fail_pending.collapse(1) fst_conv sum.sel(2))


text \<open>
  A tool call only moves forward.  As long as its session is not deleted, every
  later state of the tables has a row for it with the same name, arguments and session;
  a recorded decision never changes, a started call never becomes pending or denied, a
  denied call is never executed, a call is only started after a decision unless it was
  created as started, and a terminal row never changes again.
\<close>

theorem tool_call_moves_forward:
  assumes "keep_step\<^sup>*\<^sup>* d e" and "schema_ok d" and "row \<in> set (tool_calls d)"
  shows "\<exists>row' \<in> set (tool_calls e). tc_id row' = tc_id row \<and> tool_le row row' \<and>
    (\<forall>x \<in> set (tool_calls e). tc_id x = tc_id row \<longrightarrow> x = row')"
proof -
  from later_row [OF assms] obtain row' where r: "row' \<in> set (tool_calls e)" "tool_le row row'"
    "\<forall>x \<in> set (tool_calls e). tc_id x = tc_id row \<longrightarrow> x = row'" .
  then show ?thesis by (auto simp: tool_le_def same_call_def intro!: bexI [of _ row'])
qed

theorem tool_call_moves_forward_witness:
  "\<exists>row' \<in> set (tool_calls ex_db). tc_id row' = ''tool_1'' \<and> tool_le (hd (tool_calls ex_db)) row'"
  using tool_call_moves_forward [OF rtranclp.rtrancl_refl ex_inv(2), of "hd (tool_calls ex_db)"]
  by (auto simp: ex_db_def)

text \<open>
  C14: A pairing code pairs one device once.  A successful claim found an unconsumed,
  unexpired code of a device without an owner and made the claimant its owner; every
  later claim with that code fails, whoever makes it and whatever was called in between.
\<close>

theorem claim_once:
  assumes "ClaimPairing u dg now s = (Inr dev, t)" and "store_inv (tables s)" and "store_op\<^sup>*\<^sup>* t s'"
  shows "d_owner_user_id dev = Some u \<and>
    (\<exists>r \<in> set (devices (tables s)). d_id r = d_id dev \<and> d_owner_user_id r = None) \<and>
    (\<exists>c \<in> set (pairing_codes (tables s)). pc_code_digest c = dg \<and> pc_device_id c = d_id dev \<and>
       pc_consumed_at c = None \<and> now < pc_expires_at c) \<and>
    isl (fst (ClaimPairing u' dg now' s'))"
proof -
  have sch: "schema_ok (tables s)" using assms(2) by (simp add: store_inv_def)
  obtain c where c: "c \<in> set (pairing_codes (tables s))" "pc_code_digest c = dg" "active c" "now < pc_expires_at c"
    "tables t = claimed c u now (tables s)" "fst (bind_device (pc_device_id c) u now (tables s)) = 1"
    "dev \<in> set (devices (tables t))" "d_id dev = pc_device_id c"
    using claim_success [OF assms(1)] by blast
  obtain r where r: "r \<in> set (devices (tables s))" "d_id r = pc_device_id c" "d_owner_user_id r = None"
    using c(6) unfolding bind_device_def upd_devices_def by (auto dest!: count_one_row)
  have "d_owner_user_id dev = Some u"
    using c(7) unfolding c(5) tab
  proof (cases rule: upd_rowsE)
    case (changed x)
    then show ?thesis by simp
  next
    case kept
    with key_inj [OF devices_key [OF sch] kept(1) r(1)] c(8) r(2,3) show ?thesis by simp
  qed
  moreover have "isl (fst (ClaimPairing u' dg now' s'))"
  proof (rule islI)
    fix x t' assume "ClaimPairing u' dg now' s' = (Inr x, t')"
    then obtain c' where "c' \<in> set (pairing_codes (tables s'))" "pc_code_digest c' = dg" "active c'"
      using claim_success by blast
    moreover obtain c'' where "c'' \<in> set (pairing_codes (tables s'))" "pc_code_digest c'' = dg" "\<not> active c''"
      using one_claim [OF assms(1) sch assms(3)] by auto
    moreover have "schema_ok (tables s')"
      using run_schema [OF assms(3)] op_claim [OF assms(1)] sch by (auto simp: one_step_def dest: db_step_schema)
    ultimately show False using key_inj [OF codes_key, of "tables s'" c' c''] by simp
  qed
  ultimately show ?thesis using c r by (auto simp: active_def)
qed

theorem claim_once_witness:
  "isl (fst (ClaimPairing ''usr_1'' ''g'' 9 (snd (ClaimPairing ''usr_1'' ''g'' 7 ex_st))))"
  using claim_once [OF _ _ rtranclp.rtrancl_refl] succeeds [of "ClaimPairing ''usr_1'' ''g'' 7", OF ex_claim_ok] ex_inv
  by (metis ex_tables(1))

text \<open>
  A snapshot only ever shows the caller's own data: the session is the one asked
  for, it belongs to the caller, is neither revoked nor archived, and the caller still
  owns its device; all its messages and tool calls, and no others, are shown in order of
  creation.
\<close>

theorem snapshot_isolation:
  assumes "AgentSnapshotByOwner u i s = (Inr sn, t)"
  shows "tables t = tables s \<and> sn_session sn \<in> set (agent_sessions (tables s)) \<and>
    as_id (sn_session sn) = i \<and> as_user_id (sn_session sn) = u \<and>
    as_state (sn_session sn) \<noteq> AgentSessionRevoked \<and> as_archived_at (sn_session sn) = None \<and>
    (\<exists>r \<in> set (devices (tables s)). d_id r = as_device_id (sn_session sn) \<and> d_owner_user_id r = Some u) \<and>
    set (sn_messages sn) = {m \<in> set (agent_messages (tables s)). am_session_id m = i} \<and>
    set (sn_tool_calls sn) = {x \<in> set (tool_calls (tables s)). tc_session_id x = i} \<and>
    sorted (map am_created_at (sn_messages sn)) \<and> sorted (map tc_created_at (sn_tool_calls sn))"
proof -
  let ?d = "tables s"
  let ?ms = "sort_key (\<lambda>m. (am_created_at m, am_id m)) (filter (\<lambda>m. am_session_id m = i \<and>
    list_ex (\<lambda>a. as_id a = am_session_id m \<and> agentSessionOwnerPredicate ?d u a) (agent_sessions ?d)) (agent_messages ?d))"
  let ?ts = "sort_key (\<lambda>t. (tc_created_at t, tc_id t))
    (filter (\<lambda>t. tc_session_id t = i \<and> agentToolOwnerPredicate ?d u t) (tool_calls ?d))"
  from assms obtain a where a: "find (\<lambda>a. as_id a = i \<and> agentSessionOwnerPredicate ?d u a) (agent_sessions ?d) = Some a"
    and sn: "sn = \<lparr>sn_session = a, sn_messages = ?ms, sn_tool_calls = ?ts\<rparr>" and t: "tables t = ?d"
    unfolding AgentSnapshotByOwner_def agent_queries agentMessagesByOwnerQuery_def agentToolCallsByOwnerQuery_def
    by (auto simp: ebind_assoc elim!: tx_successE query_InrE split: option.splits)
  from find_SomeD [OF a] have a': "a \<in> set (agent_sessions ?d)" "as_id a = i" "agentSessionOwnerPredicate ?d u a"
    by auto
  have ms: "set ?ms = {m \<in> set (agent_messages ?d). am_session_id m = i}"
    using a' by (auto simp: list_ex_iff)
  have ts: "set ?ts = {x \<in> set (tool_calls ?d). tc_session_id x = i}"
    using a' by (auto simp: agentToolOwnerPredicate_def list_ex_iff agentSessionOwnerPredicate_def
        agentSessionOwnershipPredicate_def)
  have srt: "sorted (map am_created_at ?ms)" "sorted (map tc_created_at ?ts)"
    by (rule sorted_fst_key)+
  have own: "as_user_id a = u" "as_state a \<noteq> AgentSessionRevoked" "as_archived_at a = None"
    "\<exists>r \<in> set (devices ?d). d_id r = as_device_id a \<and> d_owner_user_id r = Some u"
    using a'(3) by (auto simp: agentSessionOwnerPredicate_def agentSessionOwnershipPredicate_def device_owned_def
        list_ex_iff owned_by_def)
  show ?thesis
    unfolding sn AgentSnapshot.simps by (intro conjI a' own ms ts srt t)
qed

theorem snapshot_isolation_witness:
  "as_user_id (sn_session (projr (fst (AgentSnapshotByOwner ''usr_1'' ''ses_1'' ex_st)))) = ''usr_1''"
proof -
  have "\<not> isl (fst (AgentSnapshotByOwner ''usr_1'' ''ses_1'' ex_st))" by code_simp
  from succeeds [of "AgentSnapshotByOwner ''usr_1'' ''ses_1''", OF this] obtain sn where
    sn: "AgentSnapshotByOwner ''usr_1'' ''ses_1'' ex_st =
      (Inr sn, snd (AgentSnapshotByOwner ''usr_1'' ''ses_1'' ex_st))" ..
  then have "fst (AgentSnapshotByOwner ''usr_1'' ''ses_1'' ex_st) = Inr sn" by (rule fstI)
  with snapshot_isolation [OF sn] show ?thesis by simp
qed



end
