(* ===== verification/Ident.thy ===== *)
theory Ident
  imports GoText
begin

text \<open>
  \<^verbatim>\<open>internal/id/id.go\<close>: prefixed random identifiers, URL-safe tokens and the device
  identifier derived from its public key.  A source of randomness is the sequence of
  bytes it will still deliver; reading past its end is the read error of the source.
  \<^verbatim>\<open>sha256.Sum256\<close> is a parameter.
\<close>

subsection \<open>Reading and encoding bytes\<close>

datatype id_err =
    InvalidPrefix string | ReadRandom | TokenSize int | BadKeyLength nat | Panic id_err

definition ReadFull :: "nat \<Rightarrow> (string, id_err, string) em" where
  "ReadFull n = (\<lambda>r. if n \<le> length r then (Inr (take n r), drop n r) else (Inl ReadRandom, []))"

fun char_bits :: "char \<Rightarrow> bool list" where
  "char_bits (Char b0 b1 b2 b3 b4 b5 b6 b7) = [b7, b6, b5, b4, b3, b2, b1, b0]"

definition bits :: "string \<Rightarrow> bool list" where
  "bits s = concat (map char_bits s)"

function groups :: "nat \<Rightarrow> bool list \<Rightarrow> bool list list" where
  "groups n [] = []"
| "groups n (b # bs) =
     take (Suc n) ((b # bs) @ replicate n False) # groups n (drop (Suc n) (b # bs))"
  by pat_completeness auto
termination
  by (relation "measure (\<lambda>(n, bs). length bs)") auto

definition bits_nat :: "bool list \<Rightarrow> nat" where
  "bits_nat bs = foldl (\<lambda>n b. 2 * n + of_bool b) 0 bs"

text \<open>\<open>encode alphabet n\<close> writes groups of \<open>Suc n\<close> bits; the last one is padded with zeros.\<close>

definition encode :: "string \<Rightarrow> nat \<Rightarrow> string \<Rightarrow> string" where
  "encode alphabet n s = map (\<lambda>g. alphabet ! bits_nat g) (groups n (bits s))"

definition base32_alphabet :: string where
  "base32_alphabet = ''ABCDEFGHIJKLMNOPQRSTUVWXYZ234567''"

definition base64_alphabet :: string where
  "base64_alphabet = ''ABCDEFGHIJKLMNOPQRSTUVWXYZabcdefghijklmnopqrstuvwxyz0123456789-_''"

definition lower :: "char \<Rightarrow> char" where
  "lower c = (if 65 \<le> byte c \<and> byte c \<le> 90 then char_of (byte c + 32) else c)"

definition base32_lower :: "string \<Rightarrow> string" where
  "base32_lower s = map lower (encode base32_alphabet 4 s)"

subsection \<open>Identifiers\<close>

definition randomIDBytes :: nat where "randomIDBytes = 16"

fun prefix_chars :: "nat \<Rightarrow> string \<Rightarrow> bool" where
  "prefix_chars index [] = True"
| "prefix_chars index (c # cs) =
     (if 97 \<le> byte c \<and> byte c \<le> 122 then prefix_chars (Suc index) cs
      else if 0 < index \<and> 48 \<le> byte c \<and> byte c \<le> 57 then prefix_chars (Suc index) cs
      else False)"

definition validPrefix :: "string \<Rightarrow> bool" where
  "validPrefix prefix = (if prefix = [] \<or> length prefix > 16 then False else prefix_chars 0 prefix)"

definition newWithReader :: "string \<Rightarrow> (string, id_err, string) em" where
  "newWithReader prefix =
     (if \<not> validPrefix prefix then ethrow (InvalidPrefix prefix)
      else ebind (ReadFull randomIDBytes) (\<lambda>random.
        let encoded = base32_lower random in ereturn (prefix @ ''_'' @ encoded)))"

definition New :: "string \<Rightarrow> (string, id_err, string) em" where
  "New prefix = newWithReader prefix"

definition MustNew :: "string \<Rightarrow> (string, id_err, string) em" where
  "MustNew prefix = ebind (etry (New prefix)) (\<lambda>result. case result of
     Inl err \<Rightarrow> ethrow (Panic err) | Inr value \<Rightarrow> ereturn value)"

definition Token :: "int \<Rightarrow> (string, id_err, string) em" where
  "Token n =
     (if n < 16 \<or> n > 128 then ethrow (TokenSize n)
      else ebind (ReadFull (nat n)) (\<lambda>random. ereturn (encode base64_alphabet 5 random)))"

definition Device_id :: "(string \<Rightarrow> string) \<Rightarrow> string \<Rightarrow> id_err + string" where
  "Device_id sha256 publicKey =
     (if length publicKey \<noteq> 32 then Inl (BadKeyLength (length publicKey))
      else (let digest = sha256 publicKey; encoded = base32_lower digest
            in Inr (''dev_'' @ take 32 encoded)))"

subsection \<open>The encoding is injective\<close>

lemma char_bits_inj: "char_bits c = char_bits d \<Longrightarrow> c = d"
  by (cases c; cases d) auto

lemma length_char_bits [simp]: "length (char_bits c) = 8"
  by (cases c) auto

lemma length_bits [simp]: "length (bits s) = 8 * length s"
  by (induction s) (auto simp: bits_def)

lemma bits_inj: "bits s = bits t \<Longrightarrow> s = t"
proof (induction s arbitrary: t)
  case Nil
  then have "length (bits t) = 0" by (simp add: bits_def)
  then show ?case by simp
next
  case (Cons c s)
  from Cons.prems have "length (bits t) = 8 * Suc (length s)" by (metis length_Cons length_bits)
  then obtain d t' where t: "t = d # t'" by (cases t) auto
  with Cons.prems have "char_bits c @ bits s = char_bits d @ bits t'" by (simp add: bits_def)
  then have "char_bits c = char_bits d" "bits s = bits t'" by simp_all
  with Cons.IH t char_bits_inj show ?case by blast
qed

lemma length_groups: "g \<in> set (groups n bs) \<Longrightarrow> length g = Suc n"
  by (induction n bs rule: groups.induct) auto

lemma concat_groups: "take (length bs) (concat (groups n bs)) = bs"
proof (induction n bs rule: groups.induct)
  case (2 n b bs)
  show ?case
  proof (cases "length bs \<le> n")
    case True
    then show ?thesis by simp
  next
    case False
    let ?g = "take (Suc n) ((b # bs) @ replicate n False)"
    have g: "?g = take (Suc n) (b # bs)" using False by simp
    have "take (length (b # bs)) (concat (groups n (b # bs))) =
      ?g @ take (length (drop (Suc n) (b # bs))) (concat (groups n (drop (Suc n) (b # bs))))"
      using False by simp
    also have "\<dots> = b # bs" using 2 g by (metis append_take_drop_id)
    finally show ?thesis .
  qed
qed simp

lemma groups_inj: "groups n bs = groups n cs \<Longrightarrow> length bs = length cs \<Longrightarrow> bs = cs"
  by (metis concat_groups)

lemma bits_nat_append: "bits_nat (bs @ [b]) = 2 * bits_nat bs + of_bool b"
  by (simp add: bits_nat_def)

lemma bits_nat_bound: "bits_nat bs < 2 ^ length bs"
  by (induction bs rule: rev_induct) (auto simp: bits_nat_append, simp add: bits_nat_def)

lemma bits_nat_inj: "length bs = length cs \<Longrightarrow> bits_nat bs = bits_nat cs \<Longrightarrow> bs = cs"
proof (induction bs arbitrary: cs rule: rev_induct)
  case (snoc b bs)
  then obtain c ds where cs: "cs = ds @ [c]" by (cases cs rule: rev_cases) auto
  from snoc.prems(2) have e: "2 * bits_nat bs + of_bool b = 2 * bits_nat ds + of_bool c"
    by (simp add: bits_nat_append cs)
  then have "b = c" by (cases b; cases c; simp; presburger)
  with e snoc cs show ?case by simp
qed simp

lemma encode_inj:
  assumes "distinct alphabet" "length alphabet = 2 ^ Suc n" "length s = length t"
    "encode alphabet n s = encode alphabet n t"
  shows "s = t"
proof -
  have "inj_on (\<lambda>g. alphabet ! bits_nat g) (set (groups n (bits s)) \<union> set (groups n (bits t)))"
  proof (rule inj_onI)
    fix g h
    assume gh: "g \<in> set (groups n (bits s)) \<union> set (groups n (bits t))"
      "h \<in> set (groups n (bits s)) \<union> set (groups n (bits t))"
      and eq: "alphabet ! bits_nat g = alphabet ! bits_nat h"
    have l: "length g = Suc n" "length h = Suc n" using gh length_groups by blast+
    then have "bits_nat g < length alphabet" "bits_nat h < length alphabet"
      using bits_nat_bound [of g] bits_nat_bound [of h] assms(2) by simp_all
    with eq assms(1) have "bits_nat g = bits_nat h" by (simp add: nth_eq_iff_index_eq)
    with l show "g = h" by (simp add: bits_nat_inj)
  qed
  then have "groups n (bits s) = groups n (bits t)"
    using assms(4) unfolding encode_def by (rule map_inj_on [rotated])
  then show ?thesis using assms(3) by (intro bits_inj groups_inj) auto
qed

lemma length_groups_count: "length (groups n bs) = (length bs + n) div Suc n"
proof (induction n bs rule: groups.induct)
  case (2 n b bs)
  show ?case
  proof (cases "length bs \<le> n")
    case True
    then have "(Suc (length bs) + n) div Suc n = 1" by (intro div_nat_eqI) auto
    with 2 True show ?thesis by simp
  next
    case False
    then have "(Suc (length bs) + n) div Suc n = Suc ((length bs - n + n) div Suc n)"
      using le_div_geq [of "Suc n" "Suc (length bs) + n"] by simp
    with 2 False show ?thesis by simp
  qed
qed simp


subsection \<open>Shape of identifiers\<close>

definition lower_alphabet :: string where
  "lower_alphabet = ''abcdefghijklmnopqrstuvwxyz234567''"

lemma lower_alphabet_facts:
  "distinct lower_alphabet" "length lower_alphabet = 32" "map lower base32_alphabet = lower_alphabet"
  "length base32_alphabet = 32"
  by code_simp+

lemma base32_lower_encode: "base32_lower s = encode lower_alphabet 4 s"
proof -
  have "lower (base32_alphabet ! bits_nat g) = lower_alphabet ! bits_nat g"
    if "g \<in> set (groups 4 (bits s))" for g
  proof -
    have "bits_nat g < 32" using bits_nat_bound [of g] length_groups [OF that] by simp
    then show ?thesis using lower_alphabet_facts by (metis nth_map)
  qed
  then show ?thesis by (simp add: base32_lower_def encode_def)
qed

lemma encode_chars:
  assumes "length alphabet = 2 ^ Suc n"
  shows "set (encode alphabet n s) \<subseteq> set alphabet"
proof
  fix c assume "c \<in> set (encode alphabet n s)"
  then obtain g where g: "g \<in> set (groups n (bits s))" "c = alphabet ! bits_nat g"
    by (auto simp: encode_def)
  then have "bits_nat g < length alphabet"
    using bits_nat_bound [of g] length_groups [OF g(1)] assms by simp
  with g show "c \<in> set alphabet" by simp
qed

lemma base32_lower_chars: "set (base32_lower s) \<subseteq> set lower_alphabet"
  unfolding base32_lower_encode by (rule encode_chars) (simp add: lower_alphabet_facts)

lemma length_base32_lower: "length (base32_lower s) = (8 * length s + 4) div 5"
  by (simp add: base32_lower_def encode_def length_groups_count)

lemma base32_lower_inj: "length s = length t \<Longrightarrow> base32_lower s = base32_lower t \<Longrightarrow> s = t"
  unfolding base32_lower_encode by (rule encode_inj) (simp_all add: lower_alphabet_facts)

lemma new_success:
  assumes "newWithReader p r = (Inr i, r')"
  shows "validPrefix p \<and> 16 \<le> length r \<and> r' = drop 16 r \<and> i = p @ ''_'' @ base32_lower (take 16 r)"
  using assms
  by (auto simp: newWithReader_def ReadFull_def randomIDBytes_def ebind_def ethrow_def ereturn_def Let_def
      split: if_splits)

lemma prefix_no_underscore: "prefix_chars k p \<Longrightarrow> CHR ''_'' \<notin> set p"
  by (induction k p rule: prefix_chars.induct) (auto split: if_splits)

lemma split_at_char:
  assumes "c \<notin> set p" "c \<notin> set q" "p @ c # x = q @ c # y"
  shows "p = q \<and> x = y"
  using assms
proof (induction p arbitrary: q)
  case Nil
  then show ?case by (cases q) auto
next
  case (Cons a p)
  then show ?case by (cases q) auto
qed

text \<open>
  Fresh identifiers do not collide: two successful calls give the same identifier
  only if they have the same prefix and drew the same sixteen random bytes.  Each has
  the form prefix, underscore, twenty-six characters of the lower-case base-32 alphabet,
  and consumes exactly those sixteen bytes.
\<close>

theorem new_identifiers_distinct:
  assumes "newWithReader p r = (Inr i, r')" and "newWithReader q s = (Inr j, s')"
  shows "(i = j \<longleftrightarrow> p = q \<and> take 16 r = take 16 s) \<and> r' = drop 16 r \<and>
    (\<exists>e. i = p @ ''_'' @ e \<and> length e = 26 \<and> set e \<subseteq> set lower_alphabet)"
proof -
  note i = new_success [OF assms(1)] and j = new_success [OF assms(2)]
  have u: "CHR ''_'' \<notin> set p" "CHR ''_'' \<notin> set q"
    using i j by (auto simp: validPrefix_def split: if_splits dest!: prefix_no_underscore)
  have "i = j \<Longrightarrow> p = q \<and> take 16 r = take 16 s"
  proof -
    assume "i = j"
    with i j have "p @ CHR ''_'' # base32_lower (take 16 r) = q @ CHR ''_'' # base32_lower (take 16 s)" by simp
    from split_at_char [OF u this] i j base32_lower_inj [of "take 16 r" "take 16 s"]
    show "p = q \<and> take 16 r = take 16 s" by simp
  qed
  moreover have "length (base32_lower (take 16 r)) = 26" using i by (simp add: length_base32_lower)
  ultimately show ?thesis using i j base32_lower_chars [of "take 16 r"] by auto
qed

theorem new_identifiers_distinct_witness:
  "fst (newWithReader ''req'' (replicate 16 CHR ''a'')) \<noteq> fst (newWithReader ''req'' (replicate 16 CHR ''b''))"
proof -
  have *: "newWithReader ''req'' (replicate 16 c) = (Inr (''req_'' @ base32_lower (replicate 16 c)), [])" for c
    by (simp add: newWithReader_def ReadFull_def randomIDBytes_def ebind_def ereturn_def Let_def validPrefix_def)
  show ?thesis
    using new_identifiers_distinct [OF * [of "CHR ''a''"] * [of "CHR ''b''"]]
    by (auto simp: * replicate_eq_replicate)
qed

text \<open>
  A device identifier is well formed and only depends on the digest of the key:
  with a digest function of thirty-two bytes, a key of the Ed25519 size gives
  \<^verbatim>\<open>dev_\<close> and thirty-two characters of the lower-case base-32 alphabet, and any
  other key is rejected.
\<close>

theorem device_identifier_shape:
  assumes "\<And>k. length (sha256 k) = 32"
  shows "case Device_id sha256 key of
      Inr i \<Rightarrow> length key = 32 \<and> (\<exists>e. i = ''dev_'' @ e \<and> length e = 32 \<and> set e \<subseteq> set lower_alphabet)
    | Inl e \<Rightarrow> length key \<noteq> 32 \<and> e = BadKeyLength (length key)"
proof (cases "length key = 32")
  case True
  have "length (base32_lower (sha256 key)) = 52" using assms by (simp add: length_base32_lower)
  moreover have "set (take 32 (base32_lower (sha256 key))) \<subseteq> set lower_alphabet"
    using set_take_subset base32_lower_chars by (rule subset_trans)
  ultimately show ?thesis using True by (simp add: Device_id_def Let_def)
qed (simp add: Device_id_def)

theorem device_identifier_shape_witness:
  "\<exists>e. Device_id (\<lambda>k. replicate 32 CHR ''x'') (replicate 32 CHR ''k'') = Inr (''dev_'' @ e) \<and> length e = 32"
  using device_identifier_shape [of "\<lambda>k. replicate 32 CHR ''x''" "replicate 32 CHR ''k''"]
  by (auto simp: Device_id_def Let_def)

end
