(* ===== verification/Control.thy ===== *)
theory Control
  imports Ident
begin

text \<open>
  \<^verbatim>\<open>internal/protocol/control.go\<close>: the length-prefixed JSON frames of the tunnel's
  control protocol.  The stream is the bytes still to be read, the bytes already written
  and the behaviour of the underlying writer (how many bytes each \<^verbatim>\<open>Write\<close> accepts,
  or that it fails).  \<^verbatim>\<open>encoding/json\<close> enters as the arguments \<open>marshal\<close>
  (\<^verbatim>\<open>json.Marshal\<close>), \<open>decode\<close> (the first \<^verbatim>\<open>Decode\<close>: the value and the
  unread rest, \<open>None\<close> on any error, unknown fields included) and \<open>another\<close> (whether the
  rest decodes as a further value).
\<close>

definition Version :: int where "Version = 1"
definition MaxControlFrameBytes :: nat where "MaxControlFrameBytes = 64 * 1024"
definition MaxRequestIDBytes :: nat where "MaxRequestIDBytes = 128"
definition StreamControl :: string where "StreamControl = ''control''"
definition StreamSSH :: string where "StreamSSH = ''ssh''"
definition PlatformLinux :: string where "PlatformLinux = ''linux''"
definition PlatformWindows :: string where "PlatformWindows = ''windows''"
definition TypeClientHello :: string where "TypeClientHello = ''client.hello''"
definition TypeServerChallenge :: string where "TypeServerChallenge = ''server.challenge''"
definition TypeDeviceProof :: string where "TypeDeviceProof = ''device.proof''"
definition TypeServerAuthenticated :: string where "TypeServerAuthenticated = ''server.authenticated''"
definition TypePairingOffered :: string where "TypePairingOffered = ''pairing.offered''"
definition TypeDeviceHeartbeat :: string where "TypeDeviceHeartbeat = ''device.heartbeat''"
definition TypeHeartbeatAck :: string where "TypeHeartbeatAck = ''server.heartbeat_ack''"

definition SupportedPlatform :: "string \<Rightarrow> bool" where
  "SupportedPlatform v \<longleftrightarrow> v = PlatformLinux \<or> v = PlatformWindows"

datatype proto_err =
    ErrFrameTooLarge | ErrMalformedFrame | ErrUnsupported | ErrInvalidRequestID
  | EncodeFailed | DecodeFailed | ReadFailed | WriteFailed | ErrShortWrite

record StreamHeader =
  sh_version :: int
  sh_kind :: string
  sh_request_id :: string

record Message =
  msg_version :: int
  msg_type :: string
  msg_request_id :: string
  msg_payload :: string

record stream =
  rd :: string
  wr :: string
  accepts :: "nat option list"

type_synonym 'a codec = "(stream, proto_err, 'a) em"

definition KnownMessageType :: "string \<Rightarrow> bool" where
  "KnownMessageType t \<longleftrightarrow> t \<in> {TypeClientHello, TypeServerChallenge, TypeDeviceProof,
     TypeServerAuthenticated, TypePairingOffered, TypeDeviceHeartbeat, TypeHeartbeatAck}"

definition id_char :: "char \<Rightarrow> bool" where
  "id_char c \<longleftrightarrow> (97 \<le> byte c \<and> byte c \<le> 122) \<or> (48 \<le> byte c \<and> byte c \<le> 57)"

definition ValidateRequestID :: "string \<Rightarrow> proto_err + unit" where
  "ValidateRequestID requestID =
     (if length requestID < 5 \<or> length requestID > MaxRequestIDBytes \<or> \<not> HasPrefix requestID ''req_''
      then Inl ErrInvalidRequestID
      else if list_all id_char (drop 4 requestID) then Inr () else Inl ErrInvalidRequestID)"

definition lift_result :: "'e + 'a \<Rightarrow> ('s, 'e, 'a) em" where
  "lift_result r = (case r of Inl e \<Rightarrow> ethrow e | Inr x \<Rightarrow> ereturn x)"

subsection \<open>Writing\<close>

text \<open>
  One \<^verbatim>\<open>Write\<close>: \<open>Some k\<close> accepts at most \<open>k\<close> bytes, \<open>None\<close> fails, and a
  writer with no entry left accepts everything.
\<close>

definition Write :: "string \<Rightarrow> nat codec" where
  "Write contents = (\<lambda>s. case accepts s of
     [] \<Rightarrow> (Inr (length contents), s\<lparr>wr := wr s @ contents\<rparr>)
   | None # rest \<Rightarrow> (Inl WriteFailed, s\<lparr>accepts := rest\<rparr>)
   | Some k # rest \<Rightarrow> (let n = min k (length contents) in
       (Inr n, s\<lparr>wr := wr s @ take n contents, accepts := rest\<rparr>)))"

function writeFull :: "string \<Rightarrow> stream \<Rightarrow> (proto_err + unit) \<times> stream" where
  "writeFull contents s =
     (if contents = [] then (Inr (), s)
      else case Write contents s of
        (Inl err, t) \<Rightarrow> (Inl err, t)
      | (Inr written, t) \<Rightarrow>
          if written = 0 then (Inl ErrShortWrite, t) else writeFull (drop written contents) t)"
  by pat_completeness auto
termination
  by (relation "measure (\<lambda>(c, s). length c)") auto

declare writeFull.simps [simp del]

text \<open>\<^verbatim>\<open>binary.BigEndian.PutUint32\<close> and \<^verbatim>\<open>Uint32\<close>.\<close>

definition PutUint32 :: "nat \<Rightarrow> string" where
  "PutUint32 n = map char_of [n div 2 ^ 24 mod 256, n div 2 ^ 16 mod 256, n div 2 ^ 8 mod 256, n mod 256]"

definition Uint32 :: "string \<Rightarrow> nat" where
  "Uint32 bs = foldl (\<lambda>n c. n * 256 + byte c) 0 bs"

definition writeJSON :: "('a \<Rightarrow> string option) \<Rightarrow> 'a \<Rightarrow> unit codec" where
  "writeJSON marshal value =
     (case marshal value of
        None \<Rightarrow> ethrow EncodeFailed
      | Some encoded \<Rightarrow>
          if encoded = [] then ethrow ErrMalformedFrame
          else if length encoded > MaxControlFrameBytes then ethrow ErrFrameTooLarge
          else ethen (writeFull (PutUint32 (length encoded))) (writeFull encoded))"

subsection \<open>Reading\<close>

definition read_full :: "nat \<Rightarrow> string codec" where
  "read_full n = (\<lambda>s. if n \<le> length (rd s) then (Inr (take n (rd s)), s\<lparr>rd := drop n (rd s)\<rparr>)
                      else (Inl ReadFailed, s\<lparr>rd := []\<rparr>))"

definition json_space :: "char \<Rightarrow> bool" where
  "json_space c \<longleftrightarrow> c \<in> {CHR '' '', CHR 0x09, CHR 0x0A, CHR 0x0D}"

definition ensureJSONEOF :: "(string \<Rightarrow> bool) \<Rightarrow> string \<Rightarrow> proto_err + unit" where
  "ensureJSONEOF another rest =
     (if list_all json_space rest then Inr ()
      else if another rest then Inl ErrMalformedFrame else Inl DecodeFailed)"

definition readJSON :: "(string \<Rightarrow> ('a \<times> string) option) \<Rightarrow> (string \<Rightarrow> bool) \<Rightarrow> 'a codec" where
  "readJSON decode another =
     ebind (read_full 4) (\<lambda>prefix.
     let n = Uint32 prefix in
     if n = 0 then ethrow ErrMalformedFrame
     else if n > MaxControlFrameBytes then ethrow ErrFrameTooLarge
     else ebind (read_full n) (\<lambda>encoded.
       case decode encoded of
         None \<Rightarrow> ethrow DecodeFailed
       | Some (value, rest) \<Rightarrow> ethen (lift_result (ensureJSONEOF another rest)) (ereturn value)))"

subsection \<open>Headers and messages\<close>

definition header_ok :: "StreamHeader \<Rightarrow> bool" where
  "header_ok h \<longleftrightarrow> sh_version h = Version \<and> (sh_kind h = StreamControl \<or> sh_kind h = StreamSSH)"

definition WriteHeader :: "(StreamHeader \<Rightarrow> string option) \<Rightarrow> StreamHeader \<Rightarrow> unit codec" where
  "WriteHeader marshal header =
     ethen (lift_result (ValidateRequestID (sh_request_id header)))
       (if \<not> header_ok header then ethrow ErrUnsupported else writeJSON marshal header)"

definition ReadHeader ::
  "(string \<Rightarrow> (StreamHeader \<times> string) option) \<Rightarrow> (string \<Rightarrow> bool) \<Rightarrow> StreamHeader codec" where
  "ReadHeader decode another =
     ebind (readJSON decode another) (\<lambda>header.
     ethen (lift_result (ValidateRequestID (sh_request_id header)))
       (if \<not> header_ok header then ethrow ErrUnsupported else ereturn header))"

definition WriteMessage ::
  "('p \<Rightarrow> string option) \<Rightarrow> (Message \<Rightarrow> string option) \<Rightarrow> string \<Rightarrow> string \<Rightarrow> 'p \<Rightarrow> unit codec" where
  "WriteMessage marshalPayload marshal messageType requestID payload =
     (if \<not> KnownMessageType messageType then ethrow ErrUnsupported
      else ethen (lift_result (ValidateRequestID requestID))
        (case marshalPayload payload of
           None \<Rightarrow> ethrow EncodeFailed
         | Some encodedPayload \<Rightarrow> writeJSON marshal
             \<lparr>msg_version = Version, msg_type = messageType, msg_request_id = requestID,
              msg_payload = encodedPayload\<rparr>))"

definition ReadMessage ::
  "(string \<Rightarrow> (Message \<times> string) option) \<Rightarrow> (string \<Rightarrow> bool) \<Rightarrow> Message codec" where
  "ReadMessage decode another =
     ebind (readJSON decode another) (\<lambda>message.
     if msg_version message \<noteq> Version \<or> \<not> KnownMessageType (msg_type message) then ethrow ErrUnsupported
     else ethen (lift_result (ValidateRequestID (msg_request_id message)))
       (if msg_payload message = [] \<or> msg_payload message = ''null'' then ethrow ErrMalformedFrame
        else ereturn message))"

definition DecodePayload ::
  "(string \<Rightarrow> ('a \<times> string) option) \<Rightarrow> (string \<Rightarrow> bool) \<Rightarrow> Message \<Rightarrow> proto_err + 'a" where
  "DecodePayload decode another message =
     (case decode (msg_payload message) of
        None \<Rightarrow> Inl DecodeFailed
      | Some (value, rest) \<Rightarrow> (case ensureJSONEOF another rest of Inl e \<Rightarrow> Inl e | Inr _ \<Rightarrow> Inr value))"


subsection \<open>Writing all of a frame\<close>

definition able :: "stream \<Rightarrow> bool" where
  "able s \<longleftrightarrow> (\<forall>a \<in> set (accepts s). a \<noteq> None \<and> a \<noteq> Some 0)"

lemma Write_prefix:
  "Write c s = (r, t) \<Longrightarrow> rd t = rd s \<and>
     (\<exists>n. wr t = wr s @ take n c \<and> (r = Inl WriteFailed \<and> n = 0 \<or> r = Inr n \<and> n \<le> length c))"
  by (auto simp: Write_def Let_def split: list.splits option.splits)

text \<open>Whatever the writer does, the bytes sent are a prefix of the contents, all of them on success.\<close>

lemma writeFull_prefix:
  "writeFull c s = (r, t) \<Longrightarrow> rd t = rd s \<and> (\<exists>n. wr t = wr s @ take n c \<and> (r = Inr () \<longrightarrow> length c \<le> n))"
proof (induction c s arbitrary: r t rule: writeFull.induct)
  case (1 c s)
  show ?case
  proof (cases "c = []")
    case True
    with "1.prems" show ?thesis by (auto simp: writeFull.simps)
  next
    case False
    obtain w u where w: "Write c s = (w, u)" by fastforce
    from Write_prefix [OF w] obtain n where u: "rd u = rd s" "wr u = wr s @ take n c"
      "w = Inl WriteFailed \<and> n = 0 \<or> w = Inr n \<and> n \<le> length c" by blast
    show ?thesis
    proof (cases "w = Inr n \<and> n \<noteq> 0")
      case True
      with False w "1.prems" have rec: "writeFull (drop n c) u = (r, t)"
        by (simp add: writeFull.simps [of c s])
      from True have "w = Inr n" "n \<noteq> 0" by simp_all
      from "1.IH" [OF False w [symmetric] this rec] obtain m where
        "rd t = rd u" "wr t = wr u @ take m (drop n c)" "r = Inr () \<longrightarrow> length (drop n c) \<le> m"
        by blast
      with u show ?thesis by (auto simp: take_add [symmetric] intro!: exI [of _ "n + m"])
    next
      case nw: False
      with u(3) False w "1.prems" have "t = u \<and> (\<exists>e. r = Inl e)"
        by (auto simp: writeFull.simps [of c s])
      with u show ?thesis by auto
    qed
  qed
qed

lemma Write_able:
  assumes "able s" "c \<noteq> []"
  obtains n t where "Write c s = (Inr n, t)" "n \<noteq> 0" "able t"
proof (cases "accepts s")
  case Nil
  with assms that show thesis by (simp add: Write_def able_def)
next
  case (Cons a as)
  with assms(1) obtain k where "a = Some k" "k \<noteq> 0" by (auto simp: able_def)
  with Cons assms that show thesis by (auto simp: Write_def able_def Let_def)
qed

text \<open>A writer that accepts at least one byte each time takes the whole contents.\<close>

lemma writeFull_able:
  "able s \<Longrightarrow> \<exists>t. writeFull c s = (Inr (), t) \<and> able t"
proof (induction c s rule: writeFull.induct)
  case (1 c s)
  show ?case
  proof (cases "c = []")
    case True
    with "1.prems" show ?thesis by (simp add: writeFull.simps)
  next
    case False
    from Write_able [OF "1.prems" False] obtain n u where
      w: "Write c s = (Inr n, u)" "n \<noteq> 0" "able u" .
    with "1.IH" [OF False w(1) [symmetric] refl w(2,3)] False show ?thesis
      by (simp add: writeFull.simps [of c s])
  qed
qed

subsection \<open>Frames\<close>

lemma Uint32_PutUint32: "n < 2 ^ 32 \<Longrightarrow> Uint32 (PutUint32 n) = n"
proof -
  assume n: "n < 2 ^ 32"
  have "n div 2 ^ 24 mod 256 = n div 2 ^ 24" using n by (intro mod_less) (simp add: less_mult_imp_div_less)
  moreover have "(n div 2 ^ 24 * 256 + n div 2 ^ 16 mod 256) = n div 2 ^ 16"
    using div_mult_mod_eq [of "n div 2 ^ 16" 256] by (simp add: div_mult2_eq [symmetric])
  moreover have "(n div 2 ^ 16 * 256 + n div 2 ^ 8 mod 256) = n div 2 ^ 8"
    using div_mult_mod_eq [of "n div 2 ^ 8" 256] by (simp add: div_mult2_eq [symmetric])
  moreover have "(n div 2 ^ 8 * 256 + n mod 256) = n"
    using div_mult_mod_eq [of n 256] by simp
  ultimately show ?thesis by (simp add: Uint32_def PutUint32_def)
qed

lemma length_PutUint32 [simp]: "length (PutUint32 n) = 4"
  by (simp add: PutUint32_def)

definition frame :: "string \<Rightarrow> string" where
  "frame encoded = PutUint32 (length encoded) @ encoded"

lemma writeJSON_success:
  assumes "writeJSON marshal v s = (Inr x, t)"
  obtains e where "marshal v = Some e" "e \<noteq> []" "length e \<le> MaxControlFrameBytes"
    "wr t = wr s @ frame e" "rd t = rd s"
proof -
  from assms obtain e where e: "marshal v = Some e" "e \<noteq> []" "length e \<le> MaxControlFrameBytes"
    and w: "ethen (writeFull (PutUint32 (length e))) (writeFull e) s = (Inr x, t)"
    by (auto simp: writeJSON_def ethrow_def split: option.splits if_splits)
  from w obtain y u where p: "writeFull (PutUint32 (length e)) s = (Inr y, u)" "writeFull e u = (Inr x, t)"
    by (rule ebind_InrE)
  from writeFull_prefix [OF p(1)] writeFull_prefix [OF p(2)] e that show thesis
    by (auto simp: frame_def)
qed

lemma writeJSON_able:
  assumes "marshal v = Some e" "e \<noteq> []" "length e \<le> MaxControlFrameBytes" "able s"
  shows "\<exists>t. writeJSON marshal v s = (Inr (), t)"
proof -
  obtain u where u: "writeFull (PutUint32 (length e)) s = (Inr (), u)" "able u"
    using writeFull_able [OF assms(4)] by blast
  obtain t where "writeFull e u = (Inr (), t)" using writeFull_able [OF u(2)] by blast
  with assms u show ?thesis by (simp add: writeJSON_def ebind_def)
qed

lemma readJSON_frame:
  assumes "e \<noteq> []" "length e \<le> MaxControlFrameBytes" "decode e = Some (v, [])" "rd s = frame e @ rest"
  shows "readJSON decode another s = (Inr v, s\<lparr>rd := rest\<rparr>)"
proof -
  have "Uint32 (PutUint32 (length e)) = length e"
    using assms(2) by (intro Uint32_PutUint32) (simp add: MaxControlFrameBytes_def)
  with assms show ?thesis
    by (simp add: readJSON_def read_full_def ebind_def frame_def ensureJSONEOF_def lift_result_def
        ereturn_def Let_def)
qed


subsection \<open>Properties\<close>

lemma request_id_char: "c \<in> set lower_alphabet \<Longrightarrow> id_char c"
  by (auto simp: lower_alphabet_def id_char_def)

text \<open>
  The request identifiers the program generates are accepted by the protocol: every
  identifier made with the prefix \<^verbatim>\<open>req\<close> passes \<^verbatim>\<open>ValidateRequestID\<close>.
\<close>

theorem generated_request_id_valid:
  assumes "newWithReader ''req'' r = (Inr i, r')"
  shows "ValidateRequestID i = Inr ()"
proof -
  have i: "i = ''req'' @ ''_'' @ base32_lower (take 16 r)" "16 \<le> length r"
    using new_success [OF assms] by auto
  then have "length (base32_lower (take 16 r)) = 26" by (simp add: length_base32_lower)
  moreover have "list_all id_char (base32_lower (take 16 r))"
    using base32_lower_chars [of "take 16 r"] request_id_char by (auto simp: list_all_iff)
  ultimately show ?thesis
    using i by (simp add: ValidateRequestID_def MaxRequestIDBytes_def HasPrefix_def)
qed

theorem generated_request_id_valid_witness:
  "ValidateRequestID (projr (fst (newWithReader ''req'' (replicate 16 CHR ''a'')))) = Inr ()"
proof -
  have *: "newWithReader ''req'' (replicate 16 CHR ''a'') = (Inr (''req_'' @ base32_lower (replicate 16 CHR ''a'')), [])"
    by (simp add: newWithReader_def ReadFull_def randomIDBytes_def ebind_def ereturn_def Let_def validPrefix_def)
  show ?thesis using generated_request_id_valid [OF *] by (simp add: *)
qed

lemma lift_Inr: "lift_result r s = (Inr x, t) \<longleftrightarrow> r = Inr x \<and> t = s"
  by (auto simp: lift_result_def ethrow_def ereturn_def split: sum.splits)

lemma write_message_success:
  assumes "WriteMessage mp marshal ty req p s = (Inr x, t)"
  obtains pl where "KnownMessageType ty" "ValidateRequestID req = Inr ()" "mp p = Some pl"
    "writeJSON marshal \<lparr>msg_version = Version, msg_type = ty, msg_request_id = req, msg_payload = pl\<rparr> s = (Inr x, t)"
  using assms
  by (auto simp: WriteMessage_def ethrow_def lift_Inr split: if_splits option.splits elim!: ebind_InrE)


definition ex_marshal :: "Message \<Rightarrow> string option" where
  "ex_marshal v = (if msg_version v = 1 \<and> msg_type v = TypeDeviceHeartbeat \<and> msg_request_id v = ''req_1'' \<and>
     msg_payload v = ''{}'' then Some ''M'' else None)"

definition ex_decode :: "string \<Rightarrow> (Message \<times> string) option" where
  "ex_decode e = (if e = ''M'' then Some (\<lparr>msg_version = 1, msg_type = TypeDeviceHeartbeat,
     msg_request_id = ''req_1'', msg_payload = ''{}''\<rparr>, []) else None)"


text \<open>
  A peer cannot make the server buffer or decode an oversized frame: whatever the
  bytes on the stream, a read consumes at most four bytes when the length is zero or
  above 65536, reports the malformed or oversized frame without calling the decoder, and
  otherwise hands the decoder exactly the announced number of bytes.
\<close>

theorem read_is_bounded:
  assumes "4 \<le> length (rd s)"
  shows "let n = Uint32 (take 4 (rd s)) in
    (n = 0 \<longrightarrow> readJSON decode another s = (Inl ErrMalformedFrame, s\<lparr>rd := drop 4 (rd s)\<rparr>)) \<and>
    (n > 65536 \<longrightarrow> readJSON decode another s = (Inl ErrFrameTooLarge, s\<lparr>rd := drop 4 (rd s)\<rparr>)) \<and>
    (0 < n \<and> n \<le> 65536 \<and> 4 + n \<le> length (rd s) \<longrightarrow>
       snd (readJSON decode another s) = s\<lparr>rd := drop (4 + n) (rd s)\<rparr> \<and>
       (fst (readJSON decode another s) = Inl DecodeFailed \<or> fst (readJSON decode another s) = Inl ErrMalformedFrame \<or>
        (\<exists>v r. decode (take n (drop 4 (rd s))) = Some (v, r) \<and> list_all json_space r \<and>
           fst (readJSON decode another s) = Inr v)))"
  using assms unfolding Let_def
  by (intro conjI impI)
     (auto simp: readJSON_def read_full_def ebind_def ethrow_def ereturn_def Let_def MaxControlFrameBytes_def
       ensureJSONEOF_def lift_result_def add.commute split: option.splits)

theorem read_is_bounded_witness:
  "readJSON ex_decode (\<lambda>_. False) \<lparr>rd = PutUint32 65537 @ ''x'', wr = [], accepts = []\<rparr> =
    (Inl ErrFrameTooLarge, \<lparr>rd = ''x'', wr = [], accepts = []\<rparr>)"
proof -
  have "Uint32 (take 4 (PutUint32 65537 @ ''x'')) = 65537" by (simp add: Uint32_PutUint32)
  then show ?thesis
    using read_is_bounded [of "\<lparr>rd = PutUint32 65537 @ ''x'', wr = [], accepts = []\<rparr>" ex_decode "\<lambda>_. False"]
    by (simp add: Let_def)
qed

end
