(* ===== verification/Password.thy ===== *)
theory Password
  imports Ident
begin

text \<open>
  \<^verbatim>\<open>internal/auth/password.go\<close>: the Argon2id PHC string.  The key derivation
  \<^verbatim>\<open>argon2.IDKey\<close> (package \<^verbatim>\<open>golang.org/x/crypto\<close>) is the argument \<open>idKey\<close>
  (password, salt, iterations, memory, parallelism, key length); what is used of
  \<^verbatim>\<open>fmt.Sscanf\<close>, \<^verbatim>\<open>fmt.Sprintf\<close> and \<^verbatim>\<open>base64.RawStdEncoding.Strict\<close> is
  defined here.
\<close>

subsection \<open>Numbers\<close>

definition digit :: "nat \<Rightarrow> char" where
  "digit n = char_of (48 + n)"

definition is_digit :: "char \<Rightarrow> bool" where
  "is_digit c \<longleftrightarrow> 48 \<le> byte c \<and> byte c \<le> 57"

fun show_nat :: "nat \<Rightarrow> string" where
  "show_nat n = (if n < 10 then [digit n] else show_nat (n div 10) @ [digit (n mod 10)])"

declare show_nat.simps [simp del]

definition read_nat :: "string \<Rightarrow> nat" where
  "read_nat ds = foldl (\<lambda>n c. n * 10 + (byte c - 48)) 0 ds"

text \<open>
  \<^verbatim>\<open>%d\<close> of \<^verbatim>\<open>Sscanf\<close>: blanks are skipped, a line end is an error, digits are read
  as far as they go.  \<open>scan_uint b\<close> reads a \<open>b\<close>-bit unsigned number, \<open>scan_int\<close> a
  64-bit signed one; the result carries the rest of the input.
\<close>

definition blank :: "char \<Rightarrow> bool" where
  "blank c \<longleftrightarrow> c = CHR '' '' \<or> byte c = 9 \<or> byte c = 11 \<or> byte c = 12 \<or> byte c = 13"

definition scan_uint :: "nat \<Rightarrow> string \<Rightarrow> (nat \<times> string) option" where
  "scan_uint b s = (let t = dropWhile blank s; ds = takeWhile is_digit t in
     if ds = [] \<or> read_nat ds \<ge> 2 ^ b then None else Some (read_nat ds, dropWhile is_digit t))"

definition scan_int :: "string \<Rightarrow> (int \<times> string) option" where
  "scan_int s = (let t = dropWhile blank s;
       neg = (t \<noteq> [] \<and> hd t = CHR ''-'');
       u = (if t \<noteq> [] \<and> (hd t = CHR ''-'' \<or> hd t = CHR ''+'') then tl t else t);
       ds = takeWhile is_digit u; v = int (read_nat ds) in
     if ds = [] \<or> (if neg then v > 2 ^ 63 else v \<ge> 2 ^ 63) then None
     else Some (if neg then - v else v, dropWhile is_digit u))"

definition scan_lit :: "string \<Rightarrow> string \<Rightarrow> string option" where
  "scan_lit l s = (if HasPrefix s l then Some (drop (length l) s) else None)"

subsection \<open>Base 64\<close>

definition base64_std :: string where
  "base64_std = ''ABCDEFGHIJKLMNOPQRSTUVWXYZabcdefghijklmnopqrstuvwxyz0123456789+/''"

fun index_of :: "'a \<Rightarrow> 'a list \<Rightarrow> nat option" where
  "index_of x [] = None"
| "index_of x (y # ys) = (if x = y then Some 0 else map_option Suc (index_of x ys))"

fun nat_bits :: "nat \<Rightarrow> nat \<Rightarrow> bool list" where
  "nat_bits 0 n = []"
| "nat_bits (Suc k) n = nat_bits k (n div 2) @ [odd n]"

fun bits_bytes :: "bool list \<Rightarrow> string" where
  "bits_bytes (b7 # b6 # b5 # b4 # b3 # b2 # b1 # b0 # bs) = Char b0 b1 b2 b3 b4 b5 b6 b7 # bits_bytes bs"
| "bits_bytes _ = []"

text \<open>Line ends are skipped; the bits after the last whole byte must be zero and fewer than six.\<close>

definition base64_decode :: "string \<Rightarrow> string option" where
  "base64_decode s =
     (let t = filter (\<lambda>c. byte c \<noteq> 10 \<and> byte c \<noteq> 13) s in
      if list_all (\<lambda>c. c \<in> set base64_std) t then
        (let bs = concat (map (\<lambda>c. nat_bits 6 (the (index_of c base64_std))) t);
             rest = drop (length bs div 8 * 8) bs
         in if length rest < 6 \<and> list_all Not rest then Some (bits_bytes (take (length bs div 8 * 8) bs)) else None)
      else None)"

subsection \<open>The hash\<close>

record passwordParams =
  pp_memory :: nat
  pp_iterations :: nat
  pp_parallelism :: nat
  pp_saltLength :: nat
  pp_keyLength :: nat

definition defaultPasswordParams :: passwordParams where
  "defaultPasswordParams = \<lparr>pp_memory = 64 * 1024, pp_iterations = 3, pp_parallelism = 2,
     pp_saltLength = 16, pp_keyLength = 32\<rparr>"

datatype password_err =
    PasswordLength | SaltRandom | InvalidPHC | UnsupportedVersion | InvalidParameters
  | InvalidParameterEncoding | OutsideBounds | InvalidSalt | InvalidOutput

type_synonym idkey = "string \<Rightarrow> string \<Rightarrow> nat \<Rightarrow> nat \<Rightarrow> nat \<Rightarrow> nat \<Rightarrow> string"

definition argon2_Version :: nat where "argon2_Version = 19"

definition params_text :: "nat \<Rightarrow> nat \<Rightarrow> nat \<Rightarrow> string" where
  "params_text memory iterations parallelism =
     ''m='' @ show_nat memory @ '',t='' @ show_nat iterations @ '',p='' @ show_nat parallelism"

definition hashPassword :: "idkey \<Rightarrow> string \<Rightarrow> passwordParams \<Rightarrow> (string, password_err, string) em" where
  "hashPassword idKey password params =
     (if password = [] \<or> length password > 1024 then ethrow PasswordLength
      else ebind (\<lambda>r. if pp_saltLength params \<le> length r
              then (Inr (take (pp_saltLength params) r), drop (pp_saltLength params) r) else (Inl SaltRandom, []))
        (\<lambda>salt.
        let hash = idKey password salt (pp_iterations params) (pp_memory params) (pp_parallelism params) (pp_keyLength params)
        in ereturn (''$argon2id$v='' @ show_nat argon2_Version @ ''$'' @
             params_text (pp_memory params) (pp_iterations params) (pp_parallelism params) @ ''$'' @
             encode base64_std 5 salt @ ''$'' @ encode base64_std 5 hash)))"

definition HashPassword :: "idkey \<Rightarrow> string \<Rightarrow> (string, password_err, string) em" where
  "HashPassword idKey password = hashPassword idKey password defaultPasswordParams"

fun split_on :: "char \<Rightarrow> string \<Rightarrow> string list" where
  "split_on d [] = [[]]"
| "split_on d (c # cs) = (if c = d then [] # split_on d cs
     else (case split_on d cs of [] \<Rightarrow> [[c]] | p # ps \<Rightarrow> (c # p) # ps))"

definition scan_params :: "string \<Rightarrow> (nat \<times> nat \<times> nat) option" where
  "scan_params s =
     Option.bind (scan_lit ''m='' s) (\<lambda>s. Option.bind (scan_uint 32 s) (\<lambda>(m, s).
     Option.bind (scan_lit '',t='' s) (\<lambda>s. Option.bind (scan_uint 32 s) (\<lambda>(t, s).
     Option.bind (scan_lit '',p='' s) (\<lambda>s. Option.bind (scan_uint 8 s) (\<lambda>(p, s). Some (m, t, p)))))))"

definition parsePasswordHash :: "string \<Rightarrow> password_err + passwordParams \<times> string \<times> string" where
  "parsePasswordHash encoded =
     (let parts = split_on CHR ''$'' encoded in
      if length parts \<noteq> 6 \<or> parts ! 0 \<noteq> [] \<or> parts ! 1 \<noteq> ''argon2id'' then Inl InvalidPHC
      else (case Option.bind (scan_lit ''v='' (parts ! 2)) scan_int of
          None \<Rightarrow> Inl UnsupportedVersion
        | Some (version, _) \<Rightarrow>
      if version \<noteq> int argon2_Version then Inl UnsupportedVersion
      else (case scan_params (parts ! 3) of
          None \<Rightarrow> Inl InvalidParameters
        | Some (memory, iterations, parallelism) \<Rightarrow>
      if parts ! 3 \<noteq> params_text memory iterations parallelism then Inl InvalidParameterEncoding
      else if memory < 8 * 1024 \<or> memory > 256 * 1024 \<or> iterations < 1 \<or> iterations > 10 \<or>
              parallelism < 1 \<or> parallelism > 8 then Inl OutsideBounds
      else (case base64_decode (parts ! 4) of
          None \<Rightarrow> Inl InvalidSalt
        | Some salt \<Rightarrow>
      if length salt < 8 \<or> length salt > 64 then Inl InvalidSalt
      else (case base64_decode (parts ! 5) of
          None \<Rightarrow> Inl InvalidOutput
        | Some expected \<Rightarrow>
      if length expected < 16 \<or> length expected > 64 then Inl InvalidOutput
      else Inr (\<lparr>pp_memory = memory, pp_iterations = iterations, pp_parallelism = parallelism,
                 pp_saltLength = length salt, pp_keyLength = length expected\<rparr>, salt, expected))))))"

definition VerifyPassword :: "idkey \<Rightarrow> string \<Rightarrow> string \<Rightarrow> password_err + bool" where
  "VerifyPassword idKey encodedHash password =
     (case parsePasswordHash encodedHash of
        Inl err \<Rightarrow> Inl err
      | Inr (params, salt, expected) \<Rightarrow>
          let actual = idKey password salt (pp_iterations params) (pp_memory params) (pp_parallelism params) (length expected)
          in Inr (actual = expected))"


subsection \<open>Decoding undoes encoding\<close>

lemma base64_std_facts: "distinct base64_std" "length base64_std = 64"
  "list_all (\<lambda>c. byte c \<noteq> 10 \<and> byte c \<noteq> 13 \<and> c \<noteq> CHR ''$'') base64_std"
  by (simp_all add: base64_std_def)

lemma index_of_nth: "distinct xs \<Longrightarrow> k < length xs \<Longrightarrow> index_of (xs ! k) xs = Some k"
proof (induction xs arbitrary: k)
  case (Cons x xs)
  then show ?case by (cases k) auto
qed simp

lemma nat_bits_bits_nat: "nat_bits (length bs) (bits_nat bs) = bs"
  by (induction bs rule: rev_induct) (auto simp: bits_nat_append)

lemma groups_concat: "\<exists>r \<le> n. concat (groups n bs) = bs @ replicate r False"
proof (induction n bs rule: groups.induct)
  case (2 n b bs)
  show ?case
  proof (cases "length bs \<le> n")
    case True
    then have "concat (groups n (b # bs)) = (b # bs) @ replicate (n - length bs) False"
      by (simp add: take_replicate min_def)
    then show ?thesis by (intro exI [of _ "n - length bs"]) simp
  next
    case False
    from 2 obtain r where r: "r \<le> n"
      "concat (groups n (drop (Suc n) (b # bs))) = drop (Suc n) (b # bs) @ replicate r False" by auto
    have "take (Suc n) ((b # bs) @ replicate n False) = take (Suc n) (b # bs)" using False by simp
    then have "concat (groups n (b # bs)) = (b # bs) @ replicate r False"
      using r(2) append_take_drop_id [of "Suc n" "b # bs"] by (simp del: append_take_drop_id)
    with r(1) show ?thesis by blast
  qed
qed simp

lemma bits_bytes_bits: "bits_bytes (bits s) = s"
proof (induction s)
  case (Cons c s)
  then show ?case by (cases c) (simp add: bits_def)
qed (simp add: bits_def)

lemma base64_round_trip: "base64_decode (encode base64_std 5 s) = Some s"
proof -
  let ?e = "encode base64_std 5 s"
  have chars: "set ?e \<subseteq> set base64_std" by (rule encode_chars) (simp add: base64_std_facts)
  then have f: "filter (\<lambda>c. byte c \<noteq> 10 \<and> byte c \<noteq> 13) ?e = ?e"
    using base64_std_facts(3) by (intro filter_True) (auto simp: list_all_iff)
  have "map (\<lambda>c. nat_bits 6 (the (index_of c base64_std))) ?e = groups 5 (bits s)"
    unfolding encode_def map_map
  proof (rule map_idI)
    fix g assume g: "g \<in> set (groups 5 (bits s))"
    have l: "length g = 6" using length_groups [OF g] by simp
    then have "bits_nat g < length base64_std" using bits_nat_bound [of g] by (simp add: base64_std_facts)
    then show "((\<lambda>c. nat_bits 6 (the (index_of c base64_std))) \<circ> (\<lambda>g. base64_std ! bits_nat g)) g = g"
      using index_of_nth [OF base64_std_facts(1)] nat_bits_bits_nat [of g] l by simp
  qed
  moreover obtain r where r: "r \<le> 5" "concat (groups 5 (bits s)) = bits s @ replicate r False"
    using groups_concat by blast
  moreover from r(1) have "(8 * length s + r) div 8 * 8 = 8 * length s" by simp
  ultimately show ?thesis
    using chars by (simp add: base64_decode_def f Let_def list_all_iff bits_bytes_bits subset_iff)
qed

lemma split_on_step: "d \<notin> set a \<Longrightarrow> split_on d (a @ d # rest) = a # split_on d rest"
  by (induction a) auto

lemma split_on_last: "d \<notin> set a \<Longrightarrow> split_on d a = [a]"
  by (induction a) auto

subsection \<open>Properties\<close>

lemma default_text: "params_text 65536 3 2 = ''m=65536,t=3,p=2''" "show_nat argon2_Version = ''19''"
  by (simp_all add: params_text_def show_nat.simps digit_def argon2_Version_def char_of_def bit_0)

lemma scan_default:
  "scan_params ''m=65536,t=3,p=2'' = Some (65536, 3, 2)"
  "Option.bind (scan_lit ''v='' ''v=19'') scan_int = Some (19, [])"
  by (simp_all add: scan_params_def scan_lit_def HasPrefix_def scan_uint_def scan_int_def Let_def is_digit_def
      blank_def read_nat_def)

text \<open>
  A stored password hash verifies exactly the passwords with the same derived key:
  hashing a password and verifying another against the result compares the two derived
  keys under the salt that was drawn, so the password itself always verifies.
\<close>

theorem password_round_trip:
  assumes "HashPassword idKey password r = (Inr h, r')"
    and "\<And>p s t m l k. length (idKey p s t m l k) = k"
  shows "VerifyPassword idKey h other =
    Inr (idKey other (take 16 r) 3 65536 2 32 = idKey password (take 16 r) 3 65536 2 32)"
proof -
  let ?salt = "take 16 r" and ?key = "idKey password (take 16 r) 3 65536 2 32"
  have h: "h = [] @ CHR ''$'' # ''argon2id'' @ CHR ''$'' # ''v=19'' @ CHR ''$'' # ''m=65536,t=3,p=2'' @ CHR ''$'' #
      encode base64_std 5 ?salt @ CHR ''$'' # encode base64_std 5 ?key" and len: "length ?salt = 16"
    using assms(1)
    by (auto simp: HashPassword_def hashPassword_def defaultPasswordParams_def default_text ebind_def ethrow_def
        ereturn_def Let_def split: if_splits)
  have "CHR ''$'' \<notin> set (encode base64_std 5 x)" for x
    using encode_chars [of base64_std 5 x] base64_std_facts by (auto simp: list_all_iff)
  then have "split_on CHR ''$'' h = [[], ''argon2id'', ''v=19'', ''m=65536,t=3,p=2'', encode base64_std 5 ?salt,
      encode base64_std 5 ?key]"
    unfolding h by (simp add: split_on_step split_on_last)
  then have "parsePasswordHash h = Inr (\<lparr>pp_memory = 65536, pp_iterations = 3, pp_parallelism = 2,
      pp_saltLength = 16, pp_keyLength = 32\<rparr>, ?salt, ?key)"
    using len assms(2)
    by (simp add: parsePasswordHash_def Let_def scan_default default_text base64_round_trip argon2_Version_def)
  then show ?thesis using assms(2) by (simp add: VerifyPassword_def Let_def)
qed

theorem password_round_trip_witness:
  "VerifyPassword (\<lambda>p s t m l k. take k (p @ replicate k CHR ''z''))
     (projr (fst (HashPassword (\<lambda>p s t m l k. take k (p @ replicate k CHR ''z'')) ''pw'' (replicate 16 CHR ''s''))))
     ''px'' = Inr False"
proof -
  let ?k = "\<lambda>p s t m l k. take k (p @ replicate k CHR ''z'')"
  let ?h = "projr (fst (HashPassword ?k ''pw'' (replicate 16 CHR ''s'')))"
  have "HashPassword ?k ''pw'' (replicate 16 CHR ''s'') = (Inr ?h, [])"
    by (simp add: HashPassword_def hashPassword_def defaultPasswordParams_def ebind_def ereturn_def Let_def)
  from password_round_trip [OF this, of "''px''"] show ?thesis by simp
qed

text \<open>
  A hash taken from the database can only make the server derive a key within fixed
  limits: whatever the string, a successful parse has memory between 8 and 256 MiB, one
  to ten iterations, one to eight lanes, a salt of 8 to 64 bytes and an output of 16 to
  64 bytes.
\<close>

theorem parsed_hash_within_bounds:
  assumes "parsePasswordHash x = Inr (params, salt, expected)"
  shows "8 * 1024 \<le> pp_memory params \<and> pp_memory params \<le> 256 * 1024 \<and>
    1 \<le> pp_iterations params \<and> pp_iterations params \<le> 10 \<and>
    1 \<le> pp_parallelism params \<and> pp_parallelism params \<le> 8 \<and>
    8 \<le> length salt \<and> length salt \<le> 64 \<and> pp_saltLength params = length salt \<and>
    16 \<le> length expected \<and> length expected \<le> 64 \<and> pp_keyLength params = length expected"
  using assms
  by (auto simp: parsePasswordHash_def Let_def split: if_splits option.splits prod.splits)

theorem parsed_hash_within_bounds_witness:
  "\<exists>p s e. parsePasswordHash (''$argon2id$v=19$m=65536,t=3,p=2$'' @ encode base64_std 5 ''saltsalt'' @ ''$'' @
      encode base64_std 5 ''0123456789abcdef'') = Inr (p, s, e) \<and> length s \<le> 64 \<and> pp_memory p \<le> 256 * 1024"
proof -
  have d: "CHR ''$'' \<notin> set (encode base64_std 5 x)" for x
    using encode_chars [of base64_std 5 x] base64_std_facts by (auto simp: list_all_iff)
  let ?h = "[] @ CHR ''$'' # ''argon2id'' @ CHR ''$'' # ''v=19'' @ CHR ''$'' # ''m=65536,t=3,p=2'' @ CHR ''$'' #
      encode base64_std 5 ''saltsalt'' @ CHR ''$'' # encode base64_std 5 ''0123456789abcdef''"
  have "split_on CHR ''$'' ?h = [[], ''argon2id'', ''v=19'', ''m=65536,t=3,p=2'', encode base64_std 5 ''saltsalt'',
      encode base64_std 5 ''0123456789abcdef'']"
    using d by (simp add: split_on_step split_on_last)
  then have "\<exists>p s e. parsePasswordHash ?h = Inr (p, s, e)"
    by (simp add: parsePasswordHash_def Let_def scan_default default_text base64_round_trip argon2_Version_def)
  then obtain p s e where "parsePasswordHash ?h = Inr (p, s, e)" by blast
  with parsed_hash_within_bounds [OF this] show ?thesis by auto
qed

end
