(* ===== verification/Auth.thy ===== *)
theory Auth
  imports Store_Props Password
begin

text \<open>
  \<^verbatim>\<open>internal/auth/service.go\<close>: bootstrap of the administrator, login, web-session
  authentication and logout.  The state is the database, the random source, the number
  of password verifications in flight and the answers \<^verbatim>\<open>ctx.Err()\<close> will give.
  \<open>sha256\<close> and the key derivation are arguments.  The locale \<open>session_store\<close> states
  what the service needs of the web sessions.
\<close>

datatype auth_err =
    ErrInvalidCredentials | ErrVerificationBusy | ErrVerificationFailed | ErrPasswordRequired
  | AuthContext ctx_err | AuthStore store_err | AuthRandom id_err | AuthPassword password_err

record auth_world =
  a_db :: dbst
  a_rand :: string
  a_slots :: nat
  a_ctx :: "ctx_err option list"

type_synonym 'a auth = "(auth_world, auth_err, 'a) em"

record LoginResult =
  lr_token :: string
  lr_expires_at :: time
  lr_user :: User

definition SessionDuration :: duration where "SessionDuration = 24 * 3600 * second"
definition passwordVerificationCapacity :: nat where "passwordVerificationCapacity = 2"

definition with_db :: "'a dbm \<Rightarrow> 'a auth" where
  "with_db m = (\<lambda>w. case m (a_db w) of (r, s) \<Rightarrow> (map_sum AuthStore id r, w\<lparr>a_db := s\<rparr>))"

definition with_rand :: "('e \<Rightarrow> auth_err) \<Rightarrow> (string, 'e, 'a) em \<Rightarrow> 'a auth" where
  "with_rand f m = (\<lambda>w. case m (a_rand w) of (r, s) \<Rightarrow> (map_sum f id r, w\<lparr>a_rand := s\<rparr>))"

definition ctxErr :: "unit auth" where
  "ctxErr = (\<lambda>w. case a_ctx w of
     [] \<Rightarrow> (Inr (), w)
   | None # cs \<Rightarrow> (Inr (), w\<lparr>a_ctx := cs\<rparr>)
   | Some e # cs \<Rightarrow> (Inl (AuthContext e), w\<lparr>a_ctx := cs\<rparr>))"

definition Bootstrap :: "idkey \<Rightarrow> string \<Rightarrow> time \<Rightarrow> (User \<times> bool) auth" where
  "Bootstrap idKey password now =
     ebind (with_db HasUsers) (\<lambda>hasUsers.
     if hasUsers then ebind (with_db (UserByUsername ''admin'')) (\<lambda>user. ereturn (user, False))
     else if password = [] then ethrow ErrPasswordRequired
     else ebind (with_rand AuthPassword (HashPassword idKey password)) (\<lambda>hash.
       ebind (with_rand AuthRandom (New ''usr'')) (\<lambda>userID.
       with_db (BootstrapAdmin userID ''admin'' hash now))))"

text \<open>A slot is taken for the duration of the verification and given back on every path.\<close>

definition release_slot :: "auth_world \<Rightarrow> auth_world" where
  "release_slot w = w\<lparr>a_slots := a_slots w - 1\<rparr>"

definition verifyPasswordWithAdmission ::
  "(string \<Rightarrow> string \<Rightarrow> password_err + bool) \<Rightarrow> string \<Rightarrow> string \<Rightarrow> bool auth" where
  "verifyPasswordWithAdmission verify encodedHash password =
     ethen ctxErr (\<lambda>w.
       if a_slots w < passwordVerificationCapacity then
         (case ctxErr (w\<lparr>a_slots := Suc (a_slots w)\<rparr>) of
            (Inl e, t) \<Rightarrow> (Inl e, release_slot t)
          | (Inr _, t) \<Rightarrow> (map_sum AuthPassword id (verify encodedHash password), release_slot t))
       else ethen ctxErr (ethrow ErrVerificationBusy) w)"

definition DigestToken :: "(string \<Rightarrow> string) \<Rightarrow> string \<Rightarrow> string" where
  "DigestToken sha256 token = sha256 token"

definition login_error :: "auth_err \<Rightarrow> auth_err" where
  "login_error err = (case err of
     ErrVerificationBusy \<Rightarrow> err | AuthContext _ \<Rightarrow> err | _ \<Rightarrow> ErrVerificationFailed)"

definition Login ::
  "(string \<Rightarrow> string) \<Rightarrow> (string \<Rightarrow> string \<Rightarrow> password_err + bool) \<Rightarrow> (WebSession \<Rightarrow> unit dbm) \<Rightarrow>
   string \<Rightarrow> string \<Rightarrow> time \<Rightarrow> LoginResult auth" where
  "Login sha256 verify createWebSession username password now =
     ethen ctxErr
     (if length username = 0 \<or> length username > 128 \<or> length password = 0 \<or> length password > 1024
      then ethrow ErrInvalidCredentials
      else ebind (etry (with_db (UserByUsername username))) (\<lambda>found. case found of
        Inl err \<Rightarrow> if err = AuthStore ErrNotFound then ethrow ErrInvalidCredentials else ethrow err
      | Inr user \<Rightarrow>
        ebind (etry (verifyPasswordWithAdmission verify (u_password_hash user) password)) (\<lambda>verified. case verified of
          Inl err \<Rightarrow> ethrow (login_error err)
        | Inr valid \<Rightarrow>
          if \<not> valid then ethrow ErrInvalidCredentials
          else ebind (with_rand AuthRandom (Token 32)) (\<lambda>token.
               ebind (with_rand AuthRandom (New ''ses'')) (\<lambda>sessionID.
               let expiresAt = now + SessionDuration; digest = DigestToken sha256 token in
               ethen (with_db (createWebSession \<lparr>ws_id = sessionID, ws_user_id = u_id user,
                  ws_token_digest = digest, ws_expires_at = expiresAt, ws_created_at = now\<rparr>))
               (ereturn \<lparr>lr_token = token, lr_expires_at = expiresAt, lr_user = user\<rparr>))))))"

definition Authenticate ::
  "(string \<Rightarrow> string) \<Rightarrow> (string \<Rightarrow> time \<Rightarrow> User dbm) \<Rightarrow> string \<Rightarrow> time \<Rightarrow> User auth" where
  "Authenticate sha256 userBySessionDigest token now =
     (if length token < 20 \<or> length token > 256 then ethrow ErrInvalidCredentials
      else ebind (etry (with_db (userBySessionDigest (DigestToken sha256 token) now))) (\<lambda>found. case found of
        Inl err \<Rightarrow> if err = AuthStore ErrNotFound then ethrow ErrInvalidCredentials else ethrow err
      | Inr user \<Rightarrow> ereturn user))"

definition Logout :: "(string \<Rightarrow> string) \<Rightarrow> (string \<Rightarrow> unit dbm) \<Rightarrow> string \<Rightarrow> unit auth" where
  "Logout sha256 deleteWebSession token =
     (if token = [] \<or> length token > 256 then ereturn ()
      else with_db (deleteWebSession (DigestToken sha256 token)))"

subsection \<open>Steps of a login\<close>

lemma ctxErr_frame: "ctxErr w = (r, t) \<Longrightarrow> a_db t = a_db w \<and> a_slots t = a_slots w \<and> a_rand t = a_rand w"
  by (auto simp: ctxErr_def split: list.splits option.splits)

lemma with_db_Inr: "with_db m w = (Inr x, t) \<longleftrightarrow> (\<exists>s. m (a_db w) = (Inr x, s) \<and> t = w\<lparr>a_db := s\<rparr>)"
  by (auto simp: with_db_def split: prod.splits sum.splits) (metis Inl_Inr_False map_sum.simps(1) sum.exhaust map_sum.simps(2) id_apply sum.inject(2))

lemma with_rand_Inr:
  "with_rand f m w = (Inr x, t) \<longleftrightarrow> (\<exists>s. m (a_rand w) = (Inr x, s) \<and> t = w\<lparr>a_rand := s\<rparr>)"
  by (auto simp: with_rand_def split: prod.splits sum.splits) (metis Inl_Inr_False map_sum.simps(1) sum.exhaust map_sum.simps(2) id_apply sum.inject(2))

lemma etry_Inr: "etry m s = (Inr r, t) \<longleftrightarrow> m s = (r, t)"
  by (auto simp: etry_def split: prod.splits)

lemma UserByUsername_Inr:
  "UserByUsername n s = (Inr u, t) \<Longrightarrow> u \<in> set (users (tables s)) \<and> u_username u = n \<and> tables t = tables s"
  unfolding UserByUsername_def
  by (erule query_InrE) (auto split: option.splits dest!: find_SomeD)

text \<open>The verification changes nothing but the pending answers of the context.\<close>

lemma verify_frame:
  "verifyPasswordWithAdmission verify h p w = (r, t) \<Longrightarrow>
     a_db t = a_db w \<and> a_slots t = a_slots w \<and> a_rand t = a_rand w \<and>
     (\<forall>b. r = Inr b \<longrightarrow> verify h p = Inr b \<and> a_slots w < passwordVerificationCapacity)"
  unfolding verifyPasswordWithAdmission_def ebind_def release_slot_def
  by (auto split: prod.splits sum.splits if_splits simp: ethrow_def dest!: ctxErr_frame)
     (metis Inl_Inr_False map_sum.simps(1) sum.exhaust map_sum.simps(2) id_apply sum.inject(2))+

lemma Token_Inr: "Token 32 r = (Inr t, r') \<Longrightarrow> length t = 43"
  by (auto simp: Token_def ReadFull_def ebind_def ereturn_def ethrow_def encode_def length_groups_count split: if_splits)

lemma login_success:
  assumes "Login sha256 verify create n p now w = (Inr r, w')"
  obtains s i where "length (lr_token r) = 43" "lr_expires_at r = now + SessionDuration"
    "lr_user r \<in> set (users (tables s))" "u_username (lr_user r) = n"
    "verify (u_password_hash (lr_user r)) p = Inr True" "tables s = tables (a_db w)"
    "create \<lparr>ws_id = i, ws_user_id = u_id (lr_user r), ws_token_digest = DigestToken sha256 (lr_token r),
        ws_expires_at = now + SessionDuration, ws_created_at = now\<rparr> s = (Inr (), a_db w')"
proof -
  from assms obtain w1 x1 w2 user w3 where
    1: "ctxErr w = (Inr x1, w1)" and 2: "with_db (UserByUsername n) w1 = (Inr user, w2)" and
    3: "verifyPasswordWithAdmission verify (u_password_hash user) p w2 = (Inr True, w3)" and
    k: "ebind (with_rand AuthRandom (Token 32)) (\<lambda>token.
         ebind (with_rand AuthRandom (New ''ses'')) (\<lambda>sessionID.
         let expiresAt = now + SessionDuration; digest = DigestToken sha256 token in
         ethen (with_db (create \<lparr>ws_id = sessionID, ws_user_id = u_id user,
            ws_token_digest = digest, ws_expires_at = expiresAt, ws_created_at = now\<rparr>))
         (ereturn \<lparr>lr_token = token, lr_expires_at = expiresAt, lr_user = user\<rparr>))) w3 = (Inr r, w')"
    unfolding Login_def
    by (auto simp: etry_Inr split: if_splits sum.splits elim!: ebind_InrE)
  from k obtain token i w4 w5 where
    4: "with_rand AuthRandom (Token 32) w3 = (Inr token, w4)" and
    5: "with_rand AuthRandom (New ''ses'') w4 = (Inr i, w5)" and
    6: "with_db (create \<lparr>ws_id = i, ws_user_id = u_id user, ws_token_digest = DigestToken sha256 token,
          ws_expires_at = now + SessionDuration, ws_created_at = now\<rparr>) w5 = (Inr (), w')" and
    r: "r = \<lparr>lr_token = token, lr_expires_at = now + SessionDuration, lr_user = user\<rparr>"
    by (auto simp: Let_def elim!: ebind_InrE)
  have u: "user \<in> set (users (tables (a_db w1)))" "u_username user = n" "tables (a_db w2) = tables (a_db w1)"
    using 2 by (auto simp: with_db_Inr dest!: UserByUsername_Inr)
  have v: "a_db w3 = a_db w2" "verify (u_password_hash user) p = Inr True"
    using verify_frame [OF 3] by auto
  have d: "a_db w5 = a_db w3" using 4 5 by (auto simp: with_rand_Inr)
  have "length token = 43" using 4 by (auto simp: with_rand_Inr dest!: Token_Inr)
  moreover have "a_db w1 = a_db w" using ctxErr_frame [OF 1] by simp
  moreover have "create \<lparr>ws_id = i, ws_user_id = u_id user, ws_token_digest = DigestToken sha256 token,
          ws_expires_at = now + SessionDuration, ws_created_at = now\<rparr> (a_db w5) = (Inr (), a_db w')"
    using 6 by (auto simp: with_db_Inr)
  ultimately show thesis using that [of "a_db w5" i] u v d r by simp
qed

subsection \<open>What the service needs of the web sessions\<close>

locale session_store =
  fixes create :: "WebSession \<Rightarrow> unit dbm"
    and lookup :: "string \<Rightarrow> time \<Rightarrow> User dbm"
    and delete :: "string \<Rightarrow> unit dbm"
  assumes create_lookup: "\<lbrakk>create w s = (Inr (), t); schema_ok (tables s); u \<in> set (users (tables s));
      u_id u = ws_user_id w; tables t' = tables t; faults t' = []\<rbrakk>
      \<Longrightarrow> lookup (ws_token_digest w) now t' = (if now < ws_expires_at w then Inr u else Inl ErrNotFound, t')"
    and delete_lookup: "\<lbrakk>delete dg s = (Inr (), t); tables t' = tables t; faults t' = []\<rbrakk>
      \<Longrightarrow> lookup dg now t' = (Inl ErrNotFound, t')"
begin

lemma login_then_authenticate:
  assumes "Login sha256 verify create n p now w = (Inr r, w')" "schema_ok (tables (a_db w))"
    "tables (a_db x) = tables (a_db w')" "faults (a_db x) = []"
  shows "Authenticate sha256 lookup (lr_token r) now' x =
    (if now' < now + SessionDuration then Inr (lr_user r) else Inl ErrInvalidCredentials, x)"
proof -
  from login_success [OF assms(1)] obtain s i where l: "length (lr_token r) = 43"
    "lr_user r \<in> set (users (tables s))" "tables s = tables (a_db w)"
    "create \<lparr>ws_id = i, ws_user_id = u_id (lr_user r), ws_token_digest = DigestToken sha256 (lr_token r),
        ws_expires_at = now + SessionDuration, ws_created_at = now\<rparr> s = (Inr (), a_db w')" by metis
  have "schema_ok (tables s)" using l(3) assms(2) by simp
  from create_lookup [OF l(4) this l(2) _ assms(3,4), of now'] l(1) show ?thesis
    by (simp add: Authenticate_def ebind_def etry_def with_db_def ereturn_def ethrow_def)
qed

lemma logout_then_authenticate:
  assumes "Logout sha256 delete token w = (Inr y, w')" "tables (a_db x) = tables (a_db w')" "faults (a_db x) = []"
    "token \<noteq> []"
  shows "Authenticate sha256 lookup token now' x = (Inl ErrInvalidCredentials, x)"
proof (cases "length token > 256")
  case True
  then show ?thesis by (simp add: Authenticate_def ethrow_def)
next
  case False
  with assms(1,4) have "delete (DigestToken sha256 token) (a_db w) = (Inr (), a_db w')"
    by (auto simp: Logout_def with_db_Inr)
  from delete_lookup [OF this assms(2,3)] show ?thesis
    by (simp add: Authenticate_def ebind_def etry_def with_db_def ereturn_def ethrow_def)
qed

end


subsection \<open>The store provides it\<close>

lemma CreateWebSession_Inr:
  assumes "CreateWebSession w s = (Inr x, t)"
  shows "tables t = snd (insert_web_session w (tables s)) \<and> schema_ok (tables t)"
  using assms unfolding CreateWebSession_def by (elim exec_InrE) simp

interpretation web_store: session_store CreateWebSession UserBySessionDigest DeleteWebSession
proof
  fix w s u now and t t' :: dbst
  assume a: "CreateWebSession w s = (Inr (), t)" "u \<in> set (users (tables s))" "u_id u = ws_user_id w"
    "tables t' = tables t" "faults t' = []"
  have t: "tables t' = snd (insert_web_session w (tables s))" "schema_ok (tables t')"
    using CreateWebSession_Inr [OF a(1)] a(4) by auto
  then have "session_user (ws_token_digest w) now (tables t') = (if ws_expires_at w > now then Some u else None)"
    using session_user_Some [OF t(2), of w u now] a(2,3) by (simp add: insert_web_session_def)
  with a(5) show "UserBySessionDigest (ws_token_digest w) now t' =
      (if now < ws_expires_at w then Inr u else Inl ErrNotFound, t')"
    by (simp add: UserBySessionDigest_ok)
next
  fix dg s now and t t' :: dbst
  assume a: "DeleteWebSession dg s = (Inr (), t)" "tables t' = tables t" "faults t' = []"
  then have "web_sessions (tables t') = filter (\<lambda>w. ws_token_digest w \<noteq> dg) (web_sessions (tables s))"
    unfolding DeleteWebSession_def by (auto simp: delete_web_sessions_def del_rows_def elim!: exec_InrE)
  then have "session_user dg now (tables t') = None"
    by (auto simp: session_user_def find_None_ball split: option.splits dest!: find_SomeD)
  with a(3) show "UserBySessionDigest dg now t' = (Inl ErrNotFound, t')"
    by (simp add: UserBySessionDigest_ok)
qed


lemma bootstrap_created:
  assumes "BootstrapAdmin i n h now s = (Inr (u, True), t)"
  shows "u_username u = n \<and> (users (tables s) = [] \<longrightarrow> users (tables t) = [u])"
proof -
  from assms [unfolded BootstrapAdmin_def, THEN tx_success] obtain s' v found s'' where
    "tables s' = tables s" "tables t = tables v" "findFirstUser s' = (found, s'')" and
    k: "(case found of Inr user \<Rightarrow> ereturn (user, False)
        | Inl err \<Rightarrow> if err \<noteq> ErrNotFound then ethrow err
            else if i = [] \<or> n = [] \<or> h = [] then ethrow (ErrInvalidArg ''admin bootstrap fields are required'')
            else (let user = \<lparr>u_id = i, u_username = n, u_password_hash = h, u_created_at = now\<rparr>
              in ethen (sql_exec ''insert bootstrap admin'' (insert_user user)) (ereturn (user, True)))) s'' = (Inr (u, True), v)"
    by (auto simp: etry_Inr elim!: ebind_InrE)
  moreover have "tables s'' = tables s'"
    by (rule tables_same [of findFirstUser]) (use calculation(3) in \<open>auto simp: findFirstUser_def intro: reads\<close>)
  ultimately show ?thesis
    by (auto simp: Let_def insert_user_def split: sum.splits if_splits elim!: exec_InrE)
qed

subsection \<open>Properties\<close>

text \<open>
  Login opens the session it says it opens: after a successful login the token
  authenticates as exactly the user who logged in until twenty-four hours later, and is
  rejected from then on.
\<close>

theorem login_authenticates:
  assumes "Login sha256 verify CreateWebSession name password now w = (Inr r, w')"
    and "schema_ok (tables (a_db w))"
    and "tables (a_db x) = tables (a_db w')" and "faults (a_db x) = []"
  shows "u_username (lr_user r) = name \<and> verify (u_password_hash (lr_user r)) password = Inr True \<and>
    Authenticate sha256 UserBySessionDigest (lr_token r) now' x =
      (if now' < now + 24 * 3600 * second then Inr (lr_user r) else Inl ErrInvalidCredentials, x)"
proof -
  from login_success [OF assms(1)] have "u_username (lr_user r) = name"
    "verify (u_password_hash (lr_user r)) password = Inr True" by metis+
  with web_store.login_then_authenticate [OF assms, of now'] show ?thesis
    by (simp add: SessionDuration_def)
qed

definition ex_auth :: auth_world where
  "ex_auth = \<lparr>a_db = ex_st, a_rand = replicate 60 CHR ''r'', a_slots = 0, a_ctx = []\<rparr>"

abbreviation ex_login :: "LoginResult auth" where
  "ex_login \<equiv> Login (\<lambda>t. t) (\<lambda>h p. Inr (p = ''secret'')) CreateWebSession ''admin'' ''secret'' 10"

lemma ex_login_ok: "\<not> isl (fst (ex_login ex_auth))" "faults (a_db (snd (ex_login ex_auth))) = []"
  by code_simp+

theorem login_authenticates_witness:
  "\<exists>r. fst (ex_login ex_auth) = Inr r \<and> u_username (lr_user r) = ''admin'' \<and>
     Authenticate (\<lambda>t. t) UserBySessionDigest (lr_token r) 11 (snd (ex_login ex_auth)) =
       (Inr (lr_user r), snd (ex_login ex_auth))"
proof -
  obtain r where r: "ex_login ex_auth = (Inr r, snd (ex_login ex_auth))"
    using succeeds [of ex_login, OF ex_login_ok(1)] by blast
  have "schema_ok (tables (a_db ex_auth))" using ex_inv(2) by (simp add: ex_auth_def)
  from login_authenticates [OF r this refl ex_login_ok(2), of 11] r show ?thesis by (auto intro: fstI)
qed

text \<open>
  Logout ends the session: once a logout has returned, its token is rejected at any
  time, whether or not it had expired.
\<close>

theorem logout_is_final:
  assumes "Logout sha256 DeleteWebSession token w = (Inr y, w')" and "token \<noteq> []"
    and "tables (a_db x) = tables (a_db w')" and "faults (a_db x) = []"
  shows "Authenticate sha256 UserBySessionDigest token now x = (Inl ErrInvalidCredentials, x)"
  using web_store.logout_then_authenticate [OF assms(1,3,4,2)] .

theorem logout_is_final_witness:
  "Authenticate (\<lambda>t. t) UserBySessionDigest (replicate 43 CHR ''t'') 5
     (snd (Logout (\<lambda>t. t) DeleteWebSession (replicate 43 CHR ''t'') ex_auth)) =
   (Inl ErrInvalidCredentials, snd (Logout (\<lambda>t. t) DeleteWebSession (replicate 43 CHR ''t'') ex_auth))"
proof -
  let ?m = "Logout (\<lambda>t. t) DeleteWebSession (replicate 43 CHR ''t'')"
  have ok: "\<not> isl (fst (?m ex_auth))" "faults (a_db (snd (?m ex_auth))) = []" by code_simp+
  obtain y where y: "?m ex_auth = (Inr y, snd (?m ex_auth))" using succeeds [of ?m, OF ok(1)] by blast
  show ?thesis by (rule logout_is_final [OF y _ refl ok(2)]) simp
qed

text \<open>
  Password verification is admitted for at most two logins at a time.  When both
  slots are taken the login fails as busy (or with the context's error) without looking
  at the password, and every login gives its slot back, whatever its outcome.
\<close>

theorem verification_is_bounded:
  assumes "a_slots w \<le> 2"
  shows "a_slots (snd (verifyPasswordWithAdmission verify h p w)) = a_slots w \<and>
    (a_slots w = 2 \<longrightarrow> verifyPasswordWithAdmission verify h p w = verifyPasswordWithAdmission verify' h' p' w \<and>
       isl (fst (verifyPasswordWithAdmission verify h p w)))"
proof -
  obtain r t where v: "verifyPasswordWithAdmission verify h p w = (r, t)" by fastforce
  have "verifyPasswordWithAdmission verify h p w = verifyPasswordWithAdmission verify' h' p' w"
    if "a_slots w = 2"
  proof -
    obtain y u where c: "ctxErr w = (y, u)" by fastforce
    then have "a_slots u = 2" using ctxErr_frame [OF c] that by simp
    with c show ?thesis
      by (cases y) (simp_all add: verifyPasswordWithAdmission_def ebind_def passwordVerificationCapacity_def)
  qed
  moreover have "isl r" if "a_slots w = 2"
    using verify_frame [OF v] that by (cases r) (auto simp: passwordVerificationCapacity_def)
  moreover have "fst (verifyPasswordWithAdmission verify h p w) = r"
    "a_slots (snd (verifyPasswordWithAdmission verify h p w)) = a_slots w"
    using verify_frame [OF v] v by simp_all
  ultimately show ?thesis by metis
qed

theorem verification_is_bounded_witness:
  "isl (fst (verifyPasswordWithAdmission (\<lambda>h p. Inr True) ''h'' ''p'' (ex_auth\<lparr>a_slots := 2\<rparr>)))"
  using verification_is_bounded [of "ex_auth\<lparr>a_slots := 2\<rparr>" "\<lambda>h p. Inr True" "''h''" "''p''"] by simp

text \<open>
  There is one administrator: the first bootstrap creates it from the password, and
  every later one returns it unchanged and ignores the password it is given.
\<close>

theorem bootstrap_once:
  assumes "Bootstrap idKey password now w = (Inr (u, True), w')" and "schema_ok (tables (a_db w))"
    and "tables (a_db x) = tables (a_db w')" and "faults (a_db x) = []"
  shows "users (tables (a_db w)) = [] \<and> users (tables (a_db w')) = [u] \<and> u_username u = ''admin'' \<and>
    Bootstrap idKey' password' now' x = (Inr (u, False), x)"
proof -
  from assms(1) obtain w1 hash w2 i w3 where
    h: "with_db HasUsers w = (Inr False, w1)" and
    p: "with_rand AuthPassword (HashPassword idKey password) w1 = (Inr hash, w2)" and
    n: "with_rand AuthRandom (New ''usr'') w2 = (Inr i, w3)" and
    b: "with_db (BootstrapAdmin i ''admin'' hash now) w3 = (Inr (u, True), w')"
    unfolding Bootstrap_def by (auto split: if_splits elim!: ebind_InrE)
  have e: "users (tables (a_db w)) = []" "tables (a_db w1) = tables (a_db w)"
    using h by (auto simp: with_db_Inr HasUsers_def dest!: sql_query_Inr)
  have "a_db w3 = a_db w1" using p n by (auto simp: with_rand_Inr)
  with b e have "users (tables (a_db w')) = [u]" "u_username u = ''admin''"
    by (auto simp: with_db_Inr dest!: bootstrap_created)
  with e(1) show ?thesis
    using assms(3,4)
    by (simp add: Bootstrap_def ebind_def with_db_def HasUsers_ok UserByUsername_ok ereturn_def)
qed

theorem bootstrap_once_witness:
  "let w = \<lparr>a_db = \<lparr>tables = empty_db, faults = []\<rparr>, a_rand = replicate 40 CHR ''r'', a_slots = 0, a_ctx = []\<rparr>;
       idKey = (\<lambda>p s t m l k. replicate k CHR ''k''); w' = snd (Bootstrap idKey ''pw'' 1 w)
   in Bootstrap idKey ''other'' 2 w' = (Inr (hd (users (tables (a_db w'))), False), w')"
proof -
  let ?w = "\<lparr>a_db = \<lparr>tables = empty_db, faults = []\<rparr>, a_rand = replicate 40 CHR ''r'', a_slots = 0, a_ctx = []\<rparr>"
  let ?k = "\<lambda>p s t m l k. replicate k CHR ''k''"
  let ?m = "Bootstrap ?k ''pw'' 1"
  have hash: "\<exists>h. HashPassword ?k ''pw'' (replicate 40 CHR ''r'') = (Inr h, replicate 24 CHR ''r'') \<and> h \<noteq> []"
    by (simp add: HashPassword_def hashPassword_def defaultPasswordParams_def ebind_def ereturn_def Let_def)
  have "schema_ok empty_db" using store_inv_empty by (simp add: store_inv_def)
  moreover obtain h where h: "HashPassword ?k ''pw'' (replicate 40 CHR ''r'') = (Inr h, replicate 24 CHR ''r'')" "h \<noteq> []"
    using hash by blast
  moreover have n: "New ''usr'' (replicate 24 CHR ''r'') =
      (Inr (''usr_'' @ base32_lower (replicate 16 CHR ''r'')), replicate 8 CHR ''r'')"
    by (simp add: New_def newWithReader_def ReadFull_def randomIDBytes_def ebind_def ereturn_def Let_def validPrefix_def)
  ultimately have "\<exists>u w'. ?m ?w = (Inr (u, True), w') \<and> faults (a_db w') = []"
    by (simp add: Bootstrap_def ebind_def with_db_def with_rand_def HasUsers_ok BootstrapAdmin_first empty_db_def Let_def)
  then obtain u w' where r: "?m ?w = (Inr (u, True), w')" "faults (a_db w') = []" by blast
  from bootstrap_once [OF r(1) _ refl r(2), of ?k "''other''" 2] \<open>schema_ok empty_db\<close> r show ?thesis
    by (simp add: Let_def)
qed

end
