(* ===== verification/Pairing.thy ===== *)
theory Pairing
  imports Store_Props Ident
begin

text \<open>
  \<^verbatim>\<open>internal/pairing/service.go\<close>: one-time pairing codes on top of the store.  The
  state is the database and the random source; the store's two methods are arguments, as
  the Go service takes them through an interface, and \<open>hmac secret\<close> stands for
  HMAC-SHA256.  The locale \<open>pairing_store\<close> states what the service relies on, and its
  interpretation discharges it for the methods of the store.
\<close>

datatype pairing_err = ErrInvalidCode | PairStore store_err | PairRandom id_err | ErrShortSecret

record pairing_world =
  p_db :: dbst
  p_rand :: string

type_synonym 'a pairing = "(pairing_world, pairing_err, 'a) em"

record Offer =
  of_code :: string
  of_expires_at :: time

definition CodeLifetime :: duration where "CodeLifetime = 600 * second"
definition codeLength :: nat where "codeLength = 8"
definition codeAlphabet :: string where "codeAlphabet = ''ABCDEFGHJKLMNPQRSTUVWXYZ23456789''"

definition NewService :: "string \<Rightarrow> pairing_err + string" where
  "NewService secret = (if length secret < 32 then Inl ErrShortSecret else Inr secret)"

definition on_db :: "'a dbm \<Rightarrow> 'a pairing" where
  "on_db m = (\<lambda>w. case m (p_db w) of (r, s) \<Rightarrow> (map_sum PairStore id r, w\<lparr>p_db := s\<rparr>))"

definition on_rand :: "(string, id_err, 'a) em \<Rightarrow> 'a pairing" where
  "on_rand m = (\<lambda>w. case m (p_rand w) of (r, s) \<Rightarrow> (map_sum PairRandom id r, w\<lparr>p_rand := s\<rparr>))"

definition generateCode :: "string pairing" where
  "generateCode = ebind (on_rand (ReadFull codeLength)) (\<lambda>random.
     ereturn (map (\<lambda>c. codeAlphabet ! (byte c mod length codeAlphabet)) random))"

definition offer_code ::
  "(PairingCode \<Rightarrow> time \<Rightarrow> unit dbm) \<Rightarrow> (string \<Rightarrow> string) \<Rightarrow> ident \<Rightarrow> time \<Rightarrow> Offer pairing" where
  "offer_code createPairingCode digest deviceID now =
     ebind generateCode (\<lambda>code.
     ebind (on_rand (New ''pair'')) (\<lambda>pairingID.
     let expiresAt = now + CodeLifetime in
     ethen (on_db (createPairingCode \<lparr>pc_id = pairingID, pc_device_id = deviceID, pc_code_digest = digest code,
        pc_expires_at = expiresAt, pc_consumed_at = None, pc_created_at = now\<rparr> now))
     (ereturn \<lparr>of_code = take 4 code @ ''-'' @ drop 4 code, of_expires_at = expiresAt\<rparr>)))"

text \<open>
  \<^verbatim>\<open>strings.ToUpper\<close> by rune.  Besides the ASCII letters only U+0131 and U+017F have
  an ASCII upper case (\<^verbatim>\<open>I\<close> and \<^verbatim>\<open>S\<close>); every other rune stays outside ASCII,
  where which one it is makes no difference to \<^verbatim>\<open>Normalize\<close>.
\<close>

definition upper_chunk :: "string \<Rightarrow> string" where
  "upper_chunk c =
     (if rune_of c = 305 then ''I'' else if rune_of c = 383 then ''S''
      else if 97 \<le> rune_of c \<and> rune_of c \<le> 122 then [char_of (rune_of c - 32)]
      else rune_bytes c)"

definition ToUpper :: "string \<Rightarrow> string" where
  "ToUpper s = concat (map upper_chunk (chunks s))"

definition Normalize :: "string \<Rightarrow> pairing_err + string" where
  "Normalize code =
     (let normalized = ToUpper (filter (\<lambda>c. c \<noteq> CHR ''-'') (TrimSpace code)) in
      if length normalized \<noteq> codeLength then Inl ErrInvalidCode
      else if list_all (\<lambda>c. c \<in> set codeAlphabet) normalized then Inr normalized
      else Inl ErrInvalidCode)"

definition claim_code ::
  "(ident \<Rightarrow> string \<Rightarrow> time \<Rightarrow> Device dbm) \<Rightarrow> (string \<Rightarrow> string) \<Rightarrow> ident \<Rightarrow> string \<Rightarrow> time \<Rightarrow> Device pairing" where
  "claim_code claimPairing digest userID code now =
     (case Normalize code of
        Inl _ \<Rightarrow> ethrow ErrInvalidCode
      | Inr normalized \<Rightarrow>
          ebind (etry (on_db (claimPairing userID (digest normalized) now))) (\<lambda>result.
          case result of
            Inl err \<Rightarrow> if err = PairStore ErrPairingInvalid then ethrow ErrInvalidCode else ethrow err
          | Inr device \<Rightarrow> ereturn device))"

subsection \<open>Codes\<close>

lemma codeAlphabet_facts:
  "length codeAlphabet = 32" "distinct codeAlphabet"
  "list_all (\<lambda>c. byte c < 128 \<and> \<not> isSpaceRune (byte c) \<and> c \<noteq> CHR ''-'' \<and> \<not> (97 \<le> byte c \<and> byte c \<le> 122)) codeAlphabet"
  by (simp_all add: codeAlphabet_def isSpaceRune_def in_range_def)

lemma code_char:
  assumes "c \<in> set codeAlphabet"
  shows "byte c < 128" "\<not> isSpaceRune (byte c)" "c \<noteq> CHR ''-''" "\<not> (97 \<le> byte c \<and> byte c \<le> 122)"
  using assms codeAlphabet_facts(3) by (auto simp: list_all_iff)

lemma upper_code_char: "c \<in> set codeAlphabet \<Longrightarrow> upper_chunk [c] = [c]"
  using code_char [of c] rune_of_ascii [of c] utf8_len_ascii [of c "[]"]
  by (auto simp: upper_chunk_def rune_bytes_def simp del: utf8_len.simps)

lemma ToUpper_code:
  assumes "set s \<subseteq> set codeAlphabet"
  shows "ToUpper s = s"
proof -
  have "ascii s" using assms code_char(1) by (auto simp: ascii_def list_all_iff)
  then have "map upper_chunk (chunks s) = map (\<lambda>c. [c]) s"
    using assms upper_code_char by (auto simp: chunks_ascii)
  then show ?thesis by (simp add: ToUpper_def)
qed

lemma dash_ok: "byte CHR ''-'' < 128" "\<not> isSpaceRune (byte CHR ''-'')"
  by (simp_all add: isSpaceRune_def in_range_def)

lemma Normalize_dashed:
  assumes "set s \<subseteq> set codeAlphabet \<union> {CHR ''-''}" "length (filter (\<lambda>c. c \<noteq> CHR ''-'') s) = 8"
  shows "Normalize s = Inr (filter (\<lambda>c. c \<noteq> CHR ''-'') s)"
proof -
  have "TrimSpace s = s"
    by (rule TrimSpace_ascii) (use assms(1) code_char dash_ok in \<open>auto simp: ascii_def list_all_iff\<close>)
  moreover have "ToUpper (filter (\<lambda>c. c \<noteq> CHR ''-'') s) = filter (\<lambda>c. c \<noteq> CHR ''-'') s"
    by (rule ToUpper_code) (use assms(1) in auto)
  ultimately show ?thesis
    using assms by (auto simp: Normalize_def Let_def codeLength_def list_all_iff)
qed

lemma Normalize_Inr:
  assumes "Normalize x = Inr c"
  shows "length c = 8 \<and> set c \<subseteq> set codeAlphabet"
  using assms by (auto simp: Normalize_def Let_def codeLength_def list_all_iff split: if_splits)


subsection \<open>The store the service relies on\<close>

locale pairing_store =
  fixes create :: "PairingCode \<Rightarrow> time \<Rightarrow> unit dbm"
    and claim :: "ident \<Rightarrow> string \<Rightarrow> time \<Rightarrow> Device dbm"
  assumes create_claim: "\<lbrakk>create c now s = (Inr (), t); tables t' = tables t; faults t' = [];
      u \<in> u_id ` set (users (tables t)); now' < pc_expires_at c\<rbrakk>
      \<Longrightarrow> \<exists>dev t''. claim u (pc_code_digest c) now' t' = (Inr dev, t'') \<and> d_id dev = pc_device_id c \<and>
           d_owner_user_id dev = Some u"
    and claim_expired: "\<lbrakk>create c now s = (Inr (), t); tables t' = tables t; faults t' = [];
      \<not> now' < pc_expires_at c\<rbrakk> \<Longrightarrow> claim u (pc_code_digest c) now' t' = (Inl ErrPairingExpired, t')"
begin

lemma offer_success:
  assumes "offer_code create digest v now w = (Inr offer, w')"
  obtains code i s where "length code = 8" "set code \<subseteq> set codeAlphabet"
    "of_code offer = take 4 code @ ''-'' @ drop 4 code" "of_expires_at offer = now + CodeLifetime"
    "create \<lparr>pc_id = i, pc_device_id = v, pc_code_digest = digest code,
        pc_expires_at = now + CodeLifetime, pc_consumed_at = None, pc_created_at = now\<rparr> now s = (Inr (), p_db w')"
proof -
  from assms obtain code w1 where g: "generateCode w = (Inr code, w1)" and
    "ebind (on_rand (New ''pair'')) (\<lambda>pairingID. let expiresAt = now + CodeLifetime in
      ethen (on_db (create \<lparr>pc_id = pairingID, pc_device_id = v, pc_code_digest = digest code,
        pc_expires_at = expiresAt, pc_consumed_at = None, pc_created_at = now\<rparr> now))
      (ereturn \<lparr>of_code = take 4 code @ ''-'' @ drop 4 code, of_expires_at = expiresAt\<rparr>)) w1 = (Inr offer, w')"
    unfolding offer_code_def by (rule ebind_InrE)
  then obtain i w2 x where c: "on_db (create \<lparr>pc_id = i, pc_device_id = v, pc_code_digest = digest code,
        pc_expires_at = now + CodeLifetime, pc_consumed_at = None, pc_created_at = now\<rparr> now) w2 = (Inr x, w')"
    and o: "offer = \<lparr>of_code = take 4 code @ ''-'' @ drop 4 code, of_expires_at = now + CodeLifetime\<rparr>"
    by (auto simp: Let_def ereturn_def elim!: ebind_InrE)
  from g have code: "length code = 8" "set code \<subseteq> set codeAlphabet"
    by (auto simp: generateCode_def on_rand_def ReadFull_def codeLength_def ereturn_def codeAlphabet_facts
        elim!: ebind_InrE split: prod.splits if_splits)
  from c have "create \<lparr>pc_id = i, pc_device_id = v, pc_code_digest = digest code,
        pc_expires_at = now + CodeLifetime, pc_consumed_at = None, pc_created_at = now\<rparr> now (p_db w2) = (Inr (), p_db w')"
    by (auto simp: on_db_def split: prod.splits) (metis Inl_Inr_False map_sum.simps(1) old.unit.exhaust sum.exhaust)
  with code o that show thesis by simp
qed

text \<open>The code shown on the device, typed with or without dashes.\<close>

lemma typed_code:
  assumes "length code = 8" "set code \<subseteq> set codeAlphabet"
    "filter (\<lambda>c. c \<noteq> CHR ''-'') typed = code" "set typed \<subseteq> set codeAlphabet \<union> {CHR ''-''}"
  shows "Normalize typed = Inr code"
  using Normalize_dashed [of typed] assms by simp

lemma offer_claim:
  assumes "offer_code create digest v now w = (Inr offer, w')"
    and "tables (p_db x) = tables (p_db w')" "faults (p_db x) = []"
    and "u \<in> u_id ` set (users (tables (p_db w')))"
    and "filter (\<lambda>c. c \<noteq> CHR ''-'') typed = filter (\<lambda>c. c \<noteq> CHR ''-'') (of_code offer)"
      "set typed \<subseteq> set codeAlphabet \<union> {CHR ''-''}"
  shows "if now' < of_expires_at offer
    then \<exists>dev x'. claim_code claim digest u typed now' x = (Inr dev, x') \<and> d_id dev = v \<and> d_owner_user_id dev = Some u
    else claim_code claim digest u typed now' x = (Inl (PairStore ErrPairingExpired), x)"
proof -
  from offer_success [OF assms(1)] obtain code i s where
    c: "length code = 8" "set code \<subseteq> set codeAlphabet" "of_code offer = take 4 code @ ''-'' @ drop 4 code"
      "of_expires_at offer = now + CodeLifetime" and
    create: "create \<lparr>pc_id = i, pc_device_id = v, pc_code_digest = digest code,
        pc_expires_at = now + CodeLifetime, pc_consumed_at = None, pc_created_at = now\<rparr> now s = (Inr (), p_db w')" .
  have "filter (\<lambda>c. c \<noteq> CHR ''-'') code = code" using c(2) code_char(3) by (intro filter_True) auto
  then have "filter (\<lambda>c. c \<noteq> CHR ''-'') typed = code"
    using filter_append [of "\<lambda>c. c \<noteq> CHR ''-''" "take 4 code" "drop 4 code"] assms(5) c(3) by simp
  then have n: "Normalize typed = Inr code" by (rule typed_code [OF c(1,2) _ assms(6)])
  show ?thesis
  proof (cases "now' < now + CodeLifetime")
    case True
    then have "now' < pc_expires_at \<lparr>pc_id = i, pc_device_id = v, pc_code_digest = digest code,
        pc_expires_at = now + CodeLifetime, pc_consumed_at = None, pc_created_at = now\<rparr>" by simp
    from create_claim [OF create assms(2,3,4) this] obtain dev t'' where
      "claim u (digest code) now' (p_db x) = (Inr dev, t'')" "d_id dev = v" "d_owner_user_id dev = Some u"
      by auto
    with True c(4) n show ?thesis
      by (simp add: claim_code_def ebind_def etry_def on_db_def ereturn_def)
  next
    case False
    with claim_expired [OF create assms(2,3)] c(4) n show ?thesis
      by (simp add: claim_code_def ebind_def etry_def on_db_def ethrow_def)
  qed
qed

end

subsection \<open>The store provides it\<close>

lemma ClaimPairing_ok:
  assumes "faults s = []" "schema_ok (tables s)" "c \<in> set (pairing_codes (tables s))" "active c"
    "now < pc_expires_at c" "r \<in> set (devices (tables s))" "d_id r = pc_device_id c" "d_owner_user_id r = None"
    "u \<in> u_id ` set (users (tables s))"
  shows "\<exists>dev t. ClaimPairing u (pc_code_digest c) now s = (Inr dev, t)"
proof -
  let ?d = "tables s"
  let ?e = "snd (bind_device (pc_device_id c) u now ?d)"
  have f: "find (\<lambda>x. pc_code_digest x = pc_code_digest c) (pairing_codes ?d) = Some c"
    using find_Some_iff [OF codes_key [OF assms(2)], of "\<lambda>x. pc_code_digest x = pc_code_digest c"] assms(3) by auto
  have b: "fst (bind_device (pc_device_id c) u now ?d) = 1"
    using count_rows_one [OF devices_key [OF assms(2)], of "\<lambda>r. d_id r = pc_device_id c \<and> d_owner_user_id r = None"]
      assms(6-8) by (auto simp: bind_device_def upd_devices_def)
  have e: "schema_ok ?e"
    unfolding bind_device_def by (rule schema_upd_devices [OF assms(2)]) (use assms(9) in auto)
  have pe: "pairing_codes ?e = pairing_codes ?d" by (simp add: bind_device_def upd_devices_def)
  have "distinct (map pc_id (pairing_codes ?d))" using assms(2) by (simp add: schema_ok_def pairing_codes_ok_def)
  from count_rows_one [OF this, of "\<lambda>x. pc_id x = pc_id c \<and> pc_consumed_at x = None"] assms(3,4)
  have k: "fst (consume_code (pc_id c) now ?e) = 1"
    by (auto simp: consume_code_def upd_codes_def pe active_def)
  have ce: "schema_ok (snd (consume_code (pc_id c) now ?e))"
    unfolding consume_code_def by (rule schema_upd_codes [OF e]) auto
  obtain dev where dev: "find (\<lambda>r. d_id r = pc_device_id c) (devices (snd (consume_code (pc_id c) now ?e))) = Some dev"
  proof -
    have "\<exists>r' \<in> set (devices (snd (consume_code (pc_id c) now ?e))). d_id r' = pc_device_id c"
      using upd_rows_keeps [OF assms(6), of "\<lambda>r. d_id r = pc_device_id c \<and> d_owner_user_id r = None" d_id] assms(7)
      by (simp add: consume_code_def upd_codes_def bind_device_def upd_devices_def)
    then show thesis
      using that by (cases "find (\<lambda>r. d_id r = pc_device_id c) (devices (snd (consume_code (pc_id c) now ?e)))")
        (auto simp: find_None_ball)
  qed
  show ?thesis
    using assms(1,4,5) by (simp add: ClaimPairing_def em_simps f b e k ce dev scanDevice_def active_def)
qed

lemma create_success:
  assumes "CreatePairingCode c now s = (Inr x, t)"
  shows "schema_ok (tables t) \<and> c\<lparr>pc_consumed_at := None\<rparr> \<in> set (pairing_codes (tables t)) \<and>
    (\<exists>r \<in> set (devices (tables t)). d_id r = pc_device_id c \<and> d_owner_user_id r = None)"
proof -
  from assms [unfolded CreatePairingCode_def, THEN tx_success] obtain r where
    "find (\<lambda>r. d_id r = pc_device_id c) (devices (tables s)) = Some r" "d_owner_user_id r = None"
    "tables t = offered c now (tables s)" "schema_ok (tables t)"
    by (auto simp: offered_def elim!: query_InrE exec_InrE split: option.splits if_splits)
  then show ?thesis by (auto simp: tab dest!: find_SomeD)
qed

interpretation store_pairing: pairing_store CreatePairingCode ClaimPairing
proof
  fix c now s u now' and t t' :: dbst
  assume a: "CreatePairingCode c now s = (Inr (), t)" "tables t' = tables t" "faults t' = []"
  let ?c = "c\<lparr>pc_consumed_at := None\<rparr>"
  have p: "schema_ok (tables t')" "?c \<in> set (pairing_codes (tables t'))"
    "\<exists>r \<in> set (devices (tables t')). d_id r = pc_device_id c \<and> d_owner_user_id r = None"
    using create_success [OF a(1)] a(2) by auto
  then obtain r where r: "r \<in> set (devices (tables t'))" "d_id r = pc_device_id ?c" "d_owner_user_id r = None"
    by auto
  have ac: "active ?c" by (simp add: active_def)
  {
    assume u: "u \<in> u_id ` set (users (tables t))" and "now' < pc_expires_at c"
    then have "now' < pc_expires_at ?c" "u \<in> u_id ` set (users (tables t'))" using a(2) by simp_all
    from ClaimPairing_ok [OF a(3) p(1,2) ac this(1) r this(2)] obtain dev x where
      x: "ClaimPairing u (pc_code_digest ?c) now' t' = (Inr dev, x)" by blast
    from claim_success [OF x] obtain c' where c': "c' \<in> set (pairing_codes (tables t'))"
      "pc_code_digest c' = pc_code_digest ?c" "tables x = claimed c' u now' (tables t')"
      "dev \<in> set (devices (tables x))" "d_id dev = pc_device_id c'" by blast
    then have "c' = ?c" using key_inj [OF codes_key [OF p(1)] _ p(2)] by simp
    moreover have "d_owner_user_id dev = Some u"
      using c'(4) unfolding c'(3) \<open>c' = ?c\<close> tab
    proof (cases rule: upd_rowsE)
      case (changed y)
      then show ?thesis by simp
    next
      case kept
      with key_inj [OF devices_key [OF p(1)] kept(1) r(1)] c'(5) \<open>c' = ?c\<close> r(2,3) show ?thesis by simp
    qed
    ultimately show "\<exists>dev t''. ClaimPairing u (pc_code_digest c) now' t' = (Inr dev, t'') \<and>
        d_id dev = pc_device_id c \<and> d_owner_user_id dev = Some u"
      using x c'(5) by auto
  next
    assume "\<not> now' < pc_expires_at c"
    moreover have "find (\<lambda>x. pc_code_digest x = pc_code_digest c) (pairing_codes (tables t')) = Some ?c"
      using find_Some_iff [OF codes_key [OF p(1)], of "\<lambda>x. pc_code_digest x = pc_code_digest c"] p(2) by auto
    ultimately show "ClaimPairing u (pc_code_digest c) now' t' = (Inl ErrPairingExpired, t')"
      using a(3) by (simp add: ClaimPairing_def em_simps)
  }
qed


subsection \<open>Properties\<close>


text \<open>An unowned device, an administrator and enough randomness: the example world.\<close>

definition ex_world :: pairing_world where
  "ex_world = \<lparr>p_db = ex_st, p_rand = replicate 24 CHR ''a''\<rparr>"


text \<open>
  \<^verbatim>\<open>Normalize\<close> accepts exactly one spelling per code: whatever it accepts is
  eight characters of the code alphabet, and normalizing the result again changes nothing.
\<close>

theorem Normalize_sound:
  assumes "Normalize x = Inr c"
  shows "length c = 8 \<and> set c \<subseteq> set codeAlphabet \<and> Normalize c = Inr c"
proof -
  have c: "length c = 8" "set c \<subseteq> set codeAlphabet" using Normalize_Inr [OF assms] by auto
  have "filter (\<lambda>c. c \<noteq> CHR ''-'') c = c" using c(2) code_char(3) by (intro filter_True) auto
  with Normalize_dashed [of c] c show ?thesis by auto
qed

theorem Normalize_sound_witness: "Normalize ''ABCD-EFGH'' = Inr ''ABCDEFGH'' \<and> Normalize ''ABCDEFGH'' = Inr ''ABCDEFGH''"
proof -
  have "Normalize ''ABCD-EFGH'' = Inr ''ABCDEFGH''"
    using Normalize_dashed [of "''ABCD-EFGH''"] by (simp add: codeAlphabet_def)
  with Normalize_sound [OF this] show ?thesis by blast
qed

end
