(* ===== verification/DeviceGate.thy ===== *)
theory DeviceGate
  imports Prelude
begin

text \<open>
  \<^verbatim>\<open>internal/devicegate/gate.go\<close>: the keyed mutex that serializes the lifecycle of
  one device.  Goroutines are a list of program counters; each rule of \<open>gate_step\<close> is
  one atomic action of \<^verbatim>\<open>LockDevice\<close>, of the unlock closure or of
  \<^verbatim>\<open>dropReference\<close>, so a run is an arbitrary interleaving of callers, cancellations
  included.  Entries are objects on a heap: a key that is deleted and locked again gets a
  new entry.
\<close>

record entry =
  token :: nat   \<comment> \<open>items in the channel of capacity 1\<close>
  refs :: nat

datatype pc =
    Outside
  | Registered ident nat  \<comment> \<open>counted in \<^verbatim>\<open>refs\<close>, waiting in the \<^verbatim>\<open>select\<close>\<close>
  | Received ident nat    \<comment> \<open>took the token, about to check the context again\<close>
  | Holding ident nat     \<comment> \<open>returned the unlock function\<close>
  | Dropping ident nat    \<comment> \<open>about to call \<^verbatim>\<open>dropReference\<close>\<close>

record gate =
  entries :: "ident \<rightharpoonup> nat"
  heap :: "entry list"
  callers :: "pc list"

definition New_gate :: gate where
  "New_gate = \<lparr>entries = Map.empty, heap = [], callers = []\<rparr>"

definition set_caller :: "nat \<Rightarrow> pc \<Rightarrow> gate \<Rightarrow> gate" where
  "set_caller i p g = g\<lparr>callers := (callers g)[i := p]\<rparr>"

definition upd_entry :: "nat \<Rightarrow> (entry \<Rightarrow> entry) \<Rightarrow> gate \<Rightarrow> gate" where
  "upd_entry r f g = g\<lparr>heap := (heap g)[r := f (heap g ! r)]\<rparr>"

text \<open>The critical section of \<^verbatim>\<open>LockDevice\<close>: find or create the entry, count the caller.\<close>

definition ensure_entry :: "ident \<Rightarrow> gate \<Rightarrow> nat \<times> gate" where
  "ensure_entry deviceID g = (case entries g deviceID of
     Some r \<Rightarrow> (r, g)
   | None \<Rightarrow> (length (heap g), g\<lparr>heap := heap g @ [\<lparr>token = 1, refs = 0\<rparr>],
                 entries := (entries g)(deviceID \<mapsto> length (heap g))\<rparr>))"

definition lock_enter :: "nat \<Rightarrow> ident \<Rightarrow> gate \<Rightarrow> gate" where
  "lock_enter i deviceID g = (case ensure_entry deviceID g of (r, h) \<Rightarrow>
     set_caller i (Registered deviceID r) (upd_entry r (\<lambda>e. e\<lparr>refs := Suc (refs e)\<rparr>) h))"

definition give_token :: "nat \<Rightarrow> gate \<Rightarrow> gate" where
  "give_token r = upd_entry r (\<lambda>e. e\<lparr>token := Suc (token e)\<rparr>)"

definition take_token :: "nat \<Rightarrow> gate \<Rightarrow> gate" where
  "take_token r = upd_entry r (\<lambda>e. e\<lparr>token := token e - 1\<rparr>)"

definition dropReference :: "nat \<Rightarrow> ident \<Rightarrow> nat \<Rightarrow> gate \<Rightarrow> gate" where
  "dropReference i deviceID r g =
     (let h = upd_entry r (\<lambda>e. e\<lparr>refs := refs e - 1\<rparr>) g;
          h' = (if refs (heap h ! r) = 0 \<and> entries h deviceID = Some r
                then h\<lparr>entries := (entries h)(deviceID := None)\<rparr> else h)
      in set_caller i Outside h')"

inductive gate_step :: "gate \<Rightarrow> gate \<Rightarrow> bool" where
  spawn: "gate_step g (g\<lparr>callers := callers g @ [Outside]\<rparr>)"
| enter: "\<lbrakk>i < length (callers g); callers g ! i = Outside; deviceID \<noteq> []\<rbrakk>
    \<Longrightarrow> gate_step g (lock_enter i deviceID g)"
| canceled: "\<lbrakk>i < length (callers g); callers g ! i = Registered d r\<rbrakk>
    \<Longrightarrow> gate_step g (set_caller i (Dropping d r) g)"
| received: "\<lbrakk>i < length (callers g); callers g ! i = Registered d r; token (heap g ! r) = 1\<rbrakk>
    \<Longrightarrow> gate_step g (set_caller i (Received d r) (take_token r g))"
| recheck_fails: "\<lbrakk>i < length (callers g); callers g ! i = Received d r\<rbrakk>
    \<Longrightarrow> gate_step g (set_caller i (Dropping d r) (give_token r g))"
| recheck_passes: "\<lbrakk>i < length (callers g); callers g ! i = Received d r\<rbrakk>
    \<Longrightarrow> gate_step g (set_caller i (Holding d r) g)"
| unlock: "\<lbrakk>i < length (callers g); callers g ! i = Holding d r\<rbrakk>
    \<Longrightarrow> gate_step g (set_caller i (Dropping d r) (give_token r g))"
| drop_ref: "\<lbrakk>i < length (callers g); callers g ! i = Dropping d r\<rbrakk>
    \<Longrightarrow> gate_step g (dropReference i d r g)"

subsection \<open>The invariant\<close>

fun refers :: "nat \<Rightarrow> pc \<Rightarrow> bool" where
  "refers r Outside = False"
| "refers r (Registered d r') = (r' = r)"
| "refers r (Received d r') = (r' = r)"
| "refers r (Holding d r') = (r' = r)"
| "refers r (Dropping d r') = (r' = r)"

fun owns :: "nat \<Rightarrow> pc \<Rightarrow> bool" where
  "owns r (Received d r') = (r' = r)"
| "owns r (Holding d r') = (r' = r)"
| "owns r _ = False"

fun key_of :: "pc \<Rightarrow> (ident \<times> nat) option" where
  "key_of Outside = None"
| "key_of (Registered d r) = Some (d, r)"
| "key_of (Received d r) = Some (d, r)"
| "key_of (Holding d r) = Some (d, r)"
| "key_of (Dropping d r) = Some (d, r)"

definition counts_ok :: "gate \<Rightarrow> bool" where
  "counts_ok g \<longleftrightarrow> (\<forall>r < length (heap g).
     refs (heap g ! r) = length (filter (refers r) (callers g)) \<and>
     token (heap g ! r) + length (filter (owns r) (callers g)) = 1)"

definition keys_ok :: "gate \<Rightarrow> bool" where
  "keys_ok g \<longleftrightarrow> (\<forall>p \<in> set (callers g). \<forall>d r. key_of p = Some (d, r) \<longrightarrow>
     r < length (heap g) \<and> entries g d = Some r)"

definition entries_ok :: "gate \<Rightarrow> bool" where
  "entries_ok g \<longleftrightarrow> inj_on (entries g) (dom (entries g)) \<and>
     (\<forall>d r. entries g d = Some r \<longrightarrow> r < length (heap g) \<and> 0 < refs (heap g ! r))"

definition gate_inv :: "gate \<Rightarrow> bool" where
  "gate_inv g \<longleftrightarrow> counts_ok g \<and> keys_ok g \<and> entries_ok g"

lemma refers_key: "refers r p \<longleftrightarrow> (\<exists>d. key_of p = Some (d, r))"
  by (cases p) auto

lemma owns_refers: "owns r p \<Longrightarrow> refers r p"
  by (cases p) auto

lemma refers_pos: "p \<in> set ps \<Longrightarrow> refers r p \<Longrightarrow> 0 < length (filter (refers r) ps)"
  by (auto simp: filter_empty_conv)

lemma gate_inv_new: "gate_inv New_gate"
  by (simp add: gate_inv_def counts_ok_def keys_ok_def entries_ok_def New_gate_def)

text \<open>
  A caller moves between program counters with the same key and the entry it refers to
  changes its token by what the caller gains or loses.
\<close>

lemma move_inv:
  assumes inv: "gate_inv g" and i: "i < length (callers g)" "key_of (callers g ! i) = Some (d, r)"
    and p: "key_of p = Some (d, r)"
    and t: "token e + of_bool (owns r p) = token (heap g ! r) + of_bool (owns r (callers g ! i))"
      "refs e = refs (heap g ! r)"
  shows "gate_inv (set_caller i p (g\<lparr>heap := (heap g)[r := e]\<rparr>))"
proof -
  let ?g = "set_caller i p (g\<lparr>heap := (heap g)[r := e]\<rparr>)"
  have mem: "callers g ! i \<in> set (callers g)" using i(1) by simp
  have r: "r < length (heap g)" "entries g d = Some r"
    using inv mem i(2) by (auto simp: gate_inv_def keys_ok_def)
  have same: "owns k p = owns k (callers g ! i)" if "k \<noteq> r" for k
    using that p i(2) refers_key owns_refers by (metis option.inject prod.inject)
  have ref: "refers k p = refers k (callers g ! i)" for k
    using p i(2) by (simp add: refers_key)
  have "counts_ok ?g"
    unfolding counts_ok_def
  proof (intro allI impI)
    fix k assume k: "k < length (heap ?g)"
    have c: "refs (heap g ! k) = length (filter (refers k) (callers g))"
      "token (heap g ! k) + length (filter (owns k) (callers g)) = 1"
      using inv k by (auto simp: gate_inv_def counts_ok_def set_caller_def)
    show "refs (heap ?g ! k) = length (filter (refers k) (callers ?g)) \<and>
      token (heap ?g ! k) + length (filter (owns k) (callers ?g)) = 1"
      using c count_update [OF i(1), of "refers k" p] count_update [OF i(1), of "owns k" p] same [of k] ref [of k] t r(1)
      by (cases "k = r") (auto simp: set_caller_def)
  qed
  moreover have "keys_ok ?g"
    using inv p r by (auto simp: gate_inv_def keys_ok_def set_caller_def dest!: set_update_subset_insert [THEN subsetD])
  moreover have "entries_ok ?g"
    using inv t(2) r(1) unfolding gate_inv_def entries_ok_def set_caller_def
    by (auto simp: nth_list_update)
  ultimately show ?thesis by (simp add: gate_inv_def)
qed


lemma spawn_inv:
  assumes "gate_inv g"
  shows "gate_inv (g\<lparr>callers := callers g @ [Outside]\<rparr>)"
proof -
  have "counts_ok g" "keys_ok g" "entries_ok g" using assms by (simp_all add: gate_inv_def)
  moreover from this(1) have "counts_ok (g\<lparr>callers := callers g @ [Outside]\<rparr>)" by (simp add: counts_ok_def)
  moreover from \<open>keys_ok g\<close> have "keys_ok (g\<lparr>callers := callers g @ [Outside]\<rparr>)" by (simp add: keys_ok_def)
  moreover from \<open>entries_ok g\<close> have "entries_ok (g\<lparr>callers := callers g @ [Outside]\<rparr>)" by (simp add: entries_ok_def)
  ultimately show ?thesis by (simp only: gate_inv_def)
qed

text \<open>An entry without references may be allocated; counting a caller on it restores the invariant.\<close>

lemma enter_inv_existing:
  assumes inv: "counts_ok g" "keys_ok g" "inj_on (entries g) (dom (entries g))"
    and others: "\<And>d' r'. entries g d' = Some r' \<Longrightarrow> r' < length (heap g) \<and> (d' \<noteq> d \<longrightarrow> 0 < refs (heap g ! r'))"
    and i: "i < length (callers g)" "callers g ! i = Outside" and e: "entries g d = Some r"
  shows "gate_inv (set_caller i (Registered d r) (upd_entry r (\<lambda>e. e\<lparr>refs := Suc (refs e)\<rparr>) g))"
proof -
  let ?g = "set_caller i (Registered d r) (upd_entry r (\<lambda>e. e\<lparr>refs := Suc (refs e)\<rparr>) g)"
  have r: "r < length (heap g)" using others [OF e] by simp
  have "counts_ok ?g"
    unfolding counts_ok_def
  proof (intro allI impI)
    fix k assume "k < length (heap ?g)"
    then have "refs (heap g ! k) = length (filter (refers k) (callers g))"
      "token (heap g ! k) + length (filter (owns k) (callers g)) = 1"
      using inv(1) by (auto simp: counts_ok_def set_caller_def upd_entry_def)
    then show "refs (heap ?g ! k) = length (filter (refers k) (callers ?g)) \<and>
      token (heap ?g ! k) + length (filter (owns k) (callers ?g)) = 1"
      using count_update [OF i(1), of "refers k" "Registered d r"]
        count_update [OF i(1), of "owns k" "Registered d r"] i(2) r
      by (cases "k = r") (auto simp: set_caller_def upd_entry_def)
  qed
  moreover have "keys_ok ?g"
    using inv(2) e r
    by (auto simp: keys_ok_def set_caller_def upd_entry_def dest!: set_update_subset_insert [THEN subsetD])
  moreover have "entries_ok ?g"
  proof -
    have "0 < refs (heap g ! k)" if "entries g d' = Some k" "k \<noteq> r" for d' k
      using others [OF that(1)] that e by auto
    then have "0 < refs ((heap g)[r := (heap g ! r)\<lparr>refs := Suc (refs (heap g ! r))\<rparr>] ! k)"
      if "entries g d' = Some k" for d' k
      using that r by (cases "k = r") auto
    then show ?thesis
      using inv(3) others by (simp add: entries_ok_def set_caller_def upd_entry_def)
  qed
  ultimately show ?thesis by (simp add: gate_inv_def)
qed

lemma fresh_entry:
  assumes inv: "gate_inv g" and n: "entries g d = None"
  defines "h \<equiv> g\<lparr>heap := heap g @ [\<lparr>token = 1, refs = 0\<rparr>], entries := (entries g)(d \<mapsto> length (heap g))\<rparr>"
  shows "counts_ok h" "keys_ok h" "inj_on (entries h) (dom (entries h))"
    "\<And>d' r'. entries h d' = Some r' \<Longrightarrow> r' < length (heap h) \<and> (d' \<noteq> d \<longrightarrow> 0 < refs (heap h ! r'))"
proof -
  have k: "r < length (heap g)" if "p \<in> set (callers g)" "refers r p" for p r
    using that inv by (auto simp: gate_inv_def keys_ok_def refers_key)
  then have "filter (refers (length (heap g))) (callers g) = []" "filter (owns (length (heap g))) (callers g) = []"
    using owns_refers by (auto simp: filter_empty_conv)
  then show "counts_ok h"
    using inv by (auto simp: h_def gate_inv_def counts_ok_def nth_append less_Suc_eq)
  show "keys_ok h"
    using inv n by (fastforce simp: h_def gate_inv_def keys_ok_def)
  show "inj_on (entries h) (dom (entries h))"
    using inv n by (fastforce simp: h_def gate_inv_def entries_ok_def inj_on_def)
  show "entries h d' = Some r' \<Longrightarrow> r' < length (heap h) \<and> (d' \<noteq> d \<longrightarrow> 0 < refs (heap h ! r'))" for d' r'
    using inv by (auto simp: h_def gate_inv_def entries_ok_def nth_append split: if_splits)
qed

lemma enter_inv:
  assumes inv: "gate_inv g" and i: "i < length (callers g)" "callers g ! i = Outside"
  shows "gate_inv (lock_enter i d g)"
proof (cases "entries g d")
  case None
  let ?h = "g\<lparr>heap := heap g @ [\<lparr>token = 1, refs = 0\<rparr>], entries := (entries g)(d \<mapsto> length (heap g))\<rparr>"
  have "gate_inv (set_caller i (Registered d (length (heap g)))
      (upd_entry (length (heap g)) (\<lambda>e. e\<lparr>refs := Suc (refs e)\<rparr>) ?h))"
    by (rule enter_inv_existing [OF fresh_entry [OF inv None]]) (use i in simp_all)
  then show ?thesis using None by (simp add: lock_enter_def ensure_entry_def)
next
  case (Some r)
  have "gate_inv (set_caller i (Registered d r) (upd_entry r (\<lambda>e. e\<lparr>refs := Suc (refs e)\<rparr>) g))"
    by (rule enter_inv_existing) (use inv i Some in \<open>auto simp: gate_inv_def entries_ok_def\<close>)
  then show ?thesis using Some by (simp add: lock_enter_def ensure_entry_def)
qed

lemma drop_counts:
  assumes inv: "gate_inv g" and i: "i < length (callers g)" "callers g ! i = Dropping d r" and k: "k < length (heap g)"
  shows "refs ((heap g)[r := (heap g ! r)\<lparr>refs := refs (heap g ! r) - 1\<rparr>] ! k) =
      length (filter (refers k) ((callers g)[i := Outside]))"
    "token ((heap g)[r := (heap g ! r)\<lparr>refs := refs (heap g ! r) - 1\<rparr>] ! k) +
      length (filter (owns k) ((callers g)[i := Outside])) = 1"
proof -
  have c: "refs (heap g ! k) = length (filter (refers k) (callers g))"
    "token (heap g ! k) + length (filter (owns k) (callers g)) = 1"
    using inv k by (auto simp: gate_inv_def counts_ok_def)
  show "refs ((heap g)[r := (heap g ! r)\<lparr>refs := refs (heap g ! r) - 1\<rparr>] ! k) =
      length (filter (refers k) ((callers g)[i := Outside]))"
    using c count_update [OF i(1), of "refers k" Outside] i(2) k by (cases "k = r") auto
  show "token ((heap g)[r := (heap g ! r)\<lparr>refs := refs (heap g ! r) - 1\<rparr>] ! k) +
      length (filter (owns k) ((callers g)[i := Outside])) = 1"
    using c count_update [OF i(1), of "owns k" Outside] i(2) k by (cases "k = r") auto
qed

lemma drop_inv:
  assumes inv: "gate_inv g" and i: "i < length (callers g)" "callers g ! i = Dropping d r"
  shows "gate_inv (dropReference i d r g)"
proof -
  let ?heap = "(heap g)[r := (heap g ! r)\<lparr>refs := refs (heap g ! r) - 1\<rparr>]"
  let ?cs = "(callers g)[i := Outside]"
  let ?gone = "refs (?heap ! r) = 0"
  have mem: "callers g ! i \<in> set (callers g)" using i(1) by simp
  then have r: "r < length (heap g)" "entries g d = Some r"
    using inv i(2) by (auto simp: gate_inv_def keys_ok_def)
  have dr: "dropReference i d r g = g\<lparr>heap := ?heap, callers := ?cs,
      entries := (if ?gone then (entries g)(d := None) else entries g)\<rparr>"
    using r by (simp add: dropReference_def Let_def upd_entry_def set_caller_def)
  note counts = drop_counts [OF inv i]
  have gone: "filter (refers r) ?cs = []" if ?gone
    using counts(1) [OF r(1)] that by simp
  have "counts_ok (dropReference i d r g)"
    unfolding dr counts_ok_def using counts by simp
  moreover have "keys_ok (dropReference i d r g)"
    unfolding dr keys_ok_def
  proof (intro ballI allI impI)
    fix p d' r' assume p: "p \<in> set (callers (g\<lparr>heap := ?heap, callers := ?cs,
      entries := (if ?gone then (entries g)(d := None) else entries g)\<rparr>))" and key: "key_of p = Some (d', r')"
    then have ps: "p \<in> set ?cs" by simp
    then have "p \<in> set (callers g)" using key set_update_subset_insert [of "callers g" i Outside] by auto
    with inv key have e: "r' < length (heap g)" "entries g d' = Some r'" by (auto simp: gate_inv_def keys_ok_def)
    moreover have "d' \<noteq> d" if ?gone
    proof
      assume "d' = d"
      with e r have "refers r p" using key by (simp add: refers_key)
      with gone [OF that] ps show False by (auto simp: filter_empty_conv)
    qed
    ultimately show "r' < length (heap (g\<lparr>heap := ?heap, callers := ?cs,
      entries := (if ?gone then (entries g)(d := None) else entries g)\<rparr>)) \<and>
      entries (g\<lparr>heap := ?heap, callers := ?cs,
      entries := (if ?gone then (entries g)(d := None) else entries g)\<rparr>) d' = Some r'"
      by auto
  qed
  moreover have "entries_ok (dropReference i d r g)"
  proof -
    have inj: "d' = d" if "entries g d' = Some r" for d'
      using that r(2) inv by (auto simp: gate_inv_def entries_ok_def inj_on_def dom_def)
    have pos: "r' < length (heap g) \<and> 0 < refs (heap g ! r')" if "entries g d' = Some r'" for d' r'
      using that inv by (auto simp: gate_inv_def entries_ok_def)
    have "inj_on (entries g) (dom (entries g))" using inv by (simp add: gate_inv_def entries_ok_def)
    then have "inj_on ((entries g)(d := None)) (dom ((entries g)(d := None)))"
      by (auto simp: inj_on_def dom_def split: if_splits)
    with \<open>inj_on (entries g) (dom (entries g))\<close> have i2:
      "inj_on (if ?gone then (entries g)(d := None) else entries g) (dom (if ?gone then (entries g)(d := None) else entries g))"
      by (cases ?gone) simp_all
    have b2: "r' < length ?heap \<and> 0 < refs (?heap ! r')"
      if e: "(if ?gone then (entries g)(d := None) else entries g) d' = Some r'" for d' r'
    proof (cases "r' = r")
      case True
      have "entries g d' = Some r'" using e by (cases ?gone) (auto split: if_splits)
      with inj True have "d' = d" by simp
      with e have "\<not> ?gone" by (metis fun_upd_same option.distinct(1))
      with True r(1) show ?thesis by simp
    next
      case False
      have "entries g d' = Some r'" using e by (cases ?gone) (auto split: if_splits)
      with pos False show ?thesis by simp
    qed
    have "inj_on E (dom E) \<Longrightarrow> (\<And>d r. E d = Some r \<Longrightarrow> r < length H \<and> 0 < refs (H ! r)) \<Longrightarrow>
        entries_ok (g\<lparr>heap := H, callers := C, entries := E\<rparr>)" for H C E
      by (simp add: entries_ok_def)
    from this [OF i2 b2] show ?thesis unfolding dr .
  qed
  ultimately show ?thesis by (simp add: gate_inv_def)
qed

lemma gate_inv_step: "gate_step g h \<Longrightarrow> gate_inv g \<Longrightarrow> gate_inv h"
proof (induction rule: gate_step.induct)
  case (spawn g)
  then show ?case by (rule spawn_inv)
next
  case (enter i g deviceID)
  then show ?case by (simp add: enter_inv)
next
  case (canceled i g d r)
  with move_inv [of g i d r "Dropping d r" "heap g ! r"] show ?case by (simp add: set_caller_def)
next
  case (received i g d r)
  with move_inv [of g i d r "Received d r" "(heap g ! r)\<lparr>token := token (heap g ! r) - 1\<rparr>"]
  show ?case by (simp add: take_token_def upd_entry_def)
next
  case (recheck_fails i g d r)
  with move_inv [of g i d r "Dropping d r" "(heap g ! r)\<lparr>token := Suc (token (heap g ! r))\<rparr>"]
  show ?case by (simp add: give_token_def upd_entry_def)
next
  case (recheck_passes i g d r)
  with move_inv [of g i d r "Holding d r" "heap g ! r"] show ?case by (simp add: set_caller_def)
next
  case (unlock i g d r)
  with move_inv [of g i d r "Dropping d r" "(heap g ! r)\<lparr>token := Suc (token (heap g ! r))\<rparr>"]
  show ?case by (simp add: give_token_def upd_entry_def)
next
  case (drop_ref i g d r)
  then show ?case by (simp add: drop_inv)
qed

interpretation gate: invariant_of "\<lambda>g. g = New_gate" gate_step gate_inv
  by unfold_locales (auto intro: gate_inv_new gate_inv_step)

subsection \<open>Properties\<close>

lemma filter_two:
  "i < j \<Longrightarrow> j < length xs \<Longrightarrow> P (xs ! i) \<Longrightarrow> P (xs ! j) \<Longrightarrow> 2 \<le> length (filter P xs)"
proof (induction xs arbitrary: i j)
  case (Cons x xs)
  then obtain j' where j: "j = Suc j'" by (cases j) auto
  show ?case
  proof (cases i)
    case 0
    with Cons.prems j have "P x" "xs ! j' \<in> set (filter P xs)" by auto
    then show ?thesis by (cases "filter P xs") auto
  next
    case (Suc i')
    with Cons.IH [of i' j'] Cons.prems j show ?thesis by auto
  qed
qed simp

text \<open>
  C8: The device gate is a mutual exclusion per device: in every interleaving of any
  number of callers, of their cancellations and of their unlocks, no two callers hold
  the same device at the same time.
\<close>

theorem gate_mutual_exclusion:
  assumes "reach (\<lambda>g. g = New_gate) gate_step g"
    and "i < length (callers g)" and "j < length (callers g)"
    and "callers g ! i = Holding d r" and "callers g ! j = Holding d r'"
  shows "i = j"
proof (rule ccontr)
  assume ne: "i \<noteq> j"
  have inv: "gate_inv g" by (rule gate.reach_inv [OF assms(1)])
  have "callers g ! i \<in> set (callers g)" "callers g ! j \<in> set (callers g)" using assms(2,3) by auto
  with inv assms(4,5) have "r < length (heap g)" "entries g d = Some r" "entries g d = Some r'"
    unfolding gate_inv_def keys_ok_def by (metis key_of.simps(4))+
  then have rr: "r' = r" "length (filter (owns r) (callers g)) \<le> 1"
    using inv by (auto simp: gate_inv_def counts_ok_def)
  have "owns r (callers g ! i)" "owns r (callers g ! j)" using assms(4,5) rr(1) by simp_all
  then have "2 \<le> length (filter (owns r) (callers g))"
    using filter_two [of i j "callers g" "owns r"] filter_two [of j i "callers g" "owns r"] ne assms(2,3)
    by (cases "i < j") auto
  with rr(2) show False by simp
qed

text \<open>
  The gate leaks no keys: in every reachable state the table has an entry for a
  device only while some caller waits for it, holds it or is leaving it, so once every
  caller has left, by unlocking or by cancellation, the table is empty.
\<close>

theorem gate_leaks_nothing:
  assumes "reach (\<lambda>g. g = New_gate) gate_step g"
  shows "(\<forall>d r. entries g d = Some r \<longrightarrow> (\<exists>p \<in> set (callers g). key_of p = Some (d, r))) \<and>
    (list_all (\<lambda>p. p = Outside) (callers g) \<longrightarrow> entries g = Map.empty)"
proof -
  have inv: "gate_inv g" by (rule gate.reach_inv [OF assms])
  have used: "\<exists>p \<in> set (callers g). key_of p = Some (d, r)" if e: "entries g d = Some r" for d r
  proof -
    have "r < length (heap g)" "0 < refs (heap g ! r)" using e inv by (auto simp: gate_inv_def entries_ok_def)
    then have "filter (refers r) (callers g) \<noteq> []" using inv by (auto simp: gate_inv_def counts_ok_def)
    then obtain p d' where p: "p \<in> set (callers g)" "key_of p = Some (d', r)"
      by (auto simp: filter_empty_conv refers_key)
    then have "entries g d' = Some r" using inv by (auto simp: gate_inv_def keys_ok_def)
    then have "d' = d" using e inv by (auto simp: gate_inv_def entries_ok_def inj_on_def dom_def)
    with p show ?thesis by blast
  qed
  moreover have "entries g = Map.empty" if "list_all (\<lambda>p. p = Outside) (callers g)"
  proof (rule ext)
    fix d show "entries g d = None" using used [of d] that by (cases "entries g d") (auto simp: list_all_iff)
  qed
  ultimately show ?thesis by blast
qed

definition ex_gate :: gate where
  "ex_gate = set_caller 0 (Holding ''dev_1'' 0) (set_caller 0 (Received ''dev_1'' 0) (take_token 0
     (lock_enter 0 ''dev_1'' (New_gate\<lparr>callers := callers New_gate @ [Outside]\<rparr>))))"

lemma ex_gate_reach: "reach (\<lambda>g. g = New_gate) gate_step ex_gate"
proof -
  let ?g1 = "New_gate\<lparr>callers := callers New_gate @ [Outside]\<rparr>"
  let ?g2 = "lock_enter 0 ''dev_1'' ?g1"
  let ?g3 = "set_caller 0 (Received ''dev_1'' 0) (take_token 0 ?g2)"
  note e = lock_enter_def ensure_entry_def New_gate_def set_caller_def upd_entry_def take_token_def
  have "reach (\<lambda>g. g = New_gate) gate_step ?g1"
    by (rule reach_step [where s = New_gate], rule reach_init, simp, rule spawn)
  then have "reach (\<lambda>g. g = New_gate) gate_step ?g2"
    by (rule reach_step) (rule enter, simp_all add: e)
  then have "reach (\<lambda>g. g = New_gate) gate_step ?g3"
    by (rule reach_step) (rule received, simp_all add: e)
  then show ?thesis
    unfolding ex_gate_def by (rule reach_step) (rule recheck_passes, simp_all add: e)
qed

theorem gate_mutual_exclusion_witness:
  "\<exists>g. reach (\<lambda>g. g = New_gate) gate_step g \<and> callers g ! 0 = Holding ''dev_1'' 0 \<and>
     length (callers g) = 2 \<and> callers g ! 1 \<noteq> Holding ''dev_1'' 0"
proof -
  let ?g = "ex_gate\<lparr>callers := callers ex_gate @ [Outside]\<rparr>"
  have r: "reach (\<lambda>g. g = New_gate) gate_step ?g" by (rule reach_step [OF ex_gate_reach spawn])
  have h: "callers ?g ! 0 = Holding ''dev_1'' 0" "length (callers ?g) = 2"
    by (simp_all add: ex_gate_def lock_enter_def ensure_entry_def New_gate_def set_caller_def upd_entry_def take_token_def)
  have "callers ?g ! 1 \<noteq> Holding ''dev_1'' 0"
  proof
    assume one: "callers ?g ! 1 = Holding ''dev_1'' 0"
    have b: "0 < length (callers ?g)" "1 < length (callers ?g)" unfolding h(2) by simp_all
    have "(0::nat) = 1" by (rule gate_mutual_exclusion [OF r b h(1) one])
    then show False by simp
  qed
  with r h show ?thesis by blast
qed

theorem gate_leaks_nothing_witness:
  "\<exists>p \<in> set (callers ex_gate). key_of p = Some (''dev_1'', 0)"
proof -
  have "entries ex_gate ''dev_1'' = Some 0"
    by (simp add: ex_gate_def lock_enter_def ensure_entry_def New_gate_def set_caller_def upd_entry_def take_token_def)
  with gate_leaks_nothing [OF ex_gate_reach] show ?thesis by blast
qed

end
