(* ===== verification/SourceLimiter.thy ===== *)
theory SourceLimiter
  imports Prelude "HOL-Library.AList" "HOL-Library.Word"
begin

text \<open>
  \<^verbatim>\<open>sourceLimiter\<close> of \<^verbatim>\<open>internal/tunnel/server.go\<close>: fixed-window admission per
  source address, with a hard cap on the number of windows.  The Go map is an association
  list with distinct keys; its order stands for the unspecified iteration order of
  \<^verbatim>\<open>range\<close>, and the lemmas below show that nothing depends on it.  The mutex makes
  every operation atomic.  \<^verbatim>\<open>Time.Sub\<close> saturates at the range of a 64-bit
  \<^verbatim>\<open>Duration\<close>, and the observation order is a 64-bit word that wraps.
\<close>

definition maxSourceLimiterEntries :: nat where "maxSourceLimiterEntries = 4096"

definition Sub :: "time \<Rightarrow> time \<Rightarrow> duration" where
  "Sub t u = max (- (2 ^ 63)) (min (2 ^ 63 - 1) (t - u))"

record sourceWindow =
  started :: time
  lastObserved :: time
  observationOrder :: "64 word"
  w_count :: int

record sourceLimiter =
  windows :: "(string \<times> sourceWindow) list"
  maximum :: int
  window_duration :: duration
  latestObservation :: time
  nextObservationOrder :: "64 word"

definition newSourceLimiter :: "int \<Rightarrow> duration \<Rightarrow> sourceLimiter" where
  "newSourceLimiter maxi d = \<lparr>windows = [], maximum = maxi, window_duration = d,
     latestObservation = zeroTime, nextObservationOrder = 0\<rparr>"

definition observeLocked :: "time \<Rightarrow> sourceLimiter \<Rightarrow> time \<times> 64 word \<times> sourceLimiter" where
  "observeLocked now l =
     (let latest = (if latestObservation l = zeroTime \<or> latestObservation l < now
                    then now else latestObservation l);
          order = nextObservationOrder l + 1
      in (latest, order, l\<lparr>latestObservation := latest, nextObservationOrder := order\<rparr>))"

definition expired :: "time \<Rightarrow> duration \<Rightarrow> sourceWindow \<Rightarrow> bool" where
  "expired now d w \<longleftrightarrow> d \<le> Sub now (started w)"

definition reclaimExpiredLocked :: "time \<Rightarrow> sourceLimiter \<Rightarrow> sourceLimiter" where
  "reclaimExpiredLocked now l =
     l\<lparr>windows := filter (\<lambda>(_, w). \<not> expired now (window_duration l) w) (windows l)\<rparr>"

definition before :: "string \<times> sourceWindow \<Rightarrow> string \<times> sourceWindow \<Rightarrow> bool" where
  "before e old \<longleftrightarrow> lastObserved (snd e) < lastObserved (snd old) \<or>
     (lastObserved (snd e) = lastObserved (snd old) \<and>
       (observationOrder (snd e) < observationOrder (snd old) \<or>
         (observationOrder (snd e) = observationOrder (snd old) \<and> fst e < fst old)))"

fun scan_oldest :: "(string \<times> sourceWindow) option \<Rightarrow> (string \<times> sourceWindow) list
    \<Rightarrow> (string \<times> sourceWindow) option" where
  "scan_oldest found [] = found"
| "scan_oldest None (e # es) = scan_oldest (Some e) es"
| "scan_oldest (Some old) (e # es) = scan_oldest (Some (if before e old then e else old)) es"

definition evictLeastRecentlyObservedLocked :: "sourceLimiter \<Rightarrow> sourceLimiter" where
  "evictLeastRecentlyObservedLocked l = (case scan_oldest None (windows l) of
     None \<Rightarrow> l
   | Some old \<Rightarrow> l\<lparr>windows := AList.delete (fst old) (windows l)\<rparr>)"

definition allow :: "string \<Rightarrow> time \<Rightarrow> sourceLimiter \<Rightarrow> bool \<times> sourceLimiter" where
  "allow source now l0 = (case observeLocked now l0 of (observedAt, order, l) \<Rightarrow>
     (case map_of (windows l) source of
       Some w0 \<Rightarrow>
         let w = w0\<lparr>lastObserved := observedAt, observationOrder := order\<rparr>;
             put = (\<lambda>w. l\<lparr>windows := AList.update source w (windows l)\<rparr>)
         in if expired now (window_duration l) w then (True, put (w\<lparr>started := now, w_count := 1\<rparr>))
            else if maximum l \<le> w_count w then (False, put w)
            else (True, put (w\<lparr>w_count := w_count w + 1\<rparr>))
     | None \<Rightarrow>
         let l1 = reclaimExpiredLocked now l;
             l2 = (if maxSourceLimiterEntries \<le> length (windows l1)
                   then evictLeastRecentlyObservedLocked l1 else l1)
         in (True, l2\<lparr>windows := AList.update source \<lparr>started = now, lastObserved = observedAt,
               observationOrder = order, w_count = 1\<rparr> (windows l2)\<rparr>)))"

definition succeeded :: "string \<Rightarrow> sourceLimiter \<Rightarrow> sourceLimiter" where
  "succeeded source l = l\<lparr>windows := AList.delete source (windows l)\<rparr>"

inductive limiter_step :: "sourceLimiter \<Rightarrow> sourceLimiter \<Rightarrow> bool" where
  step_allow: "limiter_step l (snd (allow source now l))"
| step_succeeded: "limiter_step l (succeeded source l)"

subsection \<open>The scan finds the least recently observed window\<close>

definition rank :: "string \<times> sourceWindow \<Rightarrow> time \<times> 64 word \<times> string" where
  "rank e = (lastObserved (snd e), observationOrder (snd e), fst e)"

lemma before_rank: "before e old \<longleftrightarrow> rank e < rank old"
  by (auto simp: before_def rank_def less_prod_def)

lemma scan_oldest_Some:
  "\<exists>m \<in> insert old (set es). scan_oldest (Some old) es = Some m \<and> (\<forall>e \<in> insert old (set es). rank m \<le> rank e)"
proof (induction es arbitrary: old)
  case (Cons e es)
  let ?old = "if before e old then e else old"
  from Cons.IH [of ?old] obtain m where m: "m \<in> insert ?old (set es)"
    "scan_oldest (Some ?old) es = Some m" "\<forall>x \<in> insert ?old (set es). rank m \<le> rank x" by blast
  have "rank ?old \<le> rank e" "rank ?old \<le> rank old" by (auto simp: before_rank)
  then have "\<forall>x \<in> insert old (set (e # es)). rank m \<le> rank x" using m(3) by fastforce
  then show ?case using m(1,2) by auto
qed auto

lemma scan_oldest_None: "scan_oldest None es = None \<longleftrightarrow> es = []"
proof (cases es)
  case (Cons e es')
  then show ?thesis using scan_oldest_Some [of e es'] by auto
qed simp

lemma scan_oldest_min:
  assumes "scan_oldest None es = Some m"
  shows "m \<in> set es" "\<And>e. e \<in> set es \<Longrightarrow> rank m \<le> rank e"
proof -
  obtain x xs where es: "es = x # xs" using assms by (cases es) auto
  with assms scan_oldest_Some [of x xs] show "m \<in> set es" "\<And>e. e \<in> set es \<Longrightarrow> rank m \<le> rank e"
    by auto
qed

lemma keys_unique: "distinct (map fst es) \<Longrightarrow> e \<in> set es \<Longrightarrow> e' \<in> set es \<Longrightarrow> fst e = fst e' \<Longrightarrow> e = e'"
  by (rule key_inj)

lemma scan_oldest_order:
  assumes "distinct (map fst es)" and "set es = set es'"
  shows "scan_oldest None es = scan_oldest None es'"
proof (cases "scan_oldest None es")
  case None
  with assms(2) show ?thesis by (auto simp: scan_oldest_None)
next
  case (Some m)
  then have "es' \<noteq> []" using assms(2) by auto
  then obtain m' where m': "scan_oldest None es' = Some m'" by (meson scan_oldest_None not_Some_eq)
  have "rank m = rank m'"
  proof (rule antisym)
    show "rank m \<le> rank m'" using scan_oldest_min(2) [OF Some] scan_oldest_min(1) [OF m'] assms(2) by blast
    show "rank m' \<le> rank m" using scan_oldest_min(2) [OF m'] scan_oldest_min(1) [OF Some] assms(2) by blast
  qed
  then have "m = m'"
    using keys_unique [OF assms(1)] scan_oldest_min(1) [OF Some] scan_oldest_min(1) [OF m'] assms(2)
    by (auto simp: rank_def)
  with Some m' show ?thesis by simp
qed

subsection \<open>The invariant\<close>

definition limiter_inv :: "sourceLimiter \<Rightarrow> bool" where
  "limiter_inv l \<longleftrightarrow> distinct (map fst (windows l)) \<and> length (windows l) \<le> maxSourceLimiterEntries \<and>
     (\<forall>(_, w) \<in> set (windows l). 1 \<le> w_count w \<and> w_count w \<le> max 1 (maximum l))"

lemma limiter_invD:
  assumes "limiter_inv l"
  shows "distinct (map fst (windows l))" "length (windows l) \<le> maxSourceLimiterEntries"
    "\<And>k w. (k, w) \<in> set (windows l) \<Longrightarrow> 1 \<le> w_count w \<and> w_count w \<le> max 1 (maximum l)"
  using assms by (auto simp: limiter_inv_def)

lemma length_update: "length (AList.update k v al) = (if k \<in> fst ` set al then length al else Suc (length al))"
  by (induction al) auto

lemma set_update: "set (AList.update k v al) \<subseteq> insert (k, v) (set al)"
  by (induction al) auto

lemma set_delete: "set (AList.delete k al) = {e \<in> set al. fst e \<noteq> k}"
  by (auto simp: AList.delete_eq)

lemma length_delete_less: "k \<in> fst ` set al \<Longrightarrow> length (AList.delete k al) < length al"
  by (auto simp: AList.delete_eq intro!: length_filter_less)

lemma distinct_windows_filter: "distinct (map fst es) \<Longrightarrow> distinct (map fst (filter p es))"
  by (rule distinct_map_filter)

text \<open>Writing the window of one source keeps the invariant when there is room for it.\<close>

lemma put_window_inv:
  assumes "limiter_inv l" and "1 \<le> w_count w" and "w_count w \<le> max 1 (maximum l)"
    and "source \<in> fst ` set (windows l) \<or> length (windows l) < maxSourceLimiterEntries"
  shows "limiter_inv (l\<lparr>windows := AList.update source w (windows l)\<rparr>)"
  using assms set_update [of source w "windows l"]
  by (auto simp: limiter_inv_def distinct_update length_update split: if_splits)

lemma sub_windows_inv:
  assumes "limiter_inv l" and "set ws \<subseteq> set (windows l)" and "distinct (map fst ws)"
    and "length ws \<le> length (windows l)"
  shows "limiter_inv (l\<lparr>windows := ws\<rparr>)"
  using assms by (fastforce simp: limiter_inv_def)

lemma reclaim_inv: "limiter_inv l \<Longrightarrow> limiter_inv (reclaimExpiredLocked now l)"
  unfolding reclaimExpiredLocked_def
  by (rule sub_windows_inv) (auto simp: limiter_invD distinct_windows_filter)

lemma evict_inv: "limiter_inv l \<Longrightarrow> limiter_inv (evictLeastRecentlyObservedLocked l)"
  unfolding evictLeastRecentlyObservedLocked_def
  by (auto simp: set_delete limiter_invD length_delete_le AList.distinct_delete
      split: option.split intro!: sub_windows_inv)

lemma evict_shrinks:
  assumes "windows l \<noteq> []"
  shows "length (windows (evictLeastRecentlyObservedLocked l)) < length (windows l)"
proof -
  obtain m where "scan_oldest None (windows l) = Some m"
    using assms by (meson scan_oldest_None not_Some_eq)
  then show ?thesis
    using scan_oldest_min(1) [of "windows l" m]
    by (auto simp: evictLeastRecentlyObservedLocked_def intro!: length_delete_less)
qed

lemma observe_inv: "observeLocked now l = (at, order, l') \<Longrightarrow> limiter_inv l \<Longrightarrow> limiter_inv l'"
  by (auto simp: observeLocked_def Let_def limiter_inv_def)

lemma evict_same [simp]: "maximum (evictLeastRecentlyObservedLocked l) = maximum l"
  by (simp add: evictLeastRecentlyObservedLocked_def split: option.split)

lemma reclaim_same [simp]: "maximum (reclaimExpiredLocked now l) = maximum l"
  by (simp add: reclaimExpiredLocked_def)

lemma make_room:
  assumes "limiter_inv l"
  defines "l2 \<equiv> (if maxSourceLimiterEntries \<le> length (windows l) then evictLeastRecentlyObservedLocked l else l)"
  shows "limiter_inv l2" "length (windows l2) < maxSourceLimiterEntries" "maximum l2 = maximum l"
proof -
  show "limiter_inv l2" using assms evict_inv by simp
  show "length (windows l2) < maxSourceLimiterEntries"
  proof (cases "maxSourceLimiterEntries \<le> length (windows l)")
    case True
    then have "windows l \<noteq> []" by (auto simp: maxSourceLimiterEntries_def)
    with evict_shrinks [of l] limiter_invD(2) [OF assms(1)] True show ?thesis by (simp add: l2_def)
  qed (simp add: l2_def)
  show "maximum l2 = maximum l" by (simp add: l2_def)
qed

lemma allow_inv:
  assumes "limiter_inv l0"
  shows "limiter_inv (snd (allow source now l0))"
proof -
  obtain at order l where obs: "observeLocked now l0 = (at, order, l)" by (metis prod_cases3)
  have inv: "limiter_inv l" by (rule observe_inv [OF obs assms])
  show ?thesis
  proof (cases "map_of (windows l) source")
    case None
    note room = make_room [OF reclaim_inv [OF inv, of now]]
    show ?thesis
      using put_window_inv [OF room(1)] room(2,3) by (simp add: allow_def obs None Let_def)
  next
    case (Some w)
    then have mem: "(source, w) \<in> set (windows l)" by (rule map_of_SomeD)
    then have key: "source \<in> fst ` set (windows l)" by force
    have c: "1 \<le> w_count w" "w_count w \<le> max 1 (maximum l)" using limiter_invD(3) [OF inv mem] by auto
    show ?thesis
      using put_window_inv [OF inv] key c by (simp add: allow_def obs Some Let_def)
  qed
qed

lemma succeeded_inv: "limiter_inv l \<Longrightarrow> limiter_inv (succeeded source l)"
  unfolding succeeded_def
  by (rule sub_windows_inv) (auto simp: set_delete limiter_invD length_delete_le AList.distinct_delete)

interpretation limiter: invariant_of "\<lambda>l. \<exists>m d. l = newSourceLimiter m d" limiter_step limiter_inv
proof unfold_locales
  show "\<exists>m d. s = newSourceLimiter m d \<Longrightarrow> limiter_inv s" for s
    by (auto simp: limiter_inv_def newSourceLimiter_def)
  show "limiter_step s t \<Longrightarrow> limiter_inv s \<Longrightarrow> limiter_inv t" for s t
    by (induction rule: limiter_step.induct) (simp_all add: allow_inv succeeded_inv)
qed

text \<open>
  C18: The tunnel source limiter is bounded whatever sources connect: it never keeps more
  than 4096 windows, one per source, and no window counts more than the maximum.
\<close>

theorem limiter_bounded:
  assumes "reach (\<lambda>l. \<exists>m d. l = newSourceLimiter m d) limiter_step l"
  shows "length (windows l) \<le> 4096 \<and> distinct (map fst (windows l)) \<and>
    (\<forall>source w. (source, w) \<in> set (windows l) \<longrightarrow> 1 \<le> w_count w \<and> w_count w \<le> max 1 (maximum l))"
  using limiter_invD [OF limiter.reach_inv [OF assms]] by (simp add: maxSourceLimiterEntries_def)

theorem limiter_bounded_witness:
  "length (windows (snd (allow ''a'' 5 (newSourceLimiter 2 10)))) \<le> 4096"
proof -
  have "reach (\<lambda>l. \<exists>m d. l = newSourceLimiter m d) limiter_step (snd (allow ''a'' 5 (newSourceLimiter 2 10)))"
    by (rule reach_step [where s = "newSourceLimiter 2 10"], rule reach_init, blast, rule step_allow)
  from limiter_bounded [OF this] show ?thesis by blast
qed

subsection \<open>The iteration order of the map does not matter\<close>

definition same_limiter :: "sourceLimiter \<Rightarrow> sourceLimiter \<Rightarrow> bool" where
  "same_limiter l l' \<longleftrightarrow> distinct (map fst (windows l)) \<and> distinct (map fst (windows l')) \<and>
     set (windows l) = set (windows l') \<and>
     maximum l' = maximum l \<and> window_duration l' = window_duration l \<and>
     latestObservation l' = latestObservation l \<and> nextObservationOrder l' = nextObservationOrder l"

lemma set_length_keys:
  assumes "distinct (map fst xs)" and "distinct (map fst ys)" and "set xs = set ys"
  shows "length xs = length ys" "map_of xs = map_of ys"
proof -
  show "length xs = length ys"
    using assms by (metis distinct_card distinct_map)
  show "map_of xs = map_of ys"
    using assms by (metis map_of_inject_set)
qed

lemma set_update_distinct:
  assumes "distinct (map fst xs)"
  shows "set (AList.update k v xs) = insert (k, v) {e \<in> set xs. fst e \<noteq> k}"
  using assms
proof (induction xs)
  case (Cons x xs)
  then show ?case by (cases x) force
qed simp

lemma same_put:
  assumes "same_limiter l l'"
  shows "same_limiter (l\<lparr>windows := AList.update k v (windows l)\<rparr>) (l'\<lparr>windows := AList.update k v (windows l')\<rparr>)"
  using assms set_update_distinct [of "windows l" k v] set_update_distinct [of "windows l'" k v]
  by (auto simp: same_limiter_def distinct_update)

lemma same_reclaim:
  assumes "same_limiter l l'"
  shows "same_limiter (reclaimExpiredLocked now l) (reclaimExpiredLocked now l')"
  using assms by (auto simp: reclaimExpiredLocked_def same_limiter_def distinct_windows_filter)

lemma same_evict:
  assumes "same_limiter l l'"
  shows "same_limiter (evictLeastRecentlyObservedLocked l) (evictLeastRecentlyObservedLocked l')"
proof -
  have eq: "scan_oldest None (windows l') = scan_oldest None (windows l)"
    by (rule scan_oldest_order) (use assms in \<open>simp_all add: same_limiter_def\<close>)
  show ?thesis
    using assms unfolding evictLeastRecentlyObservedLocked_def eq
    by (auto simp: same_limiter_def AList.distinct_delete set_delete split: option.split)
qed

lemma same_fields:
  assumes "same_limiter l l'"
  shows "latestObservation l' = latestObservation l" "nextObservationOrder l' = nextObservationOrder l"
    "maximum l' = maximum l" "window_duration l' = window_duration l"
    "length (windows l') = length (windows l)" "map_of (windows l') = map_of (windows l)"
  using assms set_length_keys [of "windows l'" "windows l"] by (auto simp: same_limiter_def)

lemma same_observed:
  "same_limiter l l' \<Longrightarrow> same_limiter (l\<lparr>latestObservation := a, nextObservationOrder := b\<rparr>)
     (l'\<lparr>latestObservation := a, nextObservationOrder := b\<rparr>)"
  by (simp add: same_limiter_def)

lemma allow_same:
  assumes same: "same_limiter l0 l0'"
  shows "fst (allow source now l0') = fst (allow source now l0) \<and>
    same_limiter (snd (allow source now l0)) (snd (allow source now l0'))"
proof -
  obtain at order l where obs: "observeLocked now l0 = (at, order, l)" by (metis prod_cases3)
  then have l: "l = l0\<lparr>latestObservation := at, nextObservationOrder := order\<rparr>"
    by (auto simp: observeLocked_def Let_def)
  define l' where "l' = l0'\<lparr>latestObservation := at, nextObservationOrder := order\<rparr>"
  have obs': "observeLocked now l0' = (at, order, l')"
    using obs same_fields(1,2) [OF same] by (auto simp: observeLocked_def Let_def l'_def)
  have s: "same_limiter l l'" unfolding l l'_def by (rule same_observed [OF same])
  note f = same_fields [OF s]
  note r = same_reclaim [OF s, of now]
  note e = same_evict [OF r]
  show ?thesis
  proof (cases "map_of (windows l) source")
    case None
    then show ?thesis
      using same_put [OF r] same_put [OF e] same_fields(5) [OF r]
      by (simp add: allow_def obs obs' f Let_def)
  next
    case (Some w)
    then show ?thesis
      using same_put [OF s] by (simp add: allow_def obs obs' f Let_def)
  qed
qed

text \<open>
  The limiter's verdict and its next windows do not depend on the order in which Go
  iterates over its map: two enumerations of the same windows decide alike and stay equal,
  also when the scan evicts the least recently observed window.
\<close>

theorem limiter_order_irrelevant:
  assumes "same_limiter l l'"
  shows "fst (allow source now l') = fst (allow source now l) \<and>
    same_limiter (snd (allow source now l)) (snd (allow source now l')) \<and>
    same_limiter (evictLeastRecentlyObservedLocked l) (evictLeastRecentlyObservedLocked l')"
  using allow_same [OF assms] same_evict [OF assms] by blast

theorem limiter_order_irrelevant_witness:
  "\<exists>l l'. windows l \<noteq> windows l' \<and> same_limiter (snd (allow ''c'' 9 l)) (snd (allow ''c'' 9 l'))"
proof -
  let ?w = "\<lparr>started = 1, lastObserved = 1, observationOrder = 1, w_count = 1\<rparr>"
  let ?l = "(newSourceLimiter 2 10)\<lparr>windows := [(''a'', ?w), (''b'', ?w)]\<rparr>"
  let ?l' = "(newSourceLimiter 2 10)\<lparr>windows := [(''b'', ?w), (''a'', ?w)]\<rparr>"
  have "same_limiter ?l ?l'" by (auto simp: same_limiter_def newSourceLimiter_def)
  from limiter_order_irrelevant [OF this, of "''c''" 9] have
    "same_limiter (snd (allow ''c'' 9 ?l)) (snd (allow ''c'' 9 ?l'))" by blast
  moreover have "windows ?l \<noteq> windows ?l'" by simp
  ultimately show ?thesis by blast
qed

subsection \<open>One window admits the maximum\<close>

fun allow_all :: "(string \<times> time) list \<Rightarrow> sourceLimiter \<Rightarrow> bool list" where
  "allow_all [] l = []"
| "allow_all ((source, now) # rs) l = (case allow source now l of (ok, l') \<Rightarrow> ok # allow_all rs l')"

definition admitted :: "string \<Rightarrow> (string \<times> time) list \<Rightarrow> sourceLimiter \<Rightarrow> nat" where
  "admitted source rs l = length (filter (\<lambda>(r, ok). fst r = source \<and> ok) (zip rs (allow_all rs l)))"

text \<open>A request within the window of \<open>s\<close> while the map is below its cap.\<close>

lemma observe_eq: "\<exists>at order. observeLocked now l =
    (at, order, l\<lparr>latestObservation := at, nextObservationOrder := order\<rparr>)"
  by (simp add: observeLocked_def Let_def)

lemma allow_own:
  assumes w: "map_of (windows l) s = Some w" and now: "\<not> expired now (window_duration l) w"
  shows "\<exists>at order. allow s now l = (w_count w < maximum l,
     l\<lparr>latestObservation := at, nextObservationOrder := order, windows := AList.update s
       (w\<lparr>lastObserved := at, observationOrder := order,
          w_count := w_count w + of_bool (w_count w < maximum l)\<rparr>) (windows l)\<rparr>)"
proof -
  obtain at order where obs: "observeLocked now l = (at, order, l\<lparr>latestObservation := at, nextObservationOrder := order\<rparr>)"
    using observe_eq by blast
  show ?thesis
    using assms by (intro exI [of _ at] exI [of _ order]) (simp add: allow_def obs Let_def expired_def)
qed

lemma allow_other:
  assumes w: "map_of (windows l) s = Some w" and now: "\<not> expired now (window_duration l) w"
    and d: "distinct (map fst (windows l))" and room: "length (windows l) < maxSourceLimiterEntries"
    and other: "src \<noteq> s"
  shows "\<exists>ok at order v ws. allow src now l = (ok, l\<lparr>latestObservation := at, nextObservationOrder := order,
     windows := AList.update src v ws\<rparr>) \<and> map_of ws s = Some w \<and> distinct (map fst ws) \<and>
     length ws \<le> length (windows l)"
proof -
  obtain at order where obs: "observeLocked now l = (at, order, l\<lparr>latestObservation := at, nextObservationOrder := order\<rparr>)"
    using observe_eq by blast
  let ?ws = "filter (\<lambda>(_, w). \<not> expired now (window_duration l) w) (windows l)"
  have len: "\<not> maxSourceLimiterEntries \<le> length ?ws" using room by (simp add: not_le le_less_trans [OF length_filter_le])
  have kept: "map_of ?ws s = Some w" using w d now by (simp add: map_of_eq_Some_iff distinct_windows_filter)
  show ?thesis
  proof (cases "map_of (windows l) src")
    case (Some v)
    have "\<exists>ok v'. allow src now l = (ok, l\<lparr>latestObservation := at, nextObservationOrder := order,
        windows := AList.update src v' (windows l)\<rparr>)"
      using Some by (auto simp: allow_def obs Let_def)
    then show ?thesis using w d by blast
  next
    case None
    show ?thesis
      by (rule exI [of _ True], rule exI [of _ at], rule exI [of _ order], rule exI, rule exI [of _ ?ws])
        (use None d kept len in \<open>simp add: allow_def obs Let_def reclaimExpiredLocked_def distinct_windows_filter\<close>)
  qed
qed

lemma admitted_Cons:
  "admitted s ((src, now) # rs) l =
    of_bool (src = s \<and> fst (allow src now l)) + admitted s rs (snd (allow src now l))"
  by (simp add: admitted_def split: prod.split)

lemma admitted_count:
  assumes "distinct (map fst (windows l))" and "map_of (windows l) s = Some w" and "w_count w \<le> maximum l"
    and "\<forall>r \<in> set rs. \<not> expired (snd r) (window_duration l) w"
    and "length (windows l) + length rs \<le> maxSourceLimiterEntries"
  shows "int (admitted s rs l) = min (int (length (filter (\<lambda>r. fst r = s) rs))) (maximum l - w_count w)"
  using assms
proof (induction rs arbitrary: l w)
  case Nil
  then show ?case by (simp add: admitted_def)
next
  case (Cons r rs)
  obtain src now where r: "r = (src, now)" by fastforce
  have now: "\<not> expired now (window_duration l) w" using Cons.prems(4) by (simp add: r)
  show ?case
  proof (cases "src = s")
    case True
    from allow_own [OF Cons.prems(2) now] obtain at order where a: "allow s now l = (w_count w < maximum l,
       l\<lparr>latestObservation := at, nextObservationOrder := order, windows := AList.update s
         (w\<lparr>lastObserved := at, observationOrder := order,
          w_count := w_count w + of_bool (w_count w < maximum l)\<rparr>) (windows l)\<rparr>)" by blast
    have "s \<in> fst ` set (windows l)" using Cons.prems(2) by (metis domI dom_map_of_conv_image_fst)
    then have "int (admitted s rs (snd (allow s now l))) =
       min (int (length (filter (\<lambda>r. fst r = s) rs))) (maximum l - (w_count w + of_bool (w_count w < maximum l)))"
      by (subst Cons.IH [of _ "w\<lparr>lastObserved := at, observationOrder := order,
          w_count := w_count w + of_bool (w_count w < maximum l)\<rparr>"])
        (use Cons.prems in \<open>auto simp: a distinct_update length_update update_conv' expired_def\<close>)
    then show ?thesis using True Cons.prems(3) by (auto simp: r admitted_Cons a)
  next
    case False
    from allow_other [OF Cons.prems(2) now Cons.prems(1) _ False] Cons.prems(5)
    obtain ok at order v ws where a: "allow src now l = (ok, l\<lparr>latestObservation := at,
        nextObservationOrder := order, windows := AList.update src v ws\<rparr>)"
      and ws: "map_of ws s = Some w" "distinct (map fst ws)" "length ws \<le> length (windows l)" by auto
    have "int (admitted s rs (snd (allow src now l))) = min (int (length (filter (\<lambda>r. fst r = s) rs))) (maximum l - w_count w)"
      by (subst Cons.IH [of _ w])
        (use Cons.prems ws False in \<open>auto simp: a distinct_update length_update update_conv'\<close>)
    then show ?thesis using False by (simp add: r admitted_Cons)
  qed
qed

text \<open>
  Within one window the limiter admits exactly the maximum: a source whose window has
  counted \<open>c\<close> attempts gets \<open>maximum - c\<close> more of its next requests admitted, or all of them
  if they are fewer, however requests of other sources interleave, as long as they do not
  fill the map.
\<close>

theorem limiter_window_limit:
  assumes "distinct (map fst (windows l))" and "map_of (windows l) s = Some w" and "w_count w \<le> maximum l"
    and "\<And>src now. (src, now) \<in> set rs \<Longrightarrow> Sub now (started w) < window_duration l"
    and "length (windows l) + length rs \<le> 4096"
  shows "int (admitted s rs l) = min (int (length (filter (\<lambda>r. fst r = s) rs))) (maximum l - w_count w)"
  using admitted_count [OF assms(1-3)] assms(4,5)
  by (fastforce simp: expired_def maxSourceLimiterEntries_def)

theorem limiter_window_limit_witness:
  "int (admitted ''a'' [(''a'', 6), (''b'', 6), (''a'', 7), (''a'', 8)] (snd (allow ''a'' 5 (newSourceLimiter 2 10)))) = 1"
proof -
  let ?l = "snd (allow ''a'' 5 (newSourceLimiter 2 10))"
  let ?w = "\<lparr>started = 5, lastObserved = 5, observationOrder = 1, w_count = 1\<rparr>"
  have l: "windows ?l = [(''a'', ?w)]" "maximum ?l = 2" "window_duration ?l = 10"
    by (simp_all add: allow_def newSourceLimiter_def observeLocked_def Let_def reclaimExpiredLocked_def
        maxSourceLimiterEntries_def)
  have "int (admitted ''a'' [(''a'', 6), (''b'', 6), (''a'', 7), (''a'', 8)] ?l) = min 3 (2 - 1)"
    by (subst limiter_window_limit [where w = ?w]) (auto simp: l Sub_def)
  then show ?thesis by simp
qed

end
