(* ===== verification/AgentTypes.thy ===== *)
theory AgentTypes
  imports Ident Store_Types "HOL-Library.Sublist"
begin

text \<open>
  Values of the agent component: the constants, errors and records of
  \<^verbatim>\<open>internal/agent/types.go\<close>, the execution target of \<^verbatim>\<open>target.go\<close>, and the pure
  functions of \<^verbatim>\<open>service.go\<close> that validate requests, bound outputs and histories and
  normalize failure codes.  A Go error that wraps another is \<open>AgWrap\<close>; \<open>err_is\<close> is
  \<^verbatim>\<open>errors.Is\<close>.
\<close>

subsection \<open>Constants\<close>

definition ProviderFake :: string where "ProviderFake = ''fake''"
definition ToolRemoteExec :: string where "ToolRemoteExec = ''remote_exec''"

definition EventSessionState :: string where "EventSessionState = ''session.state''"
definition EventReasoningDelta :: string where "EventReasoningDelta = ''response.reasoning.delta''"
definition EventReasoningDone :: string where "EventReasoningDone = ''response.reasoning.done''"
definition EventTextDelta :: string where "EventTextDelta = ''response.text.delta''"
definition EventTextDone :: string where "EventTextDone = ''response.text.done''"
definition EventToolPending :: string where "EventToolPending = ''tool_call.pending''"
definition EventToolStarted :: string where "EventToolStarted = ''tool_call.started''"
definition EventToolOutput :: string where "EventToolOutput = ''tool_call.output''"
definition EventToolCompleted :: string where "EventToolCompleted = ''tool_call.completed''"
definition EventTurnCompleted :: string where "EventTurnCompleted = ''turn.completed''"
definition EventTurnFailed :: string where "EventTurnFailed = ''turn.failed''"

definition FailureDeviceOffline :: string where "FailureDeviceOffline = ''DEVICE_OFFLINE''"
definition FailureDeviceNotFound :: string where "FailureDeviceNotFound = ''DEVICE_NOT_FOUND''"
definition FailureCommandDenied :: string where "FailureCommandDenied = ''COMMAND_DENIED''"
definition FailureApprovalTimeout :: string where "FailureApprovalTimeout = ''APPROVAL_TIMEOUT''"
definition FailureExecTimeout :: string where "FailureExecTimeout = ''REMOTE_EXEC_TIMEOUT''"
definition FailureExecCanceled :: string where "FailureExecCanceled = ''REMOTE_EXEC_CANCELED''"
definition FailureExecTransport :: string where "FailureExecTransport = ''REMOTE_EXEC_TRANSPORT''"
definition FailureInvalidCWD :: string where "FailureInvalidCWD = ''REMOTE_CWD_INVALID''"
definition FailurePowerShell :: string where "FailurePowerShell = ''REMOTE_POWERSHELL_FAILURE''"

definition MaxMessageBytes :: nat where "MaxMessageBytes = 32 * 1024"
definition MaxCommandBytes :: nat where "MaxCommandBytes = 8192"
definition MaxCWDBytes :: nat where "MaxCWDBytes = 4096"
definition MaxToolOutputBytes :: nat where "MaxToolOutputBytes = 256 * 1024"
definition MaxOutputExcerpt :: nat where "MaxOutputExcerpt = 8192"
definition DefaultExecTimeout :: duration where "DefaultExecTimeout = 30 * second"
definition MaximumExecTimeout :: duration where "MaximumExecTimeout = 60 * second"
definition MinimumExecTimeout :: duration where "MinimumExecTimeout = second"
definition DefaultTurnTimeout :: duration where "DefaultTurnTimeout = 300 * second"
definition DefaultApprovalWait :: duration where "DefaultApprovalWait = 120 * second"
definition MaxRuntimeIDBytes :: nat where "MaxRuntimeIDBytes = 64"
definition MaxProviderIDBytes :: nat where "MaxProviderIDBytes = 128"
definition MaxModelIDBytes :: nat where "MaxModelIDBytes = 256"
definition MaxDisplayNameBytes :: nat where "MaxDisplayNameBytes = 256"
definition MaxBaseURLBytes :: nat where "MaxBaseURLBytes = 2048"
definition MaxReasoningIDBytes :: nat where "MaxReasoningIDBytes = 64"
definition MaxProviderModels :: nat where "MaxProviderModels = 256"

definition MaxConversationHistoryMessages :: nat where "MaxConversationHistoryMessages = 64"
definition MaxConversationHistoryBytes :: int where "MaxConversationHistoryBytes = 256 * 1024"
definition maxRemoteExecArgumentBytes :: nat where
  "maxRemoteExecArgumentBytes = 6 * (MaxCommandBytes + MaxCWDBytes) + 1024"

subsection \<open>Errors\<close>

datatype agent_err =
    AgNotFound | AgInvalidRequest | AgInvalidState | AgTurnInProgress | AgDeviceOffline
  | AgApprovalTimeout | AgInvalidTool | AgServiceClosed
  | AgStore store_err | AgCtx ctx_err | AgRandom id_err | AgEncode | AgOther string
  | AgExecution string agent_err   \<comment> \<open>\<^verbatim>\<open>*ExecutionError\<close>: its code and the wrapped error\<close>
  | AgAdapter string agent_err     \<comment> \<open>\<^verbatim>\<open>*AdapterError\<close>\<close>
  | AgWrap string agent_err        \<comment> \<open>\<^verbatim>\<open>fmt.Errorf\<close> with \<^verbatim>\<open>%w\<close>\<close>

fun err_is :: "agent_err \<Rightarrow> agent_err \<Rightarrow> bool" where
  "err_is (AgWrap m e) target \<longleftrightarrow> target = AgWrap m e \<or> err_is e target"
| "err_is (AgExecution c e) target \<longleftrightarrow> target = AgExecution c e \<or> err_is e target"
| "err_is (AgAdapter c e) target \<longleftrightarrow> target = AgAdapter c e \<or> err_is e target"
| "err_is e target \<longleftrightarrow> target = e"

text \<open>\<^verbatim>\<open>errors.As\<close> for the two error structs: the code of the outermost one.\<close>

fun as_execution :: "agent_err \<Rightarrow> string option" where
  "as_execution (AgExecution c e) = Some c"
| "as_execution (AgAdapter c e) = as_execution e"
| "as_execution (AgWrap m e) = as_execution e"
| "as_execution _ = None"

fun as_adapter :: "agent_err \<Rightarrow> string option" where
  "as_adapter (AgAdapter c e) = Some c"
| "as_adapter (AgExecution c e) = as_adapter e"
| "as_adapter (AgWrap m e) = as_adapter e"
| "as_adapter _ = None"

definition mapStoreNotFound :: "agent_err \<Rightarrow> agent_err" where
  "mapStoreNotFound err = (if err_is err (AgStore ErrNotFound) then AgNotFound else err)"

subsection \<open>Records\<close>

record ExecutionTarget =
  et_Platform :: string
  et_Arch :: string
  et_Shell :: string
  et_PathFlavor :: string
  et_DefaultCWDPolicy :: string

record ModelSelection =
  ms_Provider :: string
  ms_Model :: string
  ms_ReasoningEffort :: string

record RuntimeProviderModel =
  pm_ID :: string
  pm_Name :: string
  pm_ContextWindow :: int
  pm_MaxTokens :: int

record RuntimeProviderMutation =
  mu_Provider :: string
  mu_ExpectedRevision :: int
  mu_DisplayName :: string
  mu_BaseURL :: string
  mu_API :: string
  mu_Models :: "RuntimeProviderModel list"
  mu_ModelsOverridden :: bool
  mu_APIKey :: string

record ConversationMessage =
  cm_Role :: string
  cm_Content :: string

record ToolRequest =
  tr_Name :: string
  tr_Arguments :: string

record RemoteExecArguments =
  ra_Command :: string
  ra_CWD :: string
  ra_TimeoutMS :: int

record RemoteExecution =
  re_Stdout :: string
  re_Stderr :: string
  re_ExitCode :: int

record ToolFailure =
  tf_Code :: string
  tf_Message :: string

record ToolResult =
  to_ToolCallID :: ident
  to_Stdout :: string
  to_Stderr :: string
  to_ExitCode :: int
  to_Truncated :: bool
  to_Denied :: bool
  to_Failure :: "ToolFailure option"

record Event =
  ev_ID :: ident
  ev_SessionID :: ident
  ev_CreatedAt :: time
  ev_Type :: string
  ev_Payload :: string

definition zeroToolResult :: ToolResult where
  "zeroToolResult = \<lparr>to_ToolCallID = [], to_Stdout = [], to_Stderr = [], to_ExitCode = 0,
     to_Truncated = False, to_Denied = False, to_Failure = None\<rparr>"

definition knownEventType :: "string \<Rightarrow> bool" where
  "knownEventType eventType \<longleftrightarrow> eventType \<in> set [EventSessionState, EventReasoningDelta,
     EventReasoningDone, EventTextDelta, EventTextDone, EventToolPending, EventToolStarted,
     EventToolOutput, EventToolCompleted, EventTurnCompleted, EventTurnFailed]"

definition Event_Validate :: "(string \<Rightarrow> bool) \<Rightarrow> Event \<Rightarrow> bool" where
  "Event_Validate json_valid e \<longleftrightarrow> \<not> (ev_ID e = [] \<or> ev_SessionID e = [] \<or> ev_CreatedAt e = zeroTime \<or>
     \<not> knownEventType (ev_Type e) \<or> \<not> json_valid (ev_Payload e))"

definition executionTarget :: "string \<Rightarrow> string \<Rightarrow> agent_err + ExecutionTarget" where
  "executionTarget platform arch =
     (if arch = [] then Inl AgInvalidState
      else if platform = ''linux'' then
        Inr \<lparr>et_Platform = platform, et_Arch = arch, et_Shell = ''posix-user-shell'',
             et_PathFlavor = ''posix'', et_DefaultCWDPolicy = ''inherit''\<rparr>
      else if platform = ''windows'' then
        (if arch \<noteq> ''amd64'' then Inl AgInvalidState
         else Inr \<lparr>et_Platform = platform, et_Arch = arch, et_Shell = ''windows-powershell'',
                   et_PathFlavor = ''windows'', et_DefaultCWDPolicy = ''user-profile''\<rparr>)
      else Inl AgInvalidState)"

subsection \<open>Validation\<close>

definition validateMessage :: "string \<Rightarrow> agent_err + unit" where
  "validateMessage content =
     (if \<not> ValidString content \<or> length content = 0 \<or> length content > MaxMessageBytes \<or>
         TrimSpace content = [] then Inl AgInvalidRequest else Inr ())"

definition rune_between :: "char \<Rightarrow> nat \<Rightarrow> char \<Rightarrow> bool" where
  "rune_between lo r hi \<longleftrightarrow> byte lo \<le> r \<and> r \<le> byte hi"

definition validProvider :: "string \<Rightarrow> bool" where
  "validProvider provider \<longleftrightarrow> provider \<noteq> [] \<and>
     list_all (\<lambda>c. let r = rune_of c in
       rune_between CHR ''a'' r CHR ''z'' \<or> r = byte CHR ''_'' \<or> r = byte CHR ''-'' \<or>
       rune_between CHR ''0'' r CHR ''9'') (chunks provider)"

definition validRuntimeText :: "string \<Rightarrow> nat \<Rightarrow> bool" where
  "validRuntimeText v maxi \<longleftrightarrow> v \<noteq> [] \<and> length v \<le> maxi \<and> ValidString v \<and> TrimSpace v = v"

definition validOptionalRuntimeText :: "string \<Rightarrow> nat \<Rightarrow> bool" where
  "validOptionalRuntimeText v maxi \<longleftrightarrow> v = [] \<or> validRuntimeText v maxi"

fun valid_models :: "string list \<Rightarrow> RuntimeProviderModel list \<Rightarrow> bool" where
  "valid_models seen [] = True"
| "valid_models seen (m # ms) =
     (if \<not> validRuntimeText (pm_ID m) MaxModelIDBytes \<or>
         \<not> validOptionalRuntimeText (pm_Name m) MaxDisplayNameBytes \<or>
         pm_ContextWindow m < 0 \<or> pm_MaxTokens m < 0 then False
      else if pm_ID m \<in> set seen then False
      else valid_models (pm_ID m # seen) ms)"

definition validateRuntimeProviderMutation :: "RuntimeProviderMutation \<Rightarrow> agent_err + unit" where
  "validateRuntimeProviderMutation mutation =
     (if length (mu_Provider mutation) > MaxProviderIDBytes \<or> \<not> validProvider (mu_Provider mutation) \<or>
         mu_ExpectedRevision mutation < 0 \<or>
         \<not> validOptionalRuntimeText (mu_DisplayName mutation) MaxDisplayNameBytes \<or>
         \<not> validOptionalRuntimeText (mu_BaseURL mutation) MaxBaseURLBytes \<or>
         \<not> validOptionalRuntimeText (mu_API mutation) MaxReasoningIDBytes \<or>
         length (mu_APIKey mutation) > 4096 \<or> length (mu_Models mutation) > MaxProviderModels
      then Inl AgInvalidRequest
      else if \<not> mu_ModelsOverridden mutation then
        (if mu_Models mutation \<noteq> [] then Inl AgInvalidRequest else Inr ())
      else if valid_models [] (mu_Models mutation) then Inr () else Inl AgInvalidRequest)"

definition validModelSelection :: "ModelSelection \<Rightarrow> bool" where
  "validModelSelection selection \<longleftrightarrow> validRuntimeText (ms_Provider selection) MaxProviderIDBytes \<and>
     validRuntimeText (ms_Model selection) MaxModelIDBytes \<and>
     validOptionalRuntimeText (ms_ReasoningEffort selection) MaxReasoningIDBytes"

text \<open>
  The decoder with \<^verbatim>\<open>DisallowUnknownFields\<close> is a parameter: it gives the first JSON value of
  the text as the three fields, and the rest.  A second \<^verbatim>\<open>Decode\<close> reports \<^verbatim>\<open>io.EOF\<close>
  exactly when only white space is left.
\<close>

record raw_arguments =
  raw_command :: string
  raw_cwd :: string
  raw_timeout_ms :: "int option"

definition blank_rest :: "string \<Rightarrow> bool" where
  "blank_rest rest \<longleftrightarrow> list_all (\<lambda>c. c \<in> set [CHR '' '', CHR 0x09, CHR 0x0A, CHR 0x0D]) rest"

definition parseRemoteExecArguments ::
  "(string \<Rightarrow> (raw_arguments \<times> string) option) \<Rightarrow> string \<Rightarrow> agent_err + RemoteExecArguments" where
  "parseRemoteExecArguments decode raw =
     (if length raw = 0 \<or> length raw > maxRemoteExecArgumentBytes then Inl AgInvalidTool
      else case decode raw of
        None \<Rightarrow> Inl AgInvalidTool
      | Some (arguments, rest) \<Rightarrow>
          if \<not> blank_rest rest then Inl AgInvalidTool
          else if \<not> ValidString (raw_command arguments) \<or> length (raw_command arguments) = 0 \<or>
            length (raw_command arguments) > MaxCommandBytes \<or> CHR 0x00 \<in> set (raw_command arguments)
          then Inl AgInvalidTool
          else if raw_cwd arguments \<noteq> [] \<and> (\<not> ValidString (raw_cwd arguments) \<or>
            length (raw_cwd arguments) > MaxCWDBytes \<or> CHR 0x00 \<in> set (raw_cwd arguments))
          then Inl AgInvalidTool
          else let timeoutMS = (case raw_timeout_ms arguments of
                     None \<Rightarrow> DefaultExecTimeout div millisecond | Some t \<Rightarrow> t) in
            if timeoutMS < MinimumExecTimeout div millisecond \<or> MaximumExecTimeout div millisecond < timeoutMS
            then Inl AgInvalidTool
            else Inr \<lparr>ra_Command = raw_command arguments, ra_CWD = raw_cwd arguments,
                      ra_TimeoutMS = timeoutMS\<rparr>)"

subsection \<open>Bounded outputs and histories\<close>

definition truncateOutput :: "string \<Rightarrow> string \<Rightarrow> nat \<Rightarrow> string \<times> string \<times> bool" where
  "truncateOutput stdout stderr maxi =
     (if length stdout + length stderr \<le> maxi then (stdout, stderr, False)
      else let stdoutLimit = (if length stdout > maxi then maxi else length stdout);
               remaining = maxi - stdoutLimit;
               stderrLimit = (if length stderr > remaining then remaining else length stderr)
           in (take stdoutLimit stdout, take stderrLimit stderr, True))"

function trim_invalid :: "string \<Rightarrow> string" where
  "trim_invalid bs = (if \<not> ValidString bs \<and> bs \<noteq> [] then trim_invalid (butlast bs) else bs)"
  by pat_completeness auto
termination
  by (relation "measure length") auto

declare trim_invalid.simps [simp del]

definition outputExcerpt :: "ToolResult \<Rightarrow> string" where
  "outputExcerpt result =
     (let contents = (case to_Failure result of
            None \<Rightarrow> to_Stdout result @ to_Stderr result | Some f \<Rightarrow> tf_Code f)
      in if length contents > MaxOutputExcerpt then trim_invalid (take MaxOutputExcerpt contents)
         else contents)"

definition spoken :: "AgentMessage \<Rightarrow> bool" where
  "spoken m \<longleftrightarrow> \<not> (am_role m \<noteq> ''user'' \<and> am_role m \<noteq> ''assistant'')"

definition as_conversation :: "AgentMessage \<Rightarrow> ConversationMessage" where
  "as_conversation m = \<lparr>cm_Role = am_role m, cm_Content = am_content m\<rparr>"

text \<open>The loop from the newest message backwards; \<open>reversed\<close> is newest first.\<close>

fun history_scan :: "AgentMessage list \<Rightarrow> ConversationMessage list \<Rightarrow> int \<Rightarrow> ConversationMessage list" where
  "history_scan [] reversed totalBytes = reversed"
| "history_scan (m # older) reversed totalBytes =
     (if \<not> spoken m then history_scan older reversed totalBytes
      else let messageBytes = int (length (am_content m)) in
        if MaxConversationHistoryMessages \<le> length reversed \<or>
           MaxConversationHistoryBytes - messageBytes < totalBytes then reversed
        else history_scan older (reversed @ [as_conversation m]) (totalBytes + messageBytes))"

definition conversationHistory :: "AgentMessage list \<Rightarrow> ConversationMessage list" where
  "conversationHistory messages =
     dropWhile (\<lambda>c. cm_Role c \<noteq> ''user'') (rev (history_scan (rev messages) [] 0))"

subsection \<open>Failure codes\<close>

definition stableFailureCode :: "string \<Rightarrow> string" where
  "stableFailureCode code =
     (if code = [] \<or> length code > 64 then FailureExecTransport
      else if list_all (\<lambda>c. let r = rune_of c in rune_between CHR ''A'' r CHR ''Z'' \<or>
             r = byte CHR ''_'' \<or> rune_between CHR ''0'' r CHR ''9'') (chunks code)
      then code else FailureExecTransport)"

definition safeAdapterFailureCode :: "string \<Rightarrow> string" where
  "safeAdapterFailureCode code =
     (if code \<in> set [''rate_limited'', ''unauthorized'', ''provider_unavailable'',
           ''provider_rejected'', ''protocol_error''] then code else ''provider_error'')"

definition safeTurnFailureMessage :: "string \<Rightarrow> string" where
  "safeTurnFailureMessage code =
     (if code = ''rate_limited'' then ''Agent provider is rate limited. Try again later.''
      else if code = ''unauthorized'' then ''Agent provider authentication failed.''
      else if code \<in> set [''provider_unavailable'', ''provider_error'']
      then ''Agent provider is unavailable. Try again.''
      else if code = ''provider_rejected''
      then ''Agent provider rejected the request or model configuration.''
      else if code = ''protocol_error''
      then ''Agent provider returned an unsupported response. Start a new conversation and try again.''
      else if code = FailureDeviceOffline then ''The remote device is offline.''
      else if code = FailureApprovalTimeout then ''Command approval timed out.''
      else if code = FailureExecTimeout then ''Remote command timed out.''
      else if code = FailureExecCanceled then ''Agent turn was canceled.''
      else if code = FailureInvalidCWD then ''The remote working directory is invalid.''
      else if code = FailurePowerShell then ''Windows PowerShell could not start the remote command.''
      else ''Agent turn failed.'')"

subsection \<open>Lemmas\<close>

lemma trim_invalid_prefix: "prefix (trim_invalid bs) bs"
proof (induction bs rule: trim_invalid.induct)
  case (1 bs)
  show ?case
  proof (cases "\<not> ValidString bs \<and> bs \<noteq> []")
    case True
    then have "prefix (trim_invalid bs) (butlast bs)" using 1 by (subst trim_invalid.simps) simp
    then show ?thesis by (metis True append_butlast_last_id prefix_append prefix_def)
  next
    case False
    then have "trim_invalid bs = bs" by (subst trim_invalid.simps) auto
    then show ?thesis by simp
  qed
qed

lemma trim_invalid_valid: "ValidString (trim_invalid bs)"
proof (induction bs rule: trim_invalid.induct)
  case (1 bs)
  then show ?case by (subst trim_invalid.simps) auto
qed

text \<open>The whole content a tool result has for its excerpt.\<close>

definition result_contents :: "ToolResult \<Rightarrow> string" where
  "result_contents r = (case to_Failure r of None \<Rightarrow> to_Stdout r @ to_Stderr r | Some f \<Rightarrow> tf_Code f)"

lemma excerpt_length: "length (outputExcerpt r) \<le> 8192"
proof -
  have "length (trim_invalid (take MaxOutputExcerpt c)) \<le> MaxOutputExcerpt" for c
    using prefix_length_le [OF trim_invalid_prefix, of "take MaxOutputExcerpt c"] by simp
  then show ?thesis by (auto simp: outputExcerpt_def Let_def MaxOutputExcerpt_def not_less)
qed

lemma excerpt_prefix: "prefix (outputExcerpt r) (result_contents r)"
proof -
  have "prefix (trim_invalid (take n c)) c" for n c
    using trim_invalid_prefix take_is_prefix prefix_order.trans by blast
  then show ?thesis by (auto simp: outputExcerpt_def result_contents_def Let_def split: option.split)
qed

text \<open>What a history may hold, and the longest run of messages that still fits.\<close>

definition content_bytes :: "ConversationMessage list \<Rightarrow> int" where
  "content_bytes cs = sum_list (map (\<lambda>c. int (length (cm_Content c))) cs)"

lemma content_bytes_simps [simp]:
  "content_bytes [] = 0" "content_bytes (c # cs) = int (length (cm_Content c)) + content_bytes cs"
  "content_bytes (cs @ ds) = content_bytes cs + content_bytes ds" "content_bytes (rev cs) = content_bytes cs"
  by (simp_all add: content_bytes_def rev_map [symmetric])

definition within_limits :: "ConversationMessage list \<Rightarrow> bool" where
  "within_limits cs \<longleftrightarrow> length cs \<le> MaxConversationHistoryMessages \<and> content_bytes cs \<le> MaxConversationHistoryBytes"

definition longest_within :: "ConversationMessage list \<Rightarrow> ConversationMessage list \<Rightarrow> ConversationMessage list \<Rightarrow> bool" where
  "longest_within acc available ys \<longleftrightarrow> within_limits (acc @ ys) \<and>
     (ys = available \<or> (\<exists>m zs. available = ys @ m # zs \<and> \<not> within_limits (acc @ ys @ [m])))"

lemma history_scan_longest:
  assumes "content_bytes reversed = totalBytes" and "within_limits reversed"
  shows "\<exists>ys. history_scan ms reversed totalBytes = reversed @ ys \<and>
    longest_within reversed (map as_conversation (filter spoken ms)) ys"
  using assms
proof (induction ms arbitrary: reversed totalBytes)
  case (Cons m ms)
  let ?c = "as_conversation m"
  have full: "MaxConversationHistoryMessages \<le> length reversed \<or>
      MaxConversationHistoryBytes - int (length (am_content m)) < totalBytes \<longleftrightarrow> \<not> within_limits (reversed @ [?c])"
    using Cons.prems by (auto simp: within_limits_def as_conversation_def)
  show ?case
  proof (cases "spoken m \<and> within_limits (reversed @ [?c])")
    case True
    have "content_bytes (reversed @ [?c]) = totalBytes + int (length (am_content m))"
      using Cons.prems(1) by (simp add: as_conversation_def)
    from Cons.IH [OF this] True obtain ys where
      "history_scan ms (reversed @ [?c]) (totalBytes + int (length (am_content m))) = reversed @ ?c # ys"
      "longest_within (reversed @ [?c]) (map as_conversation (filter spoken ms)) ys" by auto
    then show ?thesis using True full by (intro exI [of _ "?c # ys"]) (auto simp: longest_within_def)
  next
    case False
    then show ?thesis
      using Cons full by (cases "spoken m") (auto simp: longest_within_def)
  qed
qed (simp add: longest_within_def)

lemma within_limits_suffix: "suffix cs ds \<Longrightarrow> within_limits ds \<Longrightarrow> within_limits cs"
proof -
  have nonneg: "0 \<le> content_bytes as" for as by (induction as) simp_all
  assume "suffix cs ds" "within_limits ds"
  then obtain as where "ds = as @ cs" by (auto simp: suffix_def)
  with nonneg [of as] \<open>within_limits ds\<close> show ?thesis by (simp add: within_limits_def)
qed

lemma suffix_dropWhile': "suffix (dropWhile p xs) xs"
  by (metis suffixI takeWhile_dropWhile_id)

subsection \<open>Properties\<close>

text \<open>
  C19: The history handed to a provider is bounded and faithful: it is a contiguous end of
  the user and assistant messages of the session, holds at most 64 messages and 256 KiB,
  starts with a user message, and nothing that could start it is left out unless one more
  message would break a bound.
\<close>

theorem history_is_longest_fit:
  "let spoken_messages = map as_conversation (filter spoken messages); h = conversationHistory messages in
     suffix h spoken_messages \<and> length h \<le> 64 \<and> content_bytes h \<le> 262144 \<and>
     (h = [] \<or> cm_Role (hd h) = ''user'') \<and>
     (\<exists>older kept. spoken_messages = older @ kept \<and> h = dropWhile (\<lambda>c. cm_Role c \<noteq> ''user'') kept \<and>
       (older = [] \<or> \<not> within_limits (last older # kept)))"
proof -
  let ?all = "map as_conversation (filter spoken messages)"
  have rev_all: "map as_conversation (filter spoken (rev messages)) = rev ?all" by (simp add: rev_map rev_filter)
  obtain ys where ys: "history_scan (rev messages) [] 0 = ys" "longest_within [] (rev ?all) ys"
    using history_scan_longest [of "[]" 0 "rev messages"] unfolding rev_all by (auto simp: within_limits_def MaxConversationHistoryBytes_def)
  have h: "conversationHistory messages = dropWhile (\<lambda>c. cm_Role c \<noteq> ''user'') (rev ys)"
    by (simp add: conversationHistory_def ys(1))
  obtain older where older: "?all = older @ rev ys" "older = [] \<or> \<not> within_limits (last older # rev ys)"
  proof (cases "ys = rev ?all")
    case True
    then have "?all = [] @ rev ys" by simp
    then show ?thesis by (rule that) simp
  next
    case False
    then obtain m zs where mz: "rev ?all = ys @ m # zs" "\<not> within_limits (ys @ [m])"
      using ys(2) by (auto simp: longest_within_def)
    then have "?all = (rev zs @ [m]) @ rev ys" by (metis append.assoc append_Cons append_Nil rev.simps(2) rev_append rev_rev_ident)
    moreover have "\<not> within_limits (last (rev zs @ [m]) # rev ys)" using mz(2) by (simp add: within_limits_def add.commute)
    ultimately show ?thesis using that by blast
  qed
  have fit: "within_limits (rev ys)" using ys(2) by (simp add: longest_within_def within_limits_def)
  have suf: "suffix (conversationHistory messages) (rev ys)" unfolding h by (rule suffix_dropWhile')
  have "length (conversationHistory messages) \<le> 64 \<and> content_bytes (conversationHistory messages) \<le> 262144"
    using within_limits_suffix [OF suf fit]
    by (simp add: within_limits_def MaxConversationHistoryMessages_def MaxConversationHistoryBytes_def)
  moreover have "suffix (conversationHistory messages) ?all"
    unfolding older(1) using suf by (auto simp: suffix_def)
  moreover have "conversationHistory messages = [] \<or> cm_Role (hd (conversationHistory messages)) = ''user''"
    unfolding h using hd_dropWhile [of "\<lambda>c. cm_Role c \<noteq> ''user''" "rev ys"] by blast
  ultimately show ?thesis
    using older h unfolding Let_def by blast
qed

theorem history_is_longest_fit_witness:
  "\<exists>m. length (conversationHistory [m]) \<le> 64 \<and> am_role m = ''user'' \<and> am_content m = ''hi''"
proof -
  let ?m = "\<lparr>am_id = ''msg_1'', am_session_id = ''ags_1'', am_role = ''user'', am_content = ''hi'', am_created_at = 1\<rparr>"
  have "length (conversationHistory [?m]) \<le> 64" using history_is_longest_fit [of "[?m]"] by (simp add: Let_def)
  then show ?thesis by (intro exI [of _ ?m]) simp
qed

text \<open>
  What a command printed is bounded before it is returned or stored: the two streams
  together keep at most the maximum, each is a prefix of what the command wrote, the flag
  tells exactly whether anything was cut; the stored excerpt has at most 8192 bytes, is a
  prefix of the contents, and a cut excerpt never ends inside a UTF-8 sequence.
\<close>

theorem output_is_bounded:
  "(case truncateOutput stdout stderr maxi of (so, se, was_cut) \<Rightarrow>
      length so + length se \<le> maxi \<and> prefix so stdout \<and> prefix se stderr \<and>
      was_cut = ((so, se) \<noteq> (stdout, stderr))) \<and>
   length (outputExcerpt r) \<le> 8192 \<and> prefix (outputExcerpt r) (result_contents r) \<and>
   (if length (result_contents r) \<le> 8192 then outputExcerpt r = result_contents r
    else ValidString (outputExcerpt r))"
proof -
  have "case truncateOutput stdout stderr maxi of (so, se, was_cut) \<Rightarrow>
      length so + length se \<le> maxi \<and> prefix so stdout \<and> prefix se stderr \<and> was_cut = ((so, se) \<noteq> (stdout, stderr))"
  proof (cases "length stdout + length stderr \<le> maxi")
    case True
    then show ?thesis by (simp add: truncateOutput_def)
  next
    case False
    have short: "take n xs \<noteq> xs" if "n < length xs" for n and xs :: string
    proof
      assume "take n xs = xs"
      then have "min (length xs) n = length xs" using length_take [of n xs] by simp
      with that show False by simp
    qed
    have "take (maxi - length stdout) stderr \<noteq> stderr" if "\<not> maxi < length stdout"
      by (rule short) (use that False in linarith)
    moreover have "take maxi stdout \<noteq> stdout" if "maxi < length stdout" by (rule short [OF that])
    ultimately show ?thesis
      using False by (auto simp: truncateOutput_def Let_def take_is_prefix)
  qed
  moreover have "if length (result_contents r) \<le> 8192 then outputExcerpt r = result_contents r
    else ValidString (outputExcerpt r)"
    by (auto simp: outputExcerpt_def result_contents_def Let_def MaxOutputExcerpt_def trim_invalid_valid split: option.split)
  ultimately show ?thesis using excerpt_length excerpt_prefix by blast
qed

end
