(* ===== verification/EventHub.thy ===== *)
theory EventHub
  imports AgentTypes "HOL-Library.AList"
begin

text \<open>
  \<^verbatim>\<open>internal/agent/hub.go\<close>: live event subscriptions per session.  Subscribers are objects
  on a heap because a client keeps its channel after the hub has dropped it; a channel is
  its buffer and whether it is closed.  \<open>s_got\<close> is what the client has received so far.
  Maps are association lists whose order stands for Go's iteration order.
\<close>

definition defaultSubscriberBuffer :: int where "defaultSubscriberBuffer = 32"

record subscriber =
  s_id :: ident
  s_cap :: nat
  s_events :: "Event list"
  s_chan_closed :: bool
  s_closed :: bool
  s_got :: "Event list"

record eventHub =
  h_heap :: "subscriber list"
  bySession :: "(ident \<times> (ident \<times> nat) list) list"
  bufferSize :: int
  h_closed :: bool

definition newEventHub :: "int \<Rightarrow> eventHub" where
  "newEventHub n = \<lparr>h_heap = [], bySession = [],
     bufferSize = (if n \<le> 0 then defaultSubscriberBuffer else n), h_closed = False\<rparr>"

definition values_of :: "ident \<Rightarrow> eventHub \<Rightarrow> (ident \<times> nat) list" where
  "values_of sessionID h = (case map_of (bySession h) sessionID of None \<Rightarrow> [] | Some vs \<Rightarrow> vs)"

definition subscribe :: "ident \<Rightarrow> ident \<Rightarrow> eventHub \<Rightarrow> (agent_err + nat) \<times> eventHub" where
  "subscribe subscriberID sessionID h =
     (if h_closed h then (Inl AgServiceClosed, h)
      else let r = length (h_heap h);
               v = \<lparr>s_id = subscriberID, s_cap = nat (bufferSize h), s_events = [], s_chan_closed = False,
                    s_closed = False, s_got = []\<rparr>
           in (Inr r, h\<lparr>h_heap := h_heap h @ [v],
                 bySession := AList.update sessionID
                   (AList.update subscriberID r (values_of sessionID h)) (bySession h)\<rparr>))"

definition close_sub :: "subscriber \<Rightarrow> subscriber" where
  "close_sub v = v\<lparr>s_chan_closed := True, s_closed := True\<rparr>"

definition has_room :: "subscriber \<Rightarrow> bool" where
  "has_room v \<longleftrightarrow> length (s_events v) < s_cap v"

text \<open>The \<^verbatim>\<open>select\<close> of \<^verbatim>\<open>publish\<close>: deliver, or drop a subscriber whose buffer is full.\<close>

definition offer :: "Event \<Rightarrow> subscriber \<Rightarrow> subscriber" where
  "offer e v = (if has_room v then v\<lparr>s_events := s_events v @ [e]\<rparr> else close_sub v)"

definition each_sub :: "(subscriber \<Rightarrow> subscriber) \<Rightarrow> (ident \<times> nat) list \<Rightarrow> subscriber list \<Rightarrow> subscriber list" where
  "each_sub f vs hp = fold (\<lambda>(_, r) hp. hp[r := f (hp ! r)]) vs hp"

definition set_values :: "ident \<Rightarrow> (ident \<times> nat) list \<Rightarrow> eventHub \<Rightarrow> eventHub" where
  "set_values sessionID vs h = h\<lparr>bySession := (if vs = [] then AList.delete sessionID (bySession h)
     else AList.update sessionID vs (bySession h))\<rparr>"

definition hub_publish :: "Event \<Rightarrow> eventHub \<Rightarrow> eventHub" where
  "hub_publish e h =
     (if h_closed h then h
      else let vs = values_of (ev_SessionID e) h;
               kept = filter (\<lambda>(_, r). has_room (h_heap h ! r)) vs
           in set_values (ev_SessionID e) kept (h\<lparr>h_heap := each_sub (offer e) vs (h_heap h)\<rparr>))"

definition close_unless :: "subscriber \<Rightarrow> subscriber" where
  "close_unless v = (if s_closed v then v else close_sub v)"

definition remove :: "ident \<Rightarrow> ident \<Rightarrow> eventHub \<Rightarrow> eventHub" where
  "remove sessionID subscriberID h =
     (case map_of (values_of sessionID h) subscriberID of
        None \<Rightarrow> h
      | Some r \<Rightarrow> set_values sessionID (AList.delete subscriberID (values_of sessionID h))
                   (h\<lparr>h_heap := (h_heap h)[r := close_unless (h_heap h ! r)]\<rparr>))"

definition countAll :: "eventHub \<Rightarrow> nat" where
  "countAll h = sum_list (map (\<lambda>(_, vs). length vs) (bySession h))"

definition closeSession :: "ident \<Rightarrow> eventHub \<Rightarrow> eventHub" where
  "closeSession sessionID h = h\<lparr>h_heap := each_sub close_unless (values_of sessionID h) (h_heap h),
     bySession := AList.delete sessionID (bySession h)\<rparr>"

definition hub_close :: "eventHub \<Rightarrow> eventHub" where
  "hub_close h = (if h_closed h then h
     else h\<lparr>h_closed := True,
            h_heap := fold (\<lambda>(_, vs) hp. each_sub close_unless vs hp) (bySession h) (h_heap h),
            bySession := []\<rparr>)"

text \<open>A client receives the oldest buffered event of its channel, also after the close.\<close>

definition receive :: "nat \<Rightarrow> eventHub \<Rightarrow> eventHub" where
  "receive r h = (case s_events (h_heap h ! r) of
     [] \<Rightarrow> h
   | e # es \<Rightarrow> h\<lparr>h_heap := (h_heap h)[r := (h_heap h ! r)\<lparr>s_events := es, s_got := s_got (h_heap h ! r) @ [e]\<rparr>]\<rparr>)"

text \<open>
  A run of the hub together with what each subscription is due: its session and the events
  published for that session since it subscribed.
\<close>

inductive hub_run :: "eventHub \<Rightarrow> (ident \<times> Event list) list \<Rightarrow> bool" where
  start: "hub_run (newEventHub n) []"
| subscribed: "\<lbrakk>hub_run h due; subscribe i sid h = (Inr r, h'); \<forall>vs \<in> snd ` set (bySession h). i \<notin> fst ` set vs\<rbrakk>
    \<Longrightarrow> hub_run h' (due @ [(sid, [])])"
| published: "hub_run h due \<Longrightarrow>
    hub_run (hub_publish e h) (map (\<lambda>(sid, es). (sid, if sid = ev_SessionID e then es @ [e] else es)) due)"
| removed: "hub_run h due \<Longrightarrow> hub_run (remove sid i h) due"
| session_closed: "hub_run h due \<Longrightarrow> hub_run (closeSession sid h) due"
| closed: "hub_run h due \<Longrightarrow> hub_run (hub_close h) due"
| received: "\<lbrakk>hub_run h due; r < length (h_heap h)\<rbrakk> \<Longrightarrow> hub_run (receive r h) due"

subsection \<open>The invariant\<close>

text \<open>\<open>registered h sid i r\<close>: the maps lead from session and subscriber to the object.\<close>

definition registered :: "eventHub \<Rightarrow> ident \<Rightarrow> ident \<Rightarrow> nat \<Rightarrow> bool" where
  "registered h sid i r \<longleftrightarrow> (\<exists>vs. (sid, vs) \<in> set (bySession h) \<and> (i, r) \<in> set vs)"

definition maps_ok :: "eventHub \<Rightarrow> bool" where
  "maps_ok h \<longleftrightarrow> distinct (map fst (bySession h)) \<and>
     (\<forall>(sid, vs) \<in> set (bySession h). distinct (map fst vs) \<and> distinct (map snd vs) \<and> vs \<noteq> [])"

definition sub_ok :: "subscriber \<Rightarrow> Event list \<Rightarrow> bool \<Rightarrow> bool" where
  "sub_ok v es live \<longleftrightarrow> length (s_events v) \<le> s_cap v \<and> prefix (s_got v @ s_events v) es \<and>
     (live \<longrightarrow> \<not> s_chan_closed v \<and> \<not> s_closed v \<and> s_got v @ s_events v = es)"

definition hub_inv :: "eventHub \<Rightarrow> (ident \<times> Event list) list \<Rightarrow> bool" where
  "hub_inv h due \<longleftrightarrow> maps_ok h \<and> length due = length (h_heap h) \<and> (h_closed h \<longrightarrow> bySession h = []) \<and>
     (\<forall>sid i r. registered h sid i r \<longrightarrow> r < length (h_heap h) \<and> fst (due ! r) = sid) \<and>
     (\<forall>r < length (h_heap h). sub_ok (h_heap h ! r) (snd (due ! r)) (\<exists>sid i. registered h sid i r))"

lemma maps_okD:
  assumes "maps_ok h"
  shows "distinct (map fst (bySession h))"
    "(sid, vs) \<in> set (bySession h) \<Longrightarrow> distinct (map fst vs) \<and> distinct (map snd vs) \<and> vs \<noteq> []"
  using assms by (auto simp: maps_ok_def)

lemma values_registered: "maps_ok h \<Longrightarrow> (i, r) \<in> set (values_of sid h) \<longleftrightarrow> registered h sid i r"
  by (auto simp: values_of_def registered_def maps_ok_def split: option.split
      dest: map_of_SomeD weak_map_of_SomeI)

lemma values_distinct: "maps_ok h \<Longrightarrow> distinct (map fst (values_of sid h)) \<and> distinct (map snd (values_of sid h))"
  by (auto simp: values_of_def dest!: map_of_SomeD dest: maps_okD(2) split: option.split)

lemma update_set_keys: "distinct (map fst al) \<Longrightarrow> set (AList.update k v al) = insert (k, v) {e \<in> set al. fst e \<noteq> k}"
proof (induction al)
  case (Cons x xs)
  then show ?case by (cases x) force
qed simp

lemma update_append: "k \<notin> fst ` set al \<Longrightarrow> AList.update k v al = al @ [(k, v)]"
  by (induction al) auto

lemma delete_set_keys: "set (AList.delete k al) = {e \<in> set al. fst e \<noteq> k}"
  by (auto simp: AList.delete_eq)

lemma registered_set_values:
  "maps_ok h \<Longrightarrow> registered (set_values sid vs h) s i r \<longleftrightarrow> (if s = sid then (i, r) \<in> set vs else registered h s i r)"
  using update_set_keys [OF maps_okD(1), of h sid vs]
  by (auto simp: registered_def set_values_def delete_set_keys)

lemma maps_set_values:
  assumes "maps_ok h" and "distinct (map fst vs)" and "distinct (map snd vs)"
  shows "maps_ok (set_values sid vs h)"
  using assms update_set_keys [OF maps_okD(1), of h sid vs]
  by (auto simp: maps_ok_def set_values_def delete_set_keys distinct_update AList.distinct_delete)

lemma set_values_fields [simp]:
  "h_heap (set_values sid vs h) = h_heap h" "h_closed (set_values sid vs h) = h_closed h"
  "bufferSize (set_values sid vs h) = bufferSize h"
  by (simp_all add: set_values_def)

lemma heap_upd_maps [simp]: "maps_ok (h\<lparr>h_heap := hp\<rparr>) = maps_ok h"
  "registered (h\<lparr>h_heap := hp\<rparr>) s i r = registered h s i r"
  by (simp_all add: maps_ok_def registered_def)

lemma each_sub_length [simp]: "length (each_sub f vs hp) = length hp"
  unfolding each_sub_def by (induction vs arbitrary: hp) auto

lemma each_sub_nth:
  "distinct (map snd vs) \<Longrightarrow> r < length hp \<Longrightarrow>
    each_sub f vs hp ! r = (if r \<in> snd ` set vs then f (hp ! r) else hp ! r)"
proof (induction vs arbitrary: hp)
  case (Cons v vs)
  obtain i q where v: "v = (i, q)" by fastforce
  have "each_sub f (v # vs) hp ! r = each_sub f vs (hp[q := f (hp ! q)]) ! r" by (simp add: v each_sub_def)
  also have "\<dots> = (if r \<in> snd ` set vs then f (hp[q := f (hp ! q)] ! r) else hp[q := f (hp ! q)] ! r)"
    using Cons by simp
  finally show ?case using Cons.prems v by (auto simp: nth_list_update image_iff)
qed (simp add: each_sub_def)

lemma hub_invD:
  assumes "hub_inv h due"
  shows "maps_ok h" "length due = length (h_heap h)" "h_closed h \<Longrightarrow> bySession h = []"
    "registered h sid i r \<Longrightarrow> r < length (h_heap h) \<and> fst (due ! r) = sid"
    "r < length (h_heap h) \<Longrightarrow> sub_ok (h_heap h ! r) (snd (due ! r)) (\<exists>sid i. registered h sid i r)"
  using assms unfolding hub_inv_def by blast+

lemma hub_invI:
  assumes "maps_ok h" "length due = length (h_heap h)" "h_closed h \<Longrightarrow> bySession h = []"
    "\<And>sid i r. registered h sid i r \<Longrightarrow> r < length (h_heap h) \<and> fst (due ! r) = sid"
    "\<And>r. r < length (h_heap h) \<Longrightarrow> sub_ok (h_heap h ! r) (snd (due ! r)) (\<exists>sid i. registered h sid i r)"
  shows "hub_inv h due"
  using assms unfolding hub_inv_def by blast

text \<open>Whether an object is live, seen from the values of one session.\<close>

lemma live_in_session:
  assumes "hub_inv h due" and "fst (due ! r) = sid"
  shows "(\<exists>s i. registered h s i r) \<longleftrightarrow> r \<in> snd ` set (values_of sid h)"
proof
  assume "\<exists>s i. registered h s i r"
  then obtain s i where reg: "registered h s i r" by blast
  have "s = sid" using hub_invD(4) [OF assms(1) reg] assms(2) by simp
  with reg have "(i, r) \<in> set (values_of sid h)" using values_registered [OF hub_invD(1) [OF assms(1)]] by simp
  then show "r \<in> snd ` set (values_of sid h)" by force
next
  assume "r \<in> snd ` set (values_of sid h)"
  then obtain i where "(i, r) \<in> set (values_of sid h)" by auto
  then show "\<exists>s i. registered h s i r" using values_registered [OF hub_invD(1) [OF assms(1)]] by blast
qed

text \<open>Subscribers leave the maps and their channels are closed; the others stay as they are.\<close>

lemma sub_ok_close: "sub_ok v es live \<Longrightarrow> sub_ok (close_unless v) es False" "sub_ok v es live \<Longrightarrow> sub_ok (close_sub v) es False"
  by (auto simp: sub_ok_def close_unless_def close_sub_def)

lemma leave_inv:
  assumes inv: "hub_inv h due" and m: "maps_ok h'" "length (h_heap h') = length (h_heap h)"
    "h_closed h' \<Longrightarrow> bySession h' = []"
    and sub: "\<And>s i r. registered h' s i r \<Longrightarrow> registered h s i r \<and> h_heap h' ! r = h_heap h ! r"
    and gone: "\<And>r. r < length (h_heap h) \<Longrightarrow> h_heap h' ! r \<noteq> h_heap h ! r \<Longrightarrow> h_heap h' ! r = close_unless (h_heap h ! r)"
  shows "hub_inv h' due"
proof (rule hub_invI)
  show "length due = length (h_heap h')" using hub_invD(2) [OF inv] m(2) by simp
  show "\<And>sid i r. registered h' sid i r \<Longrightarrow> r < length (h_heap h') \<and> fst (due ! r) = sid"
    using sub hub_invD(4) [OF inv] m(2) by metis
  fix r assume r: "r < length (h_heap h')"
  then have ok: "sub_ok (h_heap h ! r) (snd (due ! r)) (\<exists>s i. registered h s i r)"
    using hub_invD(5) [OF inv, of r] m(2) by simp
  show "sub_ok (h_heap h' ! r) (snd (due ! r)) (\<exists>s i. registered h' s i r)"
  proof (cases "\<exists>s i. registered h' s i r")
    case True
    then have "h_heap h' ! r = h_heap h ! r" "\<exists>s i. registered h s i r" using sub by blast+
    then show ?thesis using ok True by simp
  next
    case False
    then show ?thesis
      using ok sub_ok_close(1) [OF ok] gone [of r] r m(2) by (cases "h_heap h' ! r = h_heap h ! r") (auto simp: sub_ok_def)
  qed
qed (fact m(1), fact m(3))

lemma other_session:
  assumes "hub_inv h due" and "fst (due ! r) \<noteq> sid"
  shows "r \<notin> snd ` set (values_of sid h)"
  using assms values_registered [OF hub_invD(1) [OF assms(1)]] hub_invD(4) [OF assms(1)] by fastforce

lemma remove_inv:
  assumes inv: "hub_inv h due"
  shows "hub_inv (remove sid i h) due"
proof (cases "map_of (values_of sid h) i")
  case None
  then show ?thesis using inv by (simp add: remove_def)
next
  case (Some r)
  let ?h = "set_values sid (AList.delete i (values_of sid h)) (h\<lparr>h_heap := (h_heap h)[r := close_unless (h_heap h ! r)]\<rparr>)"
  note m = hub_invD(1) [OF inv]
  have reg: "registered h sid i r" using Some values_registered [OF m] by (auto dest: map_of_SomeD)
  have vd: "distinct (map fst (values_of sid h))" "distinct (map snd (values_of sid h))"
    using values_distinct [OF m] by auto
  have h': "registered ?h s j q \<longleftrightarrow> registered h s j q \<and> (s = sid \<longrightarrow> j \<noteq> i)" for s j q
    using registered_set_values [of "h\<lparr>h_heap := (h_heap h)[r := close_unless (h_heap h ! r)]\<rparr>"] m
    by (auto simp: delete_set_keys values_registered [OF m])
  have "hub_inv ?h due"
  proof (rule leave_inv [OF inv])
    show "maps_ok ?h"
      using vd m by (intro maps_set_values) (auto simp: AList.delete_eq distinct_map_filter)
    show "bySession ?h = []" if "h_closed ?h"
      using that hub_invD(3) [OF inv] reg by (auto simp: registered_def)
    fix s j q assume "registered ?h s j q"
    then have q: "registered h s j q" "s = sid \<longrightarrow> j \<noteq> i" using h' by blast+
    have "q \<noteq> r"
    proof
      assume "q = r"
      then have "s = sid" using hub_invD(4) [OF inv q(1)] hub_invD(4) [OF inv reg] by simp
      then have "(j, r) \<in> set (values_of sid h)" "(i, r) \<in> set (values_of sid h)"
        using q(1) reg \<open>q = r\<close> values_registered [OF m] by auto
      then have "j = i" using vd(2) by (metis key_inj prod.inject snd_conv)
      with q(2) \<open>s = sid\<close> show False by simp
    qed
    then show "registered h s j q \<and> h_heap ?h ! q = h_heap h ! q" using q(1) by simp
  next
    fix q assume "q < length (h_heap h)" "h_heap ?h ! q \<noteq> h_heap h ! q"
    then show "h_heap ?h ! q = close_unless (h_heap h ! q)" by (cases "q = r") auto
  qed simp
  then show ?thesis using Some by (simp add: remove_def)
qed

lemma closeSession_inv:
  assumes inv: "hub_inv h due"
  shows "hub_inv (closeSession sid h) due"
proof (rule leave_inv [OF inv])
  note m = hub_invD(1) [OF inv]
  have vd: "distinct (map snd (values_of sid h))" using values_distinct [OF m] by simp
  have h': "registered (closeSession sid h) s j q \<longleftrightarrow> registered h s j q \<and> s \<noteq> sid" for s j q
    by (auto simp: registered_def closeSession_def delete_set_keys)
  show "maps_ok (closeSession sid h)"
    using m by (auto simp: maps_ok_def closeSession_def delete_set_keys AList.distinct_delete)
  show "bySession (closeSession sid h) = []" if "h_closed (closeSession sid h)"
    using that hub_invD(3) [OF inv] by (simp add: closeSession_def)
  show "registered h s j q \<and> h_heap (closeSession sid h) ! q = h_heap h ! q"
    if "registered (closeSession sid h) s j q" for s j q
  proof -
    have q: "registered h s j q" "s \<noteq> sid" using that h' by auto
    then have "q < length (h_heap h)" "fst (due ! q) \<noteq> sid" using hub_invD(4) [OF inv] by auto
    with q other_session [OF inv] show ?thesis by (simp add: closeSession_def each_sub_nth [OF vd])
  qed
  show "h_heap (closeSession sid h) ! r = close_unless (h_heap h ! r)"
    if "r < length (h_heap h)" "h_heap (closeSession sid h) ! r \<noteq> h_heap h ! r" for r
    using that by (auto simp: closeSession_def each_sub_nth [OF vd] split: if_splits)
qed (simp add: closeSession_def)

lemma close_unless_twice [simp]: "close_unless (close_unless v) = close_unless v"
  by (simp add: close_unless_def close_sub_def)

lemma close_all_heap:
  assumes "\<forall>b \<in> set bs. distinct (map snd (snd b))"
  shows "length (fold (\<lambda>(_, vs) hp. each_sub close_unless vs hp) bs hp) = length hp \<and>
    (\<forall>r < length hp. fold (\<lambda>(_, vs) hp. each_sub close_unless vs hp) bs hp ! r \<in> {hp ! r, close_unless (hp ! r)})"
  using assms
proof (induction bs arbitrary: hp)
  case (Cons b bs)
  obtain sid vs where b: "b = (sid, vs)" by fastforce
  let ?hp = "each_sub close_unless vs hp"
  have one: "?hp ! r \<in> {hp ! r, close_unless (hp ! r)}" if "r < length hp" for r
    using that Cons.prems b each_sub_nth [of vs r hp close_unless] by auto
  have "length (fold (\<lambda>(_, vs) hp. each_sub close_unless vs hp) bs ?hp) = length ?hp \<and>
    (\<forall>r < length ?hp. fold (\<lambda>(_, vs) hp. each_sub close_unless vs hp) bs ?hp ! r \<in> {?hp ! r, close_unless (?hp ! r)})"
    by (rule Cons.IH) (use Cons.prems in simp)
  then show ?case using one by (fastforce simp: b)
qed simp

lemma hub_close_inv:
  assumes inv: "hub_inv h due"
  shows "hub_inv (hub_close h) due"
proof (cases "h_closed h")
  case True
  then show ?thesis using inv by (simp add: hub_close_def)
next
  case False
  have d: "\<forall>b \<in> set (bySession h). distinct (map snd (snd b))"
    using maps_okD(2) [OF hub_invD(1) [OF inv]] by force
  show ?thesis
    by (rule leave_inv [OF inv])
       (use False close_all_heap [OF d, of "h_heap h"] in \<open>auto simp: hub_close_def maps_ok_def registered_def\<close>)
qed

lemma subscribe_inv:
  assumes inv: "hub_inv h due" and sub: "subscribe i sid h = (Inr r, h')"
    and fresh: "\<forall>vs \<in> snd ` set (bySession h). i \<notin> fst ` set vs"
  shows "hub_inv h' (due @ [(sid, [])])"
proof -
  note m = hub_invD(1) [OF inv]
  let ?vs = "values_of sid h"
  have no: "i \<notin> fst ` set ?vs"
  proof (cases "map_of (bySession h) sid")
    case (Some vs)
    then have "vs \<in> snd ` set (bySession h)" by (force dest: map_of_SomeD)
    with fresh have "i \<notin> fst ` set vs" by blast
    with Some show ?thesis by (simp add: values_of_def)
  qed (simp add: values_of_def)
  then have upd: "AList.update i (length (h_heap h)) ?vs = ?vs @ [(i, length (h_heap h))]"
    by (rule update_append)
  have lt: "q < length (h_heap h)" if "(j, q) \<in> set ?vs" for j q
    using that values_registered [OF m] hub_invD(4) [OF inv] by blast
  define v where "v = \<lparr>s_id = i, s_cap = nat (bufferSize h), s_events = [], s_chan_closed = False, s_closed = False, s_got = []\<rparr>"
  have h': "h' = set_values sid (?vs @ [(i, length (h_heap h))]) (h\<lparr>h_heap := h_heap h @ [v]\<rparr>)" "\<not> h_closed h"
    using sub by (auto simp: subscribe_def Let_def upd set_values_def v_def split: if_splits)
  have reg: "registered h' s j q \<longleftrightarrow> registered h s j q \<or> (s = sid \<and> j = i \<and> q = length (h_heap h))" for s j q
    using registered_set_values [of "h\<lparr>h_heap := h_heap h @ [v]\<rparr>"] m
    by (auto simp: h' values_registered [OF m])
  have len': "length (h_heap h') = Suc (length (h_heap h))" by (simp add: h'(1))
  show ?thesis
  proof (rule hub_invI)
    have "distinct (map snd ?vs)" "distinct (map fst ?vs)" using values_distinct [OF m] by auto
    moreover have "length (h_heap h) \<notin> snd ` set ?vs" using lt by force
    ultimately show "maps_ok h'" unfolding h' using m no by (intro maps_set_values) auto
    show "length (due @ [(sid, [])]) = length (h_heap h')" using hub_invD(2) [OF inv] by (simp add: h')
    show "h_closed h' \<Longrightarrow> bySession h' = []" using h'(2) by (simp add: h'(1))
    show "registered h' s j q \<Longrightarrow> q < length (h_heap h') \<and> fst ((due @ [(sid, [])]) ! q) = s" for s j q
      using hub_invD(2) [OF inv] hub_invD(4) [OF inv, of s j q] len' unfolding reg by (auto simp: nth_append)
    fix q assume q: "q < length (h_heap h')"
    show "sub_ok (h_heap h' ! q) (snd ((due @ [(sid, [])]) ! q)) (\<exists>s j. registered h' s j q)"
    proof (cases "q < length (h_heap h)")
      case True
      then have "h_heap h' ! q = h_heap h ! q" by (simp add: h'(1) nth_append)
      with True show ?thesis
        using hub_invD(5) [OF inv True] hub_invD(2) [OF inv] unfolding reg by (simp add: nth_append)
    next
      case False
      then have "q = length (h_heap h)" using q by (simp add: h'(1))
      moreover from this have "h_heap h' ! q = v" by (simp add: h'(1))
      ultimately show ?thesis using hub_invD(2) [OF inv] by (simp add: nth_append sub_ok_def v_def)
    qed
  qed
qed

lemma offer_ok:
  assumes "sub_ok v es True"
  shows "sub_ok (offer e v) (es @ [e]) (has_room v)"
  using assms by (auto simp: sub_ok_def offer_def has_room_def close_sub_def)

lemma publish_inv:
  assumes inv: "hub_inv h due"
  shows "hub_inv (hub_publish e h) (map (\<lambda>(sid, es). (sid, if sid = ev_SessionID e then es @ [e] else es)) due)"
    (is "hub_inv ?h ?due")
proof (cases "h_closed h")
  case True
  have len: "length due = length (h_heap h)" by (rule hub_invD(2) [OF inv])
  have no: "\<not> registered h s i r" for s i r using hub_invD(3) [OF inv True] by (simp add: registered_def)
  show ?thesis
  proof (rule hub_invI)
    fix r assume "r < length (h_heap ?h)"
    then have r: "r < length (h_heap h)" by (simp add: hub_publish_def True)
    have "sub_ok (h_heap h ! r) (snd (due ! r)) False" using hub_invD(5) [OF inv r] no by simp
    then show "sub_ok (h_heap ?h ! r) (snd (?due ! r)) (\<exists>s i. registered ?h s i r)"
      using r len no by (auto simp: hub_publish_def True sub_ok_def split: prod.split)
  qed (use True hub_invD(1,3) [OF inv] no len in \<open>auto simp: hub_publish_def\<close>)
next
  case False
  note m = hub_invD(1) [OF inv]
  let ?sid = "ev_SessionID e"
  let ?vs = "values_of ?sid h"
  let ?kept = "filter (\<lambda>(_, r). has_room (h_heap h ! r)) ?vs"
  have h': "?h = set_values ?sid ?kept (h\<lparr>h_heap := each_sub (offer e) ?vs (h_heap h)\<rparr>)"
    by (simp add: hub_publish_def False Let_def)
  have vd: "distinct (map fst ?vs)" "distinct (map snd ?vs)" using values_distinct [OF m] by auto
  have reg: "registered ?h s i r \<longleftrightarrow> registered h s i r \<and> (s = ?sid \<longrightarrow> has_room (h_heap h ! r))" for s i r
    unfolding h' using registered_set_values [of "h\<lparr>h_heap := each_sub (offer e) ?vs (h_heap h)\<rparr>"] m
    by (auto simp: values_registered [OF m])
  have len: "length due = length (h_heap h)" by (rule hub_invD(2) [OF inv])
  show ?thesis
  proof (rule hub_invI)
    show "maps_ok ?h" unfolding h' using m vd by (intro maps_set_values) (auto simp: distinct_map_filter)
    show "length ?due = length (h_heap ?h)" by (simp add: h' len)
    show "h_closed ?h \<Longrightarrow> bySession ?h = []" by (simp add: h' False)
    show "registered ?h s i r \<Longrightarrow> r < length (h_heap ?h) \<and> fst (?due ! r) = s" for s i r
      using hub_invD(4) [OF inv, of s i r] len unfolding reg by (auto simp: h' split: prod.split)
    fix r assume "r < length (h_heap ?h)"
    then have r: "r < length (h_heap h)" by (simp add: h')
    have ok: "sub_ok (h_heap h ! r) (snd (due ! r)) (\<exists>s i. registered h s i r)" by (rule hub_invD(5) [OF inv r])
    have heap: "h_heap ?h ! r = (if r \<in> snd ` set ?vs then offer e (h_heap h ! r) else h_heap h ! r)"
      by (simp add: h' each_sub_nth [OF vd(2) r])
    show "sub_ok (h_heap ?h ! r) (snd (?due ! r)) (\<exists>s i. registered ?h s i r)"
    proof (cases "fst (due ! r) = ?sid")
      case same: True
      have due: "snd (?due ! r) = snd (due ! r) @ [e]" using r len same by (cases "due ! r") simp
      have live: "(\<exists>s i. registered h s i r) \<longleftrightarrow> r \<in> snd ` set ?vs" by (rule live_in_session [OF inv same])
      have live': "(\<exists>s i. registered ?h s i r) \<longleftrightarrow> r \<in> snd ` set ?vs \<and> has_room (h_heap h ! r)"
        unfolding reg live [symmetric] using hub_invD(4) [OF inv] same by blast
      show ?thesis
        using ok offer_ok [of "h_heap h ! r" "snd (due ! r)" e] unfolding heap due live'
        by (cases "r \<in> snd ` set ?vs") (auto simp: live sub_ok_def)
    next
      case other: False
      then have "r \<notin> snd ` set ?vs" by (rule other_session [OF inv])
      moreover have "snd (?due ! r) = snd (due ! r)" using r len other by (cases "due ! r") simp
      moreover have "(\<exists>s i. registered ?h s i r) = (\<exists>s i. registered h s i r)"
        unfolding reg using hub_invD(4) [OF inv] other by blast
      ultimately show ?thesis using ok unfolding heap by simp
    qed
  qed
qed

lemma receive_inv:
  assumes inv: "hub_inv h due" and r: "r < length (h_heap h)"
  shows "hub_inv (receive r h) due"
proof (cases "s_events (h_heap h ! r)")
  case Nil
  then show ?thesis using inv by (simp add: receive_def)
next
  case (Cons e es)
  let ?v = "(h_heap h ! r)\<lparr>s_events := es, s_got := s_got (h_heap h ! r) @ [e]\<rparr>"
  have h': "receive r h = h\<lparr>h_heap := (h_heap h)[r := ?v]\<rparr>" by (simp add: receive_def Cons)
  have v: "sub_ok ?v x live" if "sub_ok (h_heap h ! r) x live" for x live
    using that Cons by (auto simp: sub_ok_def)
  show ?thesis
    unfolding h'
  proof (rule hub_invI)
    fix q assume "q < length (h_heap (h\<lparr>h_heap := (h_heap h)[r := ?v]\<rparr>))"
    then have "sub_ok (h_heap h ! q) (snd (due ! q)) (\<exists>s i. registered h s i q)" using hub_invD(5) [OF inv] by simp
    then show "sub_ok (h_heap (h\<lparr>h_heap := (h_heap h)[r := ?v]\<rparr>) ! q) (snd (due ! q))
        (\<exists>s i. registered (h\<lparr>h_heap := (h_heap h)[r := ?v]\<rparr>) s i q)"
      using v r by (cases "q = r") auto
  qed (use hub_invD(1-4) [OF inv] in auto)
qed

lemma run_hub_inv: "hub_run h due \<Longrightarrow> hub_inv h due"
proof (induction rule: hub_run.induct)
  case (start n)
  then show ?case by (simp add: hub_inv_def maps_ok_def registered_def newEventHub_def)
qed (auto intro: subscribe_inv publish_inv remove_inv closeSession_inv hub_close_inv receive_inv)

subsection \<open>Properties\<close>

text \<open>
  C20: Live event delivery has no gaps.  In every run of the hub a subscription still
  registered has received or buffers exactly the events published for its session since it
  subscribed, in order; one that was dropped, removed or closed has a prefix of them and
  gets nothing more.  No registered channel is ever closed, so publishing never sends on a
  closed channel, and no buffer exceeds its capacity.
\<close>

theorem events_without_gaps:
  assumes "hub_run h due" and "r < length (h_heap h)"
  shows "prefix (s_got (h_heap h ! r) @ s_events (h_heap h ! r)) (snd (due ! r)) \<and>
    length (s_events (h_heap h ! r)) \<le> s_cap (h_heap h ! r) \<and>
    (\<forall>sid i. registered h sid i r \<longrightarrow> fst (due ! r) = sid \<and> \<not> s_chan_closed (h_heap h ! r) \<and>
       s_got (h_heap h ! r) @ s_events (h_heap h ! r) = snd (due ! r))"
proof -
  note inv = run_hub_inv [OF assms(1)]
  from hub_invD(5) [OF inv assms(2)] hub_invD(4) [OF inv] show ?thesis
    unfolding sub_ok_def by blast
qed

definition ex_event :: "ident \<Rightarrow> Event" where
  "ex_event i = \<lparr>ev_ID = i, ev_SessionID = ''ags_1'', ev_CreatedAt = 1, ev_Type = EventTextDelta, ev_Payload = ''{}''\<rparr>"

definition ex_hub :: eventHub where
  "ex_hub = snd (subscribe ''sub_1'' ''ags_1'' (newEventHub 1))"

lemma ex_hub_run: "hub_run ex_hub [(''ags_1'', [])]"
proof -
  have "subscribe ''sub_1'' ''ags_1'' (newEventHub 1) = (Inr 0, ex_hub)"
    by (simp add: ex_hub_def subscribe_def newEventHub_def Let_def)
  from subscribed [OF start this] show ?thesis by (simp add: newEventHub_def)
qed

text \<open>A slow client with a buffer of one: the second event drops it, the first is still there.\<close>

theorem events_without_gaps_witness:
  "let h = hub_publish (ex_event ''evt_2'') (hub_publish (ex_event ''evt_1'') ex_hub) in
     s_events (h_heap h ! 0) = [ex_event ''evt_1''] \<and> s_chan_closed (h_heap h ! 0) \<and>
     prefix (s_got (h_heap h ! 0) @ s_events (h_heap h ! 0)) [ex_event ''evt_1'', ex_event ''evt_2'']"
proof -
  let ?h1 = "hub_publish (ex_event ''evt_1'') ex_hub"
  let ?h = "hub_publish (ex_event ''evt_2'') ?h1"
  have run: "hub_run ?h [(''ags_1'', [ex_event ''evt_1'', ex_event ''evt_2''])]"
    using published [OF published [OF ex_hub_run, of "ex_event ''evt_1''"], of "ex_event ''evt_2''"]
    by (simp add: ex_event_def)
  have h: "h_heap ?h = [\<lparr>s_id = ''sub_1'', s_cap = 1, s_events = [ex_event ''evt_1''], s_chan_closed = True, s_closed = True, s_got = []\<rparr>]"
    by (simp add: hub_publish_def ex_hub_def subscribe_def newEventHub_def Let_def values_of_def set_values_def
        each_sub_def offer_def has_room_def close_sub_def ex_event_def)
  have "prefix (s_got (h_heap ?h ! 0) @ s_events (h_heap ?h ! 0)) [ex_event ''evt_1'', ex_event ''evt_2'']"
    using events_without_gaps [OF run, of 0] h by simp
  then show ?thesis by (simp add: Let_def h)
qed

end
