(* ===== verification/TunnelManager.thy ===== *)
theory TunnelManager
  imports Prelude
begin

text \<open>
  \<^verbatim>\<open>internal/tunnel/manager.go\<close>: the registry of authenticated device connections.
  Connections are objects on a heap (\<open>conns\<close>), a pointer is an index into it.  One rule of
  \<open>tunnel_step\<close> is one critical section of a method or one step of a goroutine the code
  starts: the cleanup of a closed connection, the goroutine of \<^verbatim>\<open>ownLocked\<close> that waits
  for it, the loop of \<^verbatim>\<open>CloseAll\<close> and the callers of \<^verbatim>\<open>OpenSSH\<close>.  The logical close
  (setting \<^verbatim>\<open>closed\<close> and closing \<^verbatim>\<open>done\<close>) is one step.  yamux sessions and SSH signers
  are opaque handles.
\<close>

type_synonym conn_ref = nat
type_synonym handle = string

record Connection =
  c_ID :: ident
  c_DeviceID :: ident
  c_session :: "handle option"
  c_sshSigner :: "handle option"
  c_sshSetups :: "nat option"     \<comment> \<open>items in the channel of capacity 16; None is nil\<close>
  c_lastSeen :: time
  c_closed :: bool                \<comment> \<open>also whether \<^verbatim>\<open>closeOnce\<close> has run\<close>
  c_done :: "bool option"         \<comment> \<open>None is a nil channel, Some b tells whether it is closed\<close>
  c_cleanupDone :: "bool option"
  c_cleanupErr :: "string option"

definition newConnection :: "ident \<Rightarrow> ident \<Rightarrow> handle option \<Rightarrow> handle option \<Rightarrow> time \<Rightarrow> Connection" where
  "newConnection cid deviceID session signer now =
     \<lparr>c_ID = cid, c_DeviceID = deviceID, c_session = session, c_sshSigner = signer,
      c_sshSetups = Some 0, c_lastSeen = now, c_closed = False, c_done = Some False,
      c_cleanupDone = Some False, c_cleanupErr = None\<rparr>"

definition initLifecycle :: "Connection \<Rightarrow> Connection" where
  "initLifecycle c = c\<lparr>c_done := (case c_done c of None \<Rightarrow> Some False | d \<Rightarrow> d),
     c_cleanupDone := (case c_cleanupDone c of None \<Rightarrow> Some False | d \<Rightarrow> d)\<rparr>"

definition beginClose :: "Connection \<Rightarrow> Connection" where
  "beginClose c0 = (let c = initLifecycle c0 in
     if c_closed c then c else c\<lparr>c_closed := True, c_done := Some True\<rparr>)"

text \<open>The goroutine \<^verbatim>\<open>beginClose\<close> starts: the result of the session's close is kept.\<close>

definition cleanup :: "string option \<Rightarrow> Connection \<Rightarrow> Connection" where
  "cleanup result c =
     c\<lparr>c_cleanupErr := (case c_session c of None \<Rightarrow> None | Some _ \<Rightarrow> result), c_cleanupDone := Some True\<rparr>"

definition touch :: "time \<Rightarrow> Connection \<Rightarrow> Connection" where
  "touch at c = (if c_closed c then c else c\<lparr>c_lastSeen := at\<rparr>)"

definition online :: "Connection \<Rightarrow> bool" where
  "online c \<longleftrightarrow> \<not> c_closed c"

definition sshCredentials :: "Connection \<Rightarrow> (handle \<times> handle) option" where
  "sshCredentials c = (if c_closed c \<or> c_session c = None \<or> c_sshSigner c = None \<or> c_sshSetups c = None
     then None else Some (the (c_session c), the (c_sshSigner c)))"

datatype ssh_err = SshCtx | ErrDeviceOffline | ErrConnectionReplaced | SetupFailed

text \<open>A caller of \<^verbatim>\<open>OpenSSH\<close>; a returned stream is named by the session it was opened on.\<close>

datatype ssh_pc =
    SshStart ident
  | Selected conn_ref handle handle
  | Opening conn_ref handle handle
  | Abandoned conn_ref                  \<comment> \<open>the caller gave up, the opener still holds its slot\<close>
  | Opened conn_ref handle handle
  | SshReturned "ssh_err + handle \<times> handle"

record Manager =
  conns :: "Connection list"
  connections :: "ident \<rightharpoonup> conn_ref"
  owned :: "conn_ref list"
  closing :: bool
  to_close :: "conn_ref list"           \<comment> \<open>what the loop of \<^verbatim>\<open>CloseAll\<close> has not closed yet\<close>
  ssh_callers :: "ssh_pc list"

definition NewManager :: Manager where
  "NewManager = \<lparr>conns = [], connections = Map.empty, owned = [], closing = False,
     to_close = [], ssh_callers = []\<rparr>"

definition upd_conn :: "conn_ref \<Rightarrow> (Connection \<Rightarrow> Connection) \<Rightarrow> Manager \<Rightarrow> Manager" where
  "upd_conn r f m = m\<lparr>conns := (conns m)[r := f (conns m ! r)]\<rparr>"

definition ownLocked :: "conn_ref \<Rightarrow> Manager \<Rightarrow> Manager" where
  "ownLocked r m = (if r \<in> set (owned m) then m else m\<lparr>owned := owned m @ [r]\<rparr>)"

definition Register :: "conn_ref option \<Rightarrow> Manager \<Rightarrow> (conn_ref option \<times> bool) \<times> Manager" where
  "Register connection m0 = (case connection of
     None \<Rightarrow> ((None, False), m0)
   | Some r \<Rightarrow>
       let m = upd_conn r initLifecycle m0 in
       if closing m then ((None, False), upd_conn r beginClose m)
       else
         let m1 = ownLocked r m;
             d = c_DeviceID (conns m1 ! r);
             replaced = connections m1 d;
             m2 = m1\<lparr>connections := (connections m1)(d \<mapsto> r)\<rparr>;
             m3 = (case replaced of None \<Rightarrow> m2
                   | Some q \<Rightarrow> if q \<noteq> r then upd_conn q beginClose m2 else m2)
         in ((replaced, True), m3))"

definition Remove :: "conn_ref option \<Rightarrow> Manager \<Rightarrow> Manager" where
  "Remove connection m = (case connection of
     None \<Rightarrow> m
   | Some r \<Rightarrow> if connections m (c_DeviceID (conns m ! r)) = Some r
       then m\<lparr>connections := (connections m)(c_DeviceID (conns m ! r) := None)\<rparr> else m)"

text \<open>The end of the goroutine of \<^verbatim>\<open>ownLocked\<close>, once the cleanup is done.\<close>

definition reap :: "conn_ref \<Rightarrow> Manager \<Rightarrow> Manager" where
  "reap r m0 = (let m = Remove (Some r) m0 in m\<lparr>owned := removeAll r (owned m)\<rparr>)"

definition DetachDevice :: "ident \<Rightarrow> Manager \<Rightarrow> conn_ref option \<times> Manager" where
  "DetachDevice deviceID m = (case connections m deviceID of
     None \<Rightarrow> (None, m)
   | Some r \<Rightarrow> (Some r, upd_conn r beginClose (m\<lparr>connections := (connections m)(deviceID := None)\<rparr>)))"

definition Get :: "ident \<Rightarrow> Manager \<Rightarrow> conn_ref option" where
  "Get deviceID m = connections m deviceID"

definition IsOnline :: "ident \<Rightarrow> Manager \<Rightarrow> bool" where
  "IsOnline deviceID m = (case Get deviceID m of None \<Rightarrow> False | Some r \<Rightarrow> online (conns m ! r))"

definition CloseAll_begin :: "Manager \<Rightarrow> Manager" where
  "CloseAll_begin m = (if closing m then m
     else m\<lparr>closing := True, to_close := owned m, connections := Map.empty\<rparr>)"

definition close_next :: "Manager \<Rightarrow> Manager" where
  "close_next m = (case to_close m of [] \<Rightarrow> m | r # rs \<Rightarrow> upd_conn r beginClose (m\<lparr>to_close := rs\<rparr>))"

text \<open>The first critical section of \<^verbatim>\<open>OpenSSH\<close>: session and signer of one connection at once.\<close>

definition ssh_select :: "ident \<Rightarrow> Manager \<Rightarrow> ssh_pc" where
  "ssh_select deviceID m = (case connections m deviceID of
     None \<Rightarrow> SshReturned (Inl ErrDeviceOffline)
   | Some r \<Rightarrow> (case sshCredentials (conns m ! r) of
       None \<Rightarrow> SshReturned (Inl ErrDeviceOffline)
     | Some (session, signer) \<Rightarrow> Selected r session signer))"

definition slots :: "conn_ref \<Rightarrow> Manager \<Rightarrow> nat" where
  "slots r m = (case c_sshSetups (conns m ! r) of None \<Rightarrow> 0 | Some n \<Rightarrow> n)"

definition take_slot :: "conn_ref \<Rightarrow> Manager \<Rightarrow> Manager" where
  "take_slot r = upd_conn r (\<lambda>c. c\<lparr>c_sshSetups := map_option Suc (c_sshSetups c)\<rparr>)"

definition free_slot :: "conn_ref \<Rightarrow> Manager \<Rightarrow> Manager" where
  "free_slot r = upd_conn r (\<lambda>c. c\<lparr>c_sshSetups := map_option (\<lambda>n. n - 1) (c_sshSetups c)\<rparr>)"

definition set_ssh :: "nat \<Rightarrow> ssh_pc \<Rightarrow> Manager \<Rightarrow> Manager" where
  "set_ssh i p m = m\<lparr>ssh_callers := (ssh_callers m)[i := p]\<rparr>"

definition ssh_at :: "nat \<Rightarrow> ssh_pc \<Rightarrow> Manager \<Rightarrow> bool" where
  "ssh_at i p m \<longleftrightarrow> i < length (ssh_callers m) \<and> ssh_callers m ! i = p"

inductive tunnel_step :: "Manager \<Rightarrow> Manager \<Rightarrow> bool" where
  connect: "tunnel_step m (m\<lparr>conns := conns m @ [newConnection cid d session signer now]\<rparr>)"
| register: "r < length (conns m) \<Longrightarrow> tunnel_step m (snd (Register (Some r) m))"
| remove: "r < length (conns m) \<Longrightarrow> tunnel_step m (Remove (Some r) m)"
| detach: "tunnel_step m (snd (DetachDevice d m))"
| close: "r < length (conns m) \<Longrightarrow> tunnel_step m (upd_conn r beginClose m)"
| cleaned: "\<lbrakk>r < length (conns m); c_closed (conns m ! r); c_cleanupDone (conns m ! r) = Some False\<rbrakk>
    \<Longrightarrow> tunnel_step m (upd_conn r (cleanup result) m)"
| reaped: "\<lbrakk>r \<in> set (owned m); c_cleanupDone (conns m ! r) = Some True\<rbrakk> \<Longrightarrow> tunnel_step m (reap r m)"
| touched: "r < length (conns m) \<Longrightarrow> tunnel_step m (upd_conn r (touch at) m)"
| close_all: "tunnel_step m (CloseAll_begin m)"
| close_loop: "tunnel_step m (close_next m)"
| ssh_call: "tunnel_step m (m\<lparr>ssh_callers := ssh_callers m @ [SshStart d]\<rparr>)"
| ssh_dead: "ssh_at i (SshStart d) m \<Longrightarrow> tunnel_step m (set_ssh i (SshReturned (Inl SshCtx)) m)"
| ssh_selected: "ssh_at i (SshStart d) m \<Longrightarrow> tunnel_step m (set_ssh i (ssh_select d m) m)"
| ssh_slot: "\<lbrakk>ssh_at i (Selected r ss sg) m; slots r m < 16\<rbrakk>
    \<Longrightarrow> tunnel_step m (set_ssh i (Opening r ss sg) (take_slot r m))"
| ssh_canceled: "ssh_at i (Selected r ss sg) m \<Longrightarrow> tunnel_step m (set_ssh i (SshReturned (Inl SshCtx)) m)"
| ssh_replaced: "\<lbrakk>ssh_at i (Selected r ss sg) m; c_done (conns m ! r) = Some True\<rbrakk>
    \<Longrightarrow> tunnel_step m (set_ssh i (SshReturned (Inl ErrConnectionReplaced)) m)"
| ssh_abandon: "ssh_at i (Opening r ss sg) m
    \<Longrightarrow> tunnel_step m (set_ssh i (Abandoned r) m)"
| ssh_late: "ssh_at i (Abandoned r) m
    \<Longrightarrow> tunnel_step m (set_ssh i (SshReturned (Inl SshCtx)) (free_slot r m))"
| ssh_failed: "ssh_at i (Opening r ss sg) m
    \<Longrightarrow> tunnel_step m (set_ssh i (SshReturned (Inl ErrDeviceOffline)) (free_slot r m))"
| ssh_opened: "ssh_at i (Opening r ss sg) m
    \<Longrightarrow> tunnel_step m (set_ssh i (Opened r ss sg) (free_slot r m))"
| ssh_setup_failed: "\<lbrakk>ssh_at i (Opened r ss sg) m; e = SetupFailed \<or> e = SshCtx\<rbrakk>
    \<Longrightarrow> tunnel_step m (set_ssh i (SshReturned (Inl e)) m)"
| ssh_gone: "\<lbrakk>ssh_at i (Opened r ss sg) m; c_done (conns m ! r) = Some True\<rbrakk>
    \<Longrightarrow> tunnel_step m (set_ssh i (SshReturned (Inl ErrConnectionReplaced)) m)"
| ssh_ready: "\<lbrakk>ssh_at i (Opened r ss sg) m; c_done (conns m ! r) \<noteq> Some True\<rbrakk>
    \<Longrightarrow> tunnel_step m (set_ssh i (SshReturned (Inr (ss, sg))) m)"

subsection \<open>Updates of one connection\<close>

lemma upd_conn_fields [simp]:
  "connections (upd_conn r f m) = connections m" "owned (upd_conn r f m) = owned m"
  "closing (upd_conn r f m) = closing m" "to_close (upd_conn r f m) = to_close m"
  "ssh_callers (upd_conn r f m) = ssh_callers m" "length (conns (upd_conn r f m)) = length (conns m)"
  by (simp_all add: upd_conn_def)

lemma upd_conn_nth: "q < length (conns m) \<Longrightarrow>
    conns (upd_conn r f m) ! q = (if q = r then f (conns m ! q) else conns m ! q)"
  by (simp add: upd_conn_def)

definition conn_ok :: "Connection \<Rightarrow> bool" where
  "conn_ok c \<longleftrightarrow> c_done c = Some (c_closed c) \<and> c_cleanupDone c \<noteq> None \<and>
     (c_cleanupDone c = Some True \<longrightarrow> c_closed c)"

text \<open>\<open>quiet\<close> updates keep what identifies a connection and never reopen it.\<close>

definition same_conn :: "Connection \<Rightarrow> Connection \<Rightarrow> bool" where
  "same_conn c c' \<longleftrightarrow> c_DeviceID c' = c_DeviceID c \<and> c_session c' = c_session c \<and>
     c_sshSigner c' = c_sshSigner c \<and> (c_closed c \<longrightarrow> c_closed c') \<and> (conn_ok c \<longrightarrow> conn_ok c')"

definition quiet :: "(Connection \<Rightarrow> Connection) \<Rightarrow> bool" where
  "quiet f \<longleftrightarrow> (\<forall>c. same_conn c (f c) \<and> c_sshSetups (f c) = c_sshSetups c)"

lemma quiet_updates: "quiet initLifecycle" "quiet beginClose" "quiet (touch at)"
  by (auto simp: quiet_def same_conn_def conn_ok_def initLifecycle_def beginClose_def touch_def Let_def
      split: option.split)

lemma same_conn_cleanup: "c_closed c \<Longrightarrow> same_conn c (cleanup e c)"
  by (simp add: same_conn_def conn_ok_def cleanup_def)

lemma initLifecycle_ok: "conn_ok c \<Longrightarrow> initLifecycle c = c"
  by (cases c) (auto simp: initLifecycle_def conn_ok_def split: option.split)

lemma beginClose_closed [simp]: "c_closed (beginClose c)"
  by (simp add: beginClose_def Let_def)

lemma kept_device [simp]: "c_DeviceID (beginClose c) = c_DeviceID c" "c_DeviceID (touch at c) = c_DeviceID c"
  "c_closed (touch at c) = c_closed c"
  by (simp_all add: beginClose_def initLifecycle_def touch_def Let_def)

lemma newConnection_ok [simp]: "conn_ok (newConnection cid d ss sg now)"
  "c_sshSetups (newConnection cid d ss sg now) = Some 0"
  by (simp_all add: conn_ok_def newConnection_def)

subsection \<open>The registry invariant\<close>

definition reg_inv :: "Manager \<Rightarrow> bool" where
  "reg_inv m \<longleftrightarrow>
     (\<forall>r < length (conns m). conn_ok (conns m ! r)) \<and>
     (\<forall>d r. connections m d = Some r \<longrightarrow>
        r < length (conns m) \<and> c_DeviceID (conns m ! r) = d \<and> r \<in> set (owned m)) \<and>
     (\<forall>r \<in> set (owned m) \<union> set (to_close m). r < length (conns m)) \<and>
     (closing m \<longrightarrow> connections m = Map.empty \<and>
        (\<forall>r \<in> set (owned m). c_closed (conns m ! r) \<or> r \<in> set (to_close m)))"

lemma reg_invD:
  assumes "reg_inv m"
  shows "r < length (conns m) \<Longrightarrow> conn_ok (conns m ! r)"
    "connections m d = Some r \<Longrightarrow> r < length (conns m) \<and> c_DeviceID (conns m ! r) = d \<and> r \<in> set (owned m)"
    "r \<in> set (owned m) \<or> r \<in> set (to_close m) \<Longrightarrow> r < length (conns m)"
    "closing m \<Longrightarrow> connections m = Map.empty"
    "closing m \<Longrightarrow> r \<in> set (owned m) \<Longrightarrow> c_closed (conns m ! r) \<or> r \<in> set (to_close m)"
  using assms unfolding reg_inv_def by blast+

lemma reg_invI:
  assumes "\<And>r. r < length (conns m) \<Longrightarrow> conn_ok (conns m ! r)"
    and "\<And>d r. connections m d = Some r \<Longrightarrow>
        r < length (conns m) \<and> c_DeviceID (conns m ! r) = d \<and> r \<in> set (owned m)"
    and "\<And>r. r \<in> set (owned m) \<or> r \<in> set (to_close m) \<Longrightarrow> r < length (conns m)"
    and "closing m \<Longrightarrow> connections m = Map.empty"
    and "\<And>r. closing m \<Longrightarrow> r \<in> set (owned m) \<Longrightarrow> c_closed (conns m ! r) \<or> r \<in> set (to_close m)"
  shows "reg_inv m"
  using assms unfolding reg_inv_def by blast

lemma upd_conn_inv:
  assumes inv: "reg_inv m" and f: "r < length (conns m) \<Longrightarrow> same_conn (conns m ! r) (f (conns m ! r))"
  shows "reg_inv (upd_conn r f m)"
proof (rule reg_invI)
  fix q assume "q < length (conns (upd_conn r f m))"
  then show "conn_ok (conns (upd_conn r f m) ! q)"
    using reg_invD(1) [OF inv, of q] f by (auto simp: upd_conn_nth same_conn_def)
next
  fix d q assume "connections (upd_conn r f m) d = Some q"
  then show "q < length (conns (upd_conn r f m)) \<and> c_DeviceID (conns (upd_conn r f m) ! q) = d \<and>
      q \<in> set (owned (upd_conn r f m))"
    using reg_invD(2) [OF inv, of d q] f by (auto simp: upd_conn_nth same_conn_def)
next
  fix q assume "closing (upd_conn r f m)" "q \<in> set (owned (upd_conn r f m))"
  then show "c_closed (conns (upd_conn r f m) ! q) \<or> q \<in> set (to_close (upd_conn r f m))"
    using reg_invD(3,5) [OF inv, of q] f by (auto simp: upd_conn_nth same_conn_def)
qed (use reg_invD(3,4) [OF inv] in auto)

lemma quiet_inv: "quiet f \<Longrightarrow> reg_inv m \<Longrightarrow> reg_inv (upd_conn r f m)"
  by (rule upd_conn_inv) (auto simp: quiet_def)

lemma drop_entry_inv: "reg_inv m \<Longrightarrow> reg_inv (m\<lparr>connections := (connections m)(d := None)\<rparr>)"
  by (auto simp: reg_inv_def)

lemma install_inv:
  assumes inv: "reg_inv m" and r: "r < length (conns m)" and c: "\<not> closing m"
  shows "reg_inv ((ownLocked r m)\<lparr>connections := (connections m)(c_DeviceID (conns m ! r) \<mapsto> r)\<rparr>)"
  using assms by (auto simp: reg_inv_def ownLocked_def)

lemma ownLocked_fields [simp]:
  "conns (ownLocked r m) = conns m" "connections (ownLocked r m) = connections m"
  "closing (ownLocked r m) = closing m" "to_close (ownLocked r m) = to_close m"
  "ssh_callers (ownLocked r m) = ssh_callers m" "set (owned (ownLocked r m)) = insert r (set (owned m))"
  by (auto simp: ownLocked_def)

text \<open>On a connection made by \<^verbatim>\<open>newConnection\<close>, \<^verbatim>\<open>initLifecycle\<close> does nothing.\<close>

lemma init_noop: "reg_inv m \<Longrightarrow> r < length (conns m) \<Longrightarrow> upd_conn r initLifecycle m = m"
  by (simp add: upd_conn_def initLifecycle_ok reg_invD(1))

lemma Register_eq:
  assumes "reg_inv m" and "r < length (conns m)"
  shows "Register (Some r) m = (if closing m then ((None, False), upd_conn r beginClose m)
    else let m2 = (ownLocked r m)\<lparr>connections := (connections m)(c_DeviceID (conns m ! r) \<mapsto> r)\<rparr>;
             replaced = connections m (c_DeviceID (conns m ! r))
         in ((replaced, True), (case replaced of None \<Rightarrow> m2
              | Some q \<Rightarrow> if q \<noteq> r then upd_conn q beginClose m2 else m2)))"
  by (simp add: Register_def init_noop [OF assms] Let_def split: option.split)

lemma Register_accepts:
  assumes "reg_inv m" and "r < length (conns m)" and "\<not> closing m"
  shows "fst (Register (Some r) m) = (connections m (c_DeviceID (conns m ! r)), True)"
    "connections (snd (Register (Some r) m)) = (connections m)(c_DeviceID (conns m ! r) \<mapsto> r)"
    "q < length (conns m) \<Longrightarrow> conns (snd (Register (Some r) m)) ! q =
      (if connections m (c_DeviceID (conns m ! r)) = Some q \<and> q \<noteq> r then beginClose (conns m ! q) else conns m ! q)"
  by (simp_all add: Register_eq [OF assms(1,2)] assms(3) Let_def upd_conn_nth split: option.split)

lemma Register_inv:
  assumes "reg_inv m" and "r < length (conns m)"
  shows "reg_inv (snd (Register (Some r) m))"
  using assms install_inv [OF assms] quiet_inv [OF quiet_updates(2)]
  by (auto simp: Register_eq Let_def split: option.split)

lemma Remove_inv: "reg_inv m \<Longrightarrow> reg_inv (Remove connection m)"
  by (simp add: Remove_def drop_entry_inv split: option.split)

lemma Remove_not_there:
  "reg_inv m \<Longrightarrow> connections (Remove (Some r) m) d \<noteq> Some r"
  by (auto simp: Remove_def dest: reg_invD(2))

lemma reap_inv:
  assumes "reg_inv m"
  shows "reg_inv (reap r m)"
proof -
  have inv: "reg_inv (Remove (Some r) m)" by (rule Remove_inv [OF assms])
  have no: "connections (Remove (Some r) m) d \<noteq> Some r" for d by (rule Remove_not_there [OF assms])
  show ?thesis
    using inv no by (auto simp: reap_def Let_def reg_inv_def)
qed

lemma Detach_inv: "reg_inv m \<Longrightarrow> reg_inv (snd (DetachDevice d m))"
  by (auto simp: DetachDevice_def split: option.split intro: quiet_inv quiet_updates drop_entry_inv)

lemma connect_inv:
  assumes "reg_inv m"
  shows "reg_inv (m\<lparr>conns := conns m @ [newConnection cid d ss sg now]\<rparr>)"
  using reg_invD [OF assms]
  by (intro reg_invI) (auto simp: nth_append less_Suc_eq)

lemma close_next_inv:
  assumes "reg_inv m"
  shows "reg_inv (close_next m)"
proof (cases "to_close m")
  case (Cons r rs)
  have "reg_inv (upd_conn r beginClose m)" by (rule quiet_inv [OF quiet_updates(2) assms])
  moreover have "r < length (conns m)" using reg_invD(3) [OF assms] Cons by simp
  ultimately show ?thesis
    using Cons by (auto simp: close_next_def reg_inv_def upd_conn_def)
qed (simp add: close_next_def assms)

lemma set_ssh_fields [simp]:
  "conns (set_ssh i p m) = conns m" "connections (set_ssh i p m) = connections m"
  "owned (set_ssh i p m) = owned m" "closing (set_ssh i p m) = closing m"
  "to_close (set_ssh i p m) = to_close m" "ssh_callers (set_ssh i p m) = (ssh_callers m)[i := p]"
  by (simp_all add: set_ssh_def)

lemma reg_inv_ssh [simp]: "reg_inv (set_ssh i p m) = reg_inv m"
  "reg_inv (m\<lparr>ssh_callers := ps\<rparr>) = reg_inv m"
  by (simp_all add: reg_inv_def)

lemma slot_inv: "reg_inv m \<Longrightarrow> reg_inv (take_slot r m)" "reg_inv m \<Longrightarrow> reg_inv (free_slot r m)"
  unfolding take_slot_def free_slot_def
  by (auto intro!: upd_conn_inv simp: same_conn_def conn_ok_def)

lemma step_reg_inv: "tunnel_step m m' \<Longrightarrow> reg_inv m \<Longrightarrow> reg_inv m'"
proof (induction rule: tunnel_step.induct)
  case (cleaned r m result)
  then show ?case by (auto intro!: upd_conn_inv same_conn_cleanup)
next
  case (close_all m)
  then show ?case by (auto simp: CloseAll_begin_def reg_inv_def)
qed (simp_all add: connect_inv Register_inv Remove_inv Detach_inv quiet_inv quiet_updates reap_inv
    close_next_inv slot_inv)

subsection \<open>Callers of \<^verbatim>\<open>OpenSSH\<close>\<close>

fun holds_slot :: "conn_ref \<Rightarrow> ssh_pc \<Rightarrow> bool" where
  "holds_slot r (Opening q _ _) = (q = r)"
| "holds_slot r (Abandoned q) = (q = r)"
| "holds_slot r _ = False"

definition bound_to :: "Manager \<Rightarrow> conn_ref \<Rightarrow> handle \<Rightarrow> handle \<Rightarrow> bool" where
  "bound_to m r ss sg \<longleftrightarrow> r < length (conns m) \<and> c_session (conns m ! r) = Some ss \<and>
     c_sshSigner (conns m ! r) = Some sg"

fun ssh_ok :: "Manager \<Rightarrow> ssh_pc \<Rightarrow> bool" where
  "ssh_ok m (Selected r ss sg) = bound_to m r ss sg"
| "ssh_ok m (Opening r ss sg) = bound_to m r ss sg"
| "ssh_ok m (Opened r ss sg) = bound_to m r ss sg"
| "ssh_ok m (Abandoned r) = (r < length (conns m))"
| "ssh_ok m (SshReturned (Inr (ss, sg))) = (\<exists>r. bound_to m r ss sg)"
| "ssh_ok m _ = True"

definition setups_of :: "conn_ref \<Rightarrow> Manager \<Rightarrow> nat" where
  "setups_of r m = length (filter (holds_slot r) (ssh_callers m))"

definition ssh_inv :: "Manager \<Rightarrow> bool" where
  "ssh_inv m \<longleftrightarrow> (\<forall>r < length (conns m). c_sshSetups (conns m ! r) = Some (setups_of r m) \<and> setups_of r m \<le> 16) \<and>
     (\<forall>p \<in> set (ssh_callers m). ssh_ok m p)"

text \<open>Registry operations: the callers stay, connections keep their handles and slots.\<close>

definition frame_conns :: "Manager \<Rightarrow> Manager \<Rightarrow> bool" where
  "frame_conns m m' \<longleftrightarrow> ssh_callers m' = ssh_callers m \<and> length (conns m) \<le> length (conns m') \<and>
     (\<forall>r < length (conns m'). if r < length (conns m)
        then c_session (conns m' ! r) = c_session (conns m ! r) \<and>
          c_sshSigner (conns m' ! r) = c_sshSigner (conns m ! r) \<and>
          c_sshSetups (conns m' ! r) = c_sshSetups (conns m ! r)
        else c_sshSetups (conns m' ! r) = Some 0)"

lemma bound_mono:
  "bound_to m r ss sg \<Longrightarrow> frame_conns m m' \<Longrightarrow> bound_to m' r ss sg"
  by (auto simp: bound_to_def frame_conns_def)

lemma ssh_ok_mono: "ssh_ok m p \<Longrightarrow> frame_conns m m' \<Longrightarrow> ssh_ok m' p"
proof (induction m p rule: ssh_ok.induct)
  case (4 m r)
  then show ?case by (simp add: frame_conns_def)
qed (auto intro: bound_mono)

lemma holds_slot_bound: "ssh_ok m p \<Longrightarrow> holds_slot r p \<Longrightarrow> r < length (conns m)"
  by (cases "(r, p)" rule: holds_slot.cases) (auto simp: bound_to_def)

lemma frame_ssh_inv:
  assumes inv: "ssh_inv m" and fr: "frame_conns m m'"
  shows "ssh_inv m'"
proof -
  have new: "setups_of r m = 0" if "\<not> r < length (conns m)" for r
    using inv that holds_slot_bound by (auto simp: ssh_inv_def setups_of_def filter_empty_conv)
  have same: "setups_of r m' = setups_of r m" for r using fr by (simp add: setups_of_def frame_conns_def)
  have "c_sshSetups (conns m' ! r) = Some (setups_of r m') \<and> setups_of r m' \<le> 16"
    if "r < length (conns m')" for r
    using that inv fr new [of r] by (cases "r < length (conns m)") (auto simp: same ssh_inv_def frame_conns_def)
  moreover have "ssh_ok m' p" if "p \<in> set (ssh_callers m')" for p
    using that inv fr ssh_ok_mono by (auto simp: ssh_inv_def frame_conns_def)
  ultimately show ?thesis by (simp add: ssh_inv_def)
qed

lemma frame_refl [simp]: "frame_conns m m"
  by (simp add: frame_conns_def)

lemma frame_trans:
  assumes "frame_conns m m'" and "frame_conns m' m''"
  shows "frame_conns m m''"
proof -
  have a: "ssh_callers m'' = ssh_callers m" "length (conns m) \<le> length (conns m')"
    "length (conns m') \<le> length (conns m'')"
    using assms by (simp_all add: frame_conns_def)
  have b: "if r < length (conns m)
        then c_session (conns m'' ! r) = c_session (conns m ! r) \<and>
          c_sshSigner (conns m'' ! r) = c_sshSigner (conns m ! r) \<and>
          c_sshSetups (conns m'' ! r) = c_sshSetups (conns m ! r)
        else c_sshSetups (conns m'' ! r) = Some 0" if "r < length (conns m'')" for r
    using assms that a(2) by (cases "r < length (conns m')") (force simp: frame_conns_def split: if_splits)+
  show ?thesis unfolding frame_conns_def using a b by simp
qed

lemma frame_upd:
  assumes "\<And>c. c_session (f c) = c_session c \<and> c_sshSigner (f c) = c_sshSigner c \<and> c_sshSetups (f c) = c_sshSetups c"
  shows "frame_conns m (upd_conn r f m)"
  using assms by (simp add: frame_conns_def upd_conn_nth)

lemma frame_quiet: "quiet f \<Longrightarrow> frame_conns m (upd_conn r f m)"
  by (rule frame_upd) (simp add: quiet_def same_conn_def)

lemma frame_fields: "conns m' = conns m \<Longrightarrow> ssh_callers m' = ssh_callers m \<Longrightarrow> frame_conns m m'"
  by (simp add: frame_conns_def)

lemma frame_Remove: "frame_conns m (Remove c m)"
  by (auto simp: Remove_def frame_fields split: option.split)

lemma frame_Register: "reg_inv m \<Longrightarrow> r < length (conns m) \<Longrightarrow> frame_conns m (snd (Register (Some r) m))"
  by (auto simp: Register_eq Let_def frame_fields frame_quiet quiet_updates split: option.split
      intro: frame_trans [OF _ frame_quiet])

lemma frame_rest:
  "frame_conns m (m\<lparr>conns := conns m @ [newConnection cid d ss sg now]\<rparr>)"
  "frame_conns m (snd (DetachDevice d m))" "frame_conns m (reap r m)"
  "frame_conns m (CloseAll_begin m)" "frame_conns m (close_next m)"
  "frame_conns m (upd_conn r (cleanup e) m)"
proof -
  show "frame_conns m (m\<lparr>conns := conns m @ [newConnection cid d ss sg now]\<rparr>)"
    by (auto simp: frame_conns_def nth_append less_Suc_eq)
  show "frame_conns m (snd (DetachDevice d m))" "frame_conns m (close_next m)"
    by (auto simp: DetachDevice_def close_next_def split: option.split list.split
        intro!: frame_trans [OF frame_fields frame_quiet] quiet_updates)
  show "frame_conns m (reap r m)"
    using frame_Remove [of m "Some r"] by (simp add: reap_def Let_def frame_conns_def)
  show "frame_conns m (CloseAll_begin m)" by (simp add: CloseAll_begin_def frame_fields)
  show "frame_conns m (upd_conn r (cleanup e) m)" by (rule frame_upd) (simp add: cleanup_def)
qed

text \<open>A caller moves and its connection's slot count follows.\<close>

lemma move_ssh_inv:
  assumes inv: "ssh_inv m" and at: "ssh_at i p m" and ok: "ssh_ok m p'" 
    and cs: "length cs = length (conns m)"
      "\<And>q. q < length (conns m) \<Longrightarrow> c_session (cs ! q) = c_session (conns m ! q) \<and>
         c_sshSigner (cs ! q) = c_sshSigner (conns m ! q) \<and>
         (\<exists>n. c_sshSetups (cs ! q) = Some n \<and> n \<le> 16 \<and>
           n + of_bool (holds_slot q p) = setups_of q m + of_bool (holds_slot q p'))"
  shows "ssh_inv (set_ssh i p' (m\<lparr>conns := cs\<rparr>))"
proof -
  let ?m = "set_ssh i p' (m\<lparr>conns := cs\<rparr>)"
  have i: "i < length (ssh_callers m)" "ssh_callers m ! i = p" using at by (simp_all add: ssh_at_def)
  have n: "setups_of q ?m + of_bool (holds_slot q p) = setups_of q m + of_bool (holds_slot q p')" for q
    using count_update [OF i(1), of "holds_slot q" p'] i(2) by (simp add: setups_of_def)
  have "c_sshSetups (conns ?m ! q) = Some (setups_of q ?m) \<and> setups_of q ?m \<le> 16" if "q < length (conns ?m)" for q
    using cs(2) [of q] cs(1) that n [of q] by auto
  moreover have b: "bound_to ?m r ss sg = bound_to m r ss sg" for r ss sg
    using cs by (auto simp: bound_to_def)
  have "ssh_ok ?m x = ssh_ok m x" for x
    by (cases "(m, x)" rule: ssh_ok.cases) (simp_all add: b [simplified] cs(1))
  then have "ssh_ok ?m x" if "x \<in> set (ssh_callers ?m)" for x
    using that inv ok set_update_subset_insert [of "ssh_callers m" i p'] by (auto simp: ssh_inv_def)
  ultimately show ?thesis by (simp add: ssh_inv_def)
qed

lemma ssh_inv_ok: "ssh_inv m \<Longrightarrow> ssh_at i p m \<Longrightarrow> ssh_ok m p"
  by (auto simp: ssh_inv_def ssh_at_def)

lemma ssh_ok_callers [simp]: "ssh_ok (m\<lparr>ssh_callers := ps\<rparr>) p = ssh_ok m p"
  by (cases "(m, p)" rule: ssh_ok.cases) (simp_all add: bound_to_def)

lemma move_same_slots:
  assumes inv: "ssh_inv m" and at: "ssh_at i p m" and ok: "ssh_ok m p'" and "\<And>q. holds_slot q p' = holds_slot q p"
  shows "ssh_inv (set_ssh i p' m)"
proof -
  have "ssh_inv (set_ssh i p' (m\<lparr>conns := conns m\<rparr>))"
    by (rule move_ssh_inv [OF inv at ok]) (use assms in \<open>auto simp: ssh_inv_def\<close>)
  then show ?thesis by simp
qed

lemma move_take:
  assumes inv: "ssh_inv m" and at: "ssh_at i (Selected r ss sg) m" and free: "slots r m < 16"
  shows "ssh_inv (set_ssh i (Opening r ss sg) (take_slot r m))"
proof -
  have r: "ssh_ok m (Opening r ss sg)" "r < length (conns m)"
    using ssh_inv_ok [OF inv at] by (simp_all add: bound_to_def)
  have n: "c_sshSetups (conns m ! q) = Some (setups_of q m)" "setups_of q m \<le> 16" if "q < length (conns m)" for q
    using inv that by (auto simp: ssh_inv_def)
  show ?thesis
    unfolding take_slot_def upd_conn_def
    by (rule move_ssh_inv [OF inv at r(1)])
       (use free n r(2) in \<open>auto simp: slots_def nth_list_update\<close>)
qed

lemma move_free:
  assumes inv: "ssh_inv m" and at: "ssh_at i p m" and p: "holds_slot r p" "\<And>q. q \<noteq> r \<Longrightarrow> \<not> holds_slot q p"
    and ok: "ssh_ok m p'" "\<And>q. \<not> holds_slot q p'"
  shows "ssh_inv (set_ssh i p' (free_slot r m))"
proof -
  have r: "r < length (conns m)" by (rule holds_slot_bound [OF ssh_inv_ok [OF inv at] p(1)])
  have "p \<in> set (ssh_callers m)" using at by (auto simp: ssh_at_def)
  then have pos: "0 < setups_of r m" using p(1) by (auto simp: setups_of_def filter_empty_conv)
  have n: "c_sshSetups (conns m ! q) = Some (setups_of q m)" "setups_of q m \<le> 16" if "q < length (conns m)" for q
    using inv that by (auto simp: ssh_inv_def)
  have le: "setups_of r m - Suc 0 \<le> 16" using n(2) [OF r] by simp
  show ?thesis
    unfolding free_slot_def upd_conn_def
    by (rule move_ssh_inv [OF inv at ok(1)])
       (use n r p ok(2) pos le in \<open>auto simp: nth_list_update\<close>)
qed

lemma ssh_select_ok: "reg_inv m \<Longrightarrow> ssh_ok m (ssh_select d m)" "\<not> holds_slot q (ssh_select d m)"
  by (auto simp: ssh_select_def sshCredentials_def bound_to_def dest: reg_invD(2)
      split: option.split prod.split)

lemma step_ssh_inv: "tunnel_step m m' \<Longrightarrow> reg_inv m \<Longrightarrow> ssh_inv m \<Longrightarrow> ssh_inv m'"
proof (induction rule: tunnel_step.induct)
  case (register r m)
  then show ?case by (simp add: frame_ssh_inv frame_Register)
next
  case (ssh_call m d)
  then show ?case by (auto simp: ssh_inv_def setups_of_def)
next
  case (ssh_selected i d m)
  then show ?case by (auto intro!: move_same_slots simp: ssh_select_ok)
next
  case (ssh_slot i r ss sg m)
  then show ?case by (auto intro: move_take)
next
  case (ssh_abandon i r ss sg m)
  then show ?case
    by (auto intro!: move_same_slots dest: ssh_inv_ok simp: bound_to_def)
next
  case (ssh_late i r m)
  then show ?case by (auto intro!: move_free)
next
  case (ssh_failed i r ss sg m)
  then show ?case by (auto intro!: move_free)
next
  case (ssh_opened i r ss sg m)
  then show ?case using ssh_inv_ok [OF ssh_opened(3,1)] by (auto intro!: move_free)
next
  case (ssh_ready i r ss sg m)
  then show ?case using ssh_inv_ok [OF ssh_ready(4,1)] by (auto intro!: move_same_slots)
qed (auto intro: frame_ssh_inv frame_rest frame_Remove frame_quiet quiet_updates
    intro!: move_same_slots)

interpretation tunnels: invariant_of "\<lambda>m. m = NewManager" tunnel_step "\<lambda>m. reg_inv m \<and> ssh_inv m"
proof unfold_locales
  show "m = NewManager \<Longrightarrow> reg_inv m \<and> ssh_inv m" for m
    by (simp add: NewManager_def reg_inv_def ssh_inv_def)
  show "tunnel_step m m' \<Longrightarrow> reg_inv m \<and> ssh_inv m \<Longrightarrow> reg_inv m' \<and> ssh_inv m'" for m m'
    using step_reg_inv step_ssh_inv by blast
qed

lemma tunnels_reg: "reach (\<lambda>m. m = NewManager) tunnel_step m \<Longrightarrow> reg_inv m"
  using tunnels.reach_inv by blast

subsection \<open>Connections never reopen\<close>

definition conns_later :: "Manager \<Rightarrow> Manager \<Rightarrow> bool" where
  "conns_later m m' \<longleftrightarrow> length (conns m) \<le> length (conns m') \<and>
     (\<forall>r < length (conns m). c_DeviceID (conns m' ! r) = c_DeviceID (conns m ! r) \<and>
        (c_closed (conns m ! r) \<longrightarrow> c_closed (conns m' ! r)))"

lemma later_order: "step_order conns_later"
  by unfold_locales (auto simp: conns_later_def)

lemma later_fields: "conns m' = conns m \<Longrightarrow> conns_later m m'"
  by (simp add: conns_later_def)

lemma later_upd:
  "(r < length (conns m) \<Longrightarrow> same_conn (conns m ! r) (f (conns m ! r))) \<Longrightarrow> conns_later m (upd_conn r f m)"
  by (auto simp: conns_later_def upd_conn_nth same_conn_def)

lemma later_quiet: "quiet f \<Longrightarrow> conns m' = conns m \<Longrightarrow> conns_later m (upd_conn r f m')"
  by (auto simp: conns_later_def upd_conn_nth same_conn_def quiet_def)

lemma later_step: "tunnel_step m m' \<Longrightarrow> reg_inv m \<Longrightarrow> conns_later m m'"
proof (induction rule: tunnel_step.induct)
  case (connect m cid d session signer now)
  then show ?case by (simp add: conns_later_def nth_append)
next
  case (register r m)
  then show ?case
    by (auto simp: Register_eq Let_def later_fields split: option.split intro!: later_quiet quiet_updates)
next
  case (cleaned r m result)
  then show ?case by (auto intro!: later_upd same_conn_cleanup)
next
  case (ssh_slot i r ss sg m)
  then show ?case by (auto simp: conns_later_def take_slot_def upd_conn_nth)
qed (auto simp: later_fields later_quiet quiet_updates Remove_def reap_def DetachDevice_def CloseAll_begin_def
    close_next_def Let_def conns_later_def free_slot_def upd_conn_nth split: option.split list.split)

lemma later_steps: "tunnel_step\<^sup>*\<^sup>* m m' \<Longrightarrow> reg_inv m \<Longrightarrow> conns_later m m' \<and> reg_inv m'"
proof (induction rule: rtranclp_induct)
  case (step y z)
  then have "conns_later y z" "reg_inv z" by (auto intro: later_step step_reg_inv)
  with step later_order show ?case by (auto simp: step_order_def)
qed (simp add: conns_later_def)

subsection \<open>Properties of the registry\<close>

text \<open>
  C9: The registry of online devices is consistent in every reachable state: an entry points
  to an owned connection of that very device; once \<^verbatim>\<open>CloseAll\<close> has started no device is
  online any more, and when its loop is through every owned connection is closed.
\<close>

theorem registry_consistent:
  assumes "reach (\<lambda>m. m = NewManager) tunnel_step m"
  shows "(\<forall>d r. Get d m = Some r \<longrightarrow>
      r < length (conns m) \<and> c_DeviceID (conns m ! r) = d \<and> r \<in> set (owned m)) \<and>
    (closing m \<longrightarrow> (\<forall>d. \<not> IsOnline d m) \<and>
      (to_close m = [] \<longrightarrow> (\<forall>r. r \<in> set (owned m) \<longrightarrow> \<not> online (conns m ! r))))"
  using reg_invD [OF tunnels_reg [OF assms]]
  by (auto simp: Get_def IsOnline_def online_def)

text \<open>
  The newest connection wins: registering it makes it the device's entry, logically
  closes the one it replaces, leaves the other devices alone, and neither the late
  \<^verbatim>\<open>Remove\<close> of the replaced connection's handler nor the goroutine that reaps it can
  remove the new entry.
\<close>

theorem newest_wins:
  assumes "reach (\<lambda>m. m = NewManager) tunnel_step m" and "r < length (conns m)" and "\<not> closing m"
    and "Register (Some r) m = ((replaced, accepted), m')"
  shows "accepted \<and> Get (c_DeviceID (conns m ! r)) m' = Some r \<and>
    IsOnline (c_DeviceID (conns m ! r)) m' = online (conns m ! r) \<and>
    (\<forall>q. replaced = Some q \<and> q \<noteq> r \<longrightarrow> \<not> online (conns m' ! q) \<and>
       Get (c_DeviceID (conns m ! r)) (Remove (Some q) m') = Some r \<and>
       Get (c_DeviceID (conns m ! r)) (reap q m') = Some r) \<and>
    (\<forall>d. d \<noteq> c_DeviceID (conns m ! r) \<longrightarrow> IsOnline d m' = IsOnline d m)"
proof -
  note inv = tunnels_reg [OF assms(1)]
  note acc = Register_accepts [OF inv assms(2,3), unfolded assms(4) fst_conv snd_conv]
  have m': "accepted" "replaced = connections m (c_DeviceID (conns m ! r))"
    "connections m' = (connections m)(c_DeviceID (conns m ! r) \<mapsto> r)"
    "\<And>q. q < length (conns m) \<Longrightarrow> conns m' ! q = (if replaced = Some q \<and> q \<noteq> r then beginClose (conns m ! q) else conns m ! q)"
    using acc by simp_all
  have q: "q < length (conns m) \<and> c_DeviceID (conns m ! q) = c_DeviceID (conns m ! r)"
    if "replaced = Some q" for q
    using that m'(2) reg_invD(2) [OF inv] by simp
  have other: "q' \<noteq> q" if "replaced = Some q" "connections m d = Some q'" "d \<noteq> c_DeviceID (conns m ! r)" for q q' d
    using that q reg_invD(2) [OF inv, of d q'] by auto
  have lt: "\<And>d q. connections m d = Some q \<Longrightarrow> q < length (conns m)" using reg_invD(2) [OF inv] by blast
  show ?thesis
  proof (intro conjI allI impI; (elim conjE)?)
    show "accepted" "Get (c_DeviceID (conns m ! r)) m' = Some r" using m'(1,3) by (simp_all add: Get_def)
    show "IsOnline (c_DeviceID (conns m ! r)) m' = online (conns m ! r)"
      using m'(3,4) assms(2) by (simp add: IsOnline_def Get_def)
    show "IsOnline d m' = IsOnline d m" if "d \<noteq> c_DeviceID (conns m ! r)" for d
      using that m'(3,4) other lt by (auto simp: IsOnline_def Get_def split: option.split)
    fix q assume q': "replaced = Some q" "q \<noteq> r"
    have dev: "c_DeviceID (conns m' ! q) = c_DeviceID (conns m ! r)" using q [OF q'(1)] m'(4) q' by simp
    show "\<not> online (conns m' ! q)" using m'(4) q [OF q'(1)] q' by (simp add: online_def)
    show "Get (c_DeviceID (conns m ! r)) (Remove (Some q) m') = Some r"
      "Get (c_DeviceID (conns m ! r)) (reap q m') = Some r"
      using m'(3) q'(2) dev by (simp_all add: Get_def Remove_def reap_def Let_def)
  qed
qed

text \<open>
  Detaching a device takes it offline at once and for good: in every later state the
  detached connection is still closed, so the device is online again only through another
  connection.
\<close>

theorem detach_is_final:
  assumes "reach (\<lambda>m. m = NewManager) tunnel_step m" and "DetachDevice d m = (Some r, m')"
    and "tunnel_step\<^sup>*\<^sup>* m' m''"
  shows "\<not> IsOnline d m' \<and> \<not> online (conns m'' ! r) \<and>
    (IsOnline d m'' \<longrightarrow> (\<exists>q. q \<noteq> r \<and> Get d m'' = Some q))"
proof -
  note inv = tunnels_reg [OF assms(1)]
  have inv': "reg_inv m'" using Detach_inv [OF inv, of d] assms(2) by simp
  have c: "connections m d = Some r" "connections m' d = None" "r < length (conns m')" "c_closed (conns m' ! r)"
    using assms(2) reg_invD(2) [OF inv, of d] by (auto simp: DetachDevice_def upd_conn_def split: option.splits)
  with later_steps [OF assms(3) inv'] have "c_closed (conns m'' ! r)" by (auto simp: conns_later_def)
  with c show ?thesis by (auto simp: IsOnline_def Get_def online_def split: option.splits)
qed

text \<open>
  C10: An SSH stream that \<^verbatim>\<open>OpenSSH\<close> returns and the signer it returns with it belong to one
  and the same connection, however replacement, detaching and closing interleave with the
  setup, and at most sixteen stream setups are under way per connection.
\<close>

theorem ssh_stream_matches_signer:
  assumes "reach (\<lambda>m. m = NewManager) tunnel_step m"
  shows "(\<forall>session signer. SshReturned (Inr (session, signer)) \<in> set (ssh_callers m) \<longrightarrow>
      (\<exists>r. r < length (conns m) \<and> c_session (conns m ! r) = Some session \<and>
        c_sshSigner (conns m ! r) = Some signer)) \<and>
    (\<forall>r. r < length (conns m) \<longrightarrow> length (filter (holds_slot r) (ssh_callers m)) \<le> 16)"
proof -
  have inv: "ssh_inv m" using tunnels.reach_inv [OF assms] by blast
  have "\<exists>r. bound_to m r ss sg" if "SshReturned (Inr (ss, sg)) \<in> set (ssh_callers m)" for ss sg
    using inv that unfolding ssh_inv_def by fastforce
  with inv show ?thesis by (simp add: ssh_inv_def bound_to_def setups_of_def)
qed

lemma close_loop_run:
  "\<exists>m'. tunnel_step\<^sup>*\<^sup>* m m' \<and> to_close m' = [] \<and> owned m' = owned m \<and> closing m' = closing m"
proof (induction "to_close m" arbitrary: m)
  case (Cons r rs)
  let ?m = "close_next m"
  have f: "to_close ?m = rs" "owned ?m = owned m" "closing ?m = closing m"
    using Cons.hyps(2) [symmetric] by (simp_all add: close_next_def)
  from Cons.hyps(1) [OF f(1) [symmetric]] f obtain m' where
    "tunnel_step\<^sup>*\<^sup>* ?m m'" "to_close m' = []" "owned m' = owned m" "closing m' = closing m" by auto
  with close_loop show ?case by (meson converse_rtranclp_into_rtranclp)
qed auto

lemma drain_one:
  assumes inv: "reg_inv m" and r: "r \<in> set (owned m)" "c_closed (conns m ! r)"
  shows "\<exists>m'. tunnel_step\<^sup>*\<^sup>* m m' \<and> owned m' = removeAll r (owned m) \<and> closing m' = closing m \<and> to_close m' = to_close m"
proof -
  have lt: "r < length (conns m)" using reg_invD(3) [OF inv] r by blast
  obtain m1 where m1: "tunnel_step\<^sup>*\<^sup>* m m1" "owned m1 = owned m" "closing m1 = closing m"
    "to_close m1 = to_close m" "c_cleanupDone (conns m1 ! r) = Some True"
  proof (cases "c_cleanupDone (conns m ! r) = Some True")
    case True
    with that [of m] show ?thesis by simp
  next
    case False
    then have "c_cleanupDone (conns m ! r) = Some False"
      using reg_invD(1) [OF inv lt] by (cases "c_cleanupDone (conns m ! r)") (auto simp: conn_ok_def)
    then have "tunnel_step m (upd_conn r (cleanup None) m)" using lt r(2) by (rule cleaned [rotated -1])
    with that [of "upd_conn r (cleanup None) m"] lt show ?thesis by (simp add: upd_conn_nth cleanup_def r_into_rtranclp)
  qed
  have "tunnel_step m1 (reap r m1)" using m1(2,5) r(1) by (simp add: reaped)
  moreover have "owned (reap r m1) = removeAll r (owned m)" "closing (reap r m1) = closing m" "to_close (reap r m1) = to_close m"
    using m1(2-4) by (simp_all add: reap_def Remove_def Let_def)
  ultimately show ?thesis using m1(1) by (meson rtranclp.rtrancl_into_rtrancl)
qed

lemma drain_all:
  "reg_inv m \<Longrightarrow> closing m \<Longrightarrow> to_close m = [] \<Longrightarrow> \<exists>m'. tunnel_step\<^sup>*\<^sup>* m m' \<and> owned m' = [] \<and> closing m'"
proof (induction "length (owned m)" arbitrary: m rule: less_induct)
  case less
  show ?case
  proof (cases "owned m")
    case Nil
    with less show ?thesis by auto
  next
    case (Cons r rs)
    then have r: "r \<in> set (owned m)" by simp
    have "c_closed (conns m ! r)" using reg_invD(5) [OF less.prems(1,2) r] less.prems(3) by simp
    from drain_one [OF less.prems(1) r this] obtain m1 where m1: "tunnel_step\<^sup>*\<^sup>* m m1"
      "owned m1 = removeAll r (owned m)" "closing m1" "to_close m1 = []" using less.prems by auto
    have "length (owned m1) < length (owned m)" unfolding m1(2) by (rule length_removeAll_less [OF r])
    moreover have "reg_inv m1" using later_steps [OF m1(1) less.prems(1)] by simp
    ultimately obtain m' where "tunnel_step\<^sup>*\<^sup>* m1 m'" "owned m' = []" "closing m'"
      using less.hyps m1(3,4) by blast
    with m1(1) show ?thesis by (meson rtranclp_trans)
  qed
qed

text \<open>
  \<^verbatim>\<open>CloseAll\<close> can always finish: from every state reached after it has started, the
  loop, the cleanups it starts and the goroutines that wait for them lead to a state in
  which no connection is owned, where the wait group lets it return.
\<close>

theorem close_all_drains:
  assumes "reach (\<lambda>m. m = NewManager) tunnel_step m" and "closing m"
  shows "\<exists>m'. tunnel_step\<^sup>*\<^sup>* m m' \<and> owned m' = [] \<and> (\<forall>d. \<not> IsOnline d m')"
proof -
  note inv = tunnels_reg [OF assms(1)]
  from close_loop_run [of m] obtain m1 where m1: "tunnel_step\<^sup>*\<^sup>* m m1" "to_close m1 = []" "closing m1"
    using assms(2) by auto
  have inv1: "reg_inv m1" using later_steps [OF m1(1) inv] by simp
  from drain_all [OF inv1 m1(3,2)] obtain m' where m': "tunnel_step\<^sup>*\<^sup>* m1 m'" "owned m' = []" "closing m'" by blast
  have "connections m' = Map.empty" using later_steps [OF m'(1) inv1] m'(3) reg_invD(4) by blast
  then have "\<forall>d. \<not> IsOnline d m'" by (simp add: IsOnline_def Get_def)
  moreover have "tunnel_step\<^sup>*\<^sup>* m m'" using m1(1) m'(1) by (rule rtranclp_trans)
  ultimately show ?thesis using m'(2) by blast
qed

subsection \<open>Examples\<close>

text \<open>Two connections of one device, the first registered; then an SSH stream over it.\<close>

definition ex_conns :: Manager where
  "ex_conns = NewManager\<lparr>conns := [newConnection ''c1'' ''dev_1'' (Some ''y1'') (Some ''k1'') 1,
     newConnection ''c2'' ''dev_1'' (Some ''y2'') (Some ''k2'') 2]\<rparr>"

definition ex_first :: Manager where
  "ex_first = snd (Register (Some 0) ex_conns)"

lemma ex_conns_reach: "reach (\<lambda>m. m = NewManager) tunnel_step ex_conns"
proof -
  have "reach (\<lambda>m. m = NewManager) tunnel_step
      (NewManager\<lparr>conns := [newConnection ''c1'' ''dev_1'' (Some ''y1'') (Some ''k1'') 1]\<rparr>)"
    using connect [of NewManager] by (auto intro: reach_step [OF reach_init] simp: NewManager_def)
  from reach_step [OF this connect] show ?thesis by (simp add: ex_conns_def)
qed

lemma ex_first_reach: "reach (\<lambda>m. m = NewManager) tunnel_step ex_first"
  unfolding ex_first_def
  by (rule reach_step [OF ex_conns_reach register]) (simp add: ex_conns_def)

lemmas ex_tunnel_simps = ex_first_def ex_conns_def NewManager_def newConnection_def Register_def
  upd_conn_def initLifecycle_def ownLocked_def Let_def

theorem registry_consistent_witness:
  "Get ''dev_1'' ex_first = Some 0 \<and> 0 < length (conns ex_first) \<and> c_DeviceID (conns ex_first ! 0) = ''dev_1'' \<and>
    0 \<in> set (owned ex_first)"
proof -
  have g: "Get ''dev_1'' ex_first = Some 0" by (simp add: Get_def ex_tunnel_simps)
  have "0 < length (conns ex_first) \<and> c_DeviceID (conns ex_first ! 0) = ''dev_1'' \<and> 0 \<in> set (owned ex_first)"
    using registry_consistent [OF ex_first_reach] g by blast
  with g show ?thesis by blast
qed

theorem newest_wins_witness:
  "\<exists>m'. Register (Some 1) ex_first = ((Some 0, True), m') \<and> Get ''dev_1'' (Remove (Some 0) m') = Some 1 \<and>
    \<not> online (conns m' ! 0)"
proof -
  have r: "1 < length (conns ex_first)" "\<not> closing ex_first" "c_DeviceID (conns ex_first ! 1) = ''dev_1''"
    by (simp_all add: ex_tunnel_simps)
  have f: "fst (Register (Some 1) ex_first) = (Some 0, True)" by (simp add: ex_tunnel_simps)
  then have e: "Register (Some 1) ex_first = ((Some 0, True), snd (Register (Some 1) ex_first))"
    by (metis prod.collapse)
  show ?thesis
    using newest_wins [OF ex_first_reach r(1,2) e] e r(3) by force
qed

theorem detach_is_final_witness:
  "\<exists>m'. DetachDevice ''dev_1'' ex_first = (Some 0, m') \<and> \<not> IsOnline ''dev_1'' m'"
proof -
  let ?m = "snd (DetachDevice ''dev_1'' ex_first)"
  have e: "DetachDevice ''dev_1'' ex_first = (Some 0, ?m)" by (simp add: DetachDevice_def ex_tunnel_simps)
  from detach_is_final [OF ex_first_reach e rtranclp.rtrancl_refl] e show ?thesis by blast
qed

lemma ex_ssh_reach: "\<exists>m. reach (\<lambda>m. m = NewManager) tunnel_step m \<and>
    SshReturned (Inr (''y1'', ''k1'')) \<in> set (ssh_callers m)"
proof -
  let ?m0 = "ex_first\<lparr>ssh_callers := [SshStart ''dev_1'']\<rparr>"
  let ?m1 = "set_ssh 0 (Selected 0 ''y1'' ''k1'') ?m0"
  let ?m2 = "set_ssh 0 (Opening 0 ''y1'' ''k1'') (take_slot 0 ?m1)"
  let ?m3 = "set_ssh 0 (Opened 0 ''y1'' ''k1'') (free_slot 0 ?m2)"
  let ?m4 = "set_ssh 0 (SshReturned (Inr (''y1'', ''k1''))) ?m3"
  note e = ex_tunnel_simps set_ssh_def take_slot_def free_slot_def slots_def ssh_at_def
  have "?m0 = ex_first\<lparr>ssh_callers := ssh_callers ex_first @ [SshStart ''dev_1'']\<rparr>" by (simp add: e)
  then have "reach (\<lambda>m. m = NewManager) tunnel_step ?m0" using reach_step [OF ex_first_reach ssh_call] by metis
  moreover have "tunnel_step ?m0 ?m1"
  proof -
    have "ssh_select ''dev_1'' ?m0 = Selected 0 ''y1'' ''k1''"
      by (simp add: e ssh_select_def sshCredentials_def)
    moreover have "ssh_at 0 (SshStart ''dev_1'') ?m0" by (simp add: e)
    ultimately show ?thesis using ssh_selected by metis
  qed
  moreover have "tunnel_step ?m1 ?m2" by (rule ssh_slot) (simp_all add: e)
  moreover have "tunnel_step ?m2 ?m3" by (rule ssh_opened) (simp add: e)
  moreover have "tunnel_step ?m3 ?m4" by (rule ssh_ready [where r = 0]) (simp_all add: e)
  ultimately have "reach (\<lambda>m. m = NewManager) tunnel_step ?m4" by (meson reach_step)
  moreover have "SshReturned (Inr (''y1'', ''k1'')) \<in> set (ssh_callers ?m4)" by (simp add: e)
  ultimately show ?thesis by blast
qed

theorem ssh_stream_matches_signer_witness:
  "\<exists>(m::Manager) r. SshReturned (Inr (''y1'', ''k1'')) \<in> set (ssh_callers m) \<and>
    c_session (conns m ! r) = Some ''y1'' \<and> c_sshSigner (conns m ! r) = Some ''k1''"
proof -
  from ex_ssh_reach obtain m where m: "reach (\<lambda>m. m = NewManager) tunnel_step m"
    "SshReturned (Inr (''y1'', ''k1'')) \<in> set (ssh_callers m)" by blast
  from ssh_stream_matches_signer [OF m(1)] m(2) obtain r where
    "c_session (conns m ! r) = Some ''y1''" "c_sshSigner (conns m ! r) = Some ''k1''" by blast
  with m(2) show ?thesis by blast
qed

theorem close_all_drains_witness:
  "\<exists>m'. tunnel_step\<^sup>*\<^sup>* (CloseAll_begin ex_first) m' \<and> owned m' = [] \<and> (\<forall>d. \<not> IsOnline d m')"
proof -
  have c: "closing (CloseAll_begin ex_first)" by (simp add: CloseAll_begin_def)
  show ?thesis by (rule close_all_drains [OF reach_step [OF ex_first_reach close_all] c])
qed

end
