(* ===== verification/AgentService.thy ===== *)
theory AgentService
  imports EventHub Store_Runs TunnelManager
begin

text \<open>
  The state and the operations of \<^verbatim>\<open>internal/agent/service.go\<close>.

  A call runs in a \<open>world\<close>: the shared state (database, the maps and counters of the
  service, the tunnel registry) and what this call will see of its surroundings: random
  bytes, clock readings, the results of successive \<^verbatim>\<open>ctx.Err()\<close>, and in \<open>w_env\<close> what
  concurrent callers do to the shared state before each of its store calls and critical
  sections.  A store call is one step of the database and a section under \<^verbatim>\<open>Service.mu\<close>
  one step of the maps.  An adapter's \<^verbatim>\<open>Run\<close> is a tree of callbacks (\<open>behaviour\<close>);
  JSON encoding and the remote executor are parameters (\<open>deps\<close>).
\<close>

subsection \<open>Adapters\<close>

record RunRequest =
  rq_SessionID :: ident
  rq_ExternalSessionID :: string
  rq_UserText :: string
  rq_History :: "ConversationMessage list"
  rq_Target :: ExecutionTarget

datatype behaviour =
    Ret "agent_err option"
  | CheckCtx "agent_err option \<Rightarrow> behaviour"
  | DoReasoning string "agent_err option \<Rightarrow> behaviour"
  | DoText string "agent_err option \<Rightarrow> behaviour"
  | DoState string "agent_err option \<Rightarrow> behaviour"
  | DoExternal string "agent_err option \<Rightarrow> behaviour"
  | DoTool ToolRequest "agent_err + ToolResult \<Rightarrow> behaviour"

record RuntimeSession =
  rs_prepare :: "string \<Rightarrow> agent_err + string"
  rs_prepareForTarget :: "(string \<Rightarrow> ExecutionTarget \<Rightarrow> agent_err + string) option"
  rs_models :: "string \<Rightarrow> agent_err + string"
  rs_select :: "string \<Rightarrow> ModelSelection \<Rightarrow> agent_err + ModelSelection"

record RuntimeConfiguration =
  rc_directory :: "agent_err + string"
  rc_configure :: "RuntimeProviderMutation \<Rightarrow> agent_err option"
  rc_remove :: "string \<Rightarrow> int \<Rightarrow> agent_err option"

record Adapter =
  ad_run :: "RunRequest \<Rightarrow> behaviour"
  ad_preflight :: "(RunRequest \<Rightarrow> agent_err option) option"
  ad_session :: "RuntimeSession option"
  ad_configuration :: "RuntimeConfiguration option"

subsection \<open>State\<close>

record runningTurn =
  rt_deviceID :: ident
  rt_userID :: ident
  rt_canceled :: bool

record pendingDecision =
  pd_sessionID :: ident
  pd_deviceID :: ident
  pd_userID :: ident
  pd_decision :: "string option"   \<comment> \<open>the channel of capacity 1\<close>

record Service =
  adapters :: "string \<rightharpoonup> Adapter"
  provider :: string
  hub :: eventHub
  rootCanceled :: bool
  running :: "ident \<rightharpoonup> runningTurn"
  configuring :: "ident set"
  pending :: "ident \<rightharpoonup> pendingDecision"
  revoked :: "ident \<rightharpoonup> ident"
  archived :: "ident \<rightharpoonup> ident"
  s_shut :: bool
  mutations :: nat
  turns :: nat

record ServiceOptions =
  so_Store :: bool
  so_Adapter :: "Adapter option"
  so_Provider :: string
  so_Executor :: bool
  so_Online :: bool
  so_TurnTimeout :: duration
  so_ApprovalTimeout :: duration
  so_SubscriberBuffer :: int

record shared =
  sh_db :: dbst
  sh_svc :: Service
  sh_mgr :: Manager

record exec_call =
  xc_device :: ident
  xc_target :: ExecutionTarget
  xc_command :: string
  xc_cwd :: string
  xc_timeout :: duration
  xc_shared :: shared              \<comment> \<open>the shared state at the moment of the call\<close>

datatype wait_event = WaitCanceled ctx_err | WaitTimeout | WaitDecision

record world =
  w_sh :: shared
  w_env :: "(shared \<Rightarrow> shared) list"
  w_rand :: string
  w_clock :: "time list"
  w_ctx :: "ctx_err option list"
  w_waits :: "wait_event list"
  w_execs :: "exec_call list"

type_synonym 'a agent = "(world, agent_err, 'a) em"

datatype pval = PS string | PI int | PB bool | PArgs RemoteExecArguments | PFailure "ToolFailure option"
type_synonym payload = "(string \<times> pval) list"

record deps =
  k_marshal :: "payload \<Rightarrow> string option"
  k_marshal_args :: "RemoteExecArguments \<Rightarrow> string option"
  k_decode_args :: "string \<Rightarrow> (raw_arguments \<times> string) option"
  k_audit :: bool                  \<comment> \<open>whether an auditor is configured\<close>
  k_exec :: "nat \<Rightarrow> ident \<Rightarrow> ExecutionTarget \<Rightarrow> string \<Rightarrow> string \<Rightarrow> agent_err + RemoteExecution"
  k_exec_ctx :: "nat \<Rightarrow> ctx_err option"   \<comment> \<open>\<^verbatim>\<open>execCtx.Err()\<close> after a failed call\<close>

subsection \<open>Steps of a call\<close>

definition interfere :: "world \<Rightarrow> world" where
  "interfere w = (case w_env w of [] \<Rightarrow> w | f # fs \<Rightarrow> w\<lparr>w_sh := f (w_sh w), w_env := fs\<rparr>)"

definition on_store :: "'a dbm \<Rightarrow> 'a agent" where
  "on_store m w0 = (let w = interfere w0; sh = w_sh w in
     case m (sh_db sh) of (r, t) \<Rightarrow> (map_sum AgStore id r, w\<lparr>w_sh := sh\<lparr>sh_db := t\<rparr>\<rparr>))"

definition on_svc :: "(Service \<Rightarrow> (agent_err + 'a) \<times> Service) \<Rightarrow> 'a agent" where
  "on_svc f w0 = (let w = interfere w0; sh = w_sh w in
     case f (sh_svc sh) of (r, t) \<Rightarrow> (r, w\<lparr>w_sh := sh\<lparr>sh_svc := t\<rparr>\<rparr>))"

definition on_online :: "ident \<Rightarrow> bool agent" where
  "on_online deviceID w0 = (let w = interfere w0 in (Inr (IsOnline deviceID (sh_mgr (w_sh w))), w))"

definition ctxErr :: "agent_err option agent" where
  "ctxErr w = (case w_ctx w of [] \<Rightarrow> (Inr None, w) | c # cs \<Rightarrow> (Inr (map_option AgCtx c), w\<lparr>w_ctx := cs\<rparr>))"

definition getNow :: "time agent" where
  "getNow w = (case w_clock w of [] \<Rightarrow> (Inr 0, w) | t # ts \<Rightarrow> (Inr t, w\<lparr>w_clock := ts\<rparr>))"

definition newID :: "string \<Rightarrow> ident agent" where
  "newID pre w = (case New pre (w_rand w) of (r, s) \<Rightarrow> (map_sum AgRandom id r, w\<lparr>w_rand := s\<rparr>))"

text \<open>\<^verbatim>\<open>defer\<close>, and a call whose error is handled by a function.\<close>

definition efinally :: "'a agent \<Rightarrow> unit agent \<Rightarrow> 'a agent" where
  "efinally m fin w = (case m w of (r, t) \<Rightarrow> (r, snd (fin t)))"

definition emap_err :: "(agent_err \<Rightarrow> agent_err) \<Rightarrow> 'a agent \<Rightarrow> 'a agent" where
  "emap_err f m w = (case m w of (r, t) \<Rightarrow> (map_sum f id r, t))"

definition from_sum :: "agent_err + 'a \<Rightarrow> 'a agent" where
  "from_sum r w = (r, w)"

definition check :: "agent_err option \<Rightarrow> unit agent" where
  "check e w = (case e of None \<Rightarrow> (Inr (), w) | Some x \<Rightarrow> (Inl x, w))"

definition svc_do :: "(Service \<Rightarrow> Service) \<Rightarrow> unit agent" where
  "svc_do f = on_svc (\<lambda>s. (Inr (), f s))"

subsection \<open>Construction, adapters and shutdown\<close>

definition NewService :: "ServiceOptions \<Rightarrow> agent_err + (Service \<times> duration \<times> duration)" where
  "NewService opt =
     (if \<not> so_Store opt \<or> so_Adapter opt = None \<or> \<not> so_Executor opt \<or> \<not> so_Online opt
      then Inl (AgOther ''agent store, adapter, executor, and online state are required'')
      else let turnTimeout = (if so_TurnTimeout opt \<le> 0 \<or> so_TurnTimeout opt > DefaultTurnTimeout
                then DefaultTurnTimeout else so_TurnTimeout opt);
               approvalTimeout = (if so_ApprovalTimeout opt \<le> 0 \<or> so_ApprovalTimeout opt > DefaultApprovalWait
                then DefaultApprovalWait else so_ApprovalTimeout opt);
               p = (if so_Provider opt = [] then ProviderFake else so_Provider opt)
           in if length p > 64 \<or> \<not> validProvider p then Inl (AgOther ''invalid agent provider'')
              else Inr (\<lparr>adapters = [p \<mapsto> the (so_Adapter opt)], provider = p,
                  hub = newEventHub (so_SubscriberBuffer opt), rootCanceled = False,
                  running = Map.empty, configuring = {}, pending = Map.empty, revoked = Map.empty,
                  archived = Map.empty, s_shut = False, mutations = 0, turns = 0\<rparr>,
                turnTimeout, approvalTimeout))"

definition SetAdapter :: "string \<Rightarrow> Adapter option \<Rightarrow> Service \<Rightarrow> (agent_err + unit) \<times> Service" where
  "SetAdapter p adapter s =
     (if adapter = None \<or> length p > 64 \<or> \<not> validProvider p then (Inl AgInvalidRequest, s)
      else if s_shut s then (Inl AgServiceClosed, s)
      else (Inr (), s\<lparr>adapters := (adapters s)(p := adapter), provider := p\<rparr>))"

definition currentProvider :: "Service \<Rightarrow> (agent_err + string) \<times> Service" where
  "currentProvider s = (if s_shut s then Inl AgServiceClosed else Inr (provider s), s)"

definition adapterForProvider :: "string \<Rightarrow> Service \<Rightarrow> (agent_err + Adapter option) \<times> Service" where
  "adapterForProvider p s = (Inr (adapters s p), s)"

definition beginMutation :: "Service \<Rightarrow> (agent_err + unit) \<times> Service" where
  "beginMutation s = (if s_shut s then (Inl AgServiceClosed, s) else (Inr (), s\<lparr>mutations := Suc (mutations s)\<rparr>))"

definition endMutation :: "Service \<Rightarrow> Service" where
  "endMutation s = s\<lparr>mutations := mutations s - 1\<rparr>"

definition mutating :: "'a agent \<Rightarrow> 'a agent" where
  "mutating body = ethen (on_svc beginMutation) (efinally body (svc_do endMutation))"

text \<open>\<^verbatim>\<open>Close\<close> up to its waits; it returns once both wait groups are at zero.\<close>

definition cancel_turns :: "(runningTurn \<Rightarrow> bool) \<Rightarrow> (ident \<rightharpoonup> runningTurn) \<Rightarrow> (ident \<rightharpoonup> runningTurn)" where
  "cancel_turns p m = (\<lambda>i. map_option (\<lambda>t. if p t then t\<lparr>rt_canceled := True\<rparr> else t) (m i))"

definition Close_begin :: "Service \<Rightarrow> Service" where
  "Close_begin s = (if s_shut s then s
     else s\<lparr>s_shut := True, rootCanceled := True, running := cancel_turns (\<lambda>_. True) (running s),
            hub := hub_close (hub s)\<rparr>)"

definition Close_returns :: "Service \<Rightarrow> bool" where
  "Close_returns s \<longleftrightarrow> s_shut s \<and> mutations s = 0 \<and> turns s = 0"

subsection \<open>Host-level provider configuration\<close>

definition configurator :: "string \<Rightarrow> RuntimeConfiguration agent" where
  "configurator runtime = ebind (on_svc (adapterForProvider runtime)) (\<lambda>adapter. case adapter of
     None \<Rightarrow> ethrow AgNotFound
   | Some a \<Rightarrow> (case ad_configuration a of None \<Rightarrow> ethrow AgNotFound | Some c \<Rightarrow> ereturn c))"

definition get_RuntimeProviderDirectory :: "string \<Rightarrow> string agent" where
  "get_RuntimeProviderDirectory runtime =
     (if length runtime > MaxRuntimeIDBytes \<or> \<not> validProvider runtime then ethrow AgNotFound
      else mutating (ebind (configurator runtime) (\<lambda>c. from_sum (rc_directory c))))"

definition ConfigureRuntimeProvider :: "string \<Rightarrow> RuntimeProviderMutation \<Rightarrow> unit agent" where
  "ConfigureRuntimeProvider runtime mutation =
     (if length runtime > MaxRuntimeIDBytes \<or> \<not> validProvider runtime \<or>
         isl (validateRuntimeProviderMutation mutation) then ethrow AgInvalidRequest
      else mutating (ebind (configurator runtime) (\<lambda>c. check (rc_configure c mutation))))"

definition RemoveRuntimeProvider :: "string \<Rightarrow> string \<Rightarrow> int \<Rightarrow> unit agent" where
  "RemoveRuntimeProvider runtime p expectedRevision =
     (if length runtime > MaxRuntimeIDBytes \<or> \<not> validProvider runtime \<or> length p > MaxProviderIDBytes \<or>
         \<not> validProvider p \<or> expectedRevision < 0 then ethrow AgInvalidRequest
      else mutating (ebind (configurator runtime) (\<lambda>c. check (rc_remove c p expectedRevision))))"

subsection \<open>Events and audit\<close>

definition isRevoked :: "ident \<Rightarrow> bool agent" where
  "isRevoked sessionID = on_svc (\<lambda>s. (Inr (revoked s sessionID \<noteq> None), s))"

definition publish_section :: "Event \<Rightarrow> Service \<Rightarrow> Service" where
  "publish_section e s =
     (if revoked s (ev_SessionID e) \<noteq> None then s
      else if archived s (ev_SessionID e) \<noteq> None then s
      else s\<lparr>hub := hub_publish e (hub s)\<rparr>)"

definition publish :: "deps \<Rightarrow> ident \<Rightarrow> string \<Rightarrow> payload \<Rightarrow> unit agent" where
  "publish k sessionID eventType p =
     ebind (etry (newID ''evt'')) (\<lambda>eventID. case eventID of
       Inl _ \<Rightarrow> ereturn ()
     | Inr i \<Rightarrow> (case k_marshal k p of
         None \<Rightarrow> ereturn ()
       | Some encoded \<Rightarrow> ebind getNow (\<lambda>now.
           let event = \<lparr>ev_ID = i, ev_SessionID = sessionID, ev_CreatedAt = now, ev_Type = eventType,
                 ev_Payload = encoded\<rparr> in
           if \<not> Event_Validate json_Valid event then ereturn ()
           else svc_do (publish_section event))))"

definition audit :: "deps \<Rightarrow> ident \<Rightarrow> ident \<Rightarrow> string \<Rightarrow> payload \<Rightarrow> unit agent" where
  "audit k userID deviceID eventType metadata =
     (if \<not> k_audit k then ereturn ()
      else ebind (etry (newID ''audit'')) (\<lambda>eventID. case eventID of
        Inl _ \<Rightarrow> ereturn ()
      | Inr i \<Rightarrow> (case k_marshal k metadata of
          None \<Rightarrow> ereturn ()
        | Some encoded \<Rightarrow> ebind getNow (\<lambda>now.
            ethen (etry (on_store (CreateAuditEvent \<lparr>ae_id = i, ae_actor_user_id = Some userID,
              ae_device_id = Some deviceID, ae_event_type = eventType, ae_metadata_json = encoded,
              ae_created_at = now\<rparr>))) (ereturn ())))))"

text \<open>Two attempts, as the code has them; \<^verbatim>\<open>ErrNotFound\<close> ends the loop at once.\<close>

fun persist_attempts :: "nat \<Rightarrow> agent_err \<Rightarrow> ident \<Rightarrow> ident \<Rightarrow> string \<Rightarrow> unit agent" where
  "persist_attempts 0 lastErr ownerUserID sessionID state = ethrow lastErr"
| "persist_attempts (Suc n) lastErr ownerUserID sessionID state =
     ebind getNow (\<lambda>now.
     ebind (etry (on_store (UpdateAgentSessionState ownerUserID sessionID state now))) (\<lambda>r. case r of
       Inr _ \<Rightarrow> ereturn ()
     | Inl err \<Rightarrow> if err = AgStore ErrNotFound then ethrow err
                  else persist_attempts n err ownerUserID sessionID state))"

definition persistSessionState :: "ident \<Rightarrow> ident \<Rightarrow> string \<Rightarrow> unit agent" where
  "persistSessionState = persist_attempts 2 (AgOther [])"

definition failTurn :: "deps \<Rightarrow> AgentSession \<Rightarrow> string \<Rightarrow> unit agent" where
  "failTurn k session code =
     ebind (isRevoked (as_id session)) (\<lambda>rev.
     if rev then ereturn ()
     else ebind (etry (persistSessionState (as_user_id session) (as_id session) AgentSessionFailed)) (\<lambda>r.
       case r of
         Inl err \<Rightarrow> if err = AgStore ErrNotFound then ereturn ()
                    else ethen (isRevoked (as_id session)) (ereturn ())
       | Inr _ \<Rightarrow>
           ethen (publish k (as_id session) EventTurnFailed
             [(''code'', PS code), (''message'', PS (safeTurnFailureMessage code))])
           (publish k (as_id session) EventSessionState [(''state'', PS AgentSessionFailed)])))"

subsection \<open>Sessions\<close>

definition mode_ok :: "string \<Rightarrow> bool" where
  "mode_ok m \<longleftrightarrow> \<not> (m \<noteq> AgentApprovalPerCommand \<and> m \<noteq> AgentApprovalFullAccess)"

definition CreateSession :: "deps \<Rightarrow> ident \<Rightarrow> ident \<Rightarrow> string \<Rightarrow> AgentSession agent" where
  "CreateSession k ownerUserID deviceID approvalMode =
     mutating (ebind (on_svc currentProvider) (\<lambda>p.
     ebind (if approvalMode = []
            then ebind (emap_err mapStoreNotFound (on_store (AgentSettingsByOwner ownerUserID)))
                   (\<lambda>settings. ereturn (DefaultApprovalMode settings))
            else ereturn approvalMode) (\<lambda>mode.
     if \<not> mode_ok mode then ethrow AgInvalidRequest
     else ethen (emap_err mapStoreNotFound (on_store (DeviceByOwner ownerUserID deviceID)))
       (ebind (on_online deviceID) (\<lambda>isOn.
        if \<not> isOn then ethrow AgDeviceOffline
        else ebind (newID ''ags'') (\<lambda>sessionID. ebind getNow (\<lambda>now.
          let session = \<lparr>as_id = sessionID, as_user_id = ownerUserID, as_device_id = deviceID,
                as_approval_mode = mode, as_provider = p, as_external_session_id = None,
                as_state = AgentSessionIdle, as_created_at = now, as_updated_at = now,
                as_archived_at = None\<rparr> in
          ethen (emap_err mapStoreNotFound (on_store (CreateAgentSession session)))
          (ethen (audit k ownerUserID deviceID ''agent.session_created''
              [(''session_id'', PS sessionID), (''approval_mode'', PS mode), (''provider'', PS p)])
          (ereturn session)))))))))"

definition Snapshot :: "ident \<Rightarrow> ident \<Rightarrow> AgentSnapshot agent" where
  "Snapshot ownerUserID sessionID = emap_err mapStoreNotFound (on_store (AgentSnapshotByOwner ownerUserID sessionID))"

definition LatestSnapshot :: "ident \<Rightarrow> ident \<Rightarrow> AgentSnapshot agent" where
  "LatestSnapshot ownerUserID deviceID =
     emap_err mapStoreNotFound (on_store (LatestAgentSnapshotByDeviceOwner ownerUserID deviceID))"

definition ListSessions :: "ident \<Rightarrow> ident \<Rightarrow> AgentSessionSummary list agent" where
  "ListSessions ownerUserID deviceID = on_store (RecentAgentSessionsByDeviceOwner ownerUserID deviceID)"

definition ListArchivedSessions :: "ident \<Rightarrow> AgentSessionSummary list agent" where
  "ListArchivedSessions ownerUserID =
     emap_err mapStoreNotFound (on_store (ArchivedAgentSessionsByOwner ownerUserID))"

definition Settings :: "ident \<Rightarrow> AgentSettings agent" where
  "Settings ownerUserID = emap_err mapStoreNotFound (on_store (AgentSettingsByOwner ownerUserID))"

definition UpdateSettings :: "ident \<Rightarrow> string \<Rightarrow> AgentSettings agent" where
  "UpdateSettings ownerUserID approvalMode =
     mutating (if \<not> mode_ok approvalMode then ethrow AgInvalidRequest
       else ebind getNow (\<lambda>now.
         emap_err mapStoreNotFound (on_store (UpdateAgentSettings ownerUserID approvalMode now))))"

text \<open>A conflict in the store means that a turn is in progress.\<close>

definition map_conflict :: "agent_err \<Rightarrow> agent_err" where
  "map_conflict err = (if err = AgStore ErrConflict then AgTurnInProgress else mapStoreNotFound err)"

definition UpdateSessionApprovalMode :: "deps \<Rightarrow> ident \<Rightarrow> ident \<Rightarrow> string \<Rightarrow> AgentSession agent" where
  "UpdateSessionApprovalMode k ownerUserID sessionID approvalMode =
     mutating (if \<not> mode_ok approvalMode then ethrow AgInvalidRequest
       else ebind getNow (\<lambda>now.
         ebind (emap_err map_conflict
           (on_store (UpdateAgentSessionApprovalMode ownerUserID sessionID approvalMode now))) (\<lambda>session.
         ethen (audit k ownerUserID (as_device_id session) ''agent.session_permission_changed''
           [(''session_id'', PS (as_id session)), (''approval_mode'', PS (as_approval_mode session))])
         (ereturn session))))"

definition SetSessionArchived :: "deps \<Rightarrow> ident \<Rightarrow> ident \<Rightarrow> bool \<Rightarrow> AgentSession agent" where
  "SetSessionArchived k ownerUserID sessionID archive =
     mutating (ebind getNow (\<lambda>now.
       ebind (emap_err map_conflict
         (on_store (SetAgentSessionArchived ownerUserID sessionID archive now))) (\<lambda>session.
       ethen (svc_do (\<lambda>s. s\<lparr>archived := (archived s)(as_id session :=
           if archive then Some (as_device_id session) else None)\<rparr>))
       (ethen (if archive then svc_do (\<lambda>s. s\<lparr>hub := closeSession (as_id session) (hub s)\<rparr>) else ereturn ())
       (ethen (audit k ownerUserID (as_device_id session) ''agent.session_archived''
           [(''session_id'', PS (as_id session)), (''archived'', PB archive)])
       (ereturn session))))))"

definition DeleteSession :: "deps \<Rightarrow> ident \<Rightarrow> ident \<Rightarrow> unit agent" where
  "DeleteSession k ownerUserID sessionID =
     mutating (ebind (emap_err map_conflict (on_store (DeleteAgentSessionByOwner ownerUserID sessionID))) (\<lambda>session.
       ethen (svc_do (\<lambda>s. s\<lparr>archived := (archived s)(as_id session := None),
           revoked := (revoked s)(as_id session \<mapsto> as_device_id session)\<rparr>))
       (ethen (svc_do (\<lambda>s. s\<lparr>hub := closeSession (as_id session) (hub s)\<rparr>))
       (audit k ownerUserID (as_device_id session) ''agent.session_deleted'' [(''session_id'', PS (as_id session))]))))"

subsection \<open>Admission of turns and of session configuration\<close>

definition reserveSessionConfiguration :: "ident \<Rightarrow> Service \<Rightarrow> (agent_err + unit) \<times> Service" where
  "reserveSessionConfiguration sessionID s =
     (if s_shut s then (Inl AgServiceClosed, s)
      else if revoked s sessionID \<noteq> None then (Inl AgNotFound, s)
      else if archived s sessionID \<noteq> None then (Inl AgNotFound, s)
      else if running s sessionID \<noteq> None then (Inl AgTurnInProgress, s)
      else if sessionID \<in> configuring s then (Inl AgTurnInProgress, s)
      else (Inr (), s\<lparr>configuring := insert sessionID (configuring s)\<rparr>))"

definition releaseSessionConfiguration :: "ident \<Rightarrow> Service \<Rightarrow> Service" where
  "releaseSessionConfiguration sessionID s = s\<lparr>configuring := configuring s - {sessionID}\<rparr>"

definition reserveTurn :: "AgentSession \<Rightarrow> ident \<Rightarrow> Service \<Rightarrow> (agent_err + unit) \<times> Service" where
  "reserveTurn session ownerUserID s =
     (if s_shut s then (Inl AgServiceClosed, s)
      else if revoked s (as_id session) \<noteq> None then (Inl AgNotFound, s)
      else if archived s (as_id session) \<noteq> None then (Inl AgNotFound, s)
      else if running s (as_id session) \<noteq> None then (Inl AgTurnInProgress, s)
      else if as_id session \<in> configuring s then (Inl AgTurnInProgress, s)
      else (Inr (), s\<lparr>turns := Suc (turns s), running := (running s)(as_id session \<mapsto>
             \<lparr>rt_deviceID = as_device_id session, rt_userID = ownerUserID, rt_canceled = False\<rparr>)\<rparr>))"

definition releaseTurn :: "ident \<Rightarrow> Service \<Rightarrow> Service" where
  "releaseTurn sessionID s = s\<lparr>running := (running s)(sessionID := None),
     pending := (\<lambda>i. case pending s i of None \<Rightarrow> None
       | Some p \<Rightarrow> if pd_sessionID p = sessionID then None else Some p),
     turns := turns s - 1\<rparr>"

definition prepareAdapterSession :: "RuntimeSession \<Rightarrow> string \<Rightarrow> ExecutionTarget \<Rightarrow> agent_err + string" where
  "prepareAdapterSession runtime externalID target = (case rs_prepareForTarget runtime of
     Some f \<Rightarrow> f externalID target | None \<Rightarrow> rs_prepare runtime externalID)"

definition provider_unavailable :: agent_err where
  "provider_unavailable = AgAdapter ''provider_unavailable'' (AgOther ''agent provider is unavailable'')"

definition empty_session_id :: agent_err where
  "empty_session_id = AgAdapter ''protocol_error'' (AgOther ''runtime returned an empty Session ID'')"

definition prepareRuntimeSession :: "ident \<Rightarrow> ident \<Rightarrow> (RuntimeSession \<times> string \<times> ident) agent" where
  "prepareRuntimeSession ownerUserID sessionID =
     ebind (emap_err mapStoreNotFound (on_store (AgentSessionByOwner ownerUserID sessionID))) (\<lambda>session.
     ebind (emap_err mapStoreNotFound (on_store (DeviceByOwner ownerUserID (as_device_id session)))) (\<lambda>device.
     ebind (from_sum (executionTarget (d_platform device) (d_arch device))) (\<lambda>target.
     ebind (on_svc (adapterForProvider (as_provider session))) (\<lambda>adapter. case adapter of
       None \<Rightarrow> ethrow provider_unavailable
     | Some a \<Rightarrow> (case ad_session a of
         None \<Rightarrow> ethrow AgNotFound
       | Some runtime \<Rightarrow>
           ethen (on_svc (reserveSessionConfiguration (as_id session)))
           (let release = svc_do (releaseSessionConfiguration (as_id session));
                externalID = (case as_external_session_id session of None \<Rightarrow> [] | Some x \<Rightarrow> x) in
            case prepareAdapterSession runtime externalID target of
              Inl err \<Rightarrow> ethen release (ethrow err)
            | Inr preparedID \<Rightarrow>
                if preparedID = [] then ethen release (ethrow empty_session_id)
                else if preparedID \<noteq> externalID then
                  ebind getNow (\<lambda>now.
                  ebind (etry (on_store (UpdateAgentExternalSessionID ownerUserID (as_id session) preparedID now)))
                    (\<lambda>r. case r of
                       Inl err \<Rightarrow> ethen release (ethrow (mapStoreNotFound err))
                     | Inr _ \<Rightarrow> ereturn (runtime, preparedID, as_id session)))
                else ereturn (runtime, preparedID, as_id session)))))))"

definition SessionModels :: "ident \<Rightarrow> ident \<Rightarrow> string agent" where
  "SessionModels ownerUserID sessionID =
     mutating (ebind (prepareRuntimeSession ownerUserID sessionID) (\<lambda>(runtime, externalID, sid).
       efinally (from_sum (rs_models runtime externalID)) (svc_do (releaseSessionConfiguration sid))))"

definition SelectSessionModel :: "ident \<Rightarrow> ident \<Rightarrow> ModelSelection \<Rightarrow> ModelSelection agent" where
  "SelectSessionModel ownerUserID sessionID selection =
     (if \<not> validModelSelection selection then ethrow AgInvalidRequest
      else mutating (ebind (prepareRuntimeSession ownerUserID sessionID) (\<lambda>(runtime, externalID, sid).
        efinally (from_sum (rs_select runtime externalID selection)) (svc_do (releaseSessionConfiguration sid)))))"

text \<open>
  \<^verbatim>\<open>StartTurn\<close> returns the stored message together with the turn it starts in the
  background: the session as re-read from the store and the execution target.
\<close>

definition fail_start :: "ident \<Rightarrow> ident \<Rightarrow> agent_err \<Rightarrow> 'a agent" where
  "fail_start ownerUserID sessionID err =
     ebind (isRevoked sessionID) (\<lambda>rev.
     ethen (if rev then ereturn ()
            else ethen (etry (persistSessionState ownerUserID sessionID AgentSessionFailed)) (ereturn ()))
     (ethrow (mapStoreNotFound err)))"

definition prepare_turn :: "ident \<Rightarrow> AgentSession \<Rightarrow> Adapter \<Rightarrow> ExecutionTarget \<Rightarrow> string agent" where
  "prepare_turn ownerUserID session adapter target =
     (let externalID = (case as_external_session_id session of None \<Rightarrow> [] | Some x \<Rightarrow> x) in
      case ad_session adapter of
        None \<Rightarrow> ereturn externalID
      | Some runtime \<Rightarrow>
          ebind (from_sum (prepareAdapterSession runtime externalID target)) (\<lambda>preparedID.
          if preparedID = [] then ethrow empty_session_id
          else if preparedID \<noteq> externalID then
            ebind getNow (\<lambda>now.
            ethen (emap_err mapStoreNotFound
              (on_store (UpdateAgentExternalSessionID ownerUserID (as_id session) preparedID now)))
            (ereturn preparedID))
          else ereturn externalID))"

text \<open>
  The rest of \<^verbatim>\<open>StartTurn\<close> runs with a deferred \<^verbatim>\<open>s.releaseTurn(session.ID)\<close>, which
  reads the variable \<^verbatim>\<open>session\<close> when the function returns.  An error is therefore tagged
  with the value \<^verbatim>\<open>session.ID\<close> has at that moment; the assignment that re-reads the
  session from the store clears it when that read fails.
\<close>

definition tagged :: "ident \<Rightarrow> 'a agent \<Rightarrow> (world, agent_err \<times> ident, 'a) em" where
  "tagged sid m w = (case m w of (Inl e, t) \<Rightarrow> (Inl (e, sid), t) | (Inr x, t) \<Rightarrow> (Inr x, t))"

definition begin_message ::
  "ident \<Rightarrow> AgentSession \<Rightarrow> string \<Rightarrow> (world, agent_err \<times> ident, AgentMessage \<times> AgentSession) em" where
  "begin_message ownerUserID session content =
     ebind (tagged (as_id session) (newID ''msg'')) (\<lambda>messageID.
     ebind (tagged (as_id session) getNow) (\<lambda>now.
     ebind (tagged (as_id session) (etry (on_store (BeginAgentTurn ownerUserID (as_id session) now)))) (\<lambda>begun.
     case begun of
       Inl err \<Rightarrow> tagged (as_id session) (if err = AgStore ErrConflict then ethrow AgTurnInProgress
                  else fail_start ownerUserID (as_id session) err)
     | Inr _ \<Rightarrow>
       ebind (tagged (as_id session) (etry (on_store (AgentSessionByOwner ownerUserID (as_id session))))) (\<lambda>again.
       case again of
         Inl err \<Rightarrow> tagged [] (fail_start ownerUserID (as_id session) err)
       | Inr session' \<Rightarrow>
         let message = \<lparr>am_id = messageID, am_session_id = as_id session', am_role = ''user'',
               am_content = content, am_created_at = now\<rparr> in
         ebind (tagged (as_id session') (etry (on_store (CreateAgentMessage ownerUserID message)))) (\<lambda>stored.
         case stored of
           Inl err \<Rightarrow> tagged (as_id session') (fail_start ownerUserID (as_id session') err)
         | Inr _ \<Rightarrow> ereturn (message, session'))))))"

definition StartTurn ::
  "ident \<Rightarrow> ident \<Rightarrow> string \<Rightarrow> (AgentMessage \<times> AgentSession \<times> ExecutionTarget) agent" where
  "StartTurn ownerUserID sessionID content =
     mutating (ethen (from_sum (validateMessage content))
     (ebind (emap_err mapStoreNotFound (on_store (AgentSessionByOwner ownerUserID sessionID))) (\<lambda>session.
      ebind (on_svc (adapterForProvider (as_provider session))) (\<lambda>adapter. case adapter of
        None \<Rightarrow> ethrow provider_unavailable
      | Some a \<Rightarrow>
        ebind (emap_err mapStoreNotFound (on_store (DeviceByOwner ownerUserID (as_device_id session)))) (\<lambda>device.
        ebind (from_sum (executionTarget (d_platform device) (d_arch device))) (\<lambda>target.
        ethen (on_svc (reserveTurn session ownerUserID))
        (\<lambda>w. case (ebind (tagged (as_id session) (prepare_turn ownerUserID session a target)) (\<lambda>externalSessionID.
               ethen (tagged (as_id session) (case ad_preflight a of
                   None \<Rightarrow> ereturn ()
                 | Some preflight \<Rightarrow> check (preflight \<lparr>rq_SessionID = as_id session,
                     rq_ExternalSessionID = externalSessionID, rq_UserText = content, rq_History = [],
                     rq_Target = target\<rparr>)))
               (begin_message ownerUserID session content))) w of
             (Inl (err, sid), w') \<Rightarrow> (Inl err, snd (svc_do (releaseTurn sid) w'))
           | (Inr (message, session'), w') \<Rightarrow> (Inr (message, session', target), w'))))))))"

subsection \<open>Decisions, subscriptions and revocation\<close>

definition deliver_decision :: "ident \<Rightarrow> ident \<Rightarrow> ident \<Rightarrow> string \<Rightarrow> Service \<Rightarrow> (agent_err + unit) \<times> Service" where
  "deliver_decision ownerUserID sessionID toolCallID decision s =
     (if revoked s sessionID \<noteq> None then (Inl AgNotFound, s)
      else case pending s toolCallID of
        Some p \<Rightarrow> if pd_userID p = ownerUserID \<and> pd_decision p = None
          then (Inr (), s\<lparr>pending := (pending s)(toolCallID \<mapsto> p\<lparr>pd_decision := Some decision\<rparr>)\<rparr>)
          else (Inr (), s)
      | None \<Rightarrow> (Inr (), s))"

definition decide_err :: "agent_err \<Rightarrow> agent_err" where
  "decide_err err = (if err = AgStore ErrNotFound then AgNotFound
     else if err = AgStore ErrConflict then AgInvalidState else err)"

definition Decide :: "deps \<Rightarrow> ident \<Rightarrow> ident \<Rightarrow> string \<Rightarrow> ToolCall agent" where
  "Decide k ownerUserID toolCallID decision =
     mutating (if decision \<noteq> DecisionApproveOnce \<and> decision \<noteq> DecisionApproveSession \<and> decision \<noteq> DecisionDeny
       then ethrow AgInvalidRequest
       else ebind getNow (\<lambda>now.
         ebind (emap_err decide_err
           (on_store (DecideAgentToolCall ownerUserID toolCallID decision now))) (\<lambda>(toolCall, _).
         ethen (on_svc (deliver_decision ownerUserID (tc_session_id toolCall) toolCallID decision))
         (ebind (etry (on_store (AgentSessionByOwner ownerUserID (tc_session_id toolCall)))) (\<lambda>found.
          ethen (case found of
              Inl _ \<Rightarrow> ereturn ()
            | Inr session \<Rightarrow> audit k ownerUserID (as_device_id session) ''agent.tool_decision''
                [(''session_id'', PS (as_id session)), (''tool_call_id'', PS (tc_id toolCall)),
                 (''decision'', PS decision)])
          (ereturn toolCall))))))"

text \<open>One section under \<^verbatim>\<open>Service.mu\<close>, the identifier of the subscription included.\<close>

definition subscribe_section :: "ident \<Rightarrow> nat agent" where
  "subscribe_section sessionID w0 =
     (let w = interfere w0; s = sh_svc (w_sh w) in
      if s_shut s then (Inl AgServiceClosed, w)
      else if revoked s sessionID \<noteq> None then (Inl AgNotFound, w)
      else if archived s sessionID \<noteq> None then (Inl AgNotFound, w)
      else case New ''sub'' (w_rand w) of
        (Inl e, rand) \<Rightarrow> (Inl (AgRandom e), w\<lparr>w_rand := rand\<rparr>)
      | (Inr i, rand) \<Rightarrow> (case subscribe i sessionID (hub s) of (r, h) \<Rightarrow>
          (r, w\<lparr>w_rand := rand, w_sh := (w_sh w)\<lparr>sh_svc := s\<lparr>hub := h\<rparr>\<rparr>\<rparr>)))"

definition Subscribe :: "ident \<Rightarrow> ident \<Rightarrow> nat agent" where
  "Subscribe ownerUserID sessionID =
     ethen (emap_err mapStoreNotFound (on_store (AgentSessionByOwner ownerUserID sessionID)))
       (subscribe_section sessionID)"

definition SubscriberCount :: "Service \<Rightarrow> nat" where
  "SubscriberCount s = countAll (hub s)"

definition IsTurnRunning :: "ident \<Rightarrow> Service \<Rightarrow> bool" where
  "IsTurnRunning sessionID s \<longleftrightarrow> running s sessionID \<noteq> None"

definition CancelDevice :: "ident \<Rightarrow> Service \<Rightarrow> Service" where
  "CancelDevice deviceID s = s\<lparr>running := cancel_turns (\<lambda>t. rt_deviceID t = deviceID) (running s)\<rparr>"

definition cancel_session :: "ident \<Rightarrow> Service \<Rightarrow> Service" where
  "cancel_session sessionID s = s\<lparr>running := (case running s sessionID of None \<Rightarrow> running s
     | Some t \<Rightarrow> (running s)(sessionID \<mapsto> t\<lparr>rt_canceled := True\<rparr>))\<rparr>"

definition MarkDeviceRevoked :: "ident \<Rightarrow> ident list \<Rightarrow> Service \<Rightarrow> Service" where
  "MarkDeviceRevoked deviceID sessionIDs =
     fold (\<lambda>sessionID s. if sessionID \<noteq> []
       then cancel_session sessionID (s\<lparr>revoked := (revoked s)(sessionID \<mapsto> deviceID)\<rparr>) else s) sessionIDs"

text \<open>
  \<^verbatim>\<open>InvalidateDevice\<close> up to its waits gives the sessions whose turns it waits for, out of
  the ones \<open>ids\<close> that may run; \<open>InvalidateDevice_wait\<close> is the outcome of the waits in a state
  of the service, None while it blocks.
\<close>

definition InvalidateDevice :: "ident list \<Rightarrow> ident \<Rightarrow> ident list \<Rightarrow> ident list agent" where
  "InvalidateDevice ids deviceID sessionIDs =
     ethen (svc_do (MarkDeviceRevoked deviceID sessionIDs))
     (ebind (on_svc (\<lambda>s. (Inr (filter (\<lambda>i. running s i \<noteq> None \<and> revoked s i = Some deviceID) ids), s))) (\<lambda>captured.
      ethen (foldr (\<lambda>sessionID m. ethen (svc_do (\<lambda>s. s\<lparr>hub := closeSession sessionID (hub s)\<rparr>)) m)
               sessionIDs (ereturn ()))
      (ethen (svc_do (fold cancel_session captured)) (ereturn captured))))"

definition InvalidateDevice_wait :: "ident list \<Rightarrow> ctx_err option \<Rightarrow> Service \<Rightarrow> (agent_err + unit) option" where
  "InvalidateDevice_wait captured ctx s =
     (if list_all (\<lambda>i. running s i = None) captured then Some (Inr ())
      else map_option (\<lambda>e. Inl (AgCtx e)) ctx)"

end
