(* ===== verification/AgentTurn.thy ===== *)
theory AgentTurn
  imports AgentService Password
begin

text \<open>
  One turn of an agent session: the event sink and the tool invoker that
  \<^verbatim>\<open>internal/agent/service.go\<close> hands to an adapter, the approval and finalization of a
  tool call, \<^verbatim>\<open>runTurn\<close>, and the scripted adapter of \<^verbatim>\<open>fake.go\<close>.  A goroutine that
  blocks for ever on a channel is the outcome \<open>Hangs\<close>.
\<close>

subsection \<open>The event sink\<close>

record turnSink =
  sk_ownerUserID :: ident
  sk_sessionID :: ident
  sk_reasoning :: string
  sk_text :: string
  sk_reasoningStartedAt :: time
  sk_textStartedAt :: time

definition ReasoningDelta :: "deps \<Rightarrow> string \<Rightarrow> turnSink \<Rightarrow> turnSink agent" where
  "ReasoningDelta k delta sink =
     ethen (ebind ctxErr check)
     (if \<not> ValidString delta \<or> length (sk_reasoning sink) + length delta > MaxMessageBytes
      then ethrow AgInvalidRequest
      else ebind (if sk_reasoning sink = [] then getNow else ereturn (sk_reasoningStartedAt sink)) (\<lambda>at.
        ethen (publish k (sk_sessionID sink) EventReasoningDelta [(''delta'', PS delta)])
        (ereturn (sink\<lparr>sk_reasoning := sk_reasoning sink @ delta, sk_reasoningStartedAt := at\<rparr>))))"

definition TextDelta :: "deps \<Rightarrow> string \<Rightarrow> turnSink \<Rightarrow> turnSink agent" where
  "TextDelta k delta sink =
     ethen (ebind ctxErr check)
     (if \<not> ValidString delta then ethrow AgInvalidRequest
      else if length (sk_text sink) + length delta > MaxMessageBytes then ethrow AgInvalidRequest
      else ebind (if sk_text sink = [] then getNow else ereturn (sk_textStartedAt sink)) (\<lambda>at.
        ethen (publish k (sk_sessionID sink) EventTextDelta [(''delta'', PS delta)])
        (ereturn (sink\<lparr>sk_text := sk_text sink @ delta, sk_textStartedAt := at\<rparr>))))"

definition ProviderState :: "deps \<Rightarrow> string \<Rightarrow> turnSink \<Rightarrow> turnSink agent" where
  "ProviderState k state sink =
     ethen (ebind ctxErr check)
     (if length state = 0 \<or> length state > 128 \<or> \<not> ValidString state then ethrow AgInvalidRequest
      else ethen (publish k (sk_sessionID sink) EventSessionState [(''provider_state'', PS state)])
        (ereturn sink))"

definition SetExternalSessionID :: "string \<Rightarrow> turnSink \<Rightarrow> turnSink agent" where
  "SetExternalSessionID externalSessionID sink =
     ethen (ebind ctxErr check)
     (ebind getNow (\<lambda>now.
      ethen (on_store (UpdateAgentExternalSessionID (sk_ownerUserID sink) (sk_sessionID sink) externalSessionID now))
      (ereturn sink)))"

subsection \<open>Finalizing a tool call\<close>

definition lookupTool :: "ident \<Rightarrow> ident \<Rightarrow> ToolCall agent" where
  "lookupTool ownerUserID toolCallID = on_store (AgentToolCallByOwner ownerUserID toolCallID)"

definition terminalToolStatus :: "string \<Rightarrow> bool" where
  "terminalToolStatus status \<longleftrightarrow>
     status = ToolCallCompleted \<or> status = ToolCallDenied \<or> status = ToolCallFailed"

text \<open>The result of \<^verbatim>\<open>finishTool\<close>: a status, empty when none is known, and an error.\<close>

type_synonym finish_result = "string \<times> agent_err option"

fun abort_attempts :: "nat \<Rightarrow> agent_err \<Rightarrow> ident \<Rightarrow> ident \<Rightarrow> string
    \<Rightarrow> (finish_result option \<times> agent_err) agent" where
  "abort_attempts 0 abortErr userID toolCallID excerpt = ereturn (None, abortErr)"
| "abort_attempts (Suc n) abortErr userID toolCallID excerpt =
     ebind getNow (\<lambda>now.
     ebind (etry (on_store (FailPendingAgentToolCall userID toolCallID excerpt now))) (\<lambda>r. case r of
       Inr (FailedNow _) \<Rightarrow> ereturn (Some (ToolCallFailed, None), abortErr)
     | Inr (FailConflict toolCall) \<Rightarrow>
         if terminalToolStatus (tc_status toolCall) then
           (if tc_status toolCall = ToolCallFailed then ereturn (Some (ToolCallFailed, None), abortErr)
            else ereturn (Some (tc_status toolCall,
              Some (AgOther ''tool terminal state changed before failure finalization'')), abortErr))
         else if tc_status toolCall = ToolCallStarted \<or> tc_decision toolCall \<noteq> None
         then ereturn (None, abortErr)
         else abort_attempts n (AgStore ErrConflict) userID toolCallID excerpt
     | Inl err \<Rightarrow> abort_attempts n err userID toolCallID excerpt))"

definition finish_call :: "ident \<Rightarrow> ident \<Rightarrow> string \<Rightarrow> int option \<Rightarrow> string \<Rightarrow> unit agent" where
  "finish_call userID toolCallID status code v = ebind getNow (\<lambda>now.
     on_store (FinishAgentToolCall userID toolCallID status code (Some v) now))"

text \<open>\<^verbatim>\<open>reconcile\<close>: the row if it is terminal.\<close>

definition reconcile :: "ident \<Rightarrow> ident \<Rightarrow> ToolCall option agent" where
  "reconcile userID toolCallID = ebind (etry (lookupTool userID toolCallID)) (\<lambda>r. case r of
     Inl _ \<Rightarrow> ereturn None
   | Inr t \<Rightarrow> ereturn (if terminalToolStatus (tc_status t) then Some t else None))"

fun finish_attempts :: "nat \<Rightarrow> agent_err \<Rightarrow> ident \<Rightarrow> ident \<Rightarrow> string \<Rightarrow> int option \<Rightarrow> string
    \<Rightarrow> (finish_result option \<times> agent_err) agent" where
  "finish_attempts 0 lastErr userID toolCallID desired code excerpt = ereturn (None, lastErr)"
| "finish_attempts (Suc n) lastErr userID toolCallID desired code excerpt =
     ebind (etry (finish_call userID toolCallID desired code excerpt)) (\<lambda>r. case r of
       Inr _ \<Rightarrow> ereturn (Some (desired, None), lastErr)
     | Inl err \<Rightarrow> ebind (reconcile userID toolCallID) (\<lambda>found. case found of
         Some t \<Rightarrow> if tc_status t = desired then ereturn (Some (desired, None), err)
           else ereturn (Some (tc_status t, Some (AgOther ''tool terminal state changed before finalization'')), err)
       | None \<Rightarrow> finish_attempts n err userID toolCallID desired code excerpt))"

fun compensate :: "nat \<Rightarrow> agent_err \<Rightarrow> ident \<Rightarrow> ident \<Rightarrow> (finish_result option \<times> agent_err) agent" where
  "compensate 0 lastErr userID toolCallID = ereturn (None, lastErr)"
| "compensate (Suc n) lastErr userID toolCallID =
     ebind (etry (finish_call userID toolCallID ToolCallFailed None ''tool finalization persistence failed'')) (\<lambda>r.
     case r of
       Inr _ \<Rightarrow> ereturn (Some (ToolCallFailed, Some (AgWrap ''tool finalization compensated'' lastErr)), lastErr)
     | Inl err \<Rightarrow> ebind (reconcile userID toolCallID) (\<lambda>found. case found of
         Some t \<Rightarrow> ereturn (Some (tc_status t, Some (AgWrap ''tool finalization reconciled'' err)), err)
       | None \<Rightarrow> compensate n err userID toolCallID))"

definition finish_final :: "ident \<Rightarrow> ident \<Rightarrow> string \<Rightarrow> int option \<Rightarrow> string \<Rightarrow> finish_result agent" where
  "finish_final userID toolCallID desired exitCode excerpt =
     ebind (finish_attempts 2 (AgOther []) userID toolCallID desired exitCode excerpt) (\<lambda>(fin, lastErr).
     case fin of
       Some f \<Rightarrow> ereturn f
     | None \<Rightarrow>
         ebind (if desired \<noteq> ToolCallFailed then compensate 2 lastErr userID toolCallID
                else ereturn (None, lastErr)) (\<lambda>(fin, lastErr).
         case fin of
           Some f \<Rightarrow> ereturn f
         | None \<Rightarrow> ereturn ([], Some (AgWrap ''tool terminal persistence failed'' lastErr))))"

definition finishTool :: "AgentSession \<Rightarrow> ident \<Rightarrow> string \<Rightarrow> int option \<Rightarrow> string \<Rightarrow> finish_result agent" where
  "finishTool session toolCallID desired exitCode excerpt =
     (let userID = as_user_id session in
      if desired = ToolCallFailed then
        ebind (abort_attempts 2 (AgOther []) userID toolCallID excerpt) (\<lambda>(fin, abortErr).
        case fin of
          Some f \<Rightarrow> ereturn f
        | None \<Rightarrow> ebind (etry (lookupTool userID toolCallID)) (\<lambda>found. case found of
            Inr t \<Rightarrow> if tc_status t = ToolCallPending \<and> tc_decision t = None
              then ereturn ([], Some (AgWrap ''atomic pending-tool failure persistence failed'' abortErr))
              else finish_final userID toolCallID desired exitCode excerpt
          | Inl _ \<Rightarrow> finish_final userID toolCallID desired exitCode excerpt))
      else finish_final userID toolCallID desired exitCode excerpt)"

subsection \<open>Waiting for a decision\<close>

datatype install = Installed | InstallFailed agent_err | InstallHangs

definition install_section :: "AgentSession \<Rightarrow> ident \<Rightarrow> Service \<Rightarrow> (agent_err + unit) \<times> Service" where
  "install_section session toolCallID s =
     (if s_shut s then (Inl AgServiceClosed, s)
      else if revoked s (as_id session) \<noteq> None then (Inl AgNotFound, s)
      else (Inr (), s\<lparr>pending := (pending s)(toolCallID \<mapsto> \<lparr>pd_sessionID = as_id session,
             pd_deviceID = as_device_id session, pd_userID = as_user_id session, pd_decision = None\<rparr>)\<rparr>))"

definition drop_pending :: "ident \<Rightarrow> Service \<Rightarrow> Service" where
  "drop_pending toolCallID s = s\<lparr>pending := (pending s)(toolCallID := None)\<rparr>"

text \<open>
  The blocking send of a decision that is already recorded: the channel holds one value, so
  a concurrent \<^verbatim>\<open>Decide\<close> that has delivered first makes it block, and nobody receives yet.
\<close>

definition send_recorded :: "ident \<Rightarrow> string \<Rightarrow> Service \<Rightarrow> (agent_err + install) \<times> Service" where
  "send_recorded toolCallID decision s = (case pending s toolCallID of
     Some p \<Rightarrow> if pd_decision p \<noteq> None then (Inr InstallHangs, s)
       else (Inr Installed, s\<lparr>pending := (pending s)(toolCallID \<mapsto> p\<lparr>pd_decision := Some decision\<rparr>)\<rparr>)
   | None \<Rightarrow> (Inr Installed, s))"

definition installPending :: "AgentSession \<Rightarrow> ident \<Rightarrow> install agent" where
  "installPending session toolCallID =
     ebind (etry (on_svc (install_section session toolCallID))) (\<lambda>r. case r of
       Inl err \<Rightarrow> ereturn (InstallFailed err)
     | Inr _ \<Rightarrow> ebind (etry (lookupTool (as_user_id session) toolCallID)) (\<lambda>found. case found of
         Inl err \<Rightarrow> ethen (svc_do (drop_pending toolCallID)) (ereturn (InstallFailed err))
       | Inr toolCall \<Rightarrow> (case tc_decision toolCall of
           None \<Rightarrow> ereturn Installed
         | Some d \<Rightarrow> on_svc (send_recorded toolCallID d))))"

fun abort_pending :: "nat \<Rightarrow> agent_err \<Rightarrow> ident \<Rightarrow> ident \<Rightarrow> agent_err \<Rightarrow> string agent" where
  "abort_pending 0 lastErr userID toolCallID cause = ethrow (AgWrap ''persist approval abort'' lastErr)"
| "abort_pending (Suc n) lastErr userID toolCallID cause =
     ebind getNow (\<lambda>now.
     ebind (etry (on_store (FailPendingAgentToolCall userID toolCallID
       ''approval timed out or was canceled'' now))) (\<lambda>r. case r of
       Inr (FailedNow _) \<Rightarrow> ethrow cause
     | Inr (FailConflict toolCall) \<Rightarrow>
         if tc_status toolCall = ToolCallPending \<and> tc_decision toolCall \<noteq> None
         then ereturn (the (tc_decision toolCall))
         else if tc_status toolCall = ToolCallFailed then ethrow cause
         else ethrow AgInvalidState
     | Inl err \<Rightarrow> abort_pending n err userID toolCallID cause))"

definition resolvePendingAbort :: "AgentSession \<Rightarrow> ident \<Rightarrow> agent_err \<Rightarrow> string agent" where
  "resolvePendingAbort session toolCallID cause =
     abort_pending 2 (AgOther []) (as_user_id session) toolCallID cause"

text \<open>The \<^verbatim>\<open>select\<close>: what happens first; an empty channel waits until the timer fires.\<close>

definition await_decision :: "ident \<Rightarrow> (agent_err + string) agent" where
  "await_decision toolCallID w0 =
     (let w = interfere w0; s = sh_svc (w_sh w);
          (ev, rest) = (case w_waits w of [] \<Rightarrow> (WaitTimeout, []) | x # xs \<Rightarrow> (x, xs));
          w' = w\<lparr>w_waits := rest\<rparr>
      in case ev of
        WaitCanceled e \<Rightarrow> (Inr (Inl (AgCtx e)), w')
      | WaitTimeout \<Rightarrow> (Inr (Inl AgApprovalTimeout), w')
      | WaitDecision \<Rightarrow> (case pending s toolCallID of
          Some p \<Rightarrow> (case pd_decision p of
            Some d \<Rightarrow> (Inr (Inr d), w'\<lparr>w_sh := (w_sh w')\<lparr>sh_svc :=
              s\<lparr>pending := (pending s)(toolCallID \<mapsto> p\<lparr>pd_decision := None\<rparr>)\<rparr>\<rparr>\<rparr>)
          | None \<Rightarrow> (Inr (Inl AgApprovalTimeout), w'))
        | None \<Rightarrow> (Inr (Inl AgApprovalTimeout), w')))"

definition wait_body :: "deps \<Rightarrow> AgentSession \<Rightarrow> ident \<Rightarrow> string agent" where
  "wait_body k session toolCallID =
     ebind getNow (\<lambda>now.
     ebind (etry (on_store (UpdateAgentSessionState (as_user_id session) (as_id session)
         AgentSessionWaitingApproval now))) (\<lambda>r. case r of
       Inl err \<Rightarrow> resolvePendingAbort session toolCallID err
     | Inr _ \<Rightarrow>
       ethen (publish k (as_id session) EventSessionState [(''state'', PS AgentSessionWaitingApproval)])
       (ebind (await_decision toolCallID) (\<lambda>got. case got of
          Inl cause \<Rightarrow> resolvePendingAbort session toolCallID cause
        | Inr decision \<Rightarrow>
            ebind (lookupTool (as_user_id session) toolCallID) (\<lambda>toolCall.
            if tc_status toolCall \<noteq> ToolCallPending \<or> tc_decision toolCall \<noteq> Some decision
            then ethrow AgInvalidState
            else ebind getNow (\<lambda>now.
              ethen (on_store (UpdateAgentSessionState (as_user_id session) (as_id session)
                AgentSessionRunning now))
              (ethen (publish k (as_id session) EventSessionState [(''state'', PS AgentSessionRunning)])
              (ereturn decision))))))))"

definition waitForDecision :: "deps \<Rightarrow> AgentSession \<Rightarrow> ident \<Rightarrow> string agent" where
  "waitForDecision k session toolCallID =
     efinally (wait_body k session toolCallID) (svc_do (drop_pending toolCallID))"

subsection \<open>Executing a command\<close>

definition failure :: "string \<Rightarrow> string \<Rightarrow> ToolResult" where
  "failure code message = zeroToolResult\<lparr>to_Failure := Some \<lparr>tf_Code = code, tf_Message = message\<rparr>\<rparr>"

text \<open>\<^verbatim>\<open>ctx.Err() != nil || s.isRevoked\<close>: the error, \<^verbatim>\<open>context.Canceled\<close> for a revoked session.\<close>

definition stopped :: "ident \<Rightarrow> agent_err option agent" where
  "stopped sessionID = ebind ctxErr (\<lambda>err. case err of
     Some e \<Rightarrow> ereturn (Some e)
   | None \<Rightarrow> ebind (isRevoked sessionID) (\<lambda>rev. ereturn (if rev then Some (AgCtx Canceled) else None)))"

definition exec_failure_code :: "agent_err \<Rightarrow> ctx_err option \<Rightarrow> string" where
  "exec_failure_code err execCtx =
     (if err_is err (AgCtx DeadlineExceeded) \<or> execCtx = Some DeadlineExceeded then FailureExecTimeout
      else if err_is err (AgCtx Canceled) \<or> execCtx = Some Canceled then FailureExecCanceled
      else case as_execution err of
        Some code \<Rightarrow> if code \<noteq> [] then stableFailureCode code else FailureExecTransport
      | None \<Rightarrow> FailureExecTransport)"

definition Exec :: "deps \<Rightarrow> AgentSession \<Rightarrow> ExecutionTarget \<Rightarrow> RemoteExecArguments \<Rightarrow>
    (nat \<times> (agent_err + RemoteExecution)) agent" where
  "Exec k session target arguments w0 =
     (let w = interfere w0; n = length (w_execs w) in
      (Inr (n, k_exec k n (as_device_id session) target (ra_Command arguments) (ra_CWD arguments)),
       w\<lparr>w_execs := w_execs w @ [\<lparr>xc_device = as_device_id session, xc_target = target,
          xc_command = ra_Command arguments, xc_cwd = ra_CWD arguments,
          xc_timeout = ra_TimeoutMS arguments * millisecond, xc_shared = w_sh w\<rparr>]\<rparr>))"

definition execute :: "deps \<Rightarrow> AgentSession \<Rightarrow> ExecutionTarget \<Rightarrow> RemoteExecArguments \<Rightarrow>
    (ToolResult \<times> agent_err option) agent" where
  "execute k session target arguments =
     ebind (stopped (as_id session)) (\<lambda>stop. case stop of
       Some err \<Rightarrow> ereturn (failure FailureExecCanceled ''remote execution canceled'', Some err)
     | None \<Rightarrow>
     ebind (etry (on_store (DeviceByOwner (as_user_id session) (as_device_id session)))) (\<lambda>device. case device of
       Inl _ \<Rightarrow> ereturn (failure FailureDeviceNotFound ''device not found'', Some AgNotFound)
     | Inr _ \<Rightarrow>
     ebind (on_online (as_device_id session)) (\<lambda>isOn.
     if \<not> isOn then ereturn (failure FailureDeviceOffline ''device is offline'', Some AgDeviceOffline)
     else ebind (stopped (as_id session)) (\<lambda>stop. case stop of
       Some err \<Rightarrow> ereturn (failure FailureExecCanceled ''remote execution canceled'', Some err)
     | None \<Rightarrow>
     ebind (Exec k session target arguments) (\<lambda>(n, out). case out of
       Inl err \<Rightarrow> ereturn (failure (exec_failure_code err (k_exec_ctx k n)) ''remote execution failed'', Some err)
     | Inr execution \<Rightarrow>
         (case truncateOutput (re_Stdout execution) (re_Stderr execution) MaxToolOutputBytes of
            (stdout, stderr, truncated) \<Rightarrow> ereturn (zeroToolResult\<lparr>to_Stdout := stdout, to_Stderr := stderr,
              to_ExitCode := re_ExitCode execution, to_Truncated := truncated\<rparr>, None)))))))"

subsection \<open>The tool invoker\<close>

text \<open>
  Finalizing a call that does not run to completion: the terminal event is published when
  the status is known, and an error of the finalization takes precedence.
\<close>

definition close_tool :: "deps \<Rightarrow> AgentSession \<Rightarrow> ident \<Rightarrow> string \<Rightarrow> string \<Rightarrow> payload \<Rightarrow>
    (bool \<times> agent_err option) agent" where
  "close_tool k session toolCallID desired excerpt extra =
     ebind (finishTool session toolCallID desired None excerpt) (\<lambda>(terminalStatus, terminalErr).
     ethen (if terminalStatus \<noteq> [] then publish k (as_id session) EventToolCompleted
              ([(''tool_call_id'', PS toolCallID), (''status'', PS terminalStatus)] @ extra)
            else ereturn ())
     (ereturn (terminalStatus \<noteq> [], terminalErr)))"

definition denial :: ToolFailure where
  "denial = \<lparr>tf_Code = FailureCommandDenied, tf_Message = ''command denied by user''\<rparr>"

definition tool_audit :: "deps \<Rightarrow> AgentSession \<Rightarrow> string \<Rightarrow> payload \<Rightarrow> unit agent" where
  "tool_audit k session eventType metadata =
     audit k (as_user_id session) (as_device_id session) eventType ((''session_id'', PS (as_id session)) # metadata)"

datatype admission =
    Hang
  | Denied ToolResult
  | Approved AgentSession

definition approve_call :: "deps \<Rightarrow> AgentSession \<Rightarrow> ident \<Rightarrow> RemoteExecArguments \<Rightarrow> admission agent" where
  "approve_call k session toolCallID arguments =
     ebind (installPending session toolCallID) (\<lambda>installed. case installed of
       InstallHangs \<Rightarrow> ereturn Hang
     | InstallFailed err \<Rightarrow>
         ebind (close_tool k session toolCallID ToolCallFailed ''tool approval registration failed'' [])
           (\<lambda>(_, terminalErr). ethen (check terminalErr) (ethrow err))
     | Installed \<Rightarrow>
       ethen (publish k (as_id session) EventToolPending
         [(''tool_call_id'', PS toolCallID), (''name'', PS ToolRemoteExec), (''arguments'', PArgs arguments)])
       (ebind (etry (waitForDecision k session toolCallID)) (\<lambda>waited. case waited of
          Inl err \<Rightarrow>
            ebind (close_tool k session toolCallID ToolCallFailed ''approval timed out or was canceled'' [])
              (\<lambda>(known, terminalErr).
              ethen (if known then tool_audit k session ''agent.tool_failed''
                       [(''tool_call_id'', PS toolCallID), (''code'', PS (if err_is err (AgCtx Canceled)
                          then FailureExecCanceled else FailureApprovalTimeout))]
                     else ereturn ())
              (ethen (check terminalErr) (ethrow err)))
        | Inr decision \<Rightarrow>
            if decision = DecisionDeny then
              ebind (close_tool k session toolCallID ToolCallDenied FailureCommandDenied
                  [(''denied'', PB True), (''failure'', PFailure (Some denial))]) (\<lambda>(_, terminalErr).
              ethen (check terminalErr)
              (ethen (tool_audit k session ''agent.tool_failed''
                  [(''tool_call_id'', PS toolCallID), (''code'', PS FailureCommandDenied)])
              (ereturn (Denied (zeroToolResult\<lparr>to_ToolCallID := toolCallID, to_Denied := True,
                  to_Failure := Some denial\<rparr>)))))
            else ebind (etry (on_store (StartAgentToolCall (as_user_id session) toolCallID))) (\<lambda>startedCall.
              case startedCall of
                Inl err \<Rightarrow>
                  ebind (close_tool k session toolCallID ToolCallFailed ''tool start failed'' []) (\<lambda>(_, terminalErr).
                  ethen (check terminalErr) (ethrow err))
              | Inr _ \<Rightarrow> ereturn (Approved (if decision = DecisionApproveSession
                  then session\<lparr>as_approval_mode := AgentApprovalFullAccess\<rparr> else session))))))"

text \<open>The call after its admission: execution, finalization and the terminal events.\<close>

definition run_call :: "deps \<Rightarrow> ExecutionTarget \<Rightarrow> AgentSession \<Rightarrow> ident \<Rightarrow> RemoteExecArguments \<Rightarrow> ToolResult agent" where
  "run_call k target session toolCallID arguments =
     ethen (publish k (as_id session) EventToolStarted
       [(''tool_call_id'', PS toolCallID), (''name'', PS ToolRemoteExec), (''arguments'', PArgs arguments)])
     (ebind (execute k session target arguments) (\<lambda>(result0, execErr).
      let result = result0\<lparr>to_ToolCallID := toolCallID\<rparr>; excerpt = outputExcerpt result in
      case execErr of
        Some err \<Rightarrow>
          ebind (close_tool k session toolCallID ToolCallFailed excerpt
             [(''stdout'', PS (to_Stdout result)), (''stderr'', PS (to_Stderr result)),
              (''exit_code'', PI (to_ExitCode result)), (''truncated'', PB (to_Truncated result)),
              (''denied'', PB (to_Denied result)), (''failure'', PFailure (to_Failure result))]) (\<lambda>(_, terminalErr).
          ethen (check terminalErr)
          (ethen (tool_audit k session ''agent.tool_failed'' [(''tool_call_id'', PS toolCallID),
              (''code'', PS (case to_Failure result of None \<Rightarrow> FailureExecTransport | Some f \<Rightarrow> tf_Code f))])
          (if to_Failure result \<noteq> None
           then ebind ctxErr (\<lambda>c. if c = None then ereturn result else ethrow err)
           else ethrow err)))
      | None \<Rightarrow>
          ebind (finishTool session toolCallID ToolCallCompleted (Some (to_ExitCode result)) excerpt)
            (\<lambda>(terminalStatus, terminalErr).
          case terminalErr of
            Some err \<Rightarrow>
              ethen (if terminalStatus \<noteq> [] then publish k (as_id session) EventToolCompleted
                       [(''tool_call_id'', PS toolCallID), (''status'', PS terminalStatus)]
                     else ereturn ()) (ethrow err)
          | None \<Rightarrow>
              ethen (publish k (as_id session) EventToolOutput
                [(''tool_call_id'', PS toolCallID), (''stdout'', PS (to_Stdout result)),
                 (''stderr'', PS (to_Stderr result)), (''exit_code'', PI (to_ExitCode result)),
                 (''truncated'', PB (to_Truncated result))])
              (ethen (publish k (as_id session) EventToolCompleted
                [(''tool_call_id'', PS toolCallID), (''status'', PS ToolCallCompleted),
                 (''exit_code'', PI (to_ExitCode result))])
              (ethen (tool_audit k session ''agent.tool_completed'' [(''tool_call_id'', PS toolCallID),
                 (''exit_code'', PI (to_ExitCode result)), (''truncated'', PB (to_Truncated result))])
              (ereturn result))))))"

text \<open>The checks before the tool call is stored, and the stored call.\<close>

definition create_call :: "deps \<Rightarrow> AgentSession \<Rightarrow> ToolRequest \<Rightarrow> (ident \<times> RemoteExecArguments \<times> string) agent" where
  "create_call k session request =
     ethen (ebind ctxErr check) (ethen (ebind ctxErr check)
     (if tr_Name request \<noteq> ToolRemoteExec then ethrow AgInvalidTool
      else ebind (from_sum (parseRemoteExecArguments (k_decode_args k) (tr_Arguments request))) (\<lambda>arguments.
      ebind (newID ''tool'') (\<lambda>toolCallID.
      case k_marshal_args k arguments of
        None \<Rightarrow> ethrow AgEncode
      | Some argumentsJSON \<Rightarrow> ebind getNow (\<lambda>now.
          let status = (if as_approval_mode session = AgentApprovalPerCommand then ToolCallPending else ToolCallStarted) in
          ethen (on_store (CreateAgentToolCall (as_user_id session) \<lparr>tc_id = toolCallID,
            tc_session_id = as_id session, tc_name = ToolRemoteExec, tc_arguments_json = argumentsJSON,
            tc_status = status, tc_decision = None, tc_exit_code = None, tc_output_excerpt = None,
            tc_created_at = now, tc_completed_at = None\<rparr>))
          (ereturn (toolCallID, arguments, status)))))))"

datatype invoke_out = Hangs | Returned "agent_err + ToolResult"

definition admit_call :: "deps \<Rightarrow> AgentSession \<Rightarrow> ToolRequest \<Rightarrow> (admission \<times> ident \<times> RemoteExecArguments) agent" where
  "admit_call k session request =
     ebind (create_call k session request) (\<lambda>(toolCallID, arguments, status).
     if status = ToolCallPending
     then ebind (approve_call k session toolCallID arguments) (\<lambda>adm. ereturn (adm, toolCallID, arguments))
     else ereturn (Approved session, toolCallID, arguments))"

definition Invoke :: "deps \<Rightarrow> ExecutionTarget \<Rightarrow> AgentSession \<Rightarrow> ToolRequest \<Rightarrow> (invoke_out \<times> AgentSession) agent" where
  "Invoke k target session request =
     ebind (etry (admit_call k session request)) (\<lambda>admitted. case admitted of
       Inl err \<Rightarrow> ereturn (Returned (Inl err), session)
     | Inr (Hang, _) \<Rightarrow> ereturn (Hangs, session)
     | Inr (Denied result, _) \<Rightarrow> ereturn (Returned (Inr result), session)
     | Inr (Approved session', toolCallID, arguments) \<Rightarrow>
         ebind (etry (run_call k target session' toolCallID arguments)) (\<lambda>r. ereturn (Returned r, session')))"

subsection \<open>A turn\<close>

definition sink_call :: "(turnSink \<Rightarrow> turnSink agent) \<Rightarrow> turnSink \<Rightarrow> (agent_err option \<times> turnSink) agent" where
  "sink_call f sink = ebind (etry (f sink)) (\<lambda>r. case r of
     Inl err \<Rightarrow> ereturn (Some err, sink) | Inr sink' \<Rightarrow> ereturn (None, sink'))"

text \<open>An adapter at work; None when one of its tool calls never returns.\<close>

primrec run_adapter :: "behaviour \<Rightarrow> deps \<Rightarrow> ExecutionTarget \<Rightarrow> AgentSession \<Rightarrow> turnSink \<Rightarrow>
    (agent_err option option \<times> turnSink) agent" where
  "run_adapter (Ret err) k target session sink = ereturn (Some err, sink)"
| "run_adapter (CheckCtx c) k target session sink =
     ebind ctxErr (\<lambda>err. run_adapter (c err) k target session sink)"
| "run_adapter (DoReasoning delta c) k target session sink =
     ebind (sink_call (ReasoningDelta k delta) sink) (\<lambda>(err, sink). run_adapter (c err) k target session sink)"
| "run_adapter (DoText delta c) k target session sink =
     ebind (sink_call (TextDelta k delta) sink) (\<lambda>(err, sink). run_adapter (c err) k target session sink)"
| "run_adapter (DoState state c) k target session sink =
     ebind (sink_call (ProviderState k state) sink) (\<lambda>(err, sink). run_adapter (c err) k target session sink)"
| "run_adapter (DoExternal x c) k target session sink =
     ebind (sink_call (SetExternalSessionID x) sink) (\<lambda>(err, sink). run_adapter (c err) k target session sink)"
| "run_adapter (DoTool request c) k target session sink =
     ebind (Invoke k target session request) (\<lambda>(out, session). case out of
       Hangs \<Rightarrow> ereturn (None, sink)
     | Returned r \<Rightarrow> run_adapter (c r) k target session sink)"

definition persist_message :: "AgentSession \<Rightarrow> string \<Rightarrow> string \<Rightarrow> time \<Rightarrow> unit agent" where
  "persist_message session role content createdAt =
     (if content = [] then ereturn ()
      else ebind (newID ''msg'') (\<lambda>messageID.
        ebind (if createdAt = zeroTime then getNow else ereturn createdAt) (\<lambda>at.
        on_store (CreateAgentMessage (as_user_id session) \<lparr>am_id = messageID, am_session_id = as_id session,
          am_role = role, am_content = content, am_created_at = at\<rparr>))))"

definition persistTurnTranscript :: "AgentSession \<Rightarrow> turnSink \<Rightarrow> unit agent" where
  "persistTurnTranscript session sink =
     ebind getNow (\<lambda>completedAt.
     ethen (persist_message session ''reasoning'' (sk_reasoning sink) (sk_reasoningStartedAt sink))
     (persist_message session ''assistant'' (sk_text sink) completedAt))"

definition turn_failure_code :: "agent_err \<Rightarrow> string" where
  "turn_failure_code err =
     (if err_is err (AgCtx DeadlineExceeded) then FailureExecTimeout
      else if err_is err (AgCtx Canceled) then FailureExecCanceled
      else if err_is err AgApprovalTimeout then FailureApprovalTimeout
      else if err_is err AgDeviceOffline then FailureDeviceOffline
      else case as_adapter err of Some code \<Rightarrow> safeAdapterFailureCode code | None \<Rightarrow> FailureExecTransport)"

definition end_turn :: "deps \<Rightarrow> AgentSession \<Rightarrow> turnSink \<Rightarrow> agent_err option \<Rightarrow> unit agent" where
  "end_turn k session sink runErr =
     ebind (case runErr of None \<Rightarrow> ctxErr | Some e \<Rightarrow> ereturn (Some e)) (\<lambda>err.
     ebind (etry (persistTurnTranscript session sink)) (\<lambda>stored. case stored of
       Inl _ \<Rightarrow> failTurn k session ''PERSISTENCE_FAILURE''
     | Inr _ \<Rightarrow>
       ethen (if sk_reasoning sink \<noteq> [] then publish k (as_id session) EventReasoningDone [(''text'', PS (sk_reasoning sink))] else ereturn ())
       (ethen (if sk_text sink \<noteq> [] then publish k (as_id session) EventTextDone [(''text'', PS (sk_text sink))] else ereturn ())
       (case err of
          Some e \<Rightarrow> failTurn k session (turn_failure_code e)
        | None \<Rightarrow>
            ebind (etry (persistSessionState (as_user_id session) (as_id session) AgentSessionIdle)) (\<lambda>idle. case idle of
              Inl e \<Rightarrow> if e = AgStore ErrNotFound then ereturn () else failTurn k session ''PERSISTENCE_FAILURE''
            | Inr _ \<Rightarrow>
                ethen (publish k (as_id session) EventTurnCompleted [(''state'', PS ''completed'')])
                (publish k (as_id session) EventSessionState [(''state'', PS AgentSessionIdle)]))))))"

text \<open>\<^verbatim>\<open>runTurn\<close>; False when the turn hangs, in which case its deferred release never runs.\<close>

definition turn_body :: "deps \<Rightarrow> AgentSession \<Rightarrow> AgentMessage \<Rightarrow> ExecutionTarget \<Rightarrow> bool agent" where
  "turn_body k session message target =
     ethen (publish k (as_id session) EventSessionState [(''state'', PS AgentSessionRunning)])
     (ebind (on_svc (adapterForProvider (as_provider session))) (\<lambda>adapter. case adapter of
        None \<Rightarrow> ethen (failTurn k session ''provider_unavailable'') (ereturn True)
      | Some a \<Rightarrow>
        ebind (etry (on_store (AgentSnapshotByOwner (as_user_id session) (as_id session)))) (\<lambda>snap. case snap of
          Inl _ \<Rightarrow> ebind (isRevoked (as_id session)) (\<lambda>rev.
            ethen (if rev then ereturn () else failTurn k session ''PERSISTENCE_FAILURE'') (ereturn True))
        | Inr snapshot \<Rightarrow>
            ebind (run_adapter (ad_run a \<lparr>rq_SessionID = as_id session,
                rq_ExternalSessionID = (case as_external_session_id session of None \<Rightarrow> [] | Some x \<Rightarrow> x),
                rq_UserText = am_content message, rq_History = conversationHistory (sn_messages snapshot),
                rq_Target = target\<rparr>) k target session
                \<lparr>sk_ownerUserID = as_user_id session, sk_sessionID = as_id session, sk_reasoning = [], sk_text = [],
                 sk_reasoningStartedAt = zeroTime, sk_textStartedAt = zeroTime\<rparr>) (\<lambda>(ended, sink).
            case ended of
              None \<Rightarrow> ereturn False
            | Some err \<Rightarrow> ethen (end_turn k session sink err) (ereturn True)))))"

definition runTurn :: "deps \<Rightarrow> AgentSession \<Rightarrow> AgentMessage \<Rightarrow> ExecutionTarget \<Rightarrow> bool agent" where
  "runTurn k session message target w = (case turn_body k session message target w of
     (Inr False, w') \<Rightarrow> (Inr False, w')
   | (r, w') \<Rightarrow> (r, snd (svc_do (releaseTurn (as_id session)) w')))"

subsection \<open>The scripted adapter\<close>

datatype FakeStepKind = FakeText | FakeTool | FakeSetSession | FakeFail | FakeUnknown

record FakeStep =
  fs_Kind :: FakeStepKind
  fs_Text :: string
  fs_Tool :: ToolRequest
  fs_SessionID :: string
  fs_Err :: "agent_err option"

definition tool_failure_error :: "ToolFailure \<Rightarrow> agent_err" where
  "tool_failure_error f = AgExecution (tf_Code f) (AgOther (tf_Message f))"

definition stop_or :: "agent_err option \<Rightarrow> behaviour \<Rightarrow> behaviour" where
  "stop_or err next = (case err of Some e \<Rightarrow> Ret (Some e) | None \<Rightarrow> next)"

fun fake_script :: "FakeStep list \<Rightarrow> behaviour" where
  "fake_script [] = Ret None"
| "fake_script (step # steps) = CheckCtx (\<lambda>err. stop_or err (case fs_Kind step of
     FakeText \<Rightarrow> DoText (fs_Text step) (\<lambda>err. stop_or err (fake_script steps))
   | FakeTool \<Rightarrow> DoTool (fs_Tool step) (\<lambda>r. case r of
       Inl err \<Rightarrow> Ret (Some err)
     | Inr result \<Rightarrow> (case to_Failure result of
         None \<Rightarrow> fake_script steps
       | Some f \<Rightarrow> if tf_Code f \<noteq> FailureCommandDenied then Ret (Some (tool_failure_error f))
                   else fake_script steps))
   | FakeSetSession \<Rightarrow> DoExternal (fs_SessionID step) (\<lambda>err. stop_or err (fake_script steps))
   | FakeFail \<Rightarrow> Ret (Some (case fs_Err step of Some e \<Rightarrow> e | None \<Rightarrow> AgOther ''fake adapter failure''))
   | FakeUnknown \<Rightarrow> Ret (Some (AgOther ''unknown fake adapter step''))))"

definition evidence :: "ToolResult \<Rightarrow> string" where
  "evidence result =
     (let v = TrimSpace (to_Stdout result);
          v = (if v = [] then TrimSpace (to_Stderr result) else v)
      in if v = [] then ''<no output>'' else v)"

definition show_int :: "int \<Rightarrow> string" where
  "show_int i = (if i < 0 then ''-'' @ show_nat (nat (- i)) else show_nat (nat i))"

definition show_bool :: "bool \<Rightarrow> string" where
  "show_bool b = (if b then ''true'' else ''false'')"

definition fake_part :: "string \<Rightarrow> ToolResult \<Rightarrow> string" where
  "fake_part label result = label @ evidence result @ '' (exit '' @ show_int (to_ExitCode result) @
     '', truncated='' @ show_bool (to_Truncated result) @ '').''"

text \<open>A probe command; a device that is gone or offline ends the turn as offline.\<close>

definition fake_probe :: "string \<Rightarrow> (ToolResult \<Rightarrow> behaviour) \<Rightarrow> behaviour" where
  "fake_probe arguments next = DoTool \<lparr>tr_Name = ToolRemoteExec, tr_Arguments = arguments\<rparr> (\<lambda>r. case r of
     Inl err \<Rightarrow> Ret (Some err)
   | Inr result \<Rightarrow> (case to_Failure result of
       None \<Rightarrow> next result
     | Some f \<Rightarrow> if tf_Code f = FailureDeviceOffline \<or> tf_Code f = FailureDeviceNotFound
         then Ret (Some AgDeviceOffline) else Ret (Some (tool_failure_error f))))"

definition probe_arguments :: "string \<Rightarrow> RemoteExecArguments" where
  "probe_arguments command =
     \<lparr>ra_Command = command, ra_CWD = [], ra_TimeoutMS = DefaultExecTimeout div millisecond\<rparr>"

definition FakeAdapter_Run :: "(RemoteExecArguments \<Rightarrow> string option) \<Rightarrow> FakeStep list \<Rightarrow> behaviour" where
  "FakeAdapter_Run marshal steps =
     (if steps \<noteq> [] then fake_script steps
      else case (marshal (probe_arguments ''hostname''), marshal (probe_arguments ''uname -a'')) of
        (Some hostnameArguments, Some unameArguments) \<Rightarrow>
          fake_probe hostnameArguments (\<lambda>hostname.
          fake_probe unameArguments (\<lambda>system.
          DoText (fake_part ''Remote hostname: '' hostname @ fake_part '' Remote system: '' system) Ret))
      | _ \<Rightarrow> Ret (Some AgEncode))"

end
