(* ===== verification/AgentProps.thy ===== *)
theory AgentProps
  imports AgentTurn Store_Props
begin

text \<open>
  What a turn can do, whatever the provider, the concurrent callers and the failing
  statements are.  \<open>grows P i\<close> relates the worlds before and after a part of a turn of the
  session \<open>i\<close>: its tool calls only move forward, tombstones stay, and every command that is
  executed satisfies \<open>P\<close>.  It is a preorder, so the rules of \<open>step_order\<close> carry it through
  every function of the service.
\<close>

subsection \<open>The tool calls of one session\<close>

abbreviation session_ids :: "db \<Rightarrow> ident set" where
  "session_ids d \<equiv> as_id ` set (agent_sessions d)"

definition keeps :: "ident \<Rightarrow> db \<Rightarrow> db \<Rightarrow> bool" where
  "keeps i d e \<longleftrightarrow> (schema_ok d \<longrightarrow> schema_ok e \<and>
     (\<forall>t \<in> set (tool_calls d). tc_session_id t = i \<longrightarrow> (\<exists>t' \<in> set (tool_calls e). tool_le t t')))"

lemma keepsE:
  assumes "keeps i d e" "schema_ok d" "t \<in> set (tool_calls d)" "tc_session_id t = i"
  obtains t' where "t' \<in> set (tool_calls e)" "tool_le t t'"
  using assms unfolding keeps_def by blast

lemma keeps_refl: "keeps i d d"
  unfolding keeps_def using tool_le_refl by blast

lemma keeps_trans: "keeps i d e \<Longrightarrow> keeps i e f \<Longrightarrow> keeps i d f"
  unfolding keeps_def using tool_le_trans tool_le_def same_call_def by metis

interpretation keeping: table_order "keeps i" for i
  by unfold_locales (rule keeps_refl, rule keeps_trans)

lemma forward_keeps: "schema_ok e \<Longrightarrow> (schema_ok d \<Longrightarrow> tools_forward d e) \<Longrightarrow> keeps i d e"
  by (simp add: keeps_def tools_forward_def rows_le_def)

text \<open>A step of the store while the session \<open>i\<close> is not deleted.\<close>

definition session_step :: "ident \<Rightarrow> db \<Rightarrow> db \<Rightarrow> bool" where
  "session_step i d e \<longleftrightarrow> db_step d e \<and> (i \<in> session_ids d \<longrightarrow> i \<in> session_ids e)"

lemma deleted_keeps:
  assumes e: "e = snd (delete_session u j d)" and i: "i \<in> session_ids d \<longrightarrow> i \<in> session_ids e" and sch: "schema_ok e"
  shows "keeps i d e"
proof -
  let ?p = "\<lambda>s. as_id s = j \<and> at_rest s \<and> agentSessionOwnershipPredicate d u s"
  have "t \<in> set (tool_calls e)" if ok: "schema_ok d" and t: "t \<in> set (tool_calls d)" "tc_session_id t = i" for t
  proof -
    have "i \<in> session_ids d" using ok t by (auto simp: schema_ok_def tool_calls_ok_def)
    with i have "i \<in> as_id ` set (del_rows ?p (agent_sessions d))" by (simp add: e tab_delete_session)
    then obtain s' where s': "s' \<in> set (agent_sessions d)" "as_id s' = i" "\<not> ?p s'" by (rule del_rows_keyE)
    have "\<not> ?p s" if "s \<in> set (agent_sessions d)" "as_id s = i" for s
      using key_inj [OF sessions_key [OF ok] that(1) s'(1)] that(2) s'(2,3) by auto
    then have "i \<notin> set (map as_id (filter ?p (agent_sessions d)))" by auto
    then show ?thesis
      using t by (simp add: e delete_session_def delete_sessions_def Let_def del_rows_def)
  qed
  then show ?thesis using sch unfolding keeps_def by (metis tool_le_refl)
qed

lemma grows_or_deleted:
  "db_step d e \<Longrightarrow> (\<exists>u j. e = snd (delete_session u j d)) \<or> session_ids d \<subseteq> session_ids e"
proof (induction rule: db_step.induct)
  case (session_deleted u i d)
  then show ?case by blast
qed (rule disjI2; auto simp: tab image_upd_rows; fail)+

lemma session_step_keeps: "session_step i d e \<Longrightarrow> keeps i d e"
  unfolding session_step_def
  using grows_or_deleted [of d e] deleted_keeps forward_keeps step_tools_forward db_step_schema by metis

lemma session_run_keeps: "(session_step i)\<^sup>*\<^sup>* d e \<Longrightarrow> keeps i d e"
  by (induction rule: rtranclp_induct) (auto simp: keeping.Q_refl intro: keeps_trans session_step_keeps)

lemma growing_keeps: "db_step d e \<Longrightarrow> session_ids d \<subseteq> session_ids e \<Longrightarrow> keeps i d e"
  by (rule session_step_keeps) (auto simp: session_step_def)

lemma statements_keep:
  "schema_ok (snd (insert_audit_event e d)) \<Longrightarrow> keeps i d (snd (insert_audit_event e d))"
  "schema_ok (snd (insert_message u m d)) \<Longrightarrow> keeps i d (snd (insert_message u m d))"
  "schema_ok (snd (set_external u j x now d)) \<Longrightarrow> keeps i d (snd (set_external u j x now d))"
  "schema_ok (snd (fail_undecided u k y now d)) \<Longrightarrow> keeps i d (snd (fail_undecided u k y now d))"
  "schema_ok (snd (start_tool u k d)) \<Longrightarrow> keeps i d (snd (start_tool u k d))"
  "validAgentSessionState st \<Longrightarrow> schema_ok (snd (set_state u j st now d)) \<Longrightarrow> keeps i d (snd (set_state u j st now d))"
  "tc_status t = ToolCallPending \<or> tc_status t = ToolCallStarted \<Longrightarrow> schema_ok (snd (insert_tool u t d)) \<Longrightarrow>
     keeps i d (snd (insert_tool u t d))"
  "st \<in> {ToolCallCompleted, ToolCallDenied, ToolCallFailed} \<Longrightarrow> schema_ok (snd (finish_tool u k st ec yo now d)) \<Longrightarrow>
     keeps i d (snd (finish_tool u k st ec yo now d))"
  by (rule growing_keeps; (auto intro: effects simp: tab image_upd_rows; fail))+

lemma store_keeps:
  "moves (on_tables (keeps i)) (CreateAuditEvent e)"
  "moves (on_tables (keeps i)) (UpdateAgentSessionState u j st now)"
  "moves (on_tables (keeps i)) (UpdateAgentExternalSessionID u j x now)"
  "moves (on_tables (keeps i)) (CreateAgentMessage u m)"
  "moves (on_tables (keeps i)) (CreateAgentToolCall u t)"
  "moves (on_tables (keeps i)) (FailPendingAgentToolCall u k y now)"
  "moves (on_tables (keeps i)) (StartAgentToolCall u k)"
  "moves (on_tables (keeps i)) (FinishAgentToolCall u k st ec yo now)"
  "moves (on_tables (keeps i)) (AgentToolCallByOwner u k)"
  "moves (on_tables (keeps i)) (AgentSessionByOwner u j)"
  "moves (on_tables (keeps i)) (DeviceByOwner u d)"
  "moves (on_tables (keeps i)) (AgentSnapshotByOwner u j)"
  unfolding CreateAuditEvent_def UpdateAgentSessionState_def UpdateAgentExternalSessionID_def CreateAgentMessage_def
    CreateAgentToolCall_def FailPendingAgentToolCall_def StartAgentToolCall_def FinishAgentToolCall_def
    AgentToolCallByOwner_def AgentSessionByOwner_def DeviceByOwner_def AgentSnapshotByOwner_def
    agentMessagesByOwnerQuery_def agentToolCallsByOwnerQuery_def agent_queries scanDevice_def
  by (intro keeping.moves_sql statements_keep; simp)+

subsection \<open>Worlds\<close>

abbreviation rows_of :: "shared \<Rightarrow> db" where
  "rows_of sh \<equiv> tables (sh_db sh)"

definition sh_le :: "ident \<Rightarrow> shared \<Rightarrow> shared \<Rightarrow> bool" where
  "sh_le i sh sh' \<longleftrightarrow> keeps i (rows_of sh) (rows_of sh') \<and> dom (revoked (sh_svc sh)) \<subseteq> dom (revoked (sh_svc sh'))"

definition env_ok :: "ident \<Rightarrow> world \<Rightarrow> bool" where
  "env_ok i w \<longleftrightarrow> (\<forall>f \<in> set (w_env w). \<forall>sh. sh_le i sh (f sh))"

definition grows :: "(exec_call \<Rightarrow> bool) \<Rightarrow> ident \<Rightarrow> world \<Rightarrow> world \<Rightarrow> bool" where
  "grows P i w w' \<longleftrightarrow> set (w_env w') \<subseteq> set (w_env w) \<and> (env_ok i w \<longrightarrow> sh_le i (w_sh w) (w_sh w') \<and>
     (\<exists>xs. w_execs w' = w_execs w @ xs \<and> (\<forall>x \<in> set xs. sh_le i (w_sh w) (xc_shared x) \<and> P x)))"

abbreviation quietly :: "ident \<Rightarrow> world \<Rightarrow> world \<Rightarrow> bool" where
  "quietly i \<equiv> grows (\<lambda>_. False) i"

lemma sh_le_refl [simp]: "sh_le i sh sh"
  by (simp add: sh_le_def keeps_refl)

lemma sh_le_trans: "sh_le i a b \<Longrightarrow> sh_le i b c \<Longrightarrow> sh_le i a c"
  unfolding sh_le_def using keeps_trans by blast

lemma env_ok_mono: "env_ok i w \<Longrightarrow> set (w_env w') \<subseteq> set (w_env w) \<Longrightarrow> env_ok i w'"
  unfolding env_ok_def by blast

lemma grows_trans:
  assumes "grows P i u v" "grows P i v w"
  shows "grows P i u w"
proof -
  have e: "set (w_env w) \<subseteq> set (w_env u)" using assms by (auto simp: grows_def)
  have "sh_le i (w_sh u) (w_sh w) \<and>
     (\<exists>xs. w_execs w = w_execs u @ xs \<and> (\<forall>x \<in> set xs. sh_le i (w_sh u) (xc_shared x) \<and> P x))" if env: "env_ok i u"
  proof -
    have "env_ok i v" using env_ok_mono [OF env] assms(1) by (simp add: grows_def)
    then obtain xs ys where l: "sh_le i (w_sh u) (w_sh v)" "sh_le i (w_sh v) (w_sh w)"
      and x: "w_execs v = w_execs u @ xs" "\<forall>x \<in> set xs. sh_le i (w_sh u) (xc_shared x) \<and> P x"
      and y: "w_execs w = w_execs v @ ys" "\<forall>x \<in> set ys. sh_le i (w_sh v) (xc_shared x) \<and> P x"
      using assms env unfolding grows_def by blast
    have "\<forall>x \<in> set (xs @ ys). sh_le i (w_sh u) (xc_shared x) \<and> P x"
      using x(2) y(2) sh_le_trans [OF l(1)] by auto
    then show ?thesis using sh_le_trans [OF l] x(1) y(1) by (intro conjI exI [of _ "xs @ ys"]) simp_all
  qed
  with e show ?thesis unfolding grows_def by blast
qed

lemma grows_refl: "grows P i w w"
  by (simp add: grows_def)

interpretation growth: step_order "grows P i" for P i
  by unfold_locales (rule grows_refl, rule grows_trans)

lemma grows_mono: "grows P i w w' \<Longrightarrow> (\<And>x. P x \<Longrightarrow> Q x) \<Longrightarrow> grows Q i w w'"
  unfolding grows_def by blast

lemma quietly_grows: "quietly i w w' \<Longrightarrow> grows P i w w'"
  by (erule grows_mono) simp

lemma moves_quietly: "moves (quietly i) m \<Longrightarrow> moves (grows P i) m"
  unfolding moves_def using quietly_grows by blast

lemma quietlyI:
  "w_env w' = w_env w \<Longrightarrow> w_execs w' = w_execs w \<Longrightarrow> sh_le i (w_sh w) (w_sh w') \<Longrightarrow> quietly i w w'"
  by (simp add: grows_def)

lemma interfere_quietly: "quietly i w (interfere w)"
  by (auto simp: grows_def interfere_def env_ok_def split: list.split)

lemma on_store_quietly: "moves (on_tables (keeps i)) m \<Longrightarrow> moves (quietly i) (on_store m)"
proof (rule movesI)
  fix w assume m: "moves (on_tables (keeps i)) m"
  let ?v = "interfere w"
  have "quietly i ?v (snd (on_store m w))"
    using movesD [OF m, of "sh_db (w_sh ?v)"]
    by (intro quietlyI) (auto simp: on_store_def Let_def sh_le_def on_tables_def split: prod.split)
  then show "quietly i w (snd (on_store m w))" by (rule grows_trans [OF interfere_quietly])
qed

lemma on_svc_quietly:
  assumes "\<And>s. dom (revoked s) \<subseteq> dom (revoked (snd (f s)))"
  shows "moves (quietly i) (on_svc f)"
proof (rule movesI)
  fix w
  let ?v = "interfere w"
  have "quietly i ?v (snd (on_svc f w))"
    using assms [of "sh_svc (w_sh ?v)"]
    by (intro quietlyI) (auto simp: on_svc_def Let_def sh_le_def keeps_refl split: prod.split)
  then show "quietly i w (snd (on_svc f w))" by (rule grows_trans [OF interfere_quietly])
qed

lemma svc_do_quietly: "(\<And>s. dom (revoked s) \<subseteq> dom (revoked (f s))) \<Longrightarrow> moves (quietly i) (svc_do f)"
  unfolding svc_do_def by (rule on_svc_quietly) simp

lemma reads_quietly:
  "moves (quietly i) ctxErr" "moves (quietly i) getNow" "moves (quietly i) (newID p)"
  "moves (quietly i) (check e)" "moves (quietly i) (from_sum r)" "moves (quietly i) (on_online d)"
  by (rule movesI, auto simp: ctxErr_def getNow_def newID_def check_def from_sum_def on_online_def Let_def
      interfere_quietly growth.R_refl split: list.split option.split prod.split intro!: quietlyI)+

lemma finally_quietly: "moves (grows P i) m \<Longrightarrow> moves (grows P i) fin \<Longrightarrow> moves (grows P i) (efinally m fin)"
  unfolding moves_def efinally_def using grows_trans by (simp add: split_def) blast

lemma emap_err_quietly: "moves (grows P i) m \<Longrightarrow> moves (grows P i) (emap_err f m)"
  unfolding moves_def emap_err_def by (simp add: split_def)

lemmas quiet_rules = growth.moves_rules store_keeps [THEN on_store_quietly] reads_quietly finally_quietly emap_err_quietly

subsection \<open>What executes nothing\<close>

lemma case_install_quietly:
  "moves R m \<Longrightarrow> (\<And>e. moves R (f e)) \<Longrightarrow> moves R n \<Longrightarrow>
     moves R (case x of Installed \<Rightarrow> m | InstallFailed e \<Rightarrow> f e | InstallHangs \<Rightarrow> n)"
  by (cases x) simp_all

lemma case_fail_quietly:
  "(\<And>t. moves R (f t)) \<Longrightarrow> (\<And>t. moves R (g t)) \<Longrightarrow>
     moves R (case x of FailedNow t \<Rightarrow> f t | FailConflict t \<Rightarrow> g t)"
  by (cases x) simp_all

lemmas quiet_cases = case_install_quietly case_fail_quietly

lemma publish_quietly: "moves (quietly i) (publish k j t p)"
  unfolding publish_def Let_def
  by (intro quiet_rules svc_do_quietly) (simp add: publish_section_def)

lemma audit_quietly: "moves (quietly i) (audit k u d t p)" "moves (quietly i) (tool_audit k ss t p)"
  unfolding tool_audit_def audit_def by (intro quiet_rules)+

lemma isRevoked_quietly: "moves (quietly i) (isRevoked j)"
  unfolding isRevoked_def by (rule on_svc_quietly) simp

lemma persist_quietly: "moves (quietly i) (persist_attempts n e u j st)"
  by (induction n arbitrary: e) (auto intro!: quiet_rules)

lemma persistSessionState_quietly: "moves (quietly i) (persistSessionState u j st)"
  unfolding persistSessionState_def by (rule persist_quietly)

lemma failTurn_quietly: "moves (quietly i) (failTurn k ss c)"
  unfolding failTurn_def
  by (intro quiet_rules publish_quietly isRevoked_quietly persistSessionState_quietly)

lemma lookupTool_quietly: "moves (quietly i) (lookupTool u t)"
  unfolding lookupTool_def by (intro quiet_rules)

lemma reconcile_quietly: "moves (quietly i) (reconcile u t)" "moves (quietly i) (finish_call u t st c v)"
  unfolding reconcile_def finish_call_def by (intro quiet_rules lookupTool_quietly)+

lemma abort_attempts_quietly: "moves (quietly i) (abort_attempts n e u t x)"
  by (induction n arbitrary: e) (auto intro!: quiet_rules quiet_cases)

lemma finish_attempts_quietly: "moves (quietly i) (finish_attempts n e u t st c x)"
  by (induction n arbitrary: e) (auto intro!: quiet_rules reconcile_quietly)

lemma compensate_quietly: "moves (quietly i) (compensate n e u t)"
  by (induction n arbitrary: e) (auto intro!: quiet_rules reconcile_quietly)

lemma finishTool_quietly: "moves (quietly i) (finish_final u t st c x)" "moves (quietly i) (finishTool ss t st c x)"
  unfolding finishTool_def finish_final_def Let_def
  by (intro quiet_rules abort_attempts_quietly finish_attempts_quietly compensate_quietly lookupTool_quietly)+

lemma installPending_quietly: "moves (quietly i) (installPending ss t)"
  unfolding installPending_def
  by (intro quiet_rules on_svc_quietly svc_do_quietly lookupTool_quietly)
     (auto simp: install_section_def drop_pending_def send_recorded_def split: option.split)

lemma abort_pending_quietly: "moves (quietly i) (abort_pending n e u t c)"
  by (induction n arbitrary: e) (auto intro!: quiet_rules quiet_cases)

lemma await_quietly: "moves (quietly i) (await_decision t)"
proof (rule movesI)
  fix w
  have "quietly i (interfere w) (snd (await_decision t w))"
    unfolding await_decision_def Let_def
    by (intro quietlyI) (auto simp: sh_le_def keeps_refl split: list.split wait_event.split option.split)
  then show "quietly i w (snd (await_decision t w))" by (rule grows_trans [OF interfere_quietly])
qed

lemma wait_quietly: "moves (quietly i) (wait_body k ss t)" "moves (quietly i) (waitForDecision k ss t)"
  unfolding waitForDecision_def wait_body_def resolvePendingAbort_def
  by (intro quiet_rules publish_quietly abort_pending_quietly await_quietly lookupTool_quietly svc_do_quietly;
      simp add: drop_pending_def)+

lemma close_tool_quietly: "moves (quietly i) (close_tool k ss t st x p)"
  unfolding close_tool_def by (intro quiet_rules finishTool_quietly publish_quietly)

lemma approve_call_quietly: "moves (quietly i) (approve_call k ss t a)"
  unfolding approve_call_def
  by (intro quiet_rules quiet_cases installPending_quietly close_tool_quietly publish_quietly wait_quietly audit_quietly)

lemma create_call_quietly: "moves (quietly i) (create_call k ss q)"
  unfolding create_call_def Let_def by (intro quiet_rules)

lemma stopped_quietly: "moves (quietly i) (stopped j)"
  unfolding stopped_def by (intro quiet_rules isRevoked_quietly)

lemma sinks_quietly:
  "moves (quietly i) (ReasoningDelta k x sk)" "moves (quietly i) (TextDelta k x sk)"
  "moves (quietly i) (ProviderState k x sk)" "moves (quietly i) (SetExternalSessionID x sk)"
  unfolding ReasoningDelta_def TextDelta_def ProviderState_def SetExternalSessionID_def
  by (intro quiet_rules publish_quietly)+

lemma sink_call_quietly: "(\<And>sk. moves (quietly i) (f sk)) \<Longrightarrow> moves (quietly i) (sink_call f sk)"
  unfolding sink_call_def by (intro quiet_rules)

lemma transcript_quietly: "moves (quietly i) (persistTurnTranscript ss sk)"
  unfolding persistTurnTranscript_def persist_message_def by (intro quiet_rules)

lemma end_turn_quietly: "moves (quietly i) (end_turn k ss sk e)"
  unfolding end_turn_def
  by (intro quiet_rules transcript_quietly publish_quietly failTurn_quietly persistSessionState_quietly)

subsection \<open>Following one tool call\<close>

definition has_call :: "ident \<Rightarrow> ident \<Rightarrow> (ToolCall \<Rightarrow> bool) \<Rightarrow> shared \<Rightarrow> bool" where
  "has_call i t Q sh \<longleftrightarrow> schema_ok (rows_of sh) \<and>
     (\<exists>r \<in> set (tool_calls (rows_of sh)). tc_id r = t \<and> tc_session_id r = i \<and> Q r)"

definition stable :: "(ToolCall \<Rightarrow> bool) \<Rightarrow> bool" where
  "stable Q \<longleftrightarrow> (\<forall>r r'. Q r \<and> tool_le r r' \<longrightarrow> Q r')"

definition tracks :: "ident \<Rightarrow> ident \<Rightarrow> (ToolCall \<Rightarrow> bool) \<Rightarrow> world \<Rightarrow> bool" where
  "tracks i t Q w \<longleftrightarrow> env_ok i w \<and> has_call i t Q (w_sh w)"

lemma has_call_le:
  assumes le: "sh_le i sh sh'" and h: "has_call i t Q sh" and st: "stable Q"
  shows "has_call i t Q sh'"
proof -
  from h obtain r where r: "r \<in> set (tool_calls (rows_of sh))" "tc_id r = t" "tc_session_id r = i" "Q r"
    and ok: "schema_ok (rows_of sh)" unfolding has_call_def by blast
  from le have k: "keeps i (rows_of sh) (rows_of sh')" by (simp add: sh_le_def)
  then obtain r' where r': "r' \<in> set (tool_calls (rows_of sh'))" "tool_le r r'" using ok r(1,3) by (rule keepsE)
  have "schema_ok (rows_of sh')" using k ok by (simp add: keeps_def)
  moreover have "tc_id r' = t" "tc_session_id r' = i" using r'(2) r(2,3) by (simp_all add: tool_le_def same_call_def)
  moreover have "Q r'" using st r(4) r'(2) unfolding stable_def by blast
  ultimately show ?thesis using r'(1) unfolding has_call_def by blast
qed

lemma tracks_grows: "grows P i w w' \<Longrightarrow> tracks i t Q w \<Longrightarrow> stable Q \<Longrightarrow> tracks i t Q w'"
  unfolding tracks_def grows_def using has_call_le env_ok_mono by blast

lemma tracks_moves:
  "moves (grows P i) m \<Longrightarrow> m w = (r, w') \<Longrightarrow> tracks i t Q w \<Longrightarrow> stable Q \<Longrightarrow> tracks i t Q w'"
  by (rule tracks_grows [where P = P]) (rule moves_result)

lemma stable_rules [simp]:
  "stable (\<lambda>r. tc_arguments_json r = a)" "stable (\<lambda>r. tc_decision r = Some d)" "stable approved"
  "stable (\<lambda>_. True)"
  by (auto simp: stable_def tool_le_def same_call_def approved_def)

lemma stable_conj [simp]: "stable P \<Longrightarrow> stable Q \<Longrightarrow> stable (\<lambda>r. P r \<and> Q r)"
  unfolding stable_def by blast

text \<open>A row with the identifier of the call is the call.\<close>

lemma has_call_row:
  assumes "has_call i t Q sh" "r \<in> set (tool_calls (rows_of sh))" "tc_id r = t" "R r"
  shows "has_call i t (\<lambda>r. Q r \<and> R r) sh"
proof -
  from assms(1) obtain q where q: "q \<in> set (tool_calls (rows_of sh))" "tc_id q = t" "tc_session_id q = i" "Q q"
    and ok: "schema_ok (rows_of sh)" unfolding has_call_def by blast
  have "q = r" by (rule key_inj [OF tools_key [OF ok] q(1) assms(2)]) (simp add: q(2) assms(3))
  with q ok assms(4) show ?thesis unfolding has_call_def by blast
qed

lemma has_call_mono: "has_call i t Q sh \<Longrightarrow> (\<And>r. Q r \<Longrightarrow> R r) \<Longrightarrow> has_call i t R sh"
  unfolding has_call_def by blast

lemma tracks_mono: "tracks i t Q w \<Longrightarrow> (\<And>r. Q r \<Longrightarrow> R r) \<Longrightarrow> tracks i t R w"
  unfolding tracks_def using has_call_mono by blast

lemma on_store_InrE:
  assumes "on_store m w = (Inr x, w')"
  obtains s t where "m s = (Inr x, t)" "rows_of (w_sh w') = tables t"
  using assms by (auto simp: on_store_def Let_def map_sum_def split: prod.splits sum.splits)

lemma created_row:
  "CreateAgentToolCall u r s = (Inr x, t) \<Longrightarrow> schema_ok (tables t) \<and>
     r\<lparr>tc_decision := None, tc_exit_code := None, tc_output_excerpt := None, tc_completed_at := None\<rparr>
       \<in> set (tool_calls (tables t))"
  unfolding CreateAgentToolCall_def requireOneRow_def
  by (elim guarded_InrE exec_InrE affected_InrE)
     (auto simp: insert_tool_def split: if_splits elim!: affected_InrE)

lemma started_row:
  assumes "StartAgentToolCall u k s = (Inr x, t)"
  shows "\<exists>r \<in> set (tool_calls (tables t)). tc_id r = k \<and> approved r"
proof -
  let ?p = "\<lambda>r. tc_id r = k \<and> tc_status r = ToolCallPending \<and> approved r \<and> agentToolOwnerPredicate (tables s) u r"
  from assms have e: "fst (start_tool u k (tables s)) = 1" "tables t = snd (start_tool u k (tables s))"
    unfolding StartAgentToolCall_def agent_queries
    by (elim exec_InrE try_one_InrE; auto simp: ebind_assoc split: option.splits sum.splits elim!: query_InrE)+
  from e(1) have "count_rows ?p (tool_calls (tables s)) = Suc 0" by (simp add: start_tool_def upd_tools_def)
  then obtain r where r: "r \<in> set (tool_calls (tables s))" "?p r" using count_one_row by blast
  then have "r\<lparr>tc_status := ToolCallStarted\<rparr> \<in> set (tool_calls (tables t))"
    unfolding e(2) tab by (intro upd_rows_changed) auto
  moreover have "approved (r\<lparr>tc_status := ToolCallStarted\<rparr>)" using r(2) by (simp add: approved_def)
  ultimately show ?thesis using r(2) by (intro bexI [of _ "r\<lparr>tc_status := ToolCallStarted\<rparr>"]) simp_all
qed

lemma looked_up_row:
  "AgentToolCallByOwner u k s = (Inr r, t) \<Longrightarrow> r \<in> set (tool_calls (tables t)) \<and> tc_id r = k"
  unfolding agent_queries
  by (erule query_InrE) (auto split: option.splits dest!: find_SomeD)

lemma etry_InrE:
  assumes "etry m w = (Inr r, w')"
  obtains "m w = (r, w')"
  using assms by (auto simp: etry_def split: prod.splits)

lemma now_try_InrE:
  assumes "ebind getNow (\<lambda>now. ebind (etry (m now)) (f now)) w = (Inr y, w')"
  obtains now v r v' where "getNow w = (Inr now, v)" "m now v = (r, v')" "f now r v' = (Inr y, w')"
  using assms by (elim ebind_InrE) (erule etry_InrE, rule that)

lemma tracks_row:
  assumes "tracks i t Q w" "stable Q" "moves (on_tables (keeps i)) m" "on_store m w = (Inr x, w')"
    and "\<And>s s'. m s = (Inr x, s') \<Longrightarrow> \<exists>r \<in> set (tool_calls (tables s')). tc_id r = t \<and> R r"
  shows "tracks i t (\<lambda>r. Q r \<and> R r) w'"
proof -
  have tr: "tracks i t Q w'"
    by (rule tracks_moves [OF on_store_quietly [OF assms(3)] assms(4,1,2)])
  obtain s s' where m: "m s = (Inr x, s')" and e: "rows_of (w_sh w') = tables s'"
    using assms(4) by (rule on_store_InrE)
  obtain r where "r \<in> set (tool_calls (rows_of (w_sh w')))" "tc_id r = t" "R r"
    using assms(5) [OF m] unfolding e by blast
  with tr show ?thesis unfolding tracks_def using has_call_row [of i t Q "w_sh w'" r R] by blast
qed

lemma tracks_lookup:
  assumes "tracks i t Q w" "stable Q" "lookupTool u t w = (Inr row, w')"
  shows "tracks i t (\<lambda>r. Q r \<and> r = row) w'"
  by (rule tracks_row [OF assms(1,2) store_keeps(9) assms(3) [unfolded lookupTool_def]])
     (use looked_up_row in blast)

lemma abort_decision:
  assumes "abort_pending n e u t c w = (Inr d, w')" "tracks i t Q w" "stable Q"
  shows "tracks i t (\<lambda>r. Q r \<and> tc_decision r = Some d) w'"
  using assms
proof (induction n arbitrary: e w)
  case 0
  then show ?case by simp
next
  case (Suc n)
  from Suc.prems(1) obtain now v r v' where now: "getNow w = (Inr now, v)"
    and o: "on_store (FailPendingAgentToolCall u t ''approval timed out or was canceled'' now) v = (r, v')"
    and k: "(case r of Inr (FailedNow _) \<Rightarrow> ethrow c
      | Inr (FailConflict toolCall) \<Rightarrow>
         if tc_status toolCall = ToolCallPending \<and> tc_decision toolCall \<noteq> None
         then ereturn (the (tc_decision toolCall))
         else if tc_status toolCall = ToolCallFailed then ethrow c else ethrow AgInvalidState
      | Inl err \<Rightarrow> abort_pending n err u t c) v' = (Inr d, w')"
    unfolding abort_pending.simps by (rule now_try_InrE)
  have v: "tracks i t Q v" by (rule tracks_moves [OF reads_quietly(2) now Suc.prems(2,3)])
  show ?case
  proof (cases r)
    case (Inl err)
    have v': "tracks i t Q v'"
      by (rule tracks_moves [OF on_store_quietly [OF store_keeps(6)] o v Suc.prems(3)])
    from k Inl have "abort_pending n err u t c v' = (Inr d, w')" by simp
    then show ?thesis using v' Suc.prems(3) by (rule Suc.IH)
  next
    case (Inr out)
    with k obtain row where row: "out = FailConflict row" "tc_decision row = Some d" "w' = v'"
      by (auto split: fail_pending.splits if_splits)
    have "\<exists>r \<in> set (tool_calls (tables s')). tc_id r = t \<and> tc_decision r = Some d"
      if "FailPendingAgentToolCall u t ''approval timed out or was canceled'' now s = (Inr out, s')" for s s'
      using fail_pending_outcome [OF that] row(1,2) by (intro bexI [of _ row]) auto
    then have "tracks i t (\<lambda>r. Q r \<and> tc_decision r = Some d) v'"
      by (rule tracks_row [OF v Suc.prems(3) store_keeps(6) o [unfolded Inr]])
    then show ?thesis by (simp add: row(3))
  qed
qed

lemma wait_body_decision:
  assumes w: "wait_body k ss t w = (Inr d, w')" and tr: "tracks i t Q w" and st: "stable Q"
  shows "tracks i t (\<lambda>r. Q r \<and> tc_decision r = Some d) w'"
proof -
  let ?state = "\<lambda>st now. UpdateAgentSessionState (as_user_id ss) (as_id ss) st now"
  let ?ev = "\<lambda>st. publish k (as_id ss) EventSessionState [(''state'', PS st)]"
  let ?abort = "\<lambda>c. resolvePendingAbort ss t c"
  let ?got = "\<lambda>dec row. if tc_status row \<noteq> ToolCallPending \<or> tc_decision row \<noteq> Some dec then ethrow AgInvalidState
      else ebind getNow (\<lambda>now. ethen (on_store (?state AgentSessionRunning now))
        (ethen (?ev AgentSessionRunning) (ereturn dec)))"
  have abort: "tracks i t (\<lambda>r. Q r \<and> tc_decision r = Some d) w'"
    if "?abort c v = (Inr d, w')" "tracks i t Q v" for c v
    using that(1) [unfolded resolvePendingAbort_def] that(2) st by (rule abort_decision)
  let ?chosen = "\<lambda>got. case got of Inl cause \<Rightarrow> ?abort cause
    | Inr dec \<Rightarrow> ebind (lookupTool (as_user_id ss) t) (?got dec)"
  from w obtain now v1 r v2 where now: "getNow w = (Inr now, v1)"
    and o: "on_store (?state AgentSessionWaitingApproval now) v1 = (r, v2)"
    and k: "(case r of Inl err \<Rightarrow> ?abort err
      | Inr _ \<Rightarrow> ethen (?ev AgentSessionWaitingApproval) (ebind (await_decision t) ?chosen)) v2 = (Inr d, w')"
    unfolding wait_body_def by (rule now_try_InrE)
  have v1: "tracks i t Q v1" by (rule tracks_moves [OF reads_quietly(2) now tr st])
  have v2: "tracks i t Q v2" by (rule tracks_moves [OF on_store_quietly [OF store_keeps(2)] o v1 st])
  show ?thesis
  proof (cases r)
    case (Inl err)
    with k have "?abort err v2 = (Inr d, w')" by simp
    then show ?thesis using v2 by (rule abort)
  next
    case (Inr x)
    with k have "ethen (?ev AgentSessionWaitingApproval) (ebind (await_decision t) ?chosen) v2 = (Inr d, w')"
      by (simp only: sum.case)
    then obtain y v3 where p: "?ev AgentSessionWaitingApproval v2 = (Inr y, v3)"
      and k': "ebind (await_decision t) ?chosen v3 = (Inr d, w')" by (rule ebind_InrE)
    from k' obtain got v4 where a: "await_decision t v3 = (Inr got, v4)" and c: "?chosen got v4 = (Inr d, w')"
      by (rule ebind_InrE)
    have v4: "tracks i t Q v4"
      by (rule tracks_moves [OF await_quietly a tracks_moves [OF publish_quietly p v2 st] st])
    show ?thesis
    proof (cases got)
      case (Inl cause)
      with c have "?abort cause v4 = (Inr d, w')" by simp
      then show ?thesis using v4 by (rule abort)
    next
      case (Inr dec)
      with c have "ebind (lookupTool (as_user_id ss) t) (?got dec) v4 = (Inr d, w')" by (simp only: sum.case)
      then obtain row v5 where l: "lookupTool (as_user_id ss) t v4 = (Inr row, v5)"
        and g: "?got dec row v5 = (Inr d, w')" by (rule ebind_InrE)
      have m: "moves (quietly i) (?got dec row)" by (intro quiet_rules publish_quietly)
      from g have dec: "dec = d" "tc_decision row = Some d" by (auto split: if_splits elim!: ebind_InrE)
      have "tracks i t (\<lambda>r. Q r \<and> r = row) v5" by (rule tracks_lookup [OF v4 st l])
      then have "tracks i t (\<lambda>r. Q r \<and> tc_decision r = Some d) v5"
        by (rule tracks_mono) (simp add: dec(2))
      then show ?thesis by (rule tracks_moves [OF m g]) (simp add: st)
    qed
  qed
qed

lemma wait_decision:
  assumes "waitForDecision k ss t w = (Inr d, w')" "tracks i t Q w" "stable Q"
  shows "tracks i t (\<lambda>r. Q r \<and> tc_decision r = Some d) w'"
proof -
  from assms(1) obtain v where b: "wait_body k ss t w = (Inr d, v)" and f: "w' = snd (svc_do (drop_pending t) v)"
    by (auto simp: waitForDecision_def efinally_def split: prod.splits)
  have m: "moves (quietly i) (svc_do (drop_pending t))" by (rule svc_do_quietly) (simp add: drop_pending_def)
  have "quietly i v w'" unfolding f by (rule movesD [OF m])
  then show ?thesis by (rule tracks_grows [OF _ wait_body_decision [OF b assms(2,3)]]) (simp add: assms(3))
qed

subsection \<open>The tool invoker\<close>

lemma check_Inr [simp]: "check e w = (Inr x, w') \<longleftrightarrow> e = None \<and> w' = w"
  by (auto simp: check_def split: option.splits)

lemma stable_arguments [simp]: "stable (\<lambda>r. m = Some (tc_arguments_json r))" "stable (\<lambda>r. b \<longrightarrow> tc_decision r = Some d)"
  by (auto simp: stable_def tool_le_def same_call_def)

lemma some_InrE:
  assumes "(case x of None \<Rightarrow> ethrow e | Some y \<Rightarrow> f y) s = (Inr z, t)"
  obtains y where "x = Some y" "f y s = (Inr z, t)"
  using assms by (cases x) simp_all

text \<open>Arguments the parser accepts.\<close>

definition bounded_args :: "RemoteExecArguments \<Rightarrow> bool" where
  "bounded_args a \<longleftrightarrow> ValidString (ra_Command a) \<and> ra_Command a \<noteq> [] \<and> length (ra_Command a) \<le> MaxCommandBytes \<and>
     CHR 0x00 \<notin> set (ra_Command a) \<and> length (ra_CWD a) \<le> MaxCWDBytes \<and> CHR 0x00 \<notin> set (ra_CWD a) \<and>
     MinimumExecTimeout \<le> ra_TimeoutMS a * millisecond \<and> ra_TimeoutMS a * millisecond \<le> MaximumExecTimeout"

lemma parse_bounded: "parseRemoteExecArguments dec raw = Inr a \<Longrightarrow> bounded_args a"
  by (auto simp: parseRemoteExecArguments_def bounded_args_def MinimumExecTimeout_def MaximumExecTimeout_def Let_def
      split: if_splits option.splits prod.splits)

lemma create_call_bounded: "create_call k ss q w = (Inr (t, a, st), w') \<Longrightarrow> bounded_args a"
  unfolding create_call_def Let_def
  by (elim ebind_InrE guarded_InrE some_InrE) (auto simp: from_sum_def intro: parse_bounded)

lemma create_callE:
  assumes "create_call k ss q w = (Inr (t, a, st), w')"
  obtains v now json where "k_marshal_args k a = Some json"
    "on_store (CreateAgentToolCall (as_user_id ss) \<lparr>tc_id = t, tc_session_id = as_id ss, tc_name = ToolRemoteExec,
        tc_arguments_json = json, tc_status = st, tc_decision = None, tc_exit_code = None,
        tc_output_excerpt = None, tc_created_at = now, tc_completed_at = None\<rparr>) v = (Inr (), w')"
    "st = (if as_approval_mode ss = AgentApprovalPerCommand then ToolCallPending else ToolCallStarted)"
  using assms unfolding create_call_def Let_def
  by (elim ebind_InrE guarded_InrE some_InrE) (auto intro: that)

lemma create_call_stored:
  assumes c: "create_call k ss q w = (Inr (t, a, st), w')" and e: "env_ok (as_id ss) w"
  shows "tracks (as_id ss) t (\<lambda>r. k_marshal_args k a = Some (tc_arguments_json r)) w'"
proof -
  have env: "env_ok (as_id ss) w'"
    using moves_result [OF create_call_quietly [of "as_id ss"] c] env_ok_mono [OF e] by (simp add: grows_def)
  obtain v now json where j: "k_marshal_args k a = Some json"
    and o: "on_store (CreateAgentToolCall (as_user_id ss) \<lparr>tc_id = t, tc_session_id = as_id ss, tc_name = ToolRemoteExec,
        tc_arguments_json = json, tc_status = st, tc_decision = None, tc_exit_code = None,
        tc_output_excerpt = None, tc_created_at = now, tc_completed_at = None\<rparr>) v = (Inr (), w')"
    using c by (rule create_callE)
  from o obtain s s' where s: "CreateAgentToolCall (as_user_id ss) \<lparr>tc_id = t, tc_session_id = as_id ss,
      tc_name = ToolRemoteExec, tc_arguments_json = json, tc_status = st, tc_decision = None, tc_exit_code = None,
      tc_output_excerpt = None, tc_created_at = now, tc_completed_at = None\<rparr> s = (Inr (), s')"
    and r: "rows_of (w_sh w') = tables s'" by (rule on_store_InrE)
  from created_row [OF s] show ?thesis
    unfolding tracks_def has_call_def r using env j by (auto intro!: bexI)
qed

lemma fails_InrE:
  assumes "ebind m (\<lambda>(_, terminalErr). ethen (check terminalErr) (ethrow err)) w = (Inr x, w')"
  shows False
  using assms by (auto elim!: ebind_InrE split: prod.splits)

lemma approve_callE:
  assumes "approve_call k ss t a w = (Inr (Approved s'), w')"
  obtains v1 p v2 v3 d where "installPending ss t w = (Inr Installed, v1)"
    "publish k (as_id ss) EventToolPending p v1 = (Inr (), v2)" "waitForDecision k ss t v2 = (Inr d, v3)"
    "on_store (StartAgentToolCall (as_user_id ss) t) v3 = (Inr (), w')"
    "s' = (if d = DecisionApproveSession then ss\<lparr>as_approval_mode := AgentApprovalFullAccess\<rparr> else ss)"
  using assms unfolding approve_call_def
  by (elim ebind_InrE)
     (auto split: install.splits sum.splits if_splits dest!: fails_InrE elim!: ebind_InrE etry_InrE intro: that)

lemma approve_call_approved:
  assumes a: "approve_call k ss t a w = (Inr (Approved s'), w')" and tr: "tracks i t Q w" and st: "stable Q"
  shows "tracks i t (\<lambda>r. Q r \<and> (s' \<noteq> ss \<longrightarrow> tc_decision r = Some DecisionApproveSession) \<and> approved r) w' \<and>
    (s' = ss \<or> s' = ss\<lparr>as_approval_mode := AgentApprovalFullAccess\<rparr>)"
proof -
  from a obtain v1 p v2 v3 d where i: "installPending ss t w = (Inr Installed, v1)"
    and p: "publish k (as_id ss) EventToolPending p v1 = (Inr (), v2)" and d: "waitForDecision k ss t v2 = (Inr d, v3)"
    and o: "on_store (StartAgentToolCall (as_user_id ss) t) v3 = (Inr (), w')"
    and s': "s' = (if d = DecisionApproveSession then ss\<lparr>as_approval_mode := AgentApprovalFullAccess\<rparr> else ss)"
    by (rule approve_callE)
  have "tracks i t Q v2"
    by (rule tracks_moves [OF publish_quietly p tracks_moves [OF installPending_quietly i tr st] st])
  then have v3: "tracks i t (\<lambda>r. Q r \<and> tc_decision r = Some d) v3" by (rule wait_decision [OF d _ st])
  have "tracks i t (\<lambda>r. (Q r \<and> tc_decision r = Some d) \<and> approved r) w'"
    by (rule tracks_row [OF v3 _ store_keeps(7) o]) (simp add: st, rule started_row)
  then have "tracks i t (\<lambda>r. Q r \<and> (s' \<noteq> ss \<longrightarrow> tc_decision r = Some DecisionApproveSession) \<and> approved r) w'"
    by (rule tracks_mono) (auto simp: s' split: if_splits)
  then show ?thesis by (simp add: s')
qed

text \<open>What a call hands to the executor: the session's device, the turn's target, its own arguments.\<close>

definition runs :: "AgentSession \<Rightarrow> ExecutionTarget \<Rightarrow> RemoteExecArguments \<Rightarrow> exec_call \<Rightarrow> bool" where
  "runs ss target a x \<longleftrightarrow> xc_device x = as_device_id ss \<and> xc_target x = target \<and> xc_command x = ra_Command a \<and>
     xc_cwd x = ra_CWD a \<and> xc_timeout x = ra_TimeoutMS a * millisecond"

lemma Exec_grows: "moves (grows (runs ss target a) i) (Exec k ss target a)"
proof (rule movesI)
  fix w
  let ?v = "interfere w"
  have "grows (runs ss target a) i ?v (snd (Exec k ss target a w))"
    by (simp add: grows_def Exec_def Let_def runs_def)
  then show "grows (runs ss target a) i w (snd (Exec k ss target a w))"
    by (rule grows_trans [OF quietly_grows [OF interfere_quietly]])
qed

lemmas grow_rules = growth.moves_rules moves_quietly [OF stopped_quietly] moves_quietly [OF publish_quietly]
  moves_quietly [OF close_tool_quietly] moves_quietly [OF finishTool_quietly(2)] moves_quietly [OF audit_quietly(2)]
  reads_quietly [THEN moves_quietly] store_keeps [THEN on_store_quietly, THEN moves_quietly]

lemma execute_grows: "moves (grows (runs ss target a) i) (execute k ss target a)"
  unfolding execute_def by (intro grow_rules Exec_grows)

lemma run_call_grows: "moves (grows (runs ss target a) i) (run_call k target ss t a)"
  unfolding run_call_def Let_def by (intro grow_rules execute_grows)

text \<open>
  A sanctioned command: it goes to the session's own device, and a stored tool call of the
  session has its arguments, which are within the limits.  In a session that asks per command the user has approved this
  call, or has approved the whole session in the decision on some call.
\<close>

definition sanctioned :: "deps \<Rightarrow> AgentSession \<Rightarrow> ExecutionTarget \<Rightarrow> exec_call \<Rightarrow> bool" where
  "sanctioned k s0 target x \<longleftrightarrow> (\<exists>a t. runs s0 target a x \<and> bounded_args a \<and>
     has_call (as_id s0) t (\<lambda>r. k_marshal_args k a = Some (tc_arguments_json r)) (xc_shared x) \<and>
     (as_approval_mode s0 = AgentApprovalPerCommand \<longrightarrow>
        has_call (as_id s0) t approved (xc_shared x) \<or>
        (\<exists>t'. has_call (as_id s0) t' (\<lambda>r. tc_decision r = Some DecisionApproveSession) (xc_shared x))))"

text \<open>The session variable of the invoker, which a session-wide approval upgrades.\<close>

definition upgraded :: "AgentSession \<Rightarrow> AgentSession \<Rightarrow> shared \<Rightarrow> bool" where
  "upgraded s0 ss sh \<longleftrightarrow> ss = s0 \<or> ss = s0\<lparr>as_approval_mode := AgentApprovalFullAccess\<rparr> \<and>
     (\<exists>t'. has_call (as_id s0) t' (\<lambda>r. tc_decision r = Some DecisionApproveSession) sh)"

lemma upgraded_fields:
  "upgraded s0 ss sh \<Longrightarrow> as_id ss = as_id s0" "upgraded s0 ss sh \<Longrightarrow> as_device_id ss = as_device_id s0"
  by (auto simp: upgraded_def)

lemma upgraded_le: "upgraded s0 ss sh \<Longrightarrow> sh_le (as_id s0) sh sh' \<Longrightarrow> upgraded s0 ss sh'"
  unfolding upgraded_def using has_call_le stable_rules(2) by blast

lemma grows_strengthen:
  assumes "grows P i v w" and "\<And>x. env_ok i v \<Longrightarrow> P x \<Longrightarrow> sh_le i (w_sh v) (xc_shared x) \<Longrightarrow> Q x"
  shows "grows Q i v w"
  using assms unfolding grows_def by blast

lemma pending_started: "ToolCallPending \<noteq> ToolCallStarted" "AgentApprovalFullAccess \<noteq> AgentApprovalPerCommand"
  by (simp_all add: ToolCallPending_def ToolCallStarted_def AgentApprovalFullAccess_def AgentApprovalPerCommand_def)

lemma admit_call_quietly: "moves (quietly i) (admit_call k ss q)"
  unfolding admit_call_def by (intro quiet_rules create_call_quietly approve_call_quietly)

lemma admit_call_admitted:
  assumes ad: "admit_call k ss q w = (Inr (Approved s1, t, a), v)" and e: "env_ok (as_id ss) w"
  shows "tracks (as_id ss) t (\<lambda>r. k_marshal_args k a = Some (tc_arguments_json r) \<and>
      (s1 \<noteq> ss \<longrightarrow> tc_decision r = Some DecisionApproveSession) \<and>
      (as_approval_mode ss = AgentApprovalPerCommand \<longrightarrow> approved r)) v \<and>
    (s1 = ss \<or> s1 = ss\<lparr>as_approval_mode := AgentApprovalFullAccess\<rparr>) \<and> bounded_args a"
proof -
  let ?Q = "\<lambda>r. k_marshal_args k a = Some (tc_arguments_json r)"
  from ad [unfolded admit_call_def] obtain c v0 where c: "create_call k ss q w = (Inr c, v0)"
    and k: "(case c of (tid, args, status) \<Rightarrow> if status = ToolCallPending
       then ebind (approve_call k ss tid args) (\<lambda>adm. ereturn (adm, tid, args))
       else ereturn (Approved ss, tid, args)) v0 = (Inr (Approved s1, t, a), v)" by (rule ebind_InrE)
  from c k obtain st where c: "create_call k ss q w = (Inr (t, a, st), v0)"
    and k: "if st = ToolCallPending then approve_call k ss t a v0 = (Inr (Approved s1), v) else s1 = ss \<and> v = v0"
    by (cases c) (auto split: if_splits elim!: ebind_InrE)
  have tr: "tracks (as_id ss) t ?Q v0" by (rule create_call_stored [OF c e])
  show ?thesis
  proof (cases "st = ToolCallPending")
    case True
    with k have "approve_call k ss t a v0 = (Inr (Approved s1), v)" by simp
    from approve_call_approved [OF this tr] have
      "tracks (as_id ss) t (\<lambda>r. ?Q r \<and> (s1 \<noteq> ss \<longrightarrow> tc_decision r = Some DecisionApproveSession) \<and> approved r) v"
      and s1: "s1 = ss \<or> s1 = ss\<lparr>as_approval_mode := AgentApprovalFullAccess\<rparr>" by simp_all
    from this(1) have "tracks (as_id ss) t (\<lambda>r. ?Q r \<and> (s1 \<noteq> ss \<longrightarrow> tc_decision r = Some DecisionApproveSession) \<and>
      (as_approval_mode ss = AgentApprovalPerCommand \<longrightarrow> approved r)) v" by (rule tracks_mono) simp
    with s1 create_call_bounded [OF c] show ?thesis by blast
  next
    case False
    with c have "as_approval_mode ss \<noteq> AgentApprovalPerCommand" by (auto elim: create_callE)
    moreover from False k have "s1 = ss" "v = v0" by simp_all
    ultimately show ?thesis using tr create_call_bounded [OF c] by simp
  qed
qed

text \<open>One tool request of the provider.\<close>

lemma Invoke_sanctioned:
  assumes I: "Invoke k target ss q w = (r, w')" and e: "env_ok (as_id s0) w" and up: "upgraded s0 ss (w_sh w)"
  shows "grows (sanctioned k s0 target) (as_id s0) w w' \<and> (\<forall>out s'. r = Inr (out, s') \<longrightarrow> upgraded s0 s' (w_sh w'))"
proof -
  let ?i = "as_id s0"
  obtain ad v where ad: "admit_call k ss q w = (ad, v)" by fastforce
  have q: "quietly ?i w v" by (rule moves_result [OF admit_call_quietly ad])
  have ev: "env_ok ?i v" and le: "sh_le ?i (w_sh w) (w_sh v)"
    using q env_ok_mono [OF e] e by (simp_all add: grows_def)
  have up': "upgraded s0 ss (w_sh v)" by (rule upgraded_le [OF up le])
  have rest: "(case ad of
       Inl err \<Rightarrow> ereturn (Returned (Inl err), ss)
     | Inr (Hang, _) \<Rightarrow> ereturn (Hangs, ss)
     | Inr (Denied result, _) \<Rightarrow> ereturn (Returned (Inr result), ss)
     | Inr (Approved session', toolCallID, arguments) \<Rightarrow>
         ebind (etry (run_call k target session' toolCallID arguments)) (\<lambda>r. ereturn (Returned r, session'))) v = (r, w')"
    using I unfolding Invoke_def by (simp add: ebind_def etry_def ad)
  show ?thesis
  proof (cases "\<exists>s1 t a. ad = Inr (Approved s1, t, a)")
    case False
    with rest have "w' = v" "\<forall>out s'. r = Inr (out, s') \<longrightarrow> s' = ss"
      by (auto simp: ereturn_def split: sum.splits prod.splits admission.splits)
    then show ?thesis using quietly_grows [OF q] up' by blast
  next
    case True
    then obtain s1 t a where A: "ad = Inr (Approved s1, t, a)" by blast
    have ss: "as_id ss = ?i" "as_device_id ss = as_device_id s0" using up by (rule upgraded_fields)+
    let ?Q = "\<lambda>r. k_marshal_args k a = Some (tc_arguments_json r) \<and>
      (s1 \<noteq> ss \<longrightarrow> tc_decision r = Some DecisionApproveSession) \<and>
      (as_approval_mode ss = AgentApprovalPerCommand \<longrightarrow> approved r)"
    from admit_call_admitted [OF ad [unfolded A]] e have tr: "has_call ?i t ?Q (w_sh v)"
      and s1: "s1 = ss \<or> s1 = ss\<lparr>as_approval_mode := AgentApprovalFullAccess\<rparr>" and a: "bounded_args a"
      by (simp_all add: ss tracks_def)
    have stQ: "stable ?Q" by (auto simp: stable_def tool_le_def same_call_def approved_def)
    from rest A obtain out where R: "run_call k target s1 t a v = (out, w')" and r: "r = Inr (Returned out, s1)"
      by (auto simp: ebind_def etry_def ereturn_def split: prod.splits)
    have g: "grows (runs s1 target a) ?i v w'" by (rule moves_result [OF run_call_grows R])
    have "sanctioned k s0 target x" if "runs s1 target a x" "sh_le ?i (w_sh v) (xc_shared x)" for x
    proof -
      have h: "has_call ?i t ?Q (xc_shared x)" by (rule has_call_le [OF that(2) tr stQ])
      have u: "upgraded s0 ss (xc_shared x)" by (rule upgraded_le [OF up' that(2)])
      have r: "runs s0 target a x" using that(1) s1 ss(2) by (auto simp: runs_def)
      have m: "has_call ?i t (\<lambda>r. k_marshal_args k a = Some (tc_arguments_json r)) (xc_shared x)"
        using h by (rule has_call_mono) simp
      have o: "has_call ?i t approved (xc_shared x) \<or>
          (\<exists>t'. has_call ?i t' (\<lambda>r. tc_decision r = Some DecisionApproveSession) (xc_shared x))"
        if mode: "as_approval_mode s0 = AgentApprovalPerCommand"
      proof (cases "ss = s0")
        case True
        from h have "has_call ?i t approved (xc_shared x)" by (rule has_call_mono) (simp add: True mode)
        then show ?thesis ..
      qed (use u in \<open>simp add: upgraded_def\<close>)
      show ?thesis unfolding sanctioned_def using r a m o by (intro exI conjI impI)
    qed
    with g have "grows (sanctioned k s0 target) ?i v w'" by (rule grows_strengthen)
    moreover have "sh_le ?i (w_sh v) (w_sh w')" using g ev by (simp add: grows_def)
    moreover have "upgraded s0 s1 (w_sh v)"
    proof (cases "s1 = ss")
      case False
      with tr have "has_call ?i t (\<lambda>r. tc_decision r = Some DecisionApproveSession) (w_sh v)"
        using has_call_mono by fastforce
      then show ?thesis using s1 False up' unfolding upgraded_def by auto
    qed (simp add: up')
    ultimately show ?thesis using quietly_grows [OF q] grows_trans upgraded_le r by blast
  qed
qed

subsection \<open>A turn\<close>

lemma ebindE:
  assumes "ebind m f w = (r, w')"
  obtains e where "m w = (Inl e, w')" "r = Inl e" | x v where "m w = (Inr x, v)" "f x v = (r, w')"
  using assms by (auto simp: ebind_def split: prod.splits sum.splits)

text \<open>\<open>acts_ok\<close>: from a world where the session variable is in order, the call executes only sanctioned commands.\<close>

definition acts_ok :: "deps \<Rightarrow> AgentSession \<Rightarrow> ExecutionTarget \<Rightarrow> AgentSession \<Rightarrow> 'a agent \<Rightarrow> bool" where
  "acts_ok k s0 target ss m \<longleftrightarrow> (\<forall>w. env_ok (as_id s0) w \<and> upgraded s0 ss (w_sh w) \<longrightarrow>
     grows (sanctioned k s0 target) (as_id s0) w (snd (m w)))"

lemma acts_okD:
  "acts_ok k s0 target ss m \<Longrightarrow> m w = (r, w') \<Longrightarrow> env_ok (as_id s0) w \<Longrightarrow> upgraded s0 ss (w_sh w) \<Longrightarrow>
     grows (sanctioned k s0 target) (as_id s0) w w'"
  unfolding acts_ok_def by (metis snd_conv)

lemma quiet_acts_ok: "moves (quietly (as_id s0)) m \<Longrightarrow> acts_ok k s0 target ss m"
  unfolding acts_ok_def by (intro allI impI, rule quietly_grows, rule movesD)

lemma then_quiet:
  assumes m: "acts_ok k s0 target ss m" and f: "\<And>x. moves (quietly (as_id s0)) (f x)"
  shows "acts_ok k s0 target ss (ebind m f)"
  unfolding acts_ok_def
proof (intro allI impI, elim conjE)
  fix w assume e: "env_ok (as_id s0) w" and u: "upgraded s0 ss (w_sh w)"
  obtain r w' where b: "ebind m f w = (r, w')" by fastforce
  then have "grows (sanctioned k s0 target) (as_id s0) w w'"
  proof (cases rule: ebindE)
    case (1 x)
    show ?thesis by (rule acts_okD [OF m 1(1) e u])
  next
    case (2 x v)
    show ?thesis by (rule grows_trans [OF acts_okD [OF m 2(1) e u] quietly_grows [OF moves_result [OF f 2(2)]]])
  qed
  then show "grows (sanctioned k s0 target) (as_id s0) w (snd (ebind m f w))" by (simp only: b snd_conv)
qed

lemma quiet_then:
  assumes m: "moves (quietly (as_id s0)) m" and f: "\<And>x. acts_ok k s0 target ss (f x)"
  shows "acts_ok k s0 target ss (ebind m f)"
  unfolding acts_ok_def
proof (intro allI impI, elim conjE)
  fix w assume e: "env_ok (as_id s0) w" and u: "upgraded s0 ss (w_sh w)"
  obtain r w' where b: "ebind m f w = (r, w')" by fastforce
  then have "grows (sanctioned k s0 target) (as_id s0) w w'"
  proof (cases rule: ebindE)
    case (1 x)
    show ?thesis by (rule quietly_grows [OF moves_result [OF m 1(1)]])
  next
    case (2 x v)
    have q: "quietly (as_id s0) w v" by (rule moves_result [OF m 2(1)])
    then have "env_ok (as_id s0) v" "upgraded s0 ss (w_sh v)"
      using env_ok_mono [OF e] upgraded_le [OF u] e by (simp_all add: grows_def)
    with acts_okD [OF f 2(2)] grows_trans [OF quietly_grows [OF q]] show ?thesis by blast
  qed
  then show "grows (sanctioned k s0 target) (as_id s0) w (snd (ebind m f w))" by (simp only: b snd_conv)
qed

lemma acts_case_prod: "(\<And>y z. acts_ok k s0 target ss (f y z)) \<Longrightarrow> acts_ok k s0 target ss (case x of (y, z) \<Rightarrow> f y z)"
  by (cases x) simp

lemma acts_case_option:
  "acts_ok k s0 target ss m \<Longrightarrow> (\<And>y. acts_ok k s0 target ss (f y)) \<Longrightarrow>
     acts_ok k s0 target ss (case x of None \<Rightarrow> m | Some y \<Rightarrow> f y)"
  by (cases x) simp_all

lemma acts_case_sum:
  "(\<And>y. acts_ok k s0 target ss (f y)) \<Longrightarrow> (\<And>y. acts_ok k s0 target ss (g y)) \<Longrightarrow>
     acts_ok k s0 target ss (case x of Inl y \<Rightarrow> f y | Inr y \<Rightarrow> g y)"
  by (cases x) simp_all

lemma run_adapter_sanctioned: "acts_ok k s0 target ss (run_adapter b k target ss sk)"
proof (induction b arbitrary: ss sk)
  case (DoTool q c)
  show ?case unfolding acts_ok_def
  proof (intro allI impI, elim conjE)
    fix w assume e: "env_ok (as_id s0) w" and u: "upgraded s0 ss (w_sh w)"
    obtain r w' where b: "run_adapter (DoTool q c) k target ss sk w = (r, w')" by fastforce
    from b [unfolded run_adapter.simps] have "grows (sanctioned k s0 target) (as_id s0) w w'"
    proof (cases rule: ebindE)
      case (1 x)
      then show ?thesis using Invoke_sanctioned [OF 1(1) e u] by blast
    next
      case (2 x v)
      obtain out s' where x: "x = (out, s')" by fastforce
      have g: "grows (sanctioned k s0 target) (as_id s0) w v" and u': "upgraded s0 s' (w_sh v)"
        using Invoke_sanctioned [OF 2(1) e u] x by simp_all
      have e': "env_ok (as_id s0) v" using env_ok_mono [OF e] g by (simp add: grows_def)
      show ?thesis
      proof (cases out)
        case Hangs
        then show ?thesis using 2(2) g by (simp add: x ereturn_def)
      next
        case (Returned y)
        with 2(2) x have "run_adapter (c y) k target s' sk v = (r, w')" by simp
        from grows_trans [OF g acts_okD [OF DoTool [OF rangeI] this e' u']] show ?thesis .
      qed
    qed
    then show "grows (sanctioned k s0 target) (as_id s0) w (snd (run_adapter (DoTool q c) k target ss sk w))"
      by (simp only: b snd_conv)
  qed
next
  case (Ret e)
  show ?case unfolding run_adapter.simps by (intro quiet_acts_ok growth.moves_return)
next
  case (CheckCtx c)
  show ?case unfolding run_adapter.simps by (rule quiet_then [OF reads_quietly(1) CheckCtx [OF rangeI]])
qed (unfold run_adapter.simps, (rule quiet_then [OF sink_call_quietly [OF sinks_quietly(1)]]
      quiet_then [OF sink_call_quietly [OF sinks_quietly(2)]] quiet_then [OF sink_call_quietly [OF sinks_quietly(3)]]
      quiet_then [OF sink_call_quietly [OF sinks_quietly(4)]], rule acts_case_prod, simp)+)

lemma turn_body_sanctioned: "acts_ok k s0 target s0 (turn_body k s0 message target)"
  unfolding turn_body_def
  by (intro quiet_then publish_quietly on_svc_quietly acts_case_option acts_case_sum then_quiet run_adapter_sanctioned;
      (intro quiet_acts_ok)?; (intro quiet_rules failTurn_quietly isRevoked_quietly end_turn_quietly)?;
      (simp add: adapterForProvider_def)?)

lemma runTurn_sanctioned:
  assumes r: "runTurn k s0 message target w = (r, w')" and e: "env_ok (as_id s0) w"
  shows "grows (sanctioned k s0 target) (as_id s0) w w'"
proof -
  obtain x v where b: "turn_body k s0 message target w = (x, v)" by fastforce
  have g: "grows (sanctioned k s0 target) (as_id s0) w v"
    by (rule acts_okD [OF turn_body_sanctioned b e]) (simp add: upgraded_def)
  have m: "moves (quietly (as_id s0)) (svc_do (releaseTurn (as_id s0)))"
    by (rule svc_do_quietly) (simp add: releaseTurn_def)
  from r b have "w' = v \<or> w' = snd (svc_do (releaseTurn (as_id s0)) v)"
    by (auto simp: runTurn_def split: sum.splits bool.splits)
  then show ?thesis using g grows_trans [OF g quietly_grows [OF movesD [OF m]]] by auto
qed

subsection \<open>Revoked sessions\<close>

definition still :: "ident \<Rightarrow> world \<Rightarrow> world \<Rightarrow> bool" where
  "still i w w' \<longleftrightarrow> (env_ok i w \<and> i \<in> dom (revoked (sh_svc (w_sh w))) \<longrightarrow>
     env_ok i w' \<and> i \<in> dom (revoked (sh_svc (w_sh w'))) \<and> w_execs w' = w_execs w)"

interpretation stillness: step_order "still i" for i
  by unfold_locales (auto simp: still_def)

lemma quietly_still: "quietly i w w' \<Longrightarrow> still i w w'"
  using env_ok_mono [of i w w'] unfolding grows_def still_def sh_le_def by auto

lemma moves_still: "moves (quietly i) m \<Longrightarrow> moves (still i) m"
  unfolding moves_def by (blast intro: quietly_still)

text \<open>The check before an execution stops a revoked session.\<close>

lemma stopped_revoked:
  assumes "stopped i w = (Inr x, v)" "env_ok i w" "i \<in> dom (revoked (sh_svc (w_sh w)))"
  shows "x \<noteq> None"
proof
  assume "x = None"
  with assms(1) obtain w1 b where c: "ctxErr w = (Inr None, w1)" and r: "isRevoked i w1 = (Inr b, v)" and b: "\<not> b"
    by (auto simp: stopped_def split: option.splits if_splits elim!: ebind_InrE)
  have w1: "quietly i w w1" by (rule moves_result [OF reads_quietly(1) c])
  have "quietly i w (interfere w1)" by (rule grows_trans [OF w1 interfere_quietly])
  then have "i \<in> dom (revoked (sh_svc (w_sh (interfere w1))))" using assms(2,3) by (auto simp: grows_def sh_le_def)
  then have "b" using r by (auto simp: isRevoked_def on_svc_def Let_def)
  with b show False ..
qed

lemma stopped_then_still:
  assumes "\<And>x. moves (still i) (f (Some x))"
  shows "moves (still i) (ebind (stopped i) f)"
proof (rule movesI)
  fix w
  obtain r v where s: "stopped i w = (r, v)" by fastforce
  have q: "still i w v" by (rule quietly_still [OF moves_result [OF stopped_quietly s]])
  show "still i w (snd (ebind (stopped i) f w))"
  proof (cases r)
    case (Inl e)
    with s q show ?thesis by (simp add: ebind_def)
  next
    case (Inr x)
    show ?thesis
    proof (cases x)
      case None
      with stopped_revoked [OF s [unfolded Inr]] show ?thesis by (auto simp: still_def)
    next
      case (Some y)
      with s Inr have "ebind (stopped i) f w = f (Some y) v" by (simp add: ebind_def)
      with stillness.R_trans [OF q movesD [OF assms]] show ?thesis by simp
    qed
  qed
qed

lemma case_out_still:
  "moves R m \<Longrightarrow> (\<And>r. moves R (f r)) \<Longrightarrow> moves R (case x of Hangs \<Rightarrow> m | Returned r \<Rightarrow> f r)"
  by (cases x) simp_all

lemma case_admission_still:
  "moves R m \<Longrightarrow> (\<And>r. moves R (f r)) \<Longrightarrow> (\<And>r. moves R (g r)) \<Longrightarrow>
     moves R (case x of Hang \<Rightarrow> m | Denied r \<Rightarrow> f r | Approved r \<Rightarrow> g r)"
  by (cases x) simp_all

lemmas still_rules = stillness.moves_rules moves_still [OF publish_quietly] moves_still [OF close_tool_quietly]
  moves_still [OF finishTool_quietly(2)] moves_still [OF audit_quietly(2)] reads_quietly [THEN moves_still]
  store_keeps [THEN on_store_quietly, THEN moves_still]

lemma execute_still: "as_id ss = i \<Longrightarrow> moves (still i) (execute k ss target a)"
  unfolding execute_def by (simp, rule stopped_then_still) (simp add: stillness.moves_return)

lemma run_call_still: "as_id ss = i \<Longrightarrow> moves (still i) (run_call k target ss t a)"
  unfolding run_call_def Let_def by (intro still_rules execute_still; assumption)

lemma admit_call_id: "admit_call k ss q w = (Inr (Approved s1, t, a), v) \<Longrightarrow> as_id s1 = as_id ss"
  unfolding admit_call_def
  by (elim ebind_InrE) (auto split: prod.splits if_splits elim!: ebind_InrE approve_callE)

lemma Invoke_still:
  assumes I: "Invoke k target ss q w = (r, w')" and i: "as_id ss = i"
  shows "still i w w' \<and> (\<forall>out s'. r = Inr (out, s') \<longrightarrow> as_id s' = i)"
proof -
  obtain ad v where ad: "admit_call k ss q w = (ad, v)" by fastforce
  have q: "still i w v" by (rule quietly_still [OF moves_result [OF admit_call_quietly ad]])
  have rest: "(case ad of
       Inl err \<Rightarrow> ereturn (Returned (Inl err), ss)
     | Inr (Hang, _) \<Rightarrow> ereturn (Hangs, ss)
     | Inr (Denied result, _) \<Rightarrow> ereturn (Returned (Inr result), ss)
     | Inr (Approved session', toolCallID, arguments) \<Rightarrow>
         ebind (etry (run_call k target session' toolCallID arguments)) (\<lambda>r. ereturn (Returned r, session'))) v = (r, w')"
    using I unfolding Invoke_def by (simp add: ebind_def etry_def ad)
  show ?thesis
  proof (cases "\<exists>s1 t a. ad = Inr (Approved s1, t, a)")
    case False
    with rest have "w' = v" "\<forall>out s'. r = Inr (out, s') \<longrightarrow> s' = ss"
      by (auto simp: ereturn_def split: sum.splits prod.splits admission.splits)
    then show ?thesis using q i by auto
  next
    case True
    then obtain s1 t a where A: "ad = Inr (Approved s1, t, a)" by blast
    have s1: "as_id s1 = i" using admit_call_id [OF ad [unfolded A]] i by simp
    from rest A obtain out where R: "run_call k target s1 t a v = (out, w')" and r: "r = Inr (Returned out, s1)"
      by (auto simp: ebind_def etry_def ereturn_def split: prod.splits)
    from stillness.R_trans [OF q moves_result [OF run_call_still [OF s1] R]] r s1 show ?thesis by simp
  qed
qed

lemma run_adapter_still: "as_id ss = i \<Longrightarrow> moves (still i) (run_adapter b k target ss sk)"
proof (induction b arbitrary: ss sk)
  case (DoTool q c)
  show ?case
  proof (rule movesI)
    fix w
    obtain r w' where b: "run_adapter (DoTool q c) k target ss sk w = (r, w')" by fastforce
    from b [unfolded run_adapter.simps] have "still i w w'"
    proof (cases rule: ebindE)
      case (1 x)
      then show ?thesis using Invoke_still [OF 1(1) DoTool.prems] by blast
    next
      case (2 x v)
      obtain out s' where x: "x = (out, s')" by fastforce
      have g: "still i w v" and s': "as_id s' = i" using Invoke_still [OF 2(1) DoTool.prems] x by simp_all
      show ?thesis
      proof (cases out)
        case Hangs
        then show ?thesis using 2(2) g by (simp add: x ereturn_def)
      next
        case (Returned y)
        with 2(2) x have "run_adapter (c y) k target s' sk v = (r, w')" by simp
        from stillness.R_trans [OF g moves_result [OF DoTool.IH [OF rangeI s'] this]] show ?thesis .
      qed
    qed
    then show "still i w (snd (run_adapter (DoTool q c) k target ss sk w))" by (simp only: b snd_conv)
  qed
next
  case (Ret e)
  show ?case unfolding run_adapter.simps by (intro stillness.moves_return)
next
  case (CheckCtx c)
  show ?case unfolding run_adapter.simps
    by (rule stillness.moves_bind [OF moves_still [OF reads_quietly(1)] CheckCtx.IH [OF rangeI CheckCtx.prems]])
qed (unfold run_adapter.simps, (rule stillness.moves_bind, rule moves_still, rule sink_call_quietly, rule sinks_quietly,
     rule stillness.moves_case_prod, simp)+)

end
