(* ===== verification/AgentFinish.thy ===== *)
theory AgentFinish
  imports AgentProps
begin

text \<open>
  Finalization of tool calls: what \<^verbatim>\<open>finishTool\<close> reports is what the store holds, on every
  path through its retries, reconciliation and compensation.
\<close>

lemma terminal_closed: "terminalToolStatus (tc_status r) \<Longrightarrow> \<not> open_tool r"
  by (auto simp: terminalToolStatus_def open_tool_def status_consts)

lemma stable_terminal [simp]: "terminalToolStatus st \<Longrightarrow> stable (\<lambda>r. tc_status r = st)"
  unfolding stable_def tool_le_def using terminal_closed by auto

lemma finished_row:
  assumes "FinishAgentToolCall u k st ec x now s = (Inr y, t)"
  shows "terminalToolStatus st \<and> (\<exists>r \<in> set (tool_calls (tables t)). tc_id r = k \<and> tc_status r = st)"
proof -
  let ?p = "\<lambda>r. tc_id r = k \<and> finish_from st r \<and> agentToolOwnerPredicate (tables s) u r"
  let ?f = "\<lambda>r. r\<lparr>tc_status := st, tc_exit_code := ec, tc_output_excerpt := x, tc_completed_at := Some now\<rparr>"
  from assms have e: "fst (finish_tool u k st ec x now (tables s)) = 1"
      "tables t = snd (finish_tool u k st ec x now (tables s))" and st: "terminalToolStatus st"
    unfolding FinishAgentToolCall_def agent_queries terminalToolStatus_def
    by (elim guarded_InrE exec_InrE try_one_InrE; auto simp: ebind_assoc split: option.splits sum.splits elim!: query_InrE)+
  from e(1) have "count_rows ?p (tool_calls (tables s)) = Suc 0" by (simp add: finish_tool_def upd_tools_def)
  then obtain r where r: "r \<in> set (tool_calls (tables s))" "?p r" using count_one_row by blast
  then have "?f r \<in> set (tool_calls (tables t))" unfolding e(2) tab by (intro upd_rows_changed) auto
  then show ?thesis using r(2) st by (intro conjI bexI [of _ "?f r"]) simp_all
qed

lemma failed_row:
  assumes "FailPendingAgentToolCall u k x now s = (Inr (FailedNow row), t)"
  shows "\<exists>r \<in> set (tool_calls (tables t)). tc_id r = k \<and> tc_status r = ToolCallFailed"
proof -
  let ?p = "\<lambda>r. tc_id r = k \<and> undecided r \<and> agentToolOwnerPredicate (tables s) u r"
  let ?f = "\<lambda>r. r\<lparr>tc_status := ToolCallFailed, tc_output_excerpt := Some x, tc_completed_at := Some now\<rparr>"
  from fail_pending_outcome [OF assms] have e: "fst (fail_undecided u k x now (tables s)) = 1"
    "tables t = snd (fail_undecided u k x now (tables s))" by simp_all
  from e(1) have "count_rows ?p (tool_calls (tables s)) = Suc 0" by (simp add: fail_undecided_def upd_tools_def)
  then obtain r where r: "r \<in> set (tool_calls (tables s))" "?p r" using count_one_row by blast
  then have "?f r \<in> set (tool_calls (tables t))" unfolding e(2) tab by (intro upd_rows_changed) auto
  then show ?thesis using r(2) by (intro bexI [of _ "?f r"]) simp_all
qed

text \<open>What a part of the finalization returns: nothing yet, or the status the store holds.\<close>

definition reports :: "ident \<Rightarrow> ident \<Rightarrow> finish_result option \<Rightarrow> world \<Rightarrow> bool" where
  "reports i t res w \<longleftrightarrow> tracks i t (\<lambda>_. True) w \<and> (case res of None \<Rightarrow> True
     | Some (st, e) \<Rightarrow> terminalToolStatus st \<and> tracks i t (\<lambda>r. tc_status r = st) w)"

lemma reports_None [simp]: "reports i t None w \<longleftrightarrow> tracks i t (\<lambda>_. True) w"
  by (simp add: reports_def)

lemma reportsI: "terminalToolStatus st \<Longrightarrow> tracks i t (\<lambda>r. True \<and> tc_status r = st) w \<Longrightarrow> reports i t (Some (st, e)) w"
  unfolding reports_def by (auto elim: tracks_mono)

lemma try_InrE:
  assumes "ebind (etry m) f w = (Inr y, w')"
  obtains r v where "m w = (r, v)" "f r v = (Inr y, w')"
  using assms by (auto simp: ebind_def etry_def split: prod.splits)

lemma abort_reports:
  assumes "abort_attempts n e u t x w = (Inr (res, e'), w')" "tracks i t (\<lambda>_. True) w"
  shows "reports i t res w'"
  using assms
proof (induction n arbitrary: e w)
  case 0
  then show ?case by simp
next
  case (Suc n)
  let ?m = "\<lambda>now. FailPendingAgentToolCall u t x now"
  let ?k = "\<lambda>r. case r of
       Inr (FailedNow _) \<Rightarrow> ereturn (Some (ToolCallFailed, None), e)
     | Inr (FailConflict toolCall) \<Rightarrow>
         if terminalToolStatus (tc_status toolCall) then
           (if tc_status toolCall = ToolCallFailed then ereturn (Some (ToolCallFailed, None), e)
            else ereturn (Some (tc_status toolCall,
              Some (AgOther ''tool terminal state changed before failure finalization'')), e))
         else if tc_status toolCall = ToolCallStarted \<or> tc_decision toolCall \<noteq> None
         then ereturn (None, e)
         else abort_attempts n (AgStore ErrConflict) u t x
     | Inl err \<Rightarrow> abort_attempts n err u t x"
  from Suc.prems(1) obtain now v r v' where now: "getNow w = (Inr now, v)" and o: "on_store (?m now) v = (r, v')"
    and k: "?k r v' = (Inr (res, e'), w')" unfolding abort_attempts.simps by (rule now_try_InrE)
  have v: "tracks i t (\<lambda>_. True) v" by (rule tracks_moves [OF reads_quietly(2) now Suc.prems(2)]) simp
  have v': "tracks i t (\<lambda>_. True) v'" by (rule tracks_moves [OF on_store_quietly [OF store_keeps(6)] o v]) simp
  consider err where "r = Inl err" | row where "r = Inr (FailedNow row)" | row where "r = Inr (FailConflict row)"
    by (cases r) (auto intro: fail_pending.exhaust)
  then show ?case
  proof cases
    case (1 err)
    with k show ?thesis using Suc.IH [of err v'] v' by simp
  next
    case (2 row)
    have "tracks i t (\<lambda>r. True \<and> tc_status r = ToolCallFailed) v'"
      by (rule tracks_row [OF v _ store_keeps(6) o [unfolded 2]]) (simp, rule failed_row)
    with k 2 show ?thesis by (auto simp: terminalToolStatus_def intro!: reportsI)
  next
    case (3 row)
    have "\<exists>r \<in> set (tool_calls (tables s')). tc_id r = t \<and> tc_status r = tc_status row"
      if "?m now s = (Inr (FailConflict row), s')" for s s'
      using fail_pending_outcome [OF that] by auto
    then have tr: "tracks i t (\<lambda>r. True \<and> tc_status r = tc_status row) v'"
      by (intro tracks_row [OF v _ store_keeps(6) o [unfolded 3]]) simp_all
    show ?thesis
    proof (cases "terminalToolStatus (tc_status row)")
      case True
      with k 3 have "w' = v'" "\<exists>d. res = Some (tc_status row, d)" by (auto split: if_splits)
      with reportsI [OF True tr] show ?thesis by auto
    next
      case False
      with k 3 show ?thesis using Suc.IH [of "AgStore ErrConflict" v'] v' by (auto split: if_splits)
    qed
  qed
qed

lemma finish_call_row:
  assumes "finish_call u t st c v w = (Inr y, w')" "tracks i t (\<lambda>_. True) w"
  shows "terminalToolStatus st \<and> tracks i t (\<lambda>r. True \<and> tc_status r = st) w'"
proof -
  from assms(1) obtain now w1 where now: "getNow w = (Inr now, w1)"
    and o: "on_store (FinishAgentToolCall u t st c (Some v) now) w1 = (Inr y, w')"
    unfolding finish_call_def by (rule ebind_InrE)
  have w1: "tracks i t (\<lambda>_. True) w1" by (rule tracks_moves [OF reads_quietly(2) now assms(2)]) simp
  have "terminalToolStatus st" using o by (rule on_store_InrE) (auto dest: finished_row)
  moreover have "tracks i t (\<lambda>r. True \<and> tc_status r = st) w'"
    by (rule tracks_row [OF w1 _ store_keeps(8) o]) (simp, use finished_row in blast)
  ultimately show ?thesis ..
qed

lemma reconcile_row:
  assumes "reconcile u t w = (Inr (Some row), w')" "tracks i t (\<lambda>_. True) w"
  shows "terminalToolStatus (tc_status row) \<and> tracks i t (\<lambda>r. True \<and> tc_status r = tc_status row) w'"
proof -
  from assms(1) obtain r v where l: "lookupTool u t w = (r, v)"
    and k: "(case r of Inl _ \<Rightarrow> ereturn None
      | Inr t \<Rightarrow> ereturn (if terminalToolStatus (tc_status t) then Some t else None)) v = (Inr (Some row) :: agent_err + ToolCall option, w')"
    unfolding reconcile_def by (rule try_InrE)
  from k l have l: "lookupTool u t w = (Inr row, w')" and st: "terminalToolStatus (tc_status row)"
    by (auto split: sum.splits if_splits)
  have "tracks i t (\<lambda>r. True \<and> r = row) w'" by (rule tracks_lookup [OF assms(2) _ l]) simp
  with st show ?thesis by (auto elim: tracks_mono)
qed

lemma finish_attempts_reports:
  assumes "finish_attempts n e u t st c x w = (Inr (res, e'), w')" "tracks i t (\<lambda>_. True) w"
  shows "reports i t res w'"
  using assms
proof (induction n arbitrary: e w)
  case 0
  then show ?case by simp
next
  case (Suc n)
  let ?next = "\<lambda>err found. case found of
       Some r \<Rightarrow> if tc_status r = st then ereturn (Some (st, None), err)
         else ereturn (Some (tc_status r, Some (AgOther ''tool terminal state changed before finalization'')), err)
     | None \<Rightarrow> finish_attempts n err u t st c x"
  from Suc.prems(1) obtain r v where f: "finish_call u t st c x w = (r, v)"
    and k: "(case r of Inr _ \<Rightarrow> ereturn (Some (st, None), e)
      | Inl err \<Rightarrow> ebind (reconcile u t) (?next err)) v = (Inr (res, e'), w')"
    unfolding finish_attempts.simps by (rule try_InrE)
  show ?case
  proof (cases r)
    case (Inr y)
    from finish_call_row [OF f [unfolded Inr] Suc.prems(2)] k Inr show ?thesis by (auto intro: reportsI)
  next
    case (Inl err)
    have v: "tracks i t (\<lambda>_. True) v" by (rule tracks_moves [OF reconcile_quietly(2) f Suc.prems(2)]) simp
    from k Inl have "ebind (reconcile u t) (?next err) v = (Inr (res, e'), w')" by simp
    then obtain found v2 where r: "reconcile u t v = (Inr found, v2)" and k2: "?next err found v2 = (Inr (res, e'), w')"
      by (rule ebind_InrE)
    have v2: "tracks i t (\<lambda>_. True) v2" by (rule tracks_moves [OF reconcile_quietly(1) r v]) simp
    show ?thesis
    proof (cases found)
      case None
      with k2 show ?thesis using Suc.IH [of err v2] v2 by simp
    next
      case (Some row)
      from reconcile_row [OF r [unfolded Some] v] k2 Some show ?thesis by (auto split: if_splits intro: reportsI)
    qed
  qed
qed

lemma compensate_reports:
  assumes "compensate n e u t w = (Inr (res, e'), w')" "tracks i t (\<lambda>_. True) w"
  shows "reports i t res w'"
  using assms
proof (induction n arbitrary: e w)
  case 0
  then show ?case by simp
next
  case (Suc n)
  let ?next = "\<lambda>err found. case found of
       Some r \<Rightarrow> ereturn (Some (tc_status r, Some (AgWrap ''tool finalization reconciled'' err)), err)
     | None \<Rightarrow> compensate n err u t"
  from Suc.prems(1) obtain r v where
    f: "finish_call u t ToolCallFailed None ''tool finalization persistence failed'' w = (r, v)"
    and k: "(case r of Inr _ \<Rightarrow> ereturn (Some (ToolCallFailed, Some (AgWrap ''tool finalization compensated'' e)), e)
      | Inl err \<Rightarrow> ebind (reconcile u t) (?next err)) v = (Inr (res, e'), w')"
    unfolding compensate.simps by (rule try_InrE)
  show ?case
  proof (cases r)
    case (Inr y)
    from finish_call_row [OF f [unfolded Inr] Suc.prems(2)] k Inr show ?thesis by (auto intro: reportsI)
  next
    case (Inl err)
    have v: "tracks i t (\<lambda>_. True) v" by (rule tracks_moves [OF reconcile_quietly(2) f Suc.prems(2)]) simp
    from k Inl have "ebind (reconcile u t) (?next err) v = (Inr (res, e'), w')" by simp
    then obtain found v2 where r: "reconcile u t v = (Inr found, v2)" and k2: "?next err found v2 = (Inr (res, e'), w')"
      by (rule ebind_InrE)
    have v2: "tracks i t (\<lambda>_. True) v2" by (rule tracks_moves [OF reconcile_quietly(1) r v]) simp
    show ?thesis
    proof (cases found)
      case None
      with k2 show ?thesis using Suc.IH [of err v2] v2 by simp
    next
      case (Some row)
      from reconcile_row [OF r [unfolded Some] v] k2 Some show ?thesis by (auto intro: reportsI)
    qed
  qed
qed

lemma finish_final_reports:
  assumes "finish_final u t st c x w = (Inr (s, e), w')" "tracks i t (\<lambda>_. True) w" "s \<noteq> []"
  shows "reports i t (Some (s, e)) w'"
proof -
  let ?last = "\<lambda>(fin, lastErr). case fin of Some f \<Rightarrow> ereturn f
    | None \<Rightarrow> ereturn ([], Some (AgWrap ''tool terminal persistence failed'' lastErr))"
  let ?rest = "\<lambda>(fin, lastErr). case fin of Some f \<Rightarrow> ereturn f
    | None \<Rightarrow> ebind (if st \<noteq> ToolCallFailed then compensate 2 lastErr u t else ereturn (None, lastErr)) ?last"
  from assms(1) obtain a v where f: "finish_attempts 2 (AgOther []) u t st c x w = (Inr a, v)"
    and k: "?rest a v = (Inr (s, e), w')" unfolding finish_final_def by (rule ebind_InrE)
  obtain fin le where a: "a = (fin, le)" by fastforce
  have r: "reports i t fin v" by (rule finish_attempts_reports [OF f [unfolded a] assms(2)])
  show ?thesis
  proof (cases fin)
    case (Some g)
    with k a r show ?thesis by simp
  next
    case None
    with k a have "ebind (if st \<noteq> ToolCallFailed then compensate 2 le u t else ereturn (None, le)) ?last v = (Inr (s, e), w')"
      by simp
    then obtain b v2 where b: "(if st \<noteq> ToolCallFailed then compensate 2 le u t else ereturn (None, le)) v = (Inr b, v2)"
      and k2: "?last b v2 = (Inr (s, e) :: agent_err + finish_result, w')" by (rule ebind_InrE)
    from k2 assms(3) obtain le2 where "b = (Some (s, e), le2)" "v2 = w'"
      by (auto split: prod.splits option.splits)
    with b have "compensate 2 le u t v = (Inr (Some (s, e), le2), w')" by (auto split: if_splits)
    then show ?thesis using r None by (intro compensate_reports) simp_all
  qed
qed

lemma finishTool_reports:
  assumes "finishTool ss t st c x w = (Inr (s, e), w')" "tracks i t (\<lambda>_. True) w" "s \<noteq> []"
  shows "reports i t (Some (s, e)) w'"
proof (cases "st = ToolCallFailed")
  case False
  with assms(1) have "finish_final (as_user_id ss) t st c x w = (Inr (s, e), w')" by (simp add: finishTool_def)
  then show ?thesis using assms(2,3) by (rule finish_final_reports)
next
  case True
  let ?final = "finish_final (as_user_id ss) t st c x"
  let ?look = "\<lambda>abortErr found. case found of
       Inr r \<Rightarrow> if tc_status r = ToolCallPending \<and> tc_decision r = None
         then ereturn ([], Some (AgWrap ''atomic pending-tool failure persistence failed'' abortErr)) else ?final
     | Inl _ \<Rightarrow> ?final"
  let ?rest = "\<lambda>(fin, abortErr). case fin of Some f \<Rightarrow> ereturn f
    | None \<Rightarrow> ebind (etry (lookupTool (as_user_id ss) t)) (?look abortErr)"
  from assms(1) [unfolded finishTool_def Let_def]
  have "ebind (abort_attempts 2 (AgOther []) (as_user_id ss) t x) ?rest w = (Inr (s, e), w')"
    by (simp only: True if_True simp_thms)
  then obtain a v where f: "abort_attempts 2 (AgOther []) (as_user_id ss) t x w = (Inr a, v)"
    and k: "?rest a v = (Inr (s, e), w')" by (rule ebind_InrE)
  obtain fin ae where a: "a = (fin, ae)" by fastforce
  have r: "reports i t fin v" by (rule abort_reports [OF f [unfolded a] assms(2)])
  show ?thesis
  proof (cases fin)
    case (Some g)
    with k a r show ?thesis by simp
  next
    case None
    with k a have "ebind (etry (lookupTool (as_user_id ss) t)) (?look ae) v = (Inr (s, e), w')" by simp
    then obtain found v2 where l: "lookupTool (as_user_id ss) t v = (found, v2)"
      and k2: "?look ae found v2 = (Inr (s, e), w')" by (rule try_InrE)
    have v2: "tracks i t (\<lambda>_. True) v2"
      by (rule tracks_moves [OF lookupTool_quietly l]) (use r None in simp_all)
    from k2 assms(3) have "?final v2 = (Inr (s, e), w')" by (auto split: sum.splits if_splits)
    then show ?thesis using v2 assms(3) by (rule finish_final_reports)
  qed
qed

end
