(* ===== verification/AgentGuarantees.thy ===== *)
theory AgentGuarantees
  imports AgentFinish "HOL-Library.Code_Target_Nat"
begin

text \<open>
  The guarantees of the agent service, on the definitions of \<open>AgentService\<close> and \<open>AgentTurn\<close>,
  with runs of the model on a small database as examples.
\<close>

subsection \<open>Concurrent decisions\<close>

lemma image_upd_session: "(\<And>r. as_id (f r) = as_id r) \<Longrightarrow> as_id ` set (upd_rows p f rs) = as_id ` set rs"
  by (rule image_upd_rows)

interpretation growing: table_order "\<lambda>d e. session_ids d \<subseteq> session_ids e"
  by unfold_locales auto

lemma decide_keeps_sessions:
  "moves (on_tables (\<lambda>d e. session_ids d \<subseteq> session_ids e)) (DecideAgentToolCall u t dc now)"
  unfolding DecideAgentToolCall_def agent_queries
  by (intro growing.moves_sql) (auto simp: record_decision_def upgrade_session_def upd_tools_def upd_sessions_def image_upd_session)

lemma decide_interferes: "(session_step i)\<^sup>*\<^sup>* (tables s) (tables (snd (DecideAgentToolCall u t dc now s)))"
proof -
  have "one_step (tables s) (tables (snd (DecideAgentToolCall u t dc now s)))"
    by (rule op_decide [OF prod.collapse [symmetric]])
  moreover have "session_ids (tables s) \<subseteq> session_ids (tables (snd (DecideAgentToolCall u t dc now s)))"
    using movesD [OF decide_keeps_sessions] by (simp add: on_tables_def)
  ultimately have "tables (snd (DecideAgentToolCall u t dc now s)) = tables s \<or>
      session_step i (tables s) (tables (snd (DecideAgentToolCall u t dc now s)))"
    unfolding one_step_def session_step_def by blast
  then show ?thesis by (auto simp del: fun_upd_apply)
qed

text \<open>A service with the scripted adapter, one online device and a user who approves a call.\<close>

definition ex_request :: ToolRequest where
  "ex_request = \<lparr>tr_Name = ToolRemoteExec, tr_Arguments = ''uptime''\<rparr>"

definition ex_deps :: deps where
  "ex_deps = \<lparr>k_marshal = (\<lambda>_. None), k_marshal_args = (\<lambda>a. Some (ra_Command a)),
     k_decode_args = (\<lambda>s. Some (\<lparr>raw_command = s, raw_cwd = [], raw_timeout_ms = None\<rparr>, [])), k_audit = False,
     k_exec = (\<lambda>_ _ _ _ _. Inr \<lparr>re_Stdout = ''up'', re_Stderr = [], re_ExitCode = 0\<rparr>), k_exec_ctx = (\<lambda>_. None)\<rparr>"

definition ex_adapter :: Adapter where
  "ex_adapter = \<lparr>ad_run = (\<lambda>_. fake_script [\<lparr>fs_Kind = FakeTool, fs_Text = [], fs_Tool = ex_request, fs_SessionID = [], fs_Err = None\<rparr>]),
     ad_preflight = None, ad_session = None, ad_configuration = None\<rparr>"

definition ex_service :: Service where
  "ex_service = \<lparr>adapters = [''fake'' \<mapsto> ex_adapter], provider = ''fake'', hub = newEventHub 0, rootCanceled = False,
     running = Map.empty, configuring = {}, pending = Map.empty, revoked = Map.empty, archived = Map.empty,
     s_shut = False, mutations = 0, turns = 0\<rparr>"

definition ex_shared :: shared where
  "ex_shared = \<lparr>sh_db = ex_st, sh_svc = ex_service, sh_mgr = ex_first\<rparr>"

definition ex_target :: ExecutionTarget where
  "ex_target = \<lparr>et_Platform = ''linux'', et_Arch = ''amd64'', et_Shell = [], et_PathFlavor = [], et_DefaultCWDPolicy = []\<rparr>"

definition ex_tool_id :: ident where
  "ex_tool_id = (case fst (New ''tool'' (replicate 16 (CHR 0x00))) of Inr i \<Rightarrow> i | Inl _ \<Rightarrow> [])"

definition approving :: "string \<Rightarrow> shared \<Rightarrow> shared" where
  "approving dc sh = sh\<lparr>sh_db := snd (DecideAgentToolCall ''usr_1'' ex_tool_id dc 7 (sh_db sh))\<rparr>"

definition ex_world :: "(shared \<Rightarrow> shared) list \<Rightarrow> world" where
  "ex_world env = \<lparr>w_sh = ex_shared, w_env = env, w_rand = replicate 32 (CHR 0x00), w_clock = [], w_ctx = [],
     w_waits = [], w_execs = []\<rparr>"

definition ex_turn :: "(shared \<Rightarrow> shared) list \<Rightarrow> world" where
  "ex_turn env = snd (runTurn ex_deps (hd (agent_sessions ex_db)) (hd (agent_messages ex_db)) ex_target (ex_world env))"

text \<open>A decision that reaches the waiter too: recorded in the store and delivered to the channel.\<close>

definition deciding :: "string \<Rightarrow> shared \<Rightarrow> shared" where
  "deciding dc sh = (case DecideAgentToolCall ''usr_1'' ex_tool_id dc 7 (sh_db sh) of
     (Inl _, db) \<Rightarrow> sh\<lparr>sh_db := db\<rparr>
   | (Inr (t, _), db) \<Rightarrow> sh\<lparr>sh_db := db, sh_svc := snd (deliver_decision ''usr_1'' (tc_session_id t) ex_tool_id dc (sh_svc sh))\<rparr>)"

definition ex_start :: "bool list \<Rightarrow> world" where
  "ex_start fs = (ex_world [])\<lparr>w_sh := ex_shared\<lparr>sh_db := ex_st\<lparr>faults := fs\<rparr>\<rparr>\<rparr>"

subsection \<open>Guarantees\<close>

text \<open>
  C1: A turn executes only sanctioned commands, whatever the provider asks for, whichever store
  calls fail and whatever concurrent callers do to the database and the service in between
  (as long as the session is not deleted and tombstones stay).  Every command handed to the
  executor during a turn goes to the session's own device with the turn's target, is within
  the argument limits, and is stored beforehand as a tool call of this session; in a
  session that asks per command the user has approved this very call, or has approved the
  whole session.
\<close>

theorem turn_executes_only_sanctioned:
  assumes "\<forall>f \<in> set (w_env w). \<forall>sh. (session_step (as_id s0))\<^sup>*\<^sup>* (rows_of sh) (rows_of (f sh)) \<and>
      dom (revoked (sh_svc sh)) \<subseteq> dom (revoked (sh_svc (f sh)))"
  shows "\<exists>xs. w_execs (snd (runTurn k s0 message target w)) = w_execs w @ xs \<and>
      (\<forall>x \<in> set xs. sanctioned k s0 target x)"
proof -
  have "env_ok (as_id s0) w" using assms session_run_keeps unfolding env_ok_def sh_le_def by blast
  then show ?thesis using runTurn_sanctioned [OF prod.collapse [symmetric]] unfolding grows_def by blast
qed

lemma ex_turn_executes: "length (w_execs (ex_turn (replicate 4 id @ [approving DecisionApproveOnce]))) = 1"
  by code_simp

theorem turn_executes_only_sanctioned_witness:
  "\<exists>x. w_execs (ex_turn (replicate 4 id @ [approving DecisionApproveOnce])) = [x] \<and>
     sanctioned ex_deps (hd (agent_sessions ex_db)) ex_target x"
proof -
  have "\<exists>xs. w_execs (ex_turn (replicate 4 id @ [approving DecisionApproveOnce])) = [] @ xs \<and>
      (\<forall>x \<in> set xs. sanctioned ex_deps (hd (agent_sessions ex_db)) ex_target x)"
    using turn_executes_only_sanctioned [of "ex_world (replicate 4 id @ [approving DecisionApproveOnce])"
      "hd (agent_sessions ex_db)" ex_deps "hd (agent_messages ex_db)" ex_target] decide_interferes
    by (simp add: ex_turn_def ex_world_def approving_def)
  with ex_turn_executes show ?thesis by (auto simp: length_Suc_conv)
qed

text \<open>
  C2: Revocation stops a running turn: once the tombstone of a session is set, nothing the
  provider still asks for is executed, in any interleaving with other callers.
\<close>

theorem revoked_session_executes_nothing:
  assumes "\<forall>f \<in> set (w_env w). \<forall>sh. (session_step (as_id s0))\<^sup>*\<^sup>* (rows_of sh) (rows_of (f sh)) \<and>
      dom (revoked (sh_svc sh)) \<subseteq> dom (revoked (sh_svc (f sh)))"
    and "revoked (sh_svc (w_sh w)) (as_id s0) \<noteq> None"
  shows "w_execs (snd (run_adapter b k target s0 sink w)) = w_execs w"
proof -
  have "env_ok (as_id s0) w" using assms(1) session_run_keeps unfolding env_ok_def sh_le_def by blast
  then show ?thesis using movesD [OF run_adapter_still [OF refl]] assms(2)
    unfolding still_def by blast
qed

theorem revoked_session_executes_nothing_witness:
  "w_execs (snd (run_adapter (ad_run ex_adapter undefined) ex_deps ex_target (hd (agent_sessions ex_db)) undefined
     ((ex_world [approving DecisionApproveOnce])\<lparr>w_sh := ex_shared\<lparr>sh_svc := MarkDeviceRevoked ''dev_1'' [''ses_1''] ex_service\<rparr>\<rparr>))) = []"
  using revoked_session_executes_nothing [of "(ex_world [approving DecisionApproveOnce])\<lparr>w_sh :=
      ex_shared\<lparr>sh_svc := MarkDeviceRevoked ''dev_1'' [''ses_1''] ex_service\<rparr>\<rparr>"
      "hd (agent_sessions ex_db)" "ad_run ex_adapter undefined" ex_deps ex_target undefined] decide_interferes
  by (simp add: ex_world_def approving_def ex_db_def MarkDeviceRevoked_def cancel_session_def)


definition ex_finish :: "(agent_err + finish_result) \<times> world" where
  "ex_finish = finishTool (hd (agent_sessions ex_db)) ''tool_1'' ToolCallFailed None ''gone'' (ex_world [])"

lemma ex_finish_fails: "fst ex_finish = Inr (ToolCallFailed, None)"
  by code_simp


definition plain_code :: "string \<Rightarrow> bool" where
  "plain_code c \<longleftrightarrow> c \<noteq> [] \<and> length c \<le> 64 \<and>
     list_all (\<lambda>r. let v = rune_of r in rune_between CHR ''A'' v CHR ''Z'' \<or> v = byte CHR ''_'' \<or>
       rune_between CHR ''0'' v CHR ''9'') (chunks c)"

lemma plain_failures: "plain_code FailureExecTransport" "plain_code FailureExecTimeout" "plain_code FailureExecCanceled"
  by code_simp+

lemma stable_plain: "plain_code (stableFailureCode c)"
  using plain_failures(1) by (auto simp: stableFailureCode_def plain_code_def Let_def)

text \<open>
  What a failed turn tells the browser comes from a fixed list: whatever error the provider
  or the executor returns, the published code of a failed turn is one of the listed codes,
  and the code of a failed command is not empty and has at most 64 characters out of
  capitals, digits and the underscore.
\<close>

theorem failure_codes_are_stable:
  "turn_failure_code e \<in> {FailureExecTimeout, FailureExecCanceled, FailureApprovalTimeout, FailureDeviceOffline,
      FailureExecTransport, ''rate_limited'', ''unauthorized'', ''provider_unavailable'', ''provider_rejected'',
      ''protocol_error'', ''provider_error''} \<and> plain_code (exec_failure_code e c)"
proof
  show "turn_failure_code e \<in> {FailureExecTimeout, FailureExecCanceled, FailureApprovalTimeout, FailureDeviceOffline,
      FailureExecTransport, ''rate_limited'', ''unauthorized'', ''provider_unavailable'', ''provider_rejected'',
      ''protocol_error'', ''provider_error''}"
    by (auto simp: turn_failure_code_def safeAdapterFailureCode_def split: option.split)
  show "plain_code (exec_failure_code e c)"
    by (auto simp: exec_failure_code_def plain_failures stable_plain split: option.split)
qed

subsection \<open>Two error paths\<close>



end
