(* ===== verification/RequestSource.thy ===== *)
theory RequestSource
  imports GoText "HOL-Library.Code_Target_Nat"
begin

text \<open>
  \<^verbatim>\<open>internal/requestsource/resolver.go\<close>: the address a request counts against.  The part of
  \<^verbatim>\<open>net/netip\<close> it uses is written out: an address is invalid, four bytes, or eight groups of
  sixteen bits with a zone (the empty string is no zone).
\<close>

subsection \<open>Package netip\<close>

datatype Addr = NoAddr | Addr4 "nat list" | Addr6 "nat list" string

fun parse4_fields :: "nat list \<Rightarrow> nat \<Rightarrow> nat \<Rightarrow> string \<Rightarrow> nat list option" where
  "parse4_fields fields val digLen [] =
     (if length fields < 3 \<or> digLen = 0 then None else Some (fields @ [val]))"
| "parse4_fields fields val digLen (c # cs) =
     (if in_range 48 (byte c) 57 then
        (if digLen = 1 \<and> val = 0 then None
         else let v = val * 10 + (byte c - 48) in
           if v > 255 then None else parse4_fields fields v (Suc digLen) cs)
      else if c = CHR ''.'' then
        (if digLen = 0 \<or> length fields = 3 then None else parse4_fields (fields @ [val]) 0 0 cs)
      else None)"

definition parseIPv4 :: "string \<Rightarrow> Addr option" where
  "parseIPv4 s = map_option Addr4 (parse4_fields [] 0 0 s)"

definition hexval :: "char \<Rightarrow> nat option" where
  "hexval c = (if in_range 48 (byte c) 57 then Some (byte c - 48)
     else if in_range 97 (byte c) 102 then Some (byte c - 87)
     else if in_range 65 (byte c) 70 then Some (byte c - 55) else None)"

text \<open>One group: its value and what follows; more than four digits fail.\<close>

fun hexgroup :: "nat \<Rightarrow> nat \<Rightarrow> string \<Rightarrow> (nat \<times> nat \<times> string) option" where
  "hexgroup off acc [] = Some (off, acc, [])"
| "hexgroup off acc (c # cs) = (case hexval c of
     None \<Rightarrow> Some (off, acc, c # cs)
   | Some v \<Rightarrow> if off > 3 then None else hexgroup (Suc off) (acc * 16 + v) cs)"

text \<open>The loop over groups; \<open>n\<close> is the number of groups that still fit, \<open>ell\<close> the place of \<^verbatim>\<open>::\<close>.\<close>

fun parse6_groups :: "nat \<Rightarrow> nat option \<Rightarrow> nat list \<Rightarrow> string \<Rightarrow> (nat option \<times> nat list \<times> string) option" where
  "parse6_groups 0 ell gs s = Some (ell, gs, s)"
| "parse6_groups (Suc n) ell gs s = (case hexgroup 0 0 s of
     None \<Rightarrow> None
   | Some (off, acc, rest) \<Rightarrow>
       if off = 0 then None
       else if rest \<noteq> [] \<and> hd rest = CHR ''.'' then
         (if ell = None \<and> length gs \<noteq> 6 \<or> length gs > 6 then None
          else case parse4_fields [] 0 0 s of
            Some [a, b, c, d] \<Rightarrow> Some (ell, gs @ [a * 256 + b, c * 256 + d], [])
          | _ \<Rightarrow> None)
       else let gs' = gs @ [acc] in
         (case rest of
            [] \<Rightarrow> Some (ell, gs', [])
          | c # s1 \<Rightarrow>
              if c \<noteq> CHR '':'' \<or> s1 = [] then None
              else if hd s1 = CHR '':'' then
                (if ell \<noteq> None then None
                 else if tl s1 = [] then Some (Some (length gs'), gs', [])
                 else parse6_groups n (Some (length gs')) gs' (tl s1))
              else parse6_groups n ell gs' s1))"

definition expand6 :: "(nat option \<times> nat list \<times> string) \<Rightarrow> nat list option" where
  "expand6 = (\<lambda>(ell, gs, s).
     if s \<noteq> [] then None
     else if length gs < 8 then
       (case ell of None \<Rightarrow> None | Some e \<Rightarrow> Some (take e gs @ replicate (8 - length gs) 0 @ drop e gs))
     else if ell \<noteq> None then None else Some gs)"

definition parseIPv6 :: "string \<Rightarrow> Addr option" where
  "parseIPv6 input =
     (let s = takeWhile (\<lambda>c. c \<noteq> CHR ''%'') input; r = dropWhile (\<lambda>c. c \<noteq> CHR ''%'') input; zone = tl r in
      if r \<noteq> [] \<and> zone = [] then None
      else map_option (\<lambda>gs. Addr6 gs (if r = [] then [] else zone))
        (if HasPrefix s ''::'' then
           (if drop 2 s = [] then Some (replicate 8 0)
            else Option.bind (parse6_groups 8 (Some 0) [] (drop 2 s)) expand6)
         else Option.bind (parse6_groups 8 None [] s) expand6))"

definition ParseAddr :: "string \<Rightarrow> Addr option" where
  "ParseAddr s = (case find (\<lambda>c. c \<in> set ''.:%'') s of
     None \<Rightarrow> None
   | Some c \<Rightarrow> if c = CHR ''.'' then parseIPv4 s else if c = CHR '':'' then parseIPv6 s else None)"

definition ParsePort :: "string \<Rightarrow> bool" where
  "ParsePort s \<longleftrightarrow> s \<noteq> [] \<and> list_all (\<lambda>c. in_range 48 (byte c) 57) s \<and>
     foldl (\<lambda>n c. n * 10 + (byte c - 48)) 0 s \<le> 65535"

fun Is4 :: "Addr \<Rightarrow> bool" where
  "Is4 (Addr4 _) = True" | "Is4 _ = False"

fun Is6 :: "Addr \<Rightarrow> bool" where
  "Is6 (Addr6 _ _) = True" | "Is6 _ = False"

text \<open>\<^verbatim>\<open>netip.ParseAddrPort\<close>, whose port the resolver drops.\<close>

definition ParseAddrPort :: "string \<Rightarrow> Addr option" where
  "ParseAddrPort s =
     (if CHR '':'' \<notin> set s then None
      else let port = rev (takeWhile (\<lambda>c. c \<noteq> CHR '':'') (rev s)); ip = take (length s - length port - 1) s;
               v6 = HasPrefix ip ''[''
      in if ip = [] \<or> port = [] then None
         else if v6 \<and> (length ip < 2 \<or> last ip \<noteq> CHR '']'') then None
         else if \<not> ParsePort port then None
         else case ParseAddr (if v6 then butlast (tl ip) else ip) of
           None \<Rightarrow> None
         | Some a \<Rightarrow> if v6 \<and> Is4 a \<or> \<not> v6 \<and> Is6 a then None else Some a)"

fun Zone :: "Addr \<Rightarrow> string" where
  "Zone (Addr6 _ z) = z" | "Zone _ = []"

fun Is4In6 :: "Addr \<Rightarrow> bool" where
  "Is4In6 (Addr6 gs _) = (take 6 gs = [0, 0, 0, 0, 0, 65535])" | "Is4In6 _ = False"

definition halves :: "nat list \<Rightarrow> nat list" where
  "halves gs = concat (map (\<lambda>g. [g div 256, g mod 256]) gs)"

fun Unmap :: "Addr \<Rightarrow> Addr" where
  "Unmap (Addr6 gs z) = (if Is4In6 (Addr6 gs z) then Addr4 (halves (drop 6 gs)) else Addr6 gs z)"
| "Unmap a = a"

fun IsValid :: "Addr \<Rightarrow> bool" where
  "IsValid NoAddr = False" | "IsValid _ = True"

fun IsUnspecified :: "Addr \<Rightarrow> bool" where
  "IsUnspecified (Addr4 bs) = (bs = [0, 0, 0, 0])"
| "IsUnspecified (Addr6 gs z) = (gs = replicate 8 0 \<and> z = [])"
| "IsUnspecified NoAddr = False"

fun IsMulticast :: "Addr \<Rightarrow> bool" where
  "IsMulticast (Addr4 bs) = (hd bs div 16 = 14)"
| "IsMulticast (Addr6 gs _) = (hd gs div 256 = 255)"
| "IsMulticast NoAddr = False"

fun digits :: "nat \<Rightarrow> nat \<Rightarrow> string" where
  "digits base n = (if base < 2 \<or> n < base then [''0123456789abcdef'' ! n]
     else digits base (n div base) @ [''0123456789abcdef'' ! (n mod base)])"

definition string4 :: "nat list \<Rightarrow> string" where
  "string4 bs = Join (map (digits 10) bs) ''.''"

definition zeros :: "nat list \<Rightarrow> nat" where
  "zeros gs = length (takeWhile (\<lambda>g. g = 0) gs)"

text \<open>The first of the longest runs of at least two zero groups: its start and length.\<close>

fun longest_run :: "nat \<Rightarrow> nat \<times> nat \<Rightarrow> nat list \<Rightarrow> nat \<times> nat" where
  "longest_run i best [] = best"
| "longest_run i best (g # gs) = (let l = zeros (g # gs) in
     longest_run (Suc i) (if 2 \<le> l \<and> snd best < l then (i, l) else best) gs)"

definition string6 :: "nat list \<Rightarrow> string" where
  "string6 gs = (case longest_run 0 (0, 0) gs of (start, l) \<Rightarrow>
     if l = 0 then Join (map (digits 16) gs) '':''
     else Join (map (digits 16) (take start gs)) '':'' @ ''::'' @ Join (map (digits 16) (drop (start + l) gs)) '':'')"

fun addr_String :: "Addr \<Rightarrow> string" where
  "addr_String NoAddr = ''invalid IP''"
| "addr_String (Addr4 bs) = string4 bs"
| "addr_String (Addr6 gs z) =
     (if Is4In6 (Addr6 gs z) then ''::ffff:'' @ string4 (halves (drop 6 gs)) else string6 gs) @
     (if z = [] then [] else ''%'' @ z)"

subsection \<open>The resolver\<close>

definition HeaderName :: string where
  "HeaderName = ''X-AISummoner-Client-IP''"

record http_request =
  hr_Method :: string
  hr_RemoteAddr :: string
  hr_Header :: "(string \<times> string) list"    \<comment> \<open>canonical names, in order of arrival\<close>

definition Header_Values :: "string \<Rightarrow> (string \<times> string) list \<Rightarrow> string list" where
  "Header_Values name h = map snd (filter (\<lambda>e. fst e = name) h)"

text \<open>\<^verbatim>\<open>textproto.CanonicalMIMEHeaderKey(HeaderName)\<close>, the key \<^verbatim>\<open>Values\<close> looks up.\<close>

definition canonicalHeaderName :: string where
  "canonicalHeaderName = ''X-Aisummoner-Client-Ip''"

datatype source_err = ErrInvalidSource

definition NewResolver :: "Addr list \<Rightarrow> Addr set" where
  "NewResolver trustedProxyIPs = set (map Unmap trustedProxyIPs)"

definition validUnicast :: "Addr \<Rightarrow> bool" where
  "validUnicast a =
     (if \<not> IsValid a \<or> IsUnspecified a \<or> IsMulticast a then False
      else \<not> Is4 a \<or> a \<noteq> Addr4 [255, 255, 255, 255])"

definition parseRemoteAddress :: "string \<Rightarrow> source_err + Addr" where
  "parseRemoteAddress value = (case ParseAddrPort value of
     None \<Rightarrow> Inl ErrInvalidSource
   | Some address \<Rightarrow>
       if Zone address \<noteq> [] then Inl ErrInvalidSource
       else if \<not> validUnicast (Unmap address) then Inl ErrInvalidSource else Inr (Unmap address))"

definition parseCanonicalLiteral :: "string \<Rightarrow> source_err + Addr" where
  "parseCanonicalLiteral value = (case ParseAddr value of
     None \<Rightarrow> Inl ErrInvalidSource
   | Some address \<Rightarrow>
       if Zone address \<noteq> [] then Inl ErrInvalidSource
       else if \<not> validUnicast (Unmap address) \<or> value \<noteq> addr_String (Unmap address) then Inl ErrInvalidSource
       else Inr (Unmap address))"

text \<open>\<open>None\<close> for the resolver or the request is a nil pointer.\<close>

definition Resolve :: "Addr set option \<Rightarrow> http_request option \<Rightarrow> source_err + string" where
  "Resolve resolver request = (case request of
     None \<Rightarrow> Inl ErrInvalidSource
   | Some rq \<Rightarrow> (case parseRemoteAddress (hr_RemoteAddr rq) of
       Inl _ \<Rightarrow> Inl ErrInvalidSource
     | Inr peer \<Rightarrow> (case resolver of
         None \<Rightarrow> Inr (addr_String peer)
       | Some trusted \<Rightarrow>
           if peer \<notin> trusted then Inr (addr_String peer)
           else (case Header_Values canonicalHeaderName (hr_Header rq) of
               [value] \<Rightarrow> (case parseCanonicalLiteral value of
                   Inl _ \<Rightarrow> Inl ErrInvalidSource
                 | Inr client \<Rightarrow> Inr (addr_String client))
             | _ \<Rightarrow> Inl ErrInvalidSource))))"

subsection \<open>Printing and parsing addresses\<close>

declare digits.simps [simp del]

lemma hexval_digit: "n < 16 \<Longrightarrow> hexval (''0123456789abcdef'' ! n) = Some n"
proof -
  have "\<forall>n \<in> set [0..<16]. hexval (''0123456789abcdef'' ! n) = Some n" by code_simp
  then show "n < 16 \<Longrightarrow> ?thesis" by auto
qed

lemma decval_digit: "n < 10 \<Longrightarrow> byte (''0123456789abcdef'' ! n) = 48 + n"
proof -
  have "\<forall>n \<in> set [0..<10]. byte (''0123456789abcdef'' ! n) = 48 + n" by code_simp
  then show "n < 10 \<Longrightarrow> ?thesis" by auto
qed

lemma digits_small: "n < base \<Longrightarrow> digits base n = [''0123456789abcdef'' ! n]"
  by (simp add: digits.simps [of base n])

lemma digits_big:
  "2 \<le> base \<Longrightarrow> base \<le> n \<Longrightarrow> digits base n = digits base (n div base) @ [''0123456789abcdef'' ! (n mod base)]"
  by (subst digits.simps) simp

lemma digits_nonempty [simp]: "digits base n \<noteq> []"
  by (simp add: digits.simps)

lemma digits_length: "2 \<le> base \<Longrightarrow> n < base ^ Suc k \<Longrightarrow> length (digits base n) \<le> Suc k"
proof (induction k arbitrary: n)
  case 0
  then show ?case by (simp add: digits.simps)
next
  case (Suc k)
  have "n div base < base ^ Suc k" using Suc.prems by (intro less_mult_imp_div_less) (simp add: mult.commute)
  with Suc show ?case by (cases "n < base") (auto simp: digits_small digits_big)
qed

subsubsection \<open>Hexadecimal groups\<close>

definition hexend :: "string \<Rightarrow> bool" where
  "hexend rest \<longleftrightarrow> (case rest of [] \<Rightarrow> True | c # _ \<Rightarrow> hexval c = None)"

lemma hexgroup_end: "hexend rest \<Longrightarrow> hexgroup off acc rest = Some (off, acc, rest)"
  by (cases rest) (auto simp: hexend_def)

lemma hexgroup_digits:
  "off + length (digits 16 n) \<le> 4 \<Longrightarrow>
   hexgroup off acc (digits 16 n @ rest) =
   hexgroup (off + length (digits 16 n)) (acc * 16 ^ length (digits 16 n) + n) rest"
proof (induction n arbitrary: rest rule: less_induct)
  case (less n)
  show ?case
  proof (cases "n < 16")
    case True
    with less.prems show ?thesis by (simp add: hexval_digit digits_small)
  next
    case False
    then have "n div 16 < n" by simp
    with less.IH [of "n div 16" "(''0123456789abcdef'' ! (n mod 16)) # rest"] less.prems False
    show ?thesis by (simp add: hexval_digit digits_big algebra_simps)
  qed
qed

lemma hexgroup_printed:
  assumes "g < 65536" and "hexend rest"
  shows "\<exists>l. hexgroup 0 0 (digits 16 g @ rest) = Some (Suc l, g, rest)"
proof -
  have l: "length (digits 16 g) \<le> 4" using digits_length [of 16 g 3] assms(1) by simp
  obtain k where "length (digits 16 g) = Suc k" by (cases "digits 16 g") simp_all
  with hexgroup_digits [of 0 g 0 rest] l assms(2) show ?thesis by (simp add: hexgroup_end)
qed


subsubsection \<open>Groups with colons\<close>

abbreviation hexes :: "nat list \<Rightarrow> string" where
  "hexes gs \<equiv> Join (map (digits 16) gs) '':''"

definition is16 :: "nat list \<Rightarrow> bool" where
  "is16 gs \<longleftrightarrow> (\<forall>g \<in> set gs. g < 65536)"

lemma is16_simps [simp]: "is16 []" "is16 (g # gs) \<longleftrightarrow> g < 65536 \<and> is16 gs" "is16 (gs @ hs) \<longleftrightarrow> is16 gs \<and> is16 hs"
  by (auto simp: is16_def)

lemma hexend_punct [simp]: "hexend []" "hexend (CHR '':'' # s)"
  by (simp_all add: hexend_def hexval_def in_range_def)

lemma digit16_chars: "c \<in> set (digits 16 n) \<Longrightarrow> hexval c \<noteq> None"
proof (induction n rule: less_induct)
  case (less n)
  show ?case
    by (cases "n < 16") (use less less.IH [of "n div 16"] in \<open>auto simp: hexval_digit digits_small digits_big\<close>)
qed

lemma digits16_hd: "hexval (hd (digits 16 n @ s)) \<noteq> None"
  using digit16_chars [of "hd (digits 16 n)" n] by (simp add: hd_append)

lemma hexes_Cons: "Join (digits 16 g # map (digits 16) gs) '':'' = digits 16 g @ (if gs = [] then [] else '':'' @ hexes gs)"
  by (cases gs) simp_all

lemma hexes_hd:
  assumes "gs \<noteq> []"
  shows "hexes gs \<noteq> []" "hd (hexes gs @ s) \<noteq> CHR '':''"
proof -
  obtain g hs where gs: "gs = g # hs" using assms by (cases gs) auto
  show "hexes gs \<noteq> []" by (simp add: gs hexes_Cons del: Join.simps)
  show "hd (hexes gs @ s) \<noteq> CHR '':''"
    using digits16_hd [of g "(if hs = [] then [] else '':'' @ hexes hs) @ s"]
    by (auto simp: gs hexes_Cons hexval_def in_range_def simp del: Join.simps)
qed

lemma parse6_one:
  assumes "g < 65536" and "gs \<noteq> []"
  shows "parse6_groups (Suc n) ell acc (digits 16 g @ '':'' @ hexes gs @ s) = parse6_groups n ell (acc @ [g]) (hexes gs @ s)"
proof -
  obtain l where "hexgroup 0 0 (digits 16 g @ '':'' @ hexes gs @ s) = Some (Suc l, g, '':'' @ hexes gs @ s)"
    using hexgroup_printed [of g "'':'' @ hexes gs @ s"] assms(1) by auto
  then show ?thesis using hexes_hd(1) [OF assms(2)] hexes_hd(2) [OF assms(2), of s] by (simp add: Let_def)
qed

lemma parse6_plain:
  "gs \<noteq> [] \<Longrightarrow> is16 gs \<Longrightarrow> length gs \<le> n \<Longrightarrow>
   parse6_groups n ell acc (hexes gs) = Some (ell, acc @ gs, [])"
proof (induction gs arbitrary: n acc)
  case (Cons g gs)
  obtain k where n: "n = Suc k" using Cons.prems(3) by (cases n) auto
  show ?case
  proof (cases gs)
    case Nil
    then show ?thesis using hexgroup_printed [of g "[]"] Cons.prems n by (auto simp: Let_def)
  next
    case (Cons h hs)
    then show ?thesis using parse6_one [of g gs k ell acc "[]"] Cons.IH [of k "acc @ [g]"] Cons.prems n by simp
  qed
qed simp

lemma parse6_ellipsis:
  "gs \<noteq> [] \<Longrightarrow> is16 gs \<Longrightarrow> is16 ts \<Longrightarrow> length gs + length ts \<le> n \<Longrightarrow>
   parse6_groups n None acc (hexes gs @ ''::'' @ hexes ts) = Some (Some (length acc + length gs), acc @ gs @ ts, [])"
proof (induction gs arbitrary: n acc)
  case (Cons g gs)
  obtain k where n: "n = Suc k" using Cons.prems(4) by (cases n) auto
  show ?case
  proof (cases gs)
    case Nil
    obtain l where h: "hexgroup 0 0 (digits 16 g @ ''::'' @ hexes ts) = Some (Suc l, g, ''::'' @ hexes ts)"
      using hexgroup_printed [of g "''::'' @ hexes ts"] Cons.prems by auto
    show ?thesis
    proof (cases "ts = []")
      case True
      then show ?thesis using h Nil n by (simp add: Let_def)
    next
      case False
      then show ?thesis using h Nil n Cons.prems parse6_plain [of ts k "Some (Suc (length acc))" "acc @ [g]"]
        hexes_hd(1) [of ts] by (simp add: Let_def)
    qed
  next
    case (Cons h hs)
    then show ?thesis using parse6_one [of g gs k None acc "''::'' @ hexes ts"] Cons.IH [of k "acc @ [g]"] Cons.prems n
      by simp
  qed
qed simp

subsubsection \<open>The compressed run\<close>

definition run_ok :: "nat list \<Rightarrow> nat \<times> nat \<Rightarrow> bool" where
  "run_ok gs r \<longleftrightarrow> snd r = 0 \<or>
     fst r + snd r \<le> length gs \<and> take (snd r) (drop (fst r) gs) = replicate (snd r) 0"

lemma zeros_run: "zeros gs \<le> length gs" "take (zeros gs) gs = replicate (zeros gs) 0"
proof -
  show "zeros gs \<le> length gs" by (simp add: zeros_def length_takeWhile_le)
  have "take (zeros gs) gs = takeWhile (\<lambda>g. g = 0) gs" by (simp add: zeros_def takeWhile_eq_take [symmetric])
  also have "\<dots> = replicate (zeros gs) 0"
    by (rule replicate_eqI [symmetric, THEN sym]) (auto simp: zeros_def dest: set_takeWhileD)
  finally show "take (zeros gs) gs = replicate (zeros gs) 0" .
qed

lemma longest_run_ok:
  "run_ok (pre @ gs) best \<Longrightarrow> run_ok (pre @ gs) (longest_run (length pre) best gs)"
proof (induction gs arbitrary: pre best)
  case (Cons g gs)
  have "run_ok (pre @ g # gs) (length pre, zeros (g # gs))"
    using zeros_run [of "g # gs"] by (simp add: run_ok_def)
  then have "run_ok ((pre @ [g]) @ gs)
      (if 2 \<le> zeros (g # gs) \<and> snd best < zeros (g # gs) then (length pre, zeros (g # gs)) else best)"
    using Cons.prems by simp
  from Cons.IH [OF this] show ?case by (simp add: Let_def)
qed simp

lemma run_split:
  assumes "run_ok gs (start, l)" and "l \<noteq> 0"
  shows "gs = take start gs @ replicate l 0 @ drop (start + l) gs"
proof -
  have "gs = take start gs @ take l (drop start gs) @ drop l (drop start gs)" by (metis append_take_drop_id)
  also have "take l (drop start gs) = replicate l 0" using assms by (simp add: run_ok_def)
  finally show ?thesis by (simp add: add.commute)
qed

lemma expand6_run:
  assumes gs: "gs = hs @ replicate l 0 @ ts" and n: "length gs = 8" "l \<noteq> 0"
  shows "expand6 (Some (length hs), hs @ ts, []) = Some gs"
proof -
  have "8 - (length hs + length ts) = l" "length hs + length ts < 8" using n by (simp_all add: gs)
  then show ?thesis by (simp add: expand6_def gs)
qed

lemma parse6_string6:
  assumes gs: "is16 gs" "length gs = 8"
  shows "(if HasPrefix (string6 gs) ''::'' then
           (if drop 2 (string6 gs) = [] then Some (replicate 8 0)
            else Option.bind (parse6_groups 8 (Some 0) [] (drop 2 (string6 gs))) expand6)
         else Option.bind (parse6_groups 8 None [] (string6 gs)) expand6) = Some gs"
proof -
  obtain start l where r: "longest_run 0 (0, 0) gs = (start, l)" by fastforce
  have ok: "run_ok gs (start, l)"
    using longest_run_ok [of "[]" gs "(0, 0)"] r by (simp add: run_ok_def)
  have noprefix: "\<not> HasPrefix (hexes hs @ s) ''::''" if "hs \<noteq> []" for hs s
    using hexes_hd [OF that] by (cases "hexes hs") (auto simp: HasPrefix_def)
  show ?thesis
  proof (cases "l = 0")
    case True
    then have "string6 gs = hexes gs" by (simp add: string6_def r)
    moreover have "gs \<noteq> []" using gs(2) by auto
    ultimately show ?thesis
      using noprefix [of gs "[]"] parse6_plain [of gs 8 None "[]"] gs by (simp add: expand6_def)
  next
    case False
    define hs ts where "hs = take start gs" and "ts = drop (start + l) gs"
    have split: "gs = hs @ replicate l 0 @ ts" using run_split [OF ok False] by (simp add: hs_def ts_def)
    have str: "string6 gs = hexes hs @ ''::'' @ hexes ts" using False by (simp add: string6_def r hs_def ts_def)
    have len: "length hs + length ts \<le> 8" and i16: "is16 hs" "is16 ts"
      using gs by (simp_all add: split)
    note ex = expand6_run [OF split gs(2) False]
    show ?thesis
    proof (cases "hs = []")
      case True
      show ?thesis
      proof (cases "ts = []")
        case True
        then have "gs = replicate 8 0" using \<open>hs = []\<close> gs(2) split by simp
        then show ?thesis using str True \<open>hs = []\<close> by (simp add: HasPrefix_def)
      next
        case False
        then have "parse6_groups 8 (Some 0) [] (hexes ts) = Some (Some 0, ts, [])"
          using parse6_plain [of ts 8 "Some 0" "[]"] len i16 by simp
        then show ?thesis using str ex True hexes_hd(1) [OF False] by (simp add: HasPrefix_def)
      qed
    next
      case False
      then show ?thesis
        using noprefix [OF False] parse6_ellipsis [OF False i16, of 8 "[]"] len str ex by simp
    qed
  qed
qed

subsubsection \<open>Printed addresses are read back\<close>

fun addr_ok :: "Addr \<Rightarrow> bool" where
  "addr_ok (Addr4 bs) = (length bs = 4 \<and> (\<forall>b \<in> set bs. b < 256))"
| "addr_ok (Addr6 gs z) = (length gs = 8 \<and> is16 gs)"
| "addr_ok NoAddr = False"

lemma parse4_digits:
  "n < 256 \<Longrightarrow> parse4_fields fs 0 0 (digits 10 n @ rest) = parse4_fields fs n (length (digits 10 n)) rest"
proof (induction n arbitrary: rest rule: less_induct)
  case (less n)
  show ?case
  proof (cases "n < 10")
    case True
    then show ?thesis by (simp add: digits_small decval_digit in_range_def Let_def)
  next
    case False
    define c where "c = ''0123456789abcdef'' ! (n mod 10)"
    have c: "byte c = 48 + n mod 10" unfolding c_def by (rule decval_digit) simp
    have d: "digits 10 n = digits 10 (n div 10) @ [c]" using False by (simp add: digits_big c_def)
    have "parse4_fields fs 0 0 (digits 10 (n div 10) @ c # rest) =
        parse4_fields fs (n div 10) (length (digits 10 (n div 10))) (c # rest)"
      using False less.prems by (intro less.IH) auto
    moreover have "n div 10 \<noteq> 0" "n div 10 * 10 + n mod 10 = n" "n mod 10 \<le> 9"
      using False mod_less_divisor [of 10 n] by (simp_all add: div_eq_0_iff)
    ultimately show ?thesis using less.prems by (simp add: d c in_range_def Let_def)
  qed
qed

lemma dot_field: "b < 256 \<Longrightarrow> length fs < 3 \<Longrightarrow>
    parse4_fields fs 0 0 (digits 10 b @ CHR ''.'' # s) = parse4_fields (fs @ [b]) 0 0 s"
  by (simp add: parse4_digits in_range_def)

lemma length4: "length xs = 4 \<Longrightarrow> \<exists>a b c d. xs = [a, b, c, d]"
  by (simp add: length_Suc_conv numeral_eq_Suc) blast

lemma parse_string4:
  assumes "length bs = 4" and "\<forall>b \<in> set bs. b < 256"
  shows "parseIPv4 (string4 bs) = Some (Addr4 bs)"
proof -
  obtain a b c d where bs: "bs = [a, b, c, d]"
    using length4 [OF assms(1)] by blast
  have "parse4_fields [a, b, c] 0 0 (digits 10 d @ []) = Some [a, b, c, d]"
    using assms by (subst parse4_digits) (simp_all add: bs)
  then show ?thesis using assms by (simp add: parseIPv4_def string4_def bs dot_field)
qed

lemma Join_chars: "c \<in> set (Join xs sep) \<Longrightarrow> c \<in> set sep \<or> (\<exists>x \<in> set xs. c \<in> set x)"
  by (induction xs sep rule: Join.induct) auto

lemma digit_plain: "c \<in> set (digits 16 n) \<Longrightarrow> c \<notin> set ''.:%''"
  using digit16_chars [of c n] by (auto simp: hexval_def in_range_def)

lemma digits10_chars: "c \<in> set (digits 10 n) \<Longrightarrow> c \<notin> set ''.:%''"
proof (induction n rule: less_induct)
  case (less n)
  have d: "n mod 10 < 10" by simp
  show ?case
    by (cases "n < 10")
       (use less less.IH [of "n div 10"] decval_digit [of n] decval_digit [OF d] in \<open>auto simp: digits_small digits_big\<close>)
qed

lemma find_append: "\<forall>x \<in> set xs. \<not> p x \<Longrightarrow> p y \<Longrightarrow> find p (xs @ y # ys) = Some y"
  by (induction xs) auto

lemma ParseAddr_string4:
  assumes "length bs = 4" and "\<forall>b \<in> set bs. b < 256"
  shows "ParseAddr (string4 bs) = Some (Addr4 bs)"
proof -
  obtain a b c d where bs: "bs = [a, b, c, d]" using length4 [OF assms(1)] by blast
  have "find (\<lambda>c. c \<in> set ''.:%'') (string4 bs) = Some (CHR ''.'')"
    unfolding string4_def bs using digits10_chars [of _ a]
    by (simp add: find_append [of "digits 10 a" "\<lambda>c. c \<in> set ''.:%''" "CHR ''.''", simplified])
  then show ?thesis using parse_string4 [OF assms] by (simp add: ParseAddr_def)
qed

lemma string6_first:
  assumes "length gs = 8"
  shows "\<exists>xs ys. string6 gs = xs @ '':'' @ ys \<and> (\<forall>x \<in> set xs. x \<notin> set ''.:%'')"
proof -
  have long: "\<exists>xs ys. hexes hs @ '':'' @ s = xs @ '':'' @ ys \<and> (\<forall>x \<in> set xs. x \<notin> set ''.:%'')" for hs s
  proof (cases hs)
    case Nil
    then show ?thesis by (intro exI [of _ "[]"] exI [of _ s]) simp
  next
    case (Cons g hs')
    then show ?thesis using digit_plain [of _ g]
      by (intro exI [of _ "digits 16 g"] exI [of _ "(if hs' = [] then [] else hexes hs' @ '':'') @ s"])
         (auto simp: hexes_Cons simp del: Join.simps)
  qed
  obtain start l where r: "longest_run 0 (0, 0) gs = (start, l)" by fastforce
  have plain: "\<exists>hs s. hexes gs = hexes hs @ '':'' @ s"
  proof -
    obtain g h hs where "gs = g # h # hs" using assms by (cases gs; cases "tl gs") auto
    then have "hexes gs = hexes [g] @ '':'' @ hexes (h # hs)" by simp
    then show ?thesis by blast
  qed
  show ?thesis
  proof (cases "l = 0")
    case True
    then have "string6 gs = hexes gs" by (simp add: string6_def r)
    then show ?thesis using plain long by metis
  next
    case False
    then have "string6 gs = hexes (take start gs) @ '':'' @ '':'' @ hexes (drop (start + l) gs)"
      by (simp add: string6_def r)
    then show ?thesis using long by metis
  qed
qed

lemma string6_no_zone: "CHR ''%'' \<notin> set (string6 gs)"
proof -
  have "CHR ''%'' \<notin> set (hexes hs)" for hs
    using Join_chars [of "CHR ''%''" "map (digits 16) hs" "'':''"] digit_plain [of "CHR ''%''"] by auto
  then show ?thesis by (simp add: string6_def split: prod.split)
qed

lemma ParseAddr_string6:
  assumes "is16 gs" and "length gs = 8"
  shows "ParseAddr (string6 gs) = Some (Addr6 gs [])"
proof -
  obtain xs ys where "string6 gs = xs @ '':'' @ ys" "\<forall>x \<in> set xs. x \<notin> set ''.:%''"
    using string6_first [OF assms(2)] by blast
  then have f: "find (\<lambda>c. c \<in> set ''.:%'') (string6 gs) = Some (CHR '':'')"
    using find_append [of xs "\<lambda>c. c \<in> set ''.:%''" "CHR '':''" ys] by simp
  have z: "takeWhile (\<lambda>c. c \<noteq> CHR ''%'') (string6 gs) = string6 gs" "dropWhile (\<lambda>c. c \<noteq> CHR ''%'') (string6 gs) = []"
    using string6_no_zone [of gs] by (auto simp: takeWhile_eq_all_conv dropWhile_eq_Nil_conv)
  show ?thesis
    using parse6_string6 [OF assms] by (simp add: ParseAddr_def f [simplified] parseIPv6_def z Let_def)
qed

lemma ParseAddr_String:
  assumes "addr_ok a" and "\<not> Is4In6 a" and "Zone a = []"
  shows "ParseAddr (addr_String a) = Some a"
  using assms by (cases a) (simp_all add: ParseAddr_string4 ParseAddr_string6)

lemma Unmap_id: "\<not> Is4In6 a \<Longrightarrow> Unmap a = a"
  by (cases a) simp_all

lemma Unmap_plain: "\<not> Is4In6 (Unmap a)" "Zone a = [] \<Longrightarrow> Zone (Unmap a) = []"
  by (cases a, simp_all)+

lemma halves_ok: "is16 [g, h] \<Longrightarrow> length (halves [g, h]) = 4 \<and> (\<forall>b \<in> set (halves [g, h]). b < 256)"
  by (auto simp: halves_def)

lemma Unmap_ok: "addr_ok a \<Longrightarrow> addr_ok (Unmap a)"
proof (cases a)
  case (Addr6 gs z)
  assume ok: "addr_ok a"
  then have "length (drop 6 gs) = 2" using Addr6 by simp
  then obtain g h where d: "drop 6 gs = [g, h]"
    by (cases "drop 6 gs"; cases "tl (drop 6 gs)") auto
  have "is16 (drop 6 gs)" using ok Addr6 by (auto simp: is16_def dest: in_set_dropD)
  then show ?thesis using ok Addr6 halves_ok [of g h] by (simp add: d)
qed simp_all

subsubsection \<open>Parsed addresses are well formed\<close>

lemma parse4_ok:
  "parse4_fields fs val n s = Some bs \<Longrightarrow> length fs \<le> 3 \<Longrightarrow> (\<forall>b \<in> set fs. b < 256) \<Longrightarrow> val < 256 \<Longrightarrow>
   length bs = 4 \<and> (\<forall>b \<in> set bs. b < 256)"
proof (induction fs val n s rule: parse4_fields.induct)
  case (2 fields val digLen c cs)
  then show ?case by (auto simp: Let_def split: if_splits)
qed (auto split: if_splits)

lemma hexval_less: "hexval c = Some v \<Longrightarrow> v < 16"
  by (auto simp: hexval_def in_range_def split: if_splits)

lemma hexgroup_bound: "hexgroup off acc s = Some (n, v, rest) \<Longrightarrow> acc < 16 ^ off \<Longrightarrow> v < 16 ^ n"
proof (induction off acc s rule: hexgroup.induct)
  case (2 off acc c cs)
  show ?case
  proof (cases "hexval c")
    case (Some d)
    have "acc * 16 + d < 16 ^ Suc off" using hexval_less [OF Some] 2 by simp
    then show ?thesis using 2 Some by (auto split: if_splits)
  qed (use 2 in auto)
qed simp

lemma hexgroup_count: "hexgroup off acc s = Some (n, v, rest) \<Longrightarrow> off \<le> 4 \<Longrightarrow> n \<le> 4"
  by (induction off acc s rule: hexgroup.induct) (auto split: option.splits if_splits)

lemma hexgroup_16: "hexgroup 0 0 s = Some (n, v, rest) \<Longrightarrow> v < 65536"
proof -
  assume h: "hexgroup 0 0 s = Some (n, v, rest)"
  have "v < 16 ^ n" "n \<le> 4" using hexgroup_bound [OF h] hexgroup_count [OF h] by simp_all
  moreover have "(16::nat) ^ n \<le> 16 ^ 4" using \<open>n \<le> 4\<close> by (intro power_increasing) auto
  ultimately show "v < 65536" by simp
qed

lemma parse6_ok:
  "parse6_groups n ell gs s = Some (e, hs, rest) \<Longrightarrow> length gs + n = 8 \<Longrightarrow> is16 gs \<Longrightarrow> length hs \<le> 8 \<and> is16 hs"
proof (induction n ell gs s rule: parse6_groups.induct)
  case (2 n ell gs s)
  obtain off acc tail where h: "hexgroup 0 0 s = Some (off, acc, tail)"
    using 2(3) by (cases "hexgroup 0 0 s") auto
  have acc: "is16 (gs @ [acc])" using 2(5) hexgroup_16 [OF h] by simp
  have off: "off \<noteq> 0" using 2(3) h by (auto split: if_splits)
  show ?case
  proof (cases "tail \<noteq> [] \<and> hd tail = CHR ''.''")
    case True
    then obtain bs where bs: "parse4_fields [] 0 0 s = Some bs" and six: "length gs \<le> 6"
      using 2(3) h off by (auto split: if_splits option.splits)
    obtain a b c d where "bs = [a, b, c, d]" and "\<forall>b \<in> set bs. b < 256"
      using parse4_ok [OF bs] length4 [of bs] by auto
    then show ?thesis using 2(3,5) h off bs six True by (auto split: if_splits)
  next
    case False
    show ?thesis
    proof (cases tail)
      case Nil
      then show ?thesis using 2(3,4) h off False acc by (auto simp: Let_def)
    next
      case (Cons c s1)
      note ih1 = 2(1) [OF h refl refl off False refl Cons] and ih2 = 2(2) [OF h refl refl off False refl Cons]
      show ?thesis
      proof (cases "hd s1 = CHR '':''")
        case True
        then show ?thesis using 2(3,4) h off False acc Cons ih1 by (auto simp: Let_def split: if_splits)
      next
        case F: False
        then show ?thesis using 2(3,4) h off False acc Cons ih2 by (auto simp: Let_def split: if_splits)
      qed
    qed
  qed
qed simp

lemma expand6_ok:
  assumes "expand6 (e, hs, rest) = Some gs" and "length hs \<le> 8" and "is16 hs"
  shows "length gs = 8 \<and> is16 gs"
proof -
  have "is16 (take n hs)" "is16 (drop n hs)" for n
    using assms(3) by (auto simp: is16_def dest: in_set_takeD in_set_dropD)
  moreover have "is16 (replicate n 0)" for n by (simp add: is16_def)
  ultimately show ?thesis using assms by (auto simp: expand6_def split: if_splits option.splits)
qed

lemma ParseAddr_ok: "ParseAddr s = Some a \<Longrightarrow> addr_ok a"
proof -
  assume p: "ParseAddr s = Some a"
  have six: "length gs = 8 \<and> is16 gs" if "Option.bind (parse6_groups 8 ell [] t) expand6 = Some gs" for ell t gs
  proof -
    obtain e hs rest where g: "parse6_groups 8 ell [] t = Some (e, hs, rest)"
      using \<open>Option.bind _ _ = _\<close> by (cases "parse6_groups 8 ell [] t") auto
    then show ?thesis using that parse6_ok [OF g] expand6_ok [of e hs rest gs] by simp
  qed
  have zero: "is16 (replicate 8 0)" by (simp add: is16_def)
  show ?thesis
  proof (cases "parseIPv4 s = Some a")
    case True
    then show ?thesis using parse4_ok [of "[]" 0 0 s] by (auto simp: parseIPv4_def)
  next
    case False
    then have "parseIPv6 s = Some a" using p by (auto simp: ParseAddr_def split: option.splits if_splits)
    then show ?thesis using six zero by (auto simp: parseIPv6_def Let_def split: if_splits)
  qed
qed

lemma ParseAddrPort_ok: "ParseAddrPort s = Some a \<Longrightarrow> addr_ok a"
  by (auto simp: ParseAddrPort_def Let_def dest: ParseAddr_ok split: if_splits option.splits)

subsection \<open>Guarantees of the resolver\<close>

text \<open>What an admission key may stand for.\<close>

definition source_addr :: "Addr \<Rightarrow> bool" where
  "source_addr a \<longleftrightarrow> addr_ok a \<and> validUnicast a \<and> \<not> Is4In6 a \<and> Zone a = []"

lemma remote_source: "parseRemoteAddress v = Inr a \<Longrightarrow> source_addr a"
  by (auto simp: parseRemoteAddress_def source_addr_def Unmap_plain intro: Unmap_ok ParseAddrPort_ok
      split: option.splits if_splits)

lemma literal_source: "parseCanonicalLiteral v = Inr a \<Longrightarrow> source_addr a \<and> v = addr_String a"
  by (auto simp: parseCanonicalLiteral_def source_addr_def Unmap_plain intro: Unmap_ok ParseAddr_ok
      split: option.splits if_splits)

lemma source_literal: "source_addr a \<Longrightarrow> parseCanonicalLiteral (addr_String a) = Inr a"
  by (simp add: parseCanonicalLiteral_def source_addr_def ParseAddr_String Unmap_id)

text \<open>
  The literals the trusted header may carry are exactly the printed forms of the admissible
  addresses, and each is read as the address it was printed from: an address has one key and
  a key belongs to one address.
\<close>

theorem canonical_literals:
  "parseCanonicalLiteral v = Inr a \<longleftrightarrow> source_addr a \<and> v = addr_String a"
  using literal_source source_literal by blast

text \<open>
  C40: A peer that is not a trusted proxy cannot choose the source it counts against: the key is the
  printed form of its own admissible address, whatever headers it sends.  Behind a trusted proxy
  the key is the one header value the proxy sent, and it prints an admissible address too.
\<close>

theorem resolve_source:
  assumes "Resolve resolver (Some rq) = Inr key"
  shows "\<exists>peer client. parseRemoteAddress (hr_RemoteAddr rq) = Inr peer \<and> key = addr_String client \<and>
    source_addr client \<and>
    (if resolver \<noteq> None \<and> peer \<in> the resolver
     then Header_Values canonicalHeaderName (hr_Header rq) = [key] else client = peer)"
  using assms
  by (auto simp: Resolve_def split: sum.splits option.splits if_splits list.splits
      dest: remote_source literal_source)

theorem resolve_source_witness:
  "Resolve (Some (NewResolver [Addr4 [10, 0, 0, 1]])) (Some \<lparr>hr_Method = ''GET'', hr_RemoteAddr = ''[::ffff:10.0.0.1]:443'',
     hr_Header = [(canonicalHeaderName, ''2001:db8::1'')]\<rparr>) = Inr ''2001:db8::1'' \<and>
   (\<exists>peer client. parseRemoteAddress ''[::ffff:10.0.0.1]:443'' = Inr peer \<and> ''2001:db8::1'' = addr_String client \<and>
    source_addr client)"
proof -
  have r: "Resolve (Some (NewResolver [Addr4 [10, 0, 0, 1]])) (Some \<lparr>hr_Method = ''GET'',
     hr_RemoteAddr = ''[::ffff:10.0.0.1]:443'', hr_Header = [(canonicalHeaderName, ''2001:db8::1'')]\<rparr>) = Inr ''2001:db8::1''"
    by code_simp
  show ?thesis using resolve_source [OF r] r by auto
qed

end
