(* ===== verification/Gateway.thy ===== *)
theory Gateway
  imports Control Pairing Password SourceLimiter TunnelManager RequestSource
begin

text \<open>
  \<^verbatim>\<open>internal/tunnel/server.go\<close>: admission, handshake, publication and heartbeat of a device
  tunnel.

  A handler runs in a world \<open>gworld\<close>: the state it shares with the other handlers (\<open>gshared\<close>),
  what they do to it before each of its accesses (\<open>g_env\<close>), its control stream (the stream of
  \<open>Control\<close>), the outcome of its other calls of the network (\<open>g_io\<close>, an empty list is success),
  of successive \<^verbatim>\<open>ctx.Err()\<close> (\<open>g_ctx\<close>), random bytes and clock readings.  The goroutine that
  closes the session when the peer opens a second stream is a failure of later calls.  Ed25519,
  SHA-256, HMAC, the SSH key format and \<^verbatim>\<open>encoding/json\<close> are parameters.  A token of the
  channel \<^verbatim>\<open>preAuth\<close> is counted; \<open>g_slot\<close> tells whether this handler still holds one, the
  state of its \<^verbatim>\<open>releaseOnce\<close>.
\<close>

subsection \<open>Messages, errors and state\<close>

record ClientHello =
  ch_DeviceID :: string
  ch_DevicePublicKey :: string
  ch_DeviceName :: string
  ch_Platform :: string
  ch_Arch :: string
  ch_ClientVersion :: string

record ServerAuthenticated =
  sa_ConnectionID :: string
  sa_SSHClientPublicKey :: string
  sa_HeartbeatInterval :: int

datatype gw_err =
    GwProto proto_err | GwRandom id_err | GwStore store_err | GwPair pairing_err | GwCtx ctx_err
  | GwIO | GwTimeout | GwOther string

record gateway_params =
  j_header :: "string \<Rightarrow> (StreamHeader \<times> string) option"
  j_message :: "string \<Rightarrow> (Message \<times> string) option"
  j_another :: "string \<Rightarrow> bool"
  j_hello :: "string \<Rightarrow> (ClientHello \<times> string) option"
  j_proof :: "string \<Rightarrow> (string \<times> string) option"
  j_heartbeat :: "string \<Rightarrow> (time \<times> string) option"
  m_message :: "Message \<Rightarrow> string option"
  m_challenge :: "string \<Rightarrow> string option"
  m_authenticated :: "ServerAuthenticated \<Rightarrow> string option"
  m_offered :: "Offer \<Rightarrow> string option"
  m_ack :: "time \<Rightarrow> string option"
  x_sha256 :: "string \<Rightarrow> string"
  x_verify :: "string \<Rightarrow> string \<Rightarrow> string \<Rightarrow> bool"
  x_signer :: "string \<Rightarrow> handle option"       \<comment> \<open>\<^verbatim>\<open>ssh.NewSignerFromKey\<close> of the key with this seed\<close>
  x_authorized :: "handle \<Rightarrow> string"         \<comment> \<open>\<^verbatim>\<open>ssh.MarshalAuthorizedKey\<close>\<close>
  x_digest :: "string \<Rightarrow> string"

record Gateway =
  gw_auditor :: bool
  gw_authTimeout :: duration
  gw_heartbeatInterval :: duration
  gw_heartbeatTimeout :: duration
  gw_maxPreAuth :: int
  gw_sourceResolver :: "http_request \<Rightarrow> source_err + string"

record gshared =
  gs_db :: dbst
  gs_mgr :: Manager
  gs_limiter :: sourceLimiter
  gs_preAuth :: int
  gs_handlers :: int
  gs_closed :: bool

record gworld =
  g_sh :: gshared
  g_env :: "(gshared \<Rightarrow> gshared) list"
  g_slot :: bool
  g_ctl :: stream
  g_io :: "bool list"
  g_ctx :: "ctx_err option list"
  g_random :: string                          \<comment> \<open>\<^verbatim>\<open>Options.Random\<close>\<close>
  g_rand :: string                            \<comment> \<open>\<^verbatim>\<open>crypto/rand\<close>, read by \<^verbatim>\<open>id.New\<close>\<close>
  g_clock :: "time list"

type_synonym 'a gw = "(gworld, gw_err, 'a) em"

subsection \<open>Steps of a handler\<close>

definition g_interfere :: "gworld \<Rightarrow> gworld" where
  "g_interfere w = (case g_env w of [] \<Rightarrow> w | f # fs \<Rightarrow> w\<lparr>g_sh := f (g_sh w), g_env := fs\<rparr>)"

definition g_shared :: "(gshared \<Rightarrow> (gw_err + 'a) \<times> gshared) \<Rightarrow> 'a gw" where
  "g_shared f w0 = (let w = g_interfere w0 in case f (g_sh w) of (r, s) \<Rightarrow> (r, w\<lparr>g_sh := s\<rparr>))"

definition g_store :: "'a dbm \<Rightarrow> 'a gw" where
  "g_store m = g_shared (\<lambda>s. case m (gs_db s) of (r, t) \<Rightarrow> (map_sum GwStore id r, s\<lparr>gs_db := t\<rparr>))"

definition g_manager :: "(Manager \<Rightarrow> 'a \<times> Manager) \<Rightarrow> 'a gw" where
  "g_manager f = g_shared (\<lambda>s. case f (gs_mgr s) of (x, m) \<Rightarrow> (Inr x, s\<lparr>gs_mgr := m\<rparr>))"

definition g_codec :: "'a codec \<Rightarrow> 'a gw" where
  "g_codec m w = (case m (g_ctl w) of (r, s) \<Rightarrow> (map_sum GwProto id r, w\<lparr>g_ctl := s\<rparr>))"

definition g_read :: "(string, id_err, 'a) em \<Rightarrow> 'a gw" where
  "g_read m w = (case m (g_random w) of (r, s) \<Rightarrow> (map_sum GwRandom id r, w\<lparr>g_random := s\<rparr>))"

definition g_id :: "(string, id_err, 'a) em \<Rightarrow> 'a gw" where
  "g_id m w = (case m (g_rand w) of (r, s) \<Rightarrow> (map_sum GwRandom id r, w\<lparr>g_rand := s\<rparr>))"

definition g_pairing :: "'a pairing \<Rightarrow> 'a gw" where
  "g_pairing m w0 = (let w = g_interfere w0 in
     case m \<lparr>p_db = gs_db (g_sh w), p_rand = g_rand w\<rparr> of
       (r, p) \<Rightarrow> (map_sum GwPair id r, w\<lparr>g_sh := (g_sh w)\<lparr>gs_db := p_db p\<rparr>, g_rand := p_rand p\<rparr>))"

definition g_call :: "unit gw" where
  "g_call w = (case g_io w of [] \<Rightarrow> (Inr (), w)
     | bad # rest \<Rightarrow> (if bad then Inl GwIO else Inr (), w\<lparr>g_io := rest\<rparr>))"

definition g_ctxErr :: "unit gw" where
  "g_ctxErr w = (case g_ctx w of [] \<Rightarrow> (Inr (), w)
     | c # cs \<Rightarrow> (case c of None \<Rightarrow> Inr () | Some e \<Rightarrow> Inl (GwCtx e), w\<lparr>g_ctx := cs\<rparr>))"

definition g_now :: "time gw" where
  "g_now w = (case g_clock w of [] \<Rightarrow> (Inr 0, w) | t # ts \<Rightarrow> (Inr t, w\<lparr>g_clock := ts\<rparr>))"

definition g_fail :: "string \<Rightarrow> 'a gw" where
  "g_fail msg = ethrow (GwOther msg)"

definition g_sum :: "'e + 'a \<Rightarrow> ('e \<Rightarrow> gw_err) \<Rightarrow> 'a gw" where
  "g_sum r f = (case r of Inl e \<Rightarrow> ethrow (f e) | Inr x \<Rightarrow> ereturn x)"

text \<open>\<^verbatim>\<open>releasePreAuth\<close>: a token is received once.\<close>

definition releasePreAuth :: "unit gw" where
  "releasePreAuth w0 = (let w = g_interfere w0 in
     if g_slot w then (Inr (), w\<lparr>g_sh := (g_sh w)\<lparr>gs_preAuth := gs_preAuth (g_sh w) - 1\<rparr>, g_slot := False\<rparr>)
     else (Inr (), w))"

subsection \<open>Construction\<close>

record GatewayOptions =
  go_Store :: bool
  go_Pairing :: bool
  go_Auditor :: bool
  go_Manager :: bool
  go_AuthTimeout :: duration
  go_HeartbeatInterval :: duration
  go_HeartbeatTimeout :: duration
  go_MaxPreAuth :: int
  go_PreAuthPerMinute :: int
  go_SourceResolver :: "(http_request \<Rightarrow> source_err + string) option"

definition NewGateway :: "GatewayOptions \<Rightarrow> string + (Gateway \<times> sourceLimiter)" where
  "NewGateway opt =
     (if \<not> go_Store opt \<or> \<not> go_Pairing opt \<or> \<not> go_Manager opt
      then Inl ''tunnel store, pairing service, and manager are required''
      else let authTimeout = (if go_AuthTimeout opt \<le> 0 then 10 * second else go_AuthTimeout opt);
               interval = (if go_HeartbeatInterval opt \<le> 0 then 5 * second else go_HeartbeatInterval opt);
               timeout = (if go_HeartbeatTimeout opt \<le> 0 then 15 * second else go_HeartbeatTimeout opt)
           in if timeout \<le> interval then Inl ''heartbeat timeout must exceed heartbeat interval''
              else Inr (\<lparr>gw_auditor = go_Auditor opt, gw_authTimeout = authTimeout, gw_heartbeatInterval = interval,
                  gw_heartbeatTimeout = timeout,
                  gw_maxPreAuth = (if go_MaxPreAuth opt \<le> 0 then 64 else go_MaxPreAuth opt),
                  gw_sourceResolver = (case go_SourceResolver opt of
                     None \<Rightarrow> (\<lambda>rq. Resolve (Some (NewResolver [])) (Some rq)) | Some resolve \<Rightarrow> resolve)\<rparr>,
                newSourceLimiter (if go_PreAuthPerMinute opt \<le> 0 then 20 else go_PreAuthPerMinute opt) (60 * second)))"

subsection \<open>Handshake\<close>

definition authDomain :: string where
  "authDomain = ''aisummoner-device-auth-v1'' @ [CHR 0x00]"

definition AuthenticationTranscript :: "string \<Rightarrow> string \<Rightarrow> string" where
  "AuthenticationTranscript nonce publicKey = authDomain @ nonce @ publicKey"

text \<open>\<^verbatim>\<open>base64.RawURLEncoding.DecodeString\<close>: line ends are skipped, bits after the last byte ignored.\<close>

definition line_end :: "char \<Rightarrow> bool" where
  "line_end c \<longleftrightarrow> byte c = 10 \<or> byte c = 13"

definition sextet :: "char \<Rightarrow> bool list" where
  "sextet c = nat_bits 6 (the (index_of c base64_alphabet))"

definition rawurl_char :: "char \<Rightarrow> bool" where
  "rawurl_char c \<longleftrightarrow> c \<in> set base64_alphabet"

definition rawurl_decode :: "string \<Rightarrow> string option" where
  "rawurl_decode s =
     (let t = filter (Not \<circ> line_end) s in
      if list_all rawurl_char t \<and> length t mod 4 \<noteq> 1
      then (let bs = concat (map sextet t) in Some (bits_bytes (take (length bs div 8 * 8) bs)))
      else None)"

definition expectMessage :: "gateway_params \<Rightarrow> string \<Rightarrow> Message gw" where
  "expectMessage k expectedType =
     ebind (g_codec (ReadMessage (j_message k) (j_another k))) (\<lambda>message.
     if msg_type message \<noteq> expectedType then ethrow (GwProto ErrUnsupported) else ereturn message)"

definition validateHello :: "(string \<Rightarrow> string) \<Rightarrow> ClientHello \<Rightarrow> string + string" where
  "validateHello sha256 hello =
     (if length (ch_DeviceID hello) > 128 \<or> length (ch_DeviceName hello) = 0 \<or> length (ch_DeviceName hello) > 128 \<or>
         \<not> SupportedPlatform (ch_Platform hello) \<or> length (ch_Arch hello) = 0 \<or> length (ch_Arch hello) > 64 \<or>
         length (ch_ClientVersion hello) = 0 \<or> length (ch_ClientVersion hello) > 64
      then Inl ''invalid client hello metadata''
      else if list_ex (\<lambda>v. CHR 0x00 \<in> set v) [ch_DeviceID hello, ch_DeviceName hello, ch_Platform hello,
           ch_Arch hello, ch_ClientVersion hello]
      then Inl ''client hello contains NUL''
      else case rawurl_decode (ch_DevicePublicKey hello) of
        None \<Rightarrow> Inl ''invalid device public key''
      | Some decoded \<Rightarrow>
          if length decoded \<noteq> 32 then Inl ''invalid device public key''
          else (case Device_id sha256 decoded of
              Inl _ \<Rightarrow> Inl ''device id does not match public key''
            | Inr derivedID \<Rightarrow> if derivedID \<noteq> ch_DeviceID hello then Inl ''device id does not match public key''
                else Inr decoded))"

text \<open>The challenge and the device's answer to it.\<close>

definition proveDevice ::
  "gateway_params \<Rightarrow> string \<Rightarrow> ClientHello \<Rightarrow> string \<Rightarrow> string \<Rightarrow> (ClientHello \<times> string \<times> string) gw" where
  "proveDevice k requestID hello publicKey nonce =
     ethen (g_codec (WriteMessage (m_challenge k) (m_message k) TypeServerChallenge requestID
        (encode base64_alphabet 5 nonce)))
     (ebind (expectMessage k TypeDeviceProof) (\<lambda>proofMessage.
      if msg_request_id proofMessage \<noteq> requestID
      then g_fail ''device proof request id does not match challenge''
      else ebind (g_sum (DecodePayload (j_proof k) (j_another k) proofMessage) GwProto) (\<lambda>proof.
      case rawurl_decode proof of
        None \<Rightarrow> g_fail ''invalid device proof encoding''
      | Some signature \<Rightarrow>
          if length signature \<noteq> 64 then g_fail ''invalid device proof encoding''
          else if \<not> x_verify k publicKey (AuthenticationTranscript nonce publicKey) signature
          then g_fail ''device proof verification failed''
          else ereturn (hello, publicKey, requestID))))"

text \<open>The first frames: the request identifier of the hello, the hello and its key.\<close>

definition readHello :: "gateway_params \<Rightarrow> (string \<times> ClientHello \<times> string) gw" where
  "readHello k =
     ebind (g_codec (ReadHeader (j_header k) (j_another k))) (\<lambda>header.
     if sh_kind header \<noteq> StreamControl then g_fail ''first stream is not control''
     else ebind (expectMessage k TypeClientHello) (\<lambda>helloMessage.
     ebind (g_sum (DecodePayload (j_hello k) (j_another k) helloMessage) GwProto) (\<lambda>hello.
     ebind (g_sum (validateHello (x_sha256 k) hello) GwOther) (\<lambda>publicKey.
     ereturn (msg_request_id helloMessage, hello, publicKey)))))"

text \<open>The handshake up to the verified proof: the hello, its key and its request identifier.\<close>

definition handshake :: "gateway_params \<Rightarrow> (ClientHello \<times> string \<times> string) gw" where
  "handshake k =
     ebind (readHello k) (\<lambda>(requestID, hello, publicKey).
     ebind (g_read (ReadFull 32)) (\<lambda>nonce.
     proveDevice k requestID hello publicKey nonce))"

subsection \<open>Publication\<close>

text \<open>\<^verbatim>\<open>Duration.Milliseconds\<close>.\<close>

definition milliseconds :: "duration \<Rightarrow> int" where
  "milliseconds d = (if d < 0 then - (- d div millisecond) else d div millisecond)"

text \<open>The ready response and, for a device nobody owns, the pairing offer.\<close>

definition announce ::
  "gateway_params \<Rightarrow> Gateway \<Rightarrow> Device \<Rightarrow> ident \<Rightarrow> handle \<Rightarrow> string \<Rightarrow> time \<Rightarrow> unit gw" where
  "announce k g registered connectionID sshSigner requestID now =
     ethen g_ctxErr
     (ethen (g_codec (WriteMessage (m_authenticated k) (m_message k) TypeServerAuthenticated requestID
        \<lparr>sa_ConnectionID = connectionID, sa_SSHClientPublicKey = TrimSpace (x_authorized k sshSigner),
         sa_HeartbeatInterval = milliseconds (gw_heartbeatInterval g)\<rparr>))
     (case d_owner_user_id registered of
        Some _ \<Rightarrow> ereturn ()
      | None \<Rightarrow>
          ebind (g_pairing (offer_code CreatePairingCode (x_digest k) (d_id registered) now)) (\<lambda>offer.
          ebind (g_id (New ''req'')) (\<lambda>offerRequestID.
          g_codec (WriteMessage (m_offered k) (m_message k) TypePairingOffered offerRequestID offer)))))"

definition publishAuthenticated ::
  "gateway_params \<Rightarrow> Gateway \<Rightarrow> Device \<Rightarrow> conn_ref \<Rightarrow> ident \<Rightarrow> handle \<Rightarrow> string \<Rightarrow> string \<Rightarrow> time \<Rightarrow> unit gw" where
  "publishAuthenticated k g registered connection connectionID sshSigner requestID source now =
     ethen (announce k g registered connectionID sshSigner requestID now)
     (ethen g_call
     (ethen g_call
     (ethen g_ctxErr
     (ethen g_ctxErr
     (ebind (g_manager (Register (Some connection))) (\<lambda>(_, accepted).
      if \<not> accepted then g_fail ''tunnel manager is closed''
      else ethen releasePreAuth
        (g_shared (\<lambda>s. (Inr (), s\<lparr>gs_limiter := succeeded source (gs_limiter s)\<rparr>)))))))))"

subsection \<open>Heartbeats\<close>

definition heartbeat :: "gateway_params \<Rightarrow> conn_ref \<Rightarrow> ident \<Rightarrow> unit gw" where
  "heartbeat k connection deviceID =
     ethen g_now (ethen g_call
     (ebind (expectMessage k TypeDeviceHeartbeat) (\<lambda>message.
      ebind (g_sum (DecodePayload (j_heartbeat k) (j_another k) message) GwProto) (\<lambda>sentAt.
      if sentAt = zeroTime then g_fail ''heartbeat sent_at is required''
      else ebind g_now (\<lambda>now.
        ethen (g_manager (\<lambda>m. ((), upd_conn connection (touch now) m)))
        (ethen (g_store (UpdateDeviceLastSeen deviceID now))
        (ethen g_call
        (g_codec (WriteMessage (m_ack k) (m_message k) TypeHeartbeatAck (msg_request_id message) now)))))))))"

subsubsection \<open>A heartbeat consumes input\<close>

text \<open>\<open>shrinks\<close> never raises a measure; \<open>eats\<close> lowers it on success.\<close>

abbreviation shrinks :: "('s \<Rightarrow> nat) \<Rightarrow> ('s, 'e, 'a) em \<Rightarrow> bool" where
  "shrinks \<mu> \<equiv> moves (\<lambda>s t. \<mu> t \<le> \<mu> s)"

definition eats :: "('s \<Rightarrow> nat) \<Rightarrow> ('s, 'e, 'a) em \<Rightarrow> bool" where
  "eats \<mu> m \<longleftrightarrow> (\<forall>s x t. m s = (Inr x, t) \<longrightarrow> \<mu> t < \<mu> s)"

interpretation shr: step_order "\<lambda>s t. (\<mu> :: 's \<Rightarrow> nat) t \<le> \<mu> s" for \<mu>
  by unfold_locales auto

lemma eatsD: "eats \<mu> m \<Longrightarrow> m s = (Inr x, t) \<Longrightarrow> \<mu> t < \<mu> s"
  by (simp add: eats_def)

lemma eats_first: "eats \<mu> m \<Longrightarrow> (\<And>x. shrinks \<mu> (f x)) \<Longrightarrow> eats \<mu> (ebind m f)"
  unfolding eats_def by (metis ebind_InrE moves_result order_le_less_trans)

lemma eats_later: "shrinks \<mu> m \<Longrightarrow> (\<And>x. eats \<mu> (f x)) \<Longrightarrow> eats \<mu> (ebind m f)"
  unfolding eats_def by (metis ebind_InrE moves_result order_less_le_trans)

definition unread :: "stream \<Rightarrow> nat" where
  "unread s = length (rd s)"

lemma shrinks_same: "(\<And>s. \<mu> (snd (m s)) = \<mu> s) \<Longrightarrow> shrinks \<mu> m"
  by (simp add: moves_def)

lemma shrinks_lift: "shrinks \<mu> (lift_result r)"
  by (auto simp: lift_result_def moves_def em_simps split: sum.split)

lemma read_full_shrinks: "shrinks unread (read_full n)"
  by (auto simp: moves_def read_full_def unread_def)

lemma read_full_eats: "0 < n \<Longrightarrow> eats unread (read_full n)"
  by (auto simp: eats_def read_full_def unread_def split: if_splits)

lemma readJSON_eats: "eats unread (readJSON decode another)"
  unfolding readJSON_def Let_def
  by (rule eats_first [OF read_full_eats]) (simp, intro shr.moves_rules read_full_shrinks shrinks_lift)

lemma ReadMessage_eats: "eats unread (ReadMessage decode another)"
  unfolding ReadMessage_def
  by (rule eats_first [OF readJSON_eats]) (intro shr.moves_rules shrinks_lift)

lemma writeFull_shrinks: "shrinks unread (writeFull c)"
proof (rule shrinks_same)
  show "unread (snd (writeFull c s)) = unread s" for s
    using writeFull_prefix [of c s] by (cases "writeFull c s") (auto simp: unread_def)
qed

lemma WriteMessage_shrinks: "shrinks unread (WriteMessage mp m t rid v)"
  unfolding WriteMessage_def writeJSON_def
  by (intro shr.moves_rules shrinks_lift writeFull_shrinks)

definition g_unread :: "gworld \<Rightarrow> nat" where
  "g_unread w = unread (g_ctl w)"

lemma codec_shrinks: "shrinks unread m \<Longrightarrow> shrinks g_unread (g_codec m)"
  by (simp add: moves_def g_codec_def g_unread_def split: prod.split) (metis snd_conv)

lemma codec_eats: "eats unread m \<Longrightarrow> eats g_unread (g_codec m)"
  by (auto simp: eats_def g_codec_def g_unread_def split: prod.splits) (metis map_sum.simps(1) obj_sumE sum.distinct(1))

lemma others_shrink:
  "shrinks g_unread g_call" "shrinks g_unread g_now" "shrinks g_unread (g_shared f)" "shrinks g_unread (g_store m)"
  "shrinks g_unread (g_manager h)" "shrinks g_unread (g_sum r e)" "shrinks g_unread (g_fail msg)"
  by (auto simp: moves_def g_unread_def g_call_def g_now_def g_shared_def g_store_def g_manager_def g_sum_def
      g_fail_def g_interfere_def Let_def em_simps split: list.split prod.split sum.split)

lemma expect_eats: "eats g_unread (expectMessage k ty)"
  unfolding expectMessage_def
  by (rule eats_first [OF codec_eats [OF ReadMessage_eats]]) (intro shr.moves_rules)

lemma heartbeat_eats: "eats g_unread (heartbeat k r d)"
  unfolding heartbeat_def
  by (intro eats_later others_shrink eats_first [OF expect_eats] shr.moves_rules codec_shrinks WriteMessage_shrinks)

function heartbeatLoop :: "gateway_params \<Rightarrow> conn_ref \<Rightarrow> ident \<Rightarrow> unit gw" where
  "heartbeatLoop k connection deviceID w = (case heartbeat k connection deviceID w of
     (Inl err, w') \<Rightarrow> (Inl err, w')
   | (Inr _, w') \<Rightarrow> heartbeatLoop k connection deviceID w')"
  by pat_completeness auto
termination
  by (relation "measure (\<lambda>(_, _, _, w). g_unread w)") (simp_all add: eatsD [OF heartbeat_eats])

declare heartbeatLoop.simps [simp del]

subsection \<open>One transport\<close>

text \<open>Go's \<^verbatim>\<open>defer\<close>: what \<open>m\<close> returns is returned after \<open>fin\<close>.\<close>

definition g_defer :: "unit gw \<Rightarrow> 'a gw \<Rightarrow> 'a gw" where
  "g_defer fin m w = (case m w of (r, w') \<Rightarrow> (r, snd (fin w')))"

definition audit :: "gateway_params \<Rightarrow> Gateway \<Rightarrow> ident \<Rightarrow> string \<Rightarrow> unit gw" where
  "audit k g deviceID eventType =
     (if \<not> gw_auditor g then ereturn ()
      else ebind (etry (g_id (New ''audit''))) (\<lambda>result. case result of
          Inl _ \<Rightarrow> ereturn ()
        | Inr eventID \<Rightarrow> ebind g_now (\<lambda>now.
            ethen (etry (g_store (CreateAuditEvent \<lparr>ae_id = eventID, ae_actor_user_id = None,
               ae_device_id = Some deviceID, ae_event_type = eventType, ae_metadata_json = ''{}'',
               ae_created_at = now\<rparr>)) :: (gworld, gw_err, gw_err + unit) em)
            (ereturn ()))))"

text \<open>Waiting for the gate: the others go on, and the wait ends with the gate or with the context.\<close>

definition LockDevice :: "unit gw" where
  "LockDevice = ethen (g_shared (\<lambda>s. (Inr (), s))) g_ctxErr"

text \<open>From the registration on, which is what follows a verified proof; \<open>session\<close> names the yamux session.\<close>

definition serveDevice ::
  "gateway_params \<Rightarrow> Gateway \<Rightarrow> handle \<Rightarrow> string \<Rightarrow> ClientHello \<times> string \<times> string \<Rightarrow> unit gw" where
  "serveDevice k g session source = (\<lambda>(hello, publicKey, requestID).
     ebind (g_read (ReadFull 32)) (\<lambda>seed.
     case x_signer k seed of
       None \<Rightarrow> g_fail ''create connection SSH signer''
     | Some sshSigner \<Rightarrow>
     ebind (g_id (New ''conn'')) (\<lambda>connectionID.
     ethen LockDevice
     (ebind g_now (\<lambda>now.
     ebind (g_store (RegisterDevice \<lparr>d_id = ch_DeviceID hello, d_public_key = publicKey, d_owner_user_id = None,
        d_name = ch_DeviceName hello, d_platform = ch_Platform hello, d_arch = ch_Arch hello,
        d_client_version = ch_ClientVersion hello, d_created_at = now, d_paired_at = None,
        d_last_seen_at = Some now\<rparr>)) (\<lambda>registered.
     ebind (g_manager (\<lambda>m. (length (conns m), m\<lparr>conns := conns m @
        [newConnection connectionID (d_id registered) (Some session) (Some sshSigner) now]\<rparr>))) (\<lambda>connection.
     g_defer (g_manager (\<lambda>m. ((), upd_conn connection beginClose m)))
       (ethen (publishAuthenticated k g registered connection connectionID sshSigner requestID source now)
       (g_defer (g_manager (\<lambda>m. ((), Remove (Some connection) m)))
         (ethen (audit k g (d_id registered) ''tunnel.authenticated'')
           (heartbeatLoop k connection (d_id registered)))))))))))) "

definition serveTransport :: "gateway_params \<Rightarrow> Gateway \<Rightarrow> handle \<Rightarrow> string \<Rightarrow> unit gw" where
  "serveTransport k g session source =
     ethen g_now (ethen g_call (ethen g_call (ethen g_call (ethen g_call
       (ebind (handshake k) (serveDevice k g session source))))))"

subsection \<open>Admission\<close>

datatype http_result =
    Refused int string
  | Served "gw_err option"

definition begin_handler :: "bool gw" where
  "begin_handler = g_shared (\<lambda>s. if gs_closed s then (Inr False, s)
     else (Inr True, s\<lparr>gs_handlers := gs_handlers s + 1\<rparr>))"

definition end_handler :: "unit gw" where
  "end_handler = g_shared (\<lambda>s. (Inr (), s\<lparr>gs_handlers := gs_handlers s - 1\<rparr>))"

definition takePreAuth :: "Gateway \<Rightarrow> bool gw" where
  "takePreAuth g w0 = (let w = g_interfere w0 in
     if gs_preAuth (g_sh w) < gw_maxPreAuth g
     then (Inr True, w\<lparr>g_sh := (g_sh w)\<lparr>gs_preAuth := gs_preAuth (g_sh w) + 1\<rparr>, g_slot := True\<rparr>)
     else (Inr False, w))"

definition admitted_handler :: "gateway_params \<Rightarrow> Gateway \<Rightarrow> handle \<Rightarrow> http_request \<Rightarrow> http_result gw" where
  "admitted_handler k g session rq =
     (if hr_Method rq \<noteq> ''GET'' then ereturn (Refused 405 ''method not allowed'')
      else case gw_sourceResolver g rq of
        Inl _ \<Rightarrow> ereturn (Refused 400 ''invalid request'')
      | Inr source \<Rightarrow> ebind g_now (\<lambda>now.
          ebind (g_shared (\<lambda>s. case allow source now (gs_limiter s) of
             (ok, l) \<Rightarrow> (Inr ok, s\<lparr>gs_limiter := l\<rparr>))) (\<lambda>ok.
          if \<not> ok then ereturn (Refused 429 ''too many tunnel attempts'')
          else ebind (takePreAuth g) (\<lambda>taken.
            if \<not> taken then ereturn (Refused 503 ''too many unauthenticated tunnels'')
            else g_defer releasePreAuth
              (ebind (etry g_call) (\<lambda>accepted. case accepted of
                 Inl err \<Rightarrow> ereturn (Served (Some err))
               | Inr _ \<Rightarrow> ebind (etry (serveTransport k g session source)) (\<lambda>result.
                   ereturn (Served (case result of Inl err \<Rightarrow> Some err | Inr _ \<Rightarrow> None)))))))))"

definition ServeHTTP :: "gateway_params \<Rightarrow> Gateway \<Rightarrow> handle \<Rightarrow> http_request \<Rightarrow> http_result gw" where
  "ServeHTTP k g session rq =
     ebind begin_handler (\<lambda>opened.
     if \<not> opened then ereturn (Refused 503 ''tunnel gateway is closed'')
     else g_defer end_handler (admitted_handler k g session rq))"

text \<open>\<^verbatim>\<open>Close\<close> up to the wait for the handlers: refuse new ones, then close every connection.\<close>

definition Close :: "unit gw" where
  "Close = ethen (g_shared (\<lambda>s. (Inr (), s\<lparr>gs_closed := True\<rparr>)))
     (ethen (g_manager (\<lambda>m. ((), CloseAll_begin m)))
       (g_manager (\<lambda>m. ((), (close_next ^^ length (to_close m)) m))))"

end
