(* ===== verification/GatewayProps.thy ===== *)
theory GatewayProps
  imports Gateway
begin

text \<open>
  What the gateway of \<open>Gateway\<close> promises while other handlers run: a peer without a verified
  proof changes nothing, a candidate that fails to publish does not disturb the registered
  connection, every handler moves the registry by the steps of \<open>TunnelManager\<close>, admission
  tokens are returned on every path, and the heartbeat loop ends.
\<close>

subsection \<open>Interference\<close>

text \<open>
  A preorder of worlds that every step of a handler keeps which leaves the shared state, the list of
  interferences and the token alone, and that interference keeps.
\<close>

locale handler = step_order Q for Q :: "gworld \<Rightarrow> gworld \<Rightarrow> bool" +
  assumes quiet_step: "g_sh w' = g_sh w \<Longrightarrow> g_env w' = g_env w \<Longrightarrow> g_slot w' = g_slot w \<Longrightarrow> Q w w'"
    and interfere_step: "Q w (g_interfere w)"
begin

lemma own_local:
  "moves Q (g_codec m)" "moves Q (g_read n)" "moves Q (g_id n)" "moves Q g_call"
  "moves Q g_ctxErr" "moves Q g_now" "moves Q (g_sum r e)" "moves Q (g_fail msg)"
  by (auto simp: moves_def g_codec_def g_read_def g_id_def g_call_def g_ctxErr_def g_now_def g_sum_def g_fail_def
      em_simps intro!: quiet_step split: prod.split list.split sum.split)

lemma after_interference: "(\<And>w. Q (g_interfere w) (snd (m w))) \<Longrightarrow> moves Q m"
  using R_trans [OF interfere_step] by (simp add: moves_def)

lemma own_shared:
  assumes "\<And>w. Q w (w\<lparr>g_sh := snd (f (g_sh w))\<rparr>)"
  shows "moves Q (g_shared f)"
  by (rule after_interference) (simp add: g_shared_def Let_def split_def assms)

lemma own_store: "(\<And>w t. Q w (w\<lparr>g_sh := (g_sh w)\<lparr>gs_db := t\<rparr>\<rparr>)) \<Longrightarrow> moves Q (g_store m)"
  unfolding g_store_def by (rule own_shared) (simp add: split_def)

lemma own_manager:
  "(\<And>w. Q w (w\<lparr>g_sh := (g_sh w)\<lparr>gs_mgr := snd (h (gs_mgr (g_sh w)))\<rparr>\<rparr>)) \<Longrightarrow> moves Q (g_manager h)"
  unfolding g_manager_def by (rule own_shared) (simp add: split_def)

lemma own_pairing:
  assumes "\<And>w t. Q w (w\<lparr>g_sh := (g_sh w)\<lparr>gs_db := t\<rparr>\<rparr>)"
  shows "moves Q (g_pairing m)"
proof (rule after_interference)
  fix w
  let ?p = "snd (m \<lparr>p_db = gs_db (g_sh (g_interfere w)), p_rand = g_rand (g_interfere w)\<rparr>)"
  let ?w1 = "(g_interfere w)\<lparr>g_sh := (g_sh (g_interfere w))\<lparr>gs_db := p_db ?p\<rparr>\<rparr>"
  have "Q ?w1 (snd (g_pairing m w))"
    by (rule quiet_step) (simp_all add: g_pairing_def Let_def split_def)
  then show "Q (g_interfere w) (snd (g_pairing m w))" by (rule R_trans [OF assms])
qed

lemma own_defer: "moves Q m \<Longrightarrow> moves Q fin \<Longrightarrow> moves Q (g_defer fin m)"
  by (auto simp: moves_def g_defer_def split: prod.split) (metis snd_conv R_trans)

lemma own_expect: "moves Q (expectMessage k t)"
  unfolding expectMessage_def by (intro moves_rules own_local)

lemma own_handshake: "moves Q (handshake k)"
  unfolding handshake_def readHello_def proveDevice_def by (intro moves_rules own_local own_expect)

lemma own_lock: "moves Q LockDevice"
  unfolding LockDevice_def by (intro moves_rules own_local own_shared) (simp add: R_refl)

lemma own_audit: "(\<And>w t. Q w (w\<lparr>g_sh := (g_sh w)\<lparr>gs_db := t\<rparr>\<rparr>)) \<Longrightarrow> moves Q (audit k g d e)"
  unfolding audit_def by (intro moves_rules own_local own_store)

lemma own_announce: "(\<And>w t. Q w (w\<lparr>g_sh := (g_sh w)\<lparr>gs_db := t\<rparr>\<rparr>)) \<Longrightarrow> moves Q (announce k g d cid sg rid now)"
  unfolding announce_def by (intro moves_rules own_local own_pairing)

lemma own_heartbeat:
  assumes "\<And>w t. Q w (w\<lparr>g_sh := (g_sh w)\<lparr>gs_db := t\<rparr>\<rparr>)"
    and "\<And>w now. Q w (w\<lparr>g_sh := (g_sh w)\<lparr>gs_mgr := upd_conn r (touch now) (gs_mgr (g_sh w))\<rparr>\<rparr>)"
  shows "moves Q (heartbeat k r d)"
  unfolding heartbeat_def by (intro moves_rules own_local own_expect own_store own_manager) (simp_all add: assms)

lemma own_heartbeatLoop:
  assumes "moves Q (heartbeat k r d)"
  shows "moves Q (heartbeatLoop k r d)"
proof (rule movesI)
  show "Q w (snd (heartbeatLoop k r d w))" for w
  proof (induction w rule: measure_induct_rule [of g_unread])
    case (less w)
    obtain x w1 where h: "heartbeat k r d w = (x, w1)" by fastforce
    have "Q w w1" by (rule moves_result [OF assms h])
    moreover have "Q w1 (snd (heartbeatLoop k r d w1))" if "x = Inr u" for u
      using that h by (intro less.IH eatsD [OF heartbeat_eats]) simp
    ultimately show ?case
      using R_trans by (cases x) (auto simp: heartbeatLoop.simps [of k r d w] h)
  qed
qed

end

text \<open>
  \<open>via R\<close>: as long as every step of the others is in \<open>R\<close>, so is what this handler and the
  others did together.
\<close>

definition via :: "(gshared \<Rightarrow> gshared \<Rightarrow> bool) \<Rightarrow> gworld \<Rightarrow> gworld \<Rightarrow> bool" where
  "via R w w' \<longleftrightarrow> set (g_env w') \<subseteq> set (g_env w) \<and>
     ((\<forall>f \<in> set (g_env w). \<forall>s. R s (f s)) \<longrightarrow> R (g_sh w) (g_sh w'))"

locale rely =
  fixes R :: "gshared \<Rightarrow> gshared \<Rightarrow> bool"
  assumes rely_refl: "R s s"
    and rely_trans: "R s t \<Longrightarrow> R t u \<Longrightarrow> R s u"
begin

sublocale v: handler "via R"
  by unfold_locales (auto simp: via_def g_interfere_def intro: rely_refl rely_trans split: list.split)

lemma via_sh: "R (g_sh w) s \<Longrightarrow> via R w (w\<lparr>g_sh := s\<rparr>)"
  by (simp add: via_def)

lemma via_release:
  assumes "\<And>s n. R s (s\<lparr>gs_preAuth := n\<rparr>)"
  shows "moves (via R) releasePreAuth"
  by (rule v.after_interference) (auto simp: via_def releasePreAuth_def Let_def rely_refl assms)

end

subsection \<open>No proof, no effect\<close>

text \<open>The steps before the registration leave the shared state and the random bytes of the challenge alone.\<close>

definition front :: "gworld \<Rightarrow> gworld \<Rightarrow> bool" where
  "front w w' \<longleftrightarrow> g_sh w' = g_sh w \<and> g_random w' = g_random w \<and> g_env w' = g_env w"

interpretation fro: step_order front
  by unfold_locales (simp_all add: front_def)

lemma front_steps:
  "moves front (g_codec m)" "moves front g_call" "moves front g_now" "moves front (g_sum r e)" "moves front (g_fail msg)"
  by (auto simp: moves_def front_def g_codec_def g_call_def g_now_def g_sum_def g_fail_def em_simps
      split: prod.split list.split sum.split)

lemma front_expect: "moves front (expectMessage k t)"
  unfolding expectMessage_def by (intro fro.moves_rules front_steps)

definition unmoved :: "gworld \<Rightarrow> gworld \<Rightarrow> bool" where
  "unmoved w w' \<longleftrightarrow> g_sh w' = g_sh w \<and> g_env w' = g_env w"

interpretation unm: step_order unmoved
  by unfold_locales (simp_all add: unmoved_def)

lemma front_unmoved: "moves front m \<Longrightarrow> moves unmoved m"
  by (simp add: moves_def front_def unmoved_def)

lemma unmoved_read: "moves unmoved (g_read n)"
  by (auto simp: moves_def unmoved_def g_read_def split: prod.split)

lemma handshake_unmoved: "moves unmoved (handshake k)"
  unfolding handshake_def readHello_def proveDevice_def
  by (intro unm.moves_rules unmoved_read front_unmoved [OF front_expect] front_steps [THEN front_unmoved])

lemma g_read_full: "g_read (ReadFull n) w = (Inr x, w') \<Longrightarrow> x = take n (g_random w) \<and> n \<le> length (g_random w)"
  by (auto simp: g_read_def ReadFull_def split: if_splits)

lemma g_sum_Inr: "g_sum r f w = (Inr x, w') \<longleftrightarrow> r = Inr x \<and> w' = w"
  by (auto simp: g_sum_def em_simps split: sum.split)

lemma g_fail_Inr [simp]: "g_fail msg w \<noteq> (Inr x, w')"
  by (simp add: g_fail_def em_simps)

definition proven :: "gateway_params \<Rightarrow> gworld \<Rightarrow> ClientHello \<Rightarrow> string \<Rightarrow> bool" where
  "proven k w hello key \<longleftrightarrow> (\<exists>signature.
     32 \<le> length (g_random w) \<and> length signature = 64 \<and>
     x_verify k key (AuthenticationTranscript (take 32 (g_random w)) key) signature \<and>
     Device_id (x_sha256 k) key = Inr (ch_DeviceID hello))"

lemma validateHello_Inr:
  "validateHello sha hello = Inr key \<Longrightarrow> Device_id sha key = Inr (ch_DeviceID hello)"
  by (auto simp: validateHello_def split: if_splits option.splits sum.splits)

lemma proveDevice_Inr:
  assumes "proveDevice k rid hello key nonce w = (Inr (hello', key', rid'), w')"
  shows "hello' = hello \<and> key' = key \<and> (\<exists>signature. length signature = 64 \<and>
    x_verify k key (AuthenticationTranscript nonce key) signature)"
  using assms unfolding proveDevice_def
  by (auto elim!: ebind_InrE simp: g_sum_Inr ereturn_apply split: if_splits option.splits) blast

lemma front_hello: "moves front (readHello k)"
  unfolding readHello_def by (intro fro.moves_rules front_steps front_expect)

lemma readHello_Inr:
  "readHello k w = (Inr (rid, hello, key), w') \<Longrightarrow> validateHello (x_sha256 k) hello = Inr key"
  unfolding readHello_def by (auto elim!: ebind_InrE simp: g_sum_Inr ereturn_apply split: if_splits)

lemma handshake_proves:
  assumes "handshake k w = (Inr (hello, key, rid), w')"
  shows "proven k w hello key"
proof -
  obtain m w1 where 1: "readHello k w = (Inr m, w1)"
    and k1: "(case m of (requestID, hello, publicKey) \<Rightarrow> ebind (g_read (ReadFull 32)) (\<lambda>nonce.
     proveDevice k requestID hello publicKey nonce)) w1 = (Inr (hello, key, rid), w')"
    using assms unfolding handshake_def by (rule ebind_InrE)
  obtain rq h q where m: "m = (rq, h, q)" by (cases m)
  obtain nonce w2 where n: "g_read (ReadFull 32) w1 = (Inr nonce, w2)"
    and p: "proveDevice k rq h q nonce w2 = (Inr (hello, key, rid), w')"
    using k1 unfolding m prod.case by (rule ebind_InrE)
  have r: "g_random w1 = g_random w" using moves_result [OF front_hello 1] by (simp add: front_def)
  have "hello = h" "key = q" using proveDevice_Inr [OF p] by simp_all
  then show ?thesis
    using proveDevice_Inr [OF p] validateHello_Inr [OF readHello_Inr] 1 m g_read_full [OF n] r
    by (auto simp: proven_def)
qed

text \<open>Up to the proof nothing shared is touched, so a change needs one.\<close>

lemma ebind_cases:
  obtains (fails) e t where "m s = (Inl e, t)" "ebind m f s = (Inl e, t)"
  | (goes) x t where "m s = (Inr x, t)" "ebind m f s = f x t"
  by (cases "m s"; cases "fst (m s)") (auto simp: ebind_def)

text \<open>A computation of \<open>front\<close> steps followed by \<open>f\<close>: nothing happened or \<open>f\<close> ran.\<close>

lemma front_then:
  assumes "moves front m" and "ebind m f w = (r, w')" and "g_sh w' \<noteq> g_sh w"
  obtains x w1 where "front w w1" and "f x w1 = (r, w')" and "g_sh w' \<noteq> g_sh w1"
proof (cases rule: ebind_cases [of m w f])
  case (fails e t)
  then show ?thesis using assms moves_result [OF assms(1) fails(1)] by (simp add: front_def)
next
  case (goes x t)
  have "front w t" by (rule moves_result [OF assms(1) goes(1)])
  then show ?thesis using that [of t x] goes assms by (simp add: front_def)
qed


subsection \<open>A candidate that fails to publish\<close>

lemma Register_accepted: "snd (fst (Register (Some r) m)) = (\<not> closing m)"
  by (simp add: Register_def Let_def split: option.split)

lemma Register_refused:
  "closing m \<Longrightarrow> snd (Register (Some r) m) = upd_conn r beginClose (upd_conn r initLifecycle m)"
  by (simp add: Register_def Let_def)

lemma releasePreAuth_Inr: "\<exists>w'. releasePreAuth w = (Inr (), w')"
  by (simp add: releasePreAuth_def Let_def)

lemma install_fails:
  assumes "ebind (g_manager (Register (Some r))) (\<lambda>(_, accepted).
      if \<not> accepted then g_fail msg
      else ethen releasePreAuth (g_shared (\<lambda>s. (Inr (), f s)))) w = (Inl e, w')"
  shows "\<exists>m. m = gs_mgr (g_sh (g_interfere w)) \<and> closing m \<and>
    w' = (g_interfere w)\<lparr>g_sh := (g_sh (g_interfere w))\<lparr>gs_mgr := snd (Register (Some r) m)\<rparr>\<rparr>"
proof -
  let ?m = "gs_mgr (g_sh (g_interfere w))"
  have acc: "snd (fst (Register (Some r) ?m)) = (\<not> closing ?m)" by (rule Register_accepted)
  obtain w2 where rel: "releasePreAuth ((g_interfere w)\<lparr>g_sh := (g_sh (g_interfere w))\<lparr>gs_mgr := snd (Register (Some r) ?m)\<rparr>\<rparr>)
      = (Inr (), w2)" using releasePreAuth_Inr by blast
  show ?thesis
    using assms acc rel
    by (auto simp: ebind_def g_manager_def g_shared_def g_fail_def ethrow_def Let_def split_def split: if_splits)
qed

context rely
begin

lemma publish_fails:
  assumes db: "\<And>s t. R s (s\<lparr>gs_db := t\<rparr>)"
    and closed: "\<And>s. R s (s\<lparr>gs_mgr := upd_conn r beginClose (upd_conn r initLifecycle (gs_mgr s))\<rparr>)"
    and fails: "publishAuthenticated k g d r cid sg rid source now w = (Inl e, w')"
  shows "via R w w'"
proof -
  let ?pre = "ethen (announce k g d cid sg rid now) (ethen g_call (ethen g_call (ethen g_ctxErr g_ctxErr)))"
  let ?install = "ebind (g_manager (Register (Some r))) (\<lambda>(_, accepted).
      if \<not> accepted then g_fail ''tunnel manager is closed''
      else ethen releasePreAuth
        (g_shared (\<lambda>s. (Inr (), s\<lparr>gs_limiter := succeeded source (gs_limiter s)\<rparr>))))"
  have split: "publishAuthenticated k g d r cid sg rid source now = ethen ?pre ?install"
    by (simp add: publishAuthenticated_def ebind_assoc)
  have pre: "moves (via R) ?pre" by (intro v.moves_rules v.own_local v.own_announce via_sh db)
  show ?thesis
  proof (cases rule: ebind_cases [of ?pre w "\<lambda>_. ?install"])
    case (fails e' t)
    then show ?thesis using moves_result [OF pre fails(1)] fails assms(3) split by simp
  next
    case (goes x t)
    then have "?install t = (Inl e, w')" using fails split by simp
    from install_fails [OF this] have w': "w' = (g_interfere t)\<lparr>g_sh := (g_sh (g_interfere t))
        \<lparr>gs_mgr := upd_conn r beginClose (upd_conn r initLifecycle (gs_mgr (g_sh (g_interfere t))))\<rparr>\<rparr>"
      by (auto simp: Register_refused)
    have "via R (g_interfere t) w'" using closed by (simp add: via_def w')
    then show ?thesis using moves_result [OF pre goes(1)] v.interfere_step v.R_trans by blast
  qed
qed

end

text \<open>
  A candidate that fails anywhere in its publication (an expired deadline, a broken stream, a
  failed pairing offer, a closed registry) leaves the device's healthy connection, the
  admission token and the limiter as they were: every relation that the other handlers
  maintain and that ignores the database holds between before and after, except that a
  closed registry closes the candidate itself.
\<close>

theorem failed_publish_harmless:
  assumes "rely R" and "\<And>s t. R s (s\<lparr>gs_db := t\<rparr>)"
    and "\<And>s. R s (s\<lparr>gs_mgr := upd_conn r beginClose (upd_conn r initLifecycle (gs_mgr s))\<rparr>)"
    and "\<forall>f \<in> set (g_env w). \<forall>s. R s (f s)"
    and "publishAuthenticated k g d r cid sg rid source now w = (Inl e, w')"
  shows "R (g_sh w) (g_sh w')"
  using rely.publish_fails [OF assms(1,2,3,5)] assms(4) by (simp add: via_def)

subsection \<open>Every handler moves the registry by its own steps\<close>

definition reg_steps :: "nat \<Rightarrow> gshared \<Rightarrow> gshared \<Rightarrow> bool" where
  "reg_steps n s s' \<longleftrightarrow> (n \<le> length (conns (gs_mgr s)) \<longrightarrow>
     n \<le> length (conns (gs_mgr s')) \<and> tunnel_step\<^sup>*\<^sup>* (gs_mgr s) (gs_mgr s'))"

interpretation reg: rely "reg_steps n" for n
  by unfold_locales (auto simp: reg_steps_def)

lemma tunnel_step_length: "tunnel_step m m' \<Longrightarrow> length (conns m) \<le> length (conns m')"
  by (induction rule: tunnel_step.induct)
     (auto simp: Register_def Remove_def DetachDevice_def reap_def CloseAll_begin_def close_next_def take_slot_def
       free_slot_def set_ssh_def Let_def split: option.split list.split)

lemma tunnel_steps_length: "tunnel_step\<^sup>*\<^sup>* m m' \<Longrightarrow> length (conns m) \<le> length (conns m')"
  by (induction rule: rtranclp_induct) (auto dest: tunnel_step_length)

lemma reg_stepsI: "(n \<le> length (conns (gs_mgr s)) \<Longrightarrow> tunnel_step (gs_mgr s) (gs_mgr s')) \<Longrightarrow> reg_steps n s s'"
  using tunnel_step_length [of "gs_mgr s" "gs_mgr s'"] by (auto simp: reg_steps_def)

lemma reg_mgr:
  "(r < length (conns (gs_mgr s)) \<Longrightarrow> tunnel_step (gs_mgr s) m) \<Longrightarrow> reg_steps (Suc r) s (s\<lparr>gs_mgr := m\<rparr>)"
  by (rule reg_stepsI) auto

lemma reg_steps_0: "reg_steps 0 s s' \<Longrightarrow> reg_steps n s s'"
  by (auto simp: reg_steps_def dest: tunnel_steps_length)

lemma reg_steps_from:
  assumes "via (reg_steps n) w w'" and "n \<le> length (conns (gs_mgr (g_sh w)))"
  shows "via (reg_steps 0) w w'"
  using assms reg_steps_0 by (auto simp: via_def) (simp add: reg_steps_def)

lemma reg_other: "gs_mgr s' = gs_mgr s \<Longrightarrow> reg_steps n s s'"
  by (simp add: reg_steps_def)

lemma reg_publish: "moves (via (reg_steps (Suc r))) (publishAuthenticated k g d r cid sg rid source now)"
  unfolding publishAuthenticated_def
  by (intro reg.v.moves_rules reg.v.own_local reg.v.own_announce reg.via_release reg.v.own_shared reg.v.own_manager
      reg.via_sh reg_mgr tunnel_step.register) (simp_all add: reg_other)

lemma reg_loop: "moves (via (reg_steps (Suc r))) (heartbeatLoop k r d)"
  by (intro reg.v.own_heartbeatLoop reg.v.own_heartbeat reg.via_sh reg_mgr tunnel_step.touched) (simp_all add: reg_other)

lemma reg_connection:
  "moves (via (reg_steps (Suc r))) (g_defer (g_manager (\<lambda>m. ((), upd_conn r beginClose m)))
     (ethen (publishAuthenticated k g d r cid sg rid source now)
     (g_defer (g_manager (\<lambda>m. ((), Remove (Some r) m)))
       (ethen (audit k g d' ev) (heartbeatLoop k r d')))))"
  by (intro reg.v.moves_rules reg.v.own_defer reg_publish reg_loop reg.v.own_audit reg.v.own_manager)
     (auto simp: reg_other intro!: reg.via_sh reg_mgr tunnel_step.close tunnel_step.remove)

text \<open>After the new connection is on the heap, the rest may rely on its index.\<close>

lemma reg_connect:
  assumes "\<And>r. moves (via (reg_steps (Suc r))) (f r)"
  shows "moves (via (reg_steps 0)) (ebind (g_manager (\<lambda>m. (length (conns m), m\<lparr>conns := conns m @
        [newConnection cid d ss sg now]\<rparr>))) f)"
proof (rule movesI)
  fix w
  let ?w = "g_interfere w"
  let ?m = "gs_mgr (g_sh ?w)"
  let ?w1 = "?w\<lparr>g_sh := (g_sh ?w)\<lparr>gs_mgr := ?m\<lparr>conns := conns ?m @ [newConnection cid d ss sg now]\<rparr>\<rparr>\<rparr>"
  let ?r = "length (conns ?m)"
  have 1: "via (reg_steps 0) w ?w" by (rule reg.v.interfere_step)
  have 2: "via (reg_steps 0) ?w ?w1"
    by (simp add: via_def reg_stepsI tunnel_step.connect)
  have 3: "via (reg_steps 0) ?w1 (snd (f ?r ?w1))"
    by (rule reg_steps_from [OF movesD [OF assms]]) simp
  have "snd (ebind (g_manager (\<lambda>m. (length (conns m), m\<lparr>conns := conns m @ [newConnection cid d ss sg now]\<rparr>))) f w)
      = snd (f ?r ?w1)"
    by (simp add: ebind_def g_manager_def g_shared_def Let_def)
  then show "via (reg_steps 0) w (snd (ebind (g_manager (\<lambda>m. (length (conns m), m\<lparr>conns := conns m @
        [newConnection cid d ss sg now]\<rparr>))) f w))"
    using reg.v.R_trans [OF 1 reg.v.R_trans [OF 2 3]] by (rule ssubst)
qed

lemma reg_device: "moves (via (reg_steps 0)) (serveDevice k g session source x)"
  unfolding serveDevice_def
  by (intro reg.v.moves_rules reg.v.own_local reg.v.own_lock reg.v.own_store reg_connect reg_connection reg.via_sh)
     (simp_all add: reg_other)

lemma reg_transport: "moves (via (reg_steps 0)) (serveTransport k g session source)"
  unfolding serveTransport_def by (intro reg.v.moves_rules reg.v.own_local reg.v.own_handshake reg_device)

lemma reg_take: "moves (via (reg_steps 0)) (takePreAuth g)"
proof (rule movesI)
  fix w
  have "via (reg_steps 0) (g_interfere w) (snd (takePreAuth g w))"
    by (simp add: takePreAuth_def Let_def via_def reg_other)
  then show "via (reg_steps 0) w (snd (takePreAuth g w))" by (rule reg.v.R_trans [OF reg.v.interfere_step])
qed

lemma reg_serve: "moves (via (reg_steps 0)) (ServeHTTP k g session rq)"
  unfolding ServeHTTP_def admitted_handler_def begin_handler_def end_handler_def
  by (intro reg.v.moves_rules reg.v.own_local reg.v.own_defer reg.v.own_shared reg_take reg.via_release reg_transport reg.via_sh)
     (auto simp: reg_other split: prod.split)


subsection \<open>Admission tokens\<close>

text \<open>
  The tokens of the others, and how they move: \<open>\<delta> f\<close> is what the interference \<open>f\<close> adds to the
  channel, and the first \<open>n\<close> of them happened.
\<close>

definition tokens :: "gworld \<Rightarrow> int" where
  "tokens w = gs_preAuth (g_sh w) - of_bool (g_slot w)"

definition balanced :: "((gshared \<Rightarrow> gshared) \<Rightarrow> int) \<Rightarrow> gworld \<Rightarrow> gworld \<Rightarrow> bool" where
  "balanced \<delta> w w' \<longleftrightarrow> (\<exists>n. g_env w' = drop n (g_env w) \<and>
     ((\<forall>f \<in> set (g_env w). \<forall>s. gs_preAuth (f s) = gs_preAuth s + \<delta> f) \<longrightarrow>
        tokens w' = tokens w + (\<Sum>f \<leftarrow> take n (g_env w). \<delta> f)))"

lemma balanced_same: "g_env w' = g_env w \<Longrightarrow> tokens w' = tokens w \<Longrightarrow> balanced \<delta> w w'"
  unfolding balanced_def by (rule exI [of _ 0]) simp

lemma balanced_trans:
  assumes "balanced \<delta> w w'" and "balanced \<delta> w' w''"
  shows "balanced \<delta> w w''"
proof -
  obtain n where n: "g_env w' = drop n (g_env w)" "(\<forall>f \<in> set (g_env w). \<forall>s. gs_preAuth (f s) = gs_preAuth s + \<delta> f) \<longrightarrow>
      tokens w' = tokens w + (\<Sum>f \<leftarrow> take n (g_env w). \<delta> f)" using assms(1) unfolding balanced_def by blast
  obtain m where m: "g_env w'' = drop m (g_env w')" "(\<forall>f \<in> set (g_env w'). \<forall>s. gs_preAuth (f s) = gs_preAuth s + \<delta> f) \<longrightarrow>
      tokens w'' = tokens w' + (\<Sum>f \<leftarrow> take m (g_env w'). \<delta> f)" using assms(2) unfolding balanced_def by blast
  have "set (g_env w') \<subseteq> set (g_env w)" by (simp add: n(1) set_drop_subset)
  moreover have "g_env w'' = drop (n + m) (g_env w)" by (simp add: n(1) m(1) add.commute)
  moreover have "(\<Sum>f \<leftarrow> take (n + m) (g_env w). \<delta> f) =
      (\<Sum>f \<leftarrow> take n (g_env w). \<delta> f) + (\<Sum>f \<leftarrow> take m (g_env w'). \<delta> f)" by (simp add: take_add n(1))
  ultimately show ?thesis unfolding balanced_def using n(2) m(2) by (intro exI [of _ "n + m"]) auto
qed

lemma balanced_interfere: "balanced \<delta> w (g_interfere w)"
proof (cases "g_env w")
  case Nil
  then show ?thesis by (intro balanced_same) (simp_all add: g_interfere_def)
next
  case (Cons f fs)
  then show ?thesis unfolding balanced_def by (intro exI [of _ 1]) (simp add: g_interfere_def tokens_def)
qed

interpretation bal: handler "balanced \<delta>" for \<delta>
  by unfold_locales (auto intro: balanced_same balanced_trans balanced_interfere simp: tokens_def)

lemma balanced_sh: "gs_preAuth s = gs_preAuth (g_sh w) \<Longrightarrow> balanced \<delta> w (w\<lparr>g_sh := s\<rparr>)"
  by (rule balanced_same) (simp_all add: tokens_def)

lemma balanced_release: "moves (balanced \<delta>) releasePreAuth"
  by (rule bal.after_interference) (auto simp: releasePreAuth_def Let_def tokens_def intro!: balanced_same)

lemma balanced_device: "moves (balanced \<delta>) (serveDevice k g session source x)"
  unfolding serveDevice_def publishAuthenticated_def
  by (intro bal.moves_rules bal.own_local bal.own_lock bal.own_store bal.own_manager bal.own_defer bal.own_announce
      bal.own_audit bal.own_shared bal.own_heartbeatLoop bal.own_heartbeat balanced_release balanced_sh) simp_all

lemma balanced_transport: "moves (balanced \<delta>) (serveTransport k g session source)"
  unfolding serveTransport_def by (intro bal.moves_rules bal.own_local bal.own_handshake balanced_device)

text \<open>A handler that starts without a token ends without one.\<close>

definition settled :: "((gshared \<Rightarrow> gshared) \<Rightarrow> int) \<Rightarrow> gworld \<Rightarrow> gworld \<Rightarrow> bool" where
  "settled \<delta> w w' \<longleftrightarrow> (\<not> g_slot w \<longrightarrow> \<not> g_slot w' \<and> balanced \<delta> w w')"

lemma slot_interfere [simp]: "g_slot (g_interfere w) = g_slot w"
  by (simp add: g_interfere_def split: list.split)

interpretation set: handler "settled \<delta>" for \<delta>
  by unfold_locales
    (auto simp: settled_def intro: balanced_trans balanced_interfere bal.quiet_step bal.R_refl)

lemma settled_sh: "gs_preAuth s = gs_preAuth (g_sh w) \<Longrightarrow> settled \<delta> w (w\<lparr>g_sh := s\<rparr>)"
  by (simp add: settled_def balanced_sh)

lemma released: "\<not> g_slot (snd (releasePreAuth w))"
  by (simp add: releasePreAuth_def Let_def)

lemma settled_admission:
  assumes "moves (balanced \<delta>) m"
  shows "moves (settled \<delta>) (ebind (takePreAuth g) (\<lambda>taken. if \<not> taken then ereturn x else g_defer releasePreAuth m))"
proof (rule set.after_interference)
  fix w
  let ?w = "g_interfere w"
  show "settled \<delta> ?w (snd (ebind (takePreAuth g) (\<lambda>taken. if \<not> taken then ereturn x else g_defer releasePreAuth m) w))"
  proof (cases "gs_preAuth (g_sh ?w) < gw_maxPreAuth g")
    case True
    let ?w1 = "?w\<lparr>g_sh := (g_sh ?w)\<lparr>gs_preAuth := gs_preAuth (g_sh ?w) + 1\<rparr>, g_slot := True\<rparr>"
    have "balanced \<delta> ?w ?w1" if "\<not> g_slot ?w"
      using that by (intro balanced_same) (simp_all add: tokens_def)
    moreover have "balanced \<delta> ?w1 (snd (m ?w1))" by (rule movesD [OF assms])
    moreover have "balanced \<delta> (snd (m ?w1)) (snd (releasePreAuth (snd (m ?w1))))" by (rule movesD [OF balanced_release])
    moreover have "snd (ebind (takePreAuth g) (\<lambda>taken. if \<not> taken then ereturn x else g_defer releasePreAuth m) w)
        = snd (releasePreAuth (snd (m ?w1)))"
      using True by (simp add: ebind_def takePreAuth_def Let_def g_defer_def split_def)
    ultimately show ?thesis
      using released [of "snd (m ?w1)"] balanced_trans by (simp add: settled_def) blast
  next
    case False
    then show ?thesis by (simp add: ebind_def takePreAuth_def Let_def ereturn_def set.R_refl)
  qed
qed

lemma settled_serve: "moves (settled \<delta>) (ServeHTTP k g session rq)"
  unfolding ServeHTTP_def admitted_handler_def begin_handler_def end_handler_def
  by (intro set.moves_rules set.own_local set.own_defer set.own_shared settled_admission settled_sh
      bal.moves_rules bal.own_local balanced_transport) (auto split: prod.split)

text \<open>
  C37: No tunnel request leaks or steals an admission token.  Whatever path a request takes (refused,
  failed before, during or after authentication, disconnected later) and whatever the other
  handlers take and return meanwhile, in the end the number of tokens has changed by exactly
  what the others did.
\<close>

theorem admission_tokens_returned:
  assumes "\<forall>f \<in> set (g_env w). \<forall>s. gs_preAuth (f s) = gs_preAuth s + \<delta> f" and "\<not> g_slot w"
    and "ServeHTTP k g session rq w = (r, w')"
  shows "\<exists>n. g_env w' = drop n (g_env w) \<and>
    gs_preAuth (g_sh w') = gs_preAuth (g_sh w) + (\<Sum>f \<leftarrow> take n (g_env w). \<delta> f)"
proof -
  have "settled \<delta> w w'" by (rule moves_result [OF settled_serve assms(3)])
  then have "\<not> g_slot w'" "balanced \<delta> w w'" using assms(2) by (simp_all add: settled_def)
  then show ?thesis using assms(1,2) by (auto simp: balanced_def tokens_def)
qed

subsection \<open>The heartbeat loop\<close>

text \<open>The successful rounds of the loop.\<close>

inductive beats :: "gateway_params \<Rightarrow> conn_ref \<Rightarrow> ident \<Rightarrow> nat \<Rightarrow> gworld \<Rightarrow> gworld \<Rightarrow> bool" for k r d where
  beats_none: "beats k r d 0 w w"
| beats_more: "heartbeat k r d w = (Inr u, w1) \<Longrightarrow> beats k r d n w1 w' \<Longrightarrow> beats k r d (Suc n) w w'"

lemma beats_bound: "beats k r d n w w' \<Longrightarrow> n + g_unread w' \<le> g_unread w"
  by (induction rule: beats.induct) (auto dest: eatsD [OF heartbeat_eats])


subsection \<open>A successful publication\<close>

lemma g_interfere_Nil [simp]: "g_env w = [] \<Longrightarrow> g_interfere w = w"
  by (simp add: g_interfere_def)

text \<open>What an announcement leaves alone when nobody interferes, and what it sends first.\<close>

definition announced :: "gworld \<Rightarrow> gworld \<Rightarrow> bool" where
  "announced w w' \<longleftrightarrow> (g_env w = [] \<longrightarrow> g_env w' = [] \<and> g_slot w' = g_slot w \<and>
     gs_mgr (g_sh w') = gs_mgr (g_sh w) \<and> gs_limiter (g_sh w') = gs_limiter (g_sh w) \<and>
     gs_preAuth (g_sh w') = gs_preAuth (g_sh w) \<and> (\<exists>out. wr (g_ctl w') = wr (g_ctl w) @ out))"

interpretation ann: step_order announced
  by unfold_locales (auto simp: announced_def)

definition appends :: "stream \<Rightarrow> stream \<Rightarrow> bool" where
  "appends s t \<longleftrightarrow> (\<exists>out. wr t = wr s @ out)"

interpretation app: step_order appends
  by unfold_locales (auto simp: appends_def)

lemma appends_write: "moves appends (WriteMessage mp m t rid v)"
proof -
  have "appends s (snd (writeFull c s))" for c s
    using writeFull_prefix [of c s] by (cases "writeFull c s") (auto simp: appends_def)
  then have "moves appends (writeFull c)" for c by (simp add: moves_def)
  moreover have "moves appends (lift_result r)" for r
    by (auto simp: moves_def lift_result_def em_simps app.R_refl split: sum.split)
  ultimately show ?thesis unfolding WriteMessage_def writeJSON_def by (intro app.moves_rules)
qed

lemma announced_local: "moves announced g_call" "moves announced g_ctxErr" "moves announced (g_id n)"
  "moves announced (g_pairing p)"
  by (auto simp: moves_def announced_def g_call_def g_ctxErr_def g_id_def g_pairing_def Let_def
      split: list.split prod.split)

lemma announced_codec:
  assumes "moves appends m"
  shows "moves announced (g_codec m)"
proof (rule movesI)
  fix w :: gworld
  have "appends (g_ctl w) (snd (m (g_ctl w)))" by (rule movesD [OF assms])
  then show "announced w (snd (g_codec m w))" by (simp add: announced_def appends_def g_codec_def split_def)
qed

text \<open>The frame of the ready response.\<close>

definition ready_frame :: "gateway_params \<Rightarrow> Gateway \<Rightarrow> ident \<Rightarrow> handle \<Rightarrow> string \<Rightarrow> string \<Rightarrow> bool" where
  "ready_frame k g cid sg rid f \<longleftrightarrow> (\<exists>payload encoded.
     m_authenticated k \<lparr>sa_ConnectionID = cid, sa_SSHClientPublicKey = TrimSpace (x_authorized k sg),
       sa_HeartbeatInterval = milliseconds (gw_heartbeatInterval g)\<rparr> = Some payload \<and>
     m_message k \<lparr>msg_version = Version, msg_type = TypeServerAuthenticated, msg_request_id = rid,
       msg_payload = payload\<rparr> = Some encoded \<and> f = frame encoded)"

lemma announce_sends:
  assumes "announce k g d cid sg rid now w = (Inr x, w')" and "g_env w = []"
  shows "announced w w'" and "\<exists>f out. ready_frame k g cid sg rid f \<and> wr (g_ctl w') = wr (g_ctl w) @ f @ out"
proof -
  let ?msg = "\<lparr>sa_ConnectionID = cid, sa_SSHClientPublicKey = TrimSpace (x_authorized k sg),
         sa_HeartbeatInterval = milliseconds (gw_heartbeatInterval g)\<rparr>"
  let ?ready = "g_codec (WriteMessage (m_authenticated k) (m_message k) TypeServerAuthenticated rid ?msg)"
  let ?offer = "case d_owner_user_id d of Some _ \<Rightarrow> ereturn ()
      | None \<Rightarrow> ebind (g_pairing (offer_code CreatePairingCode (x_digest k) (d_id d) now)) (\<lambda>offer.
          ebind (g_id (New ''req'')) (\<lambda>offerRequestID.
          g_codec (WriteMessage (m_offered k) (m_message k) TypePairingOffered offerRequestID offer)))"
  have offer: "moves announced ?offer"
    by (intro ann.moves_rules announced_local announced_codec appends_write)
  obtain u w1 where 1: "g_ctxErr w = (Inr u, w1)" and r1: "ethen ?ready ?offer w1 = (Inr x, w')"
    using assms(1) unfolding announce_def by (rule ebind_InrE)
  obtain v w2 where 2: "?ready w1 = (Inr v, w2)" and r2: "?offer w2 = (Inr x, w')"
    using r1 by (rule ebind_InrE)
  have a1: "announced w w1" by (rule moves_result [OF announced_local(2) 1])
  have a2: "announced w1 w2" by (rule moves_result [OF announced_codec [OF appends_write] 2])
  have a3: "announced w2 w'" by (rule moves_result [OF offer r2])
  show "announced w w'" using a1 a2 a3 ann.R_trans by blast
  obtain t where t: "WriteMessage (m_authenticated k) (m_message k) TypeServerAuthenticated rid ?msg (g_ctl w1) = (Inr v, t)"
    and w2: "w2 = w1\<lparr>g_ctl := t\<rparr>"
    using 2 by (cases "WriteMessage (m_authenticated k) (m_message k) TypeServerAuthenticated rid ?msg (g_ctl w1)")
      (auto simp: g_codec_def map_sum_def split: sum.splits)
  obtain payload where p: "m_authenticated k ?msg = Some payload"
    and wj: "writeJSON (m_message k) \<lparr>msg_version = Version, msg_type = TypeServerAuthenticated, msg_request_id = rid,
       msg_payload = payload\<rparr> (g_ctl w1) = (Inr v, t)" using t by (rule write_message_success)
  have "wr (g_ctl w1) = wr (g_ctl w)" using 1 by (auto simp: g_ctxErr_def split: list.splits)
  moreover obtain out where "wr (g_ctl w') = wr t @ out"
    using a1 a2 a3 assms(2) w2 by (auto simp: announced_def)
  moreover obtain e where "m_message k \<lparr>msg_version = Version, msg_type = TypeServerAuthenticated, msg_request_id = rid,
       msg_payload = payload\<rparr> = Some e" "wr t = wr (g_ctl w1) @ frame e" using wj by (rule writeJSON_success)
  ultimately show "\<exists>f out. ready_frame k g cid sg rid f \<and> wr (g_ctl w') = wr (g_ctl w) @ f @ out"
    using p unfolding ready_frame_def by (intro exI [of _ "frame e"] exI [of _ out]) auto
qed

lemma install_ok:
  assumes "ebind (g_manager (Register (Some r))) (\<lambda>(_, accepted).
      if \<not> accepted then g_fail msg
      else ethen releasePreAuth (g_shared (\<lambda>s. (Inr (), s\<lparr>gs_limiter := succeeded source (gs_limiter s)\<rparr>)))) w
      = (Inr x, w')" and "g_env w = []"
  shows "\<not> closing (gs_mgr (g_sh w))" and "gs_mgr (g_sh w') = snd (Register (Some r) (gs_mgr (g_sh w)))"
    and "gs_limiter (g_sh w') = succeeded source (gs_limiter (g_sh w))"
    and "gs_preAuth (g_sh w') = gs_preAuth (g_sh w) - of_bool (g_slot w)" and "\<not> g_slot w'" and "g_ctl w' = g_ctl w"
proof -
  let ?m = "gs_mgr (g_sh w)"
  have acc: "snd (fst (Register (Some r) ?m)) = (\<not> closing ?m)" by (rule Register_accepted)
  have d: "g_manager (Register (Some r)) w =
      (Inr (fst (Register (Some r) ?m)), w\<lparr>g_sh := (g_sh w)\<lparr>gs_mgr := snd (Register (Some r) ?m)\<rparr>\<rparr>)"
    using assms(2) by (simp add: g_manager_def g_shared_def Let_def split_def)
  have e: "ebind (g_manager (Register (Some r))) f w =
      f (fst (Register (Some r) ?m)) (w\<lparr>g_sh := (g_sh w)\<lparr>gs_mgr := snd (Register (Some r) ?m)\<rparr>\<rparr>)" for f :: "_ \<Rightarrow> unit gw"
    by (simp add: ebind_def d)
  show c: "\<not> closing ?m" using assms(1) acc by (auto simp: e split_def)
  then have w': "ethen releasePreAuth (g_shared (\<lambda>s. (Inr (), s\<lparr>gs_limiter := succeeded source (gs_limiter s)\<rparr>)))
      (w\<lparr>g_sh := (g_sh w)\<lparr>gs_mgr := snd (Register (Some r) ?m)\<rparr>\<rparr>) = (Inr x, w')"
    using assms(1) acc by (simp add: e split_def)
  show "gs_mgr (g_sh w') = snd (Register (Some r) ?m)" "gs_limiter (g_sh w') = succeeded source (gs_limiter (g_sh w))"
    "gs_preAuth (g_sh w') = gs_preAuth (g_sh w) - of_bool (g_slot w)" "\<not> g_slot w'" "g_ctl w' = g_ctl w"
    using w' assms(2) by (auto simp: ebind_def releasePreAuth_def g_shared_def Let_def split: if_splits)
qed

text \<open>
  Publication does what the protocol promises: when it succeeds undisturbed, the ready response has
  been sent in full, and only then has the new connection become the device's registered and
  online connection, the connection it replaces is closed, no other device's entry has
  changed, the admission token is back and the failures of its source address are forgotten.
\<close>

theorem publish_makes_newest:
  fixes w :: gworld
  defines "m \<equiv> gs_mgr (g_sh w)"
  assumes "publishAuthenticated k g d r cid sg rid source now w = (Inr x, w')" and "g_env w = []" and "g_slot w"
    and "reg_inv m" and "r < length (conns m)" and "c_DeviceID (conns m ! r) = d_id d" and "\<not> c_closed (conns m ! r)"
  shows "(\<exists>f out. ready_frame k g cid sg rid f \<and> wr (g_ctl w') = wr (g_ctl w) @ f @ out) \<and>
    connections (gs_mgr (g_sh w')) = (connections m)(d_id d \<mapsto> r) \<and> IsOnline (d_id d) (gs_mgr (g_sh w')) \<and>
    (\<forall>q. connections m (d_id d) = Some q \<and> q \<noteq> r \<longrightarrow> c_closed (conns (gs_mgr (g_sh w')) ! q)) \<and>
    gs_preAuth (g_sh w') = gs_preAuth (g_sh w) - 1 \<and> \<not> g_slot w' \<and>
    gs_limiter (g_sh w') = succeeded source (gs_limiter (g_sh w))"
proof -
  let ?install = "ebind (g_manager (Register (Some r))) (\<lambda>(_, accepted).
      if \<not> accepted then g_fail ''tunnel manager is closed''
      else ethen releasePreAuth
        (g_shared (\<lambda>s. (Inr (), s\<lparr>gs_limiter := succeeded source (gs_limiter s)\<rparr>))))"
  let ?rest = "ethen g_call (ethen g_call (ethen g_ctxErr g_ctxErr))"
  have "publishAuthenticated k g d r cid sg rid source now = ethen (announce k g d cid sg rid now) (ethen ?rest ?install)"
    by (simp add: publishAuthenticated_def ebind_assoc)
  then have "ethen (announce k g d cid sg rid now) (ethen ?rest ?install) w = (Inr x, w')" using assms(2) by simp
  then obtain u w1 where 1: "announce k g d cid sg rid now w = (Inr u, w1)" and r1: "ethen ?rest ?install w1 = (Inr x, w')"
    by (rule ebind_InrE)
  obtain v w2 where 2: "?rest w1 = (Inr v, w2)" and r2: "?install w2 = (Inr x, w')" using r1 by (rule ebind_InrE)
  have "moves announced ?rest" by (intro ann.moves_rules announced_local)
  then have b: "announced w1 w2" using 2 by (rule moves_result)
  have a1: "announced w w1" by (rule announce_sends(1) [OF 1 assms(3)])
  have a: "announced w w2" by (rule ann.R_trans [OF a1 b])
  then have e2: "g_env w2 = []" "gs_mgr (g_sh w2) = m" using assms(1,3) by (simp_all add: announced_def)
  note i = install_ok [OF r2 e2(1)]
  have reg: "gs_mgr (g_sh w') = snd (Register (Some r) m)" "\<not> closing m" using i(1,2) e2 by simp_all
  note acc = Register_accepts [OF assms(5,6) reg(2)]
  obtain f out where f: "ready_frame k g cid sg rid f" "wr (g_ctl w1) = wr (g_ctl w) @ f @ out"
    using announce_sends(2) [OF 1 assms(3)] by blast
  obtain out' where "wr (g_ctl w2) = wr (g_ctl w1) @ out'" using a1 b assms(3) by (auto simp: announced_def)
  then have "wr (g_ctl w') = wr (g_ctl w) @ f @ (out @ out')" using f(2) i(6) by simp
  then have sent: "\<exists>f out. ready_frame k g cid sg rid f \<and> wr (g_ctl w') = wr (g_ctl w) @ f @ out" using f(1) by blast
  have online: "IsOnline (d_id d) (gs_mgr (g_sh w'))"
    using acc(2,3) assms(6-8) by (simp add: IsOnline_def Get_def reg(1) online_def)
  have closed: "c_closed (conns (gs_mgr (g_sh w')) ! q)" if "connections m (d_id d) = Some q \<and> q \<noteq> r" for q
  proof -
    have "q < length (conns m)" using reg_invD(2) [OF assms(5)] that by blast
    then show ?thesis using acc(3) assms(7) that by (simp add: reg(1))
  qed
  have "gs_preAuth (g_sh w2) = gs_preAuth (g_sh w)" "g_slot w2" "gs_limiter (g_sh w2) = gs_limiter (g_sh w)"
    using a assms(3,4) by (simp_all add: announced_def)
  then show ?thesis using sent i(3-5) acc(2) online closed assms(7) by (simp add: reg(1))
qed


subsection \<open>A concrete peer\<close>

definition gx_key :: string where
  "gx_key = replicate 32 (CHR 0x00)"

definition gx_params :: gateway_params where
  "gx_params = \<lparr>
     j_header = (\<lambda>_. Some (\<lparr>sh_version = 1, sh_kind = StreamControl, sh_request_id = ''req_1''\<rparr>, [])),
     j_message = (\<lambda>e. Some (\<lparr>msg_version = 1, msg_type = (if e = ''H'' then TypeClientHello
        else if e = ''P'' then TypeDeviceProof else TypeDeviceHeartbeat), msg_request_id = ''req_1'', msg_payload = e\<rparr>, [])),
     j_another = (\<lambda>_. False),
     j_hello = (\<lambda>_. Some (\<lparr>ch_DeviceID = ''dev_'' @ take 32 (base32_lower gx_key),
        ch_DevicePublicKey = encode base64_alphabet 5 gx_key, ch_DeviceName = ''laptop'', ch_Platform = ''linux'',
        ch_Arch = ''amd64'', ch_ClientVersion = ''1''\<rparr>, [])),
     j_proof = (\<lambda>_. Some (encode base64_alphabet 5 (replicate 64 (CHR 0x00)), [])),
     j_heartbeat = (\<lambda>_. Some (5, [])),
     m_message = (\<lambda>m. Some (msg_type m)), m_challenge = (\<lambda>_. Some ''c''), m_authenticated = (\<lambda>_. Some ''a''),
     m_offered = (\<lambda>_. Some ''o''), m_ack = (\<lambda>_. Some ''k''),
     x_sha256 = (\<lambda>k. k), x_verify = (\<lambda>key m s. s = replicate 64 (CHR 0x00) \<and> HasPrefix m authDomain),
     x_signer = Some, x_authorized = (\<lambda>s. s), x_digest = (\<lambda>c. c)\<rparr>"

definition gx_gateway :: Gateway where
  "gx_gateway = \<lparr>gw_auditor = True, gw_authTimeout = 10 * second, gw_heartbeatInterval = 5 * second,
     gw_heartbeatTimeout = 15 * second, gw_maxPreAuth = 2,
     gw_sourceResolver = (\<lambda>rq. Resolve (Some (NewResolver [])) (Some rq))\<rparr>"

definition gx_request :: http_request where
  "gx_request = \<lparr>hr_Method = ''GET'', hr_RemoteAddr = ''10.0.0.7:40000'', hr_Header = []\<rparr>"

definition gx_world :: "(gshared \<Rightarrow> gshared) list \<Rightarrow> ctx_err option list \<Rightarrow> gworld" where
  "gx_world env ctx = \<lparr>g_sh = \<lparr>gs_db = \<lparr>tables = empty_db, faults = []\<rparr>, gs_mgr = NewManager,
       gs_limiter = newSourceLimiter 20 (60 * second), gs_preAuth = 0, gs_handlers = 0, gs_closed = False\<rparr>,
     g_env = env, g_slot = False,
     g_ctl = \<lparr>rd = frame ''h'' @ frame ''H'' @ frame ''P'' @ frame ''B'', wr = [], accepts = []\<rparr>,
     g_io = [], g_ctx = ctx, g_random = replicate 64 (CHR 0x00), g_rand = replicate 100 (CHR 0x00), g_clock = [1, 2, 3, 4]\<rparr>"

abbreviation gx_serve :: "(gshared \<Rightarrow> gshared) list \<Rightarrow> ctx_err option list \<Rightarrow> (gw_err + http_result) \<times> gworld" where
  "gx_serve env ctx \<equiv> ServeHTTP gx_params gx_gateway ''yamux'' gx_request (gx_world env ctx)"

lemma gx_transport_registers:
  "length (devices (tables (gs_db (g_sh (snd (serveTransport gx_params gx_gateway ''yamux'' ''10.0.0.7'' (gx_world [] [None, Some DeadlineExceeded]))))))) = 1"
  by code_simp


text \<open>The candidate's deadline passes at the last check before the registration.\<close>

abbreviation gx_device :: Device where
  "gx_device \<equiv> \<lparr>d_id = ''dev_1'', d_public_key = ''k'', d_owner_user_id = Some ''usr_1'', d_name = ''n'',
     d_platform = ''linux'', d_arch = ''amd64'', d_client_version = ''1'', d_created_at = 0, d_paired_at = Some 0,
     d_last_seen_at = Some 0\<rparr>"

theorem failed_publish_harmless_witness:
  "\<exists>w'. publishAuthenticated gx_params gx_gateway gx_device 0 ''conn_1'' ''s'' ''req_1'' ''10.0.0.7'' 1
      (gx_world [] [None, None, Some DeadlineExceeded]) = (Inl (GwCtx DeadlineExceeded), w') \<and>
    connections (gs_mgr (g_sh w')) = Map.empty \<and> gs_preAuth (g_sh w') = 0"
proof -
  let ?w = "gx_world [] [None, None, Some DeadlineExceeded]"
  let ?run = "publishAuthenticated gx_params gx_gateway gx_device 0 ''conn_1'' ''s'' ''req_1'' ''10.0.0.7'' 1 ?w"
  let ?R = "\<lambda>s s'. connections (gs_mgr s') = connections (gs_mgr s) \<and> gs_preAuth s' = gs_preAuth s"
  have "fst ?run = Inl (GwCtx DeadlineExceeded)" by code_simp
  then have run: "?run = (Inl (GwCtx DeadlineExceeded), snd ?run)" by (metis prod.collapse)
  have "rely ?R" by unfold_locales auto
  then have "?R (g_sh ?w) (g_sh (snd ?run))"
    by (rule failed_publish_harmless [where w = ?w and R = ?R, OF _ _ _ _ run]) (simp_all add: gx_world_def)
  then show ?thesis using run by (auto simp: gx_world_def NewManager_def)
qed


theorem admission_tokens_returned_witness:
  "\<exists>n. gs_preAuth (g_sh (snd (gx_serve [\<lambda>s. s\<lparr>gs_preAuth := gs_preAuth s + 1\<rparr>] []))) =
     (\<Sum>f \<leftarrow> take n [\<lambda>s :: gshared. s\<lparr>gs_preAuth := gs_preAuth s + 1\<rparr>]. 1)"
proof -
  let ?w = "gx_world [\<lambda>s. s\<lparr>gs_preAuth := gs_preAuth s + 1\<rparr>] []"
  have "\<exists>n. g_env (snd (gx_serve [\<lambda>s. s\<lparr>gs_preAuth := gs_preAuth s + 1\<rparr>] [])) = drop n (g_env ?w) \<and>
      gs_preAuth (g_sh (snd (gx_serve [\<lambda>s. s\<lparr>gs_preAuth := gs_preAuth s + 1\<rparr>] []))) =
      gs_preAuth (g_sh ?w) + (\<Sum>f \<leftarrow> take n (g_env ?w). 1)"
    by (rule admission_tokens_returned [OF _ _ prod.collapse [symmetric]]) (simp_all add: gx_world_def)
  moreover have "g_env ?w = [\<lambda>s. s\<lparr>gs_preAuth := gs_preAuth s + 1\<rparr>]" "gs_preAuth (g_sh ?w) = 0"
    by (simp_all add: gx_world_def)
  ultimately show ?thesis by auto
qed

definition gx_two :: gworld where
  "gx_two = (gx_world [] [])\<lparr>g_slot := True, g_sh := (g_sh (gx_world [] []))\<lparr>gs_preAuth := 1,
     gs_mgr := NewManager\<lparr>conns := [newConnection ''conn_0'' ''dev_1'' (Some ''y0'') (Some ''s0'') 0,
       newConnection ''conn_1'' ''dev_1'' (Some ''y1'') (Some ''s'') 1],
       connections := [''dev_1'' \<mapsto> 0], owned := [0]\<rparr>\<rparr>\<rparr>"

theorem publish_makes_newest_witness:
  "\<exists>w'. publishAuthenticated gx_params gx_gateway gx_device 1 ''conn_1'' ''s'' ''req_1'' ''10.0.0.7'' 1 gx_two = (Inr (), w') \<and>
    connections (gs_mgr (g_sh w')) ''dev_1'' = Some 1 \<and> IsOnline ''dev_1'' (gs_mgr (g_sh w')) \<and>
    c_closed (conns (gs_mgr (g_sh w')) ! 0) \<and> gs_preAuth (g_sh w') = 0"
proof -
  let ?run = "publishAuthenticated gx_params gx_gateway gx_device 1 ''conn_1'' ''s'' ''req_1'' ''10.0.0.7'' 1 gx_two"
  have "fst ?run = Inr ()" by code_simp
  then have run: "?run = (Inr (), snd ?run)" by (metis prod.collapse)
  have inv: "reg_inv (gs_mgr (g_sh gx_two))"
    by (auto simp: reg_inv_def gx_two_def NewManager_def newConnection_def conn_ok_def less_Suc_eq)
  show ?thesis
    using publish_makes_newest [OF run _ _ inv] run
    by (auto simp: gx_two_def gx_world_def newConnection_def)
qed

end
