(* ===== verification/TunnelClient.thy ===== *)
theory TunnelClient
  imports Gateway
begin

text \<open>
  \<^verbatim>\<open>internal/tunnel/client.go\<close>: the device's side of the tunnel.  A connection attempt runs in a world
  with its control stream, the outcomes of its other network calls, random bytes and clock
  readings, and the callbacks it made.  \<^verbatim>\<open>url.Parse\<close> and \<^verbatim>\<open>ssh.ParseAuthorizedKey\<close> enter as their
  results; Ed25519 and \<^verbatim>\<open>encoding/json\<close> are parameters.
\<close>

subsection \<open>The address of the server\<close>

record url =
  url_Scheme :: string
  url_Host :: string
  url_Hostname :: string        \<comment> \<open>\<^verbatim>\<open>Hostname()\<close>: the host without port and brackets\<close>
  url_User :: bool
  url_Path :: string
  url_RawQuery :: string
  url_Fragment :: string

datatype client_err =
    ErrPlaintextTunnel | BadServerURL string | NoIdentity | BadMetadata | NotEd25519 | BadPublicKey

fun IsLoopback :: "Addr \<Rightarrow> bool" where
  "IsLoopback (Addr4 bs) = (hd bs = 127)"
| "IsLoopback (Addr6 gs z) = (if Is4In6 (Addr6 gs z) then hd (halves (drop 6 gs)) = 127
     else gs = [0, 0, 0, 0, 0, 0, 0, 1])"
| "IsLoopback NoAddr = False"

text \<open>\<^verbatim>\<open>net.ParseIP\<close> refuses zones.\<close>

definition literalLoopbackHost :: "string \<Rightarrow> bool" where
  "literalLoopbackHost host = (case ParseAddr host of
     None \<Rightarrow> False | Some a \<Rightarrow> Zone a = [] \<and> IsLoopback a)"

text \<open>The result of \<^verbatim>\<open>url.Parse\<close> and the mode; the returned address is the URL to be printed.\<close>

definition ResolveTunnelURL :: "url option \<Rightarrow> bool \<Rightarrow> client_err + url" where
  "ResolveTunnelURL parsed development = (case parsed of
     None \<Rightarrow> Inl (BadServerURL ''server URL must be absolute and contain no user info'')
   | Some u \<Rightarrow>
       if url_Host u = [] \<or> url_User u
       then Inl (BadServerURL ''server URL must be absolute and contain no user info'')
       else if url_RawQuery u \<noteq> [] \<or> url_Fragment u \<noteq> [] \<or> (url_Path u \<noteq> [] \<and> url_Path u \<noteq> ''/'')
       then Inl (BadServerURL ''server URL must not contain a path, query, or fragment'')
       else if url_Scheme u = ''https'' then Inr (u\<lparr>url_Scheme := ''wss'', url_Path := ''/api/v1/tunnel''\<rparr>)
       else if url_Scheme u = ''wss'' then Inr (u\<lparr>url_Path := ''/api/v1/tunnel''\<rparr>)
       else if url_Scheme u = ''http'' then
         (if \<not> development then Inl ErrPlaintextTunnel
          else if \<not> literalLoopbackHost (url_Hostname u) then Inl ErrPlaintextTunnel
          else Inr (u\<lparr>url_Scheme := ''ws'', url_Path := ''/api/v1/tunnel''\<rparr>))
       else if url_Scheme u = ''ws'' then
         (if \<not> development then Inl ErrPlaintextTunnel
          else if \<not> literalLoopbackHost (url_Hostname u) then Inl ErrPlaintextTunnel
          else Inr (u\<lparr>url_Path := ''/api/v1/tunnel''\<rparr>))
       else Inl (BadServerURL ''server URL must use https or wss''))"

subsection \<open>Construction\<close>

record Identity =
  idt_DeviceID :: string
  idt_PublicKey :: string

record ClientOptions =
  co_ServerURL :: "url option"
  co_DevMode :: bool
  co_Identity :: "Identity option"
  co_DeviceName :: string
  co_Platform :: string
  co_Arch :: string
  co_ClientVersion :: string
  co_StableOnline :: duration
  co_ConnectTimeout :: duration

record Client =
  cl_endpoint :: url
  cl_identity :: Identity
  cl_deviceName :: string
  cl_platform :: string
  cl_arch :: string
  cl_clientVersion :: string
  cl_stableOnline :: duration
  cl_connectTimeout :: duration

definition NewClient :: "ClientOptions \<Rightarrow> client_err + Client" where
  "NewClient opt = (case co_Identity opt of
     None \<Rightarrow> Inl NoIdentity
   | Some identity \<Rightarrow> (case ResolveTunnelURL (co_ServerURL opt) (co_DevMode opt) of
       Inl e \<Rightarrow> Inl e
     | Inr endpoint \<Rightarrow>
         if length (co_DeviceName opt) = 0 \<or> length (co_DeviceName opt) > 128 \<or>
            \<not> SupportedPlatform (co_Platform opt) \<or> length (co_Arch opt) = 0 \<or> length (co_Arch opt) > 64 \<or>
            length (co_ClientVersion opt) = 0 \<or> length (co_ClientVersion opt) > 64
         then Inl BadMetadata
         else Inr \<lparr>cl_endpoint = endpoint, cl_identity = identity, cl_deviceName = co_DeviceName opt,
           cl_platform = co_Platform opt, cl_arch = co_Arch opt, cl_clientVersion = co_ClientVersion opt,
           cl_stableOnline = (if co_StableOnline opt \<le> 0 then 30 * second else co_StableOnline opt),
           cl_connectTimeout = (if co_ConnectTimeout opt \<le> 0 then 10 * second else co_ConnectTimeout opt)\<rparr>))"

subsection \<open>One attempt: the handshake\<close>

datatype client_event =
    EvConnecting | EvOnline | EvRetrying duration | EvStopped
  | EvSession string string | EvPairing string time

record cworld =
  cw_ctl :: stream
  cw_io :: "bool list"
  cw_rand :: string
  cw_clock :: "time list"
  cw_events :: "client_event list"

type_synonym 'a cl = "(cworld, gw_err, 'a) em"

record client_params =
  cm_header :: "StreamHeader \<Rightarrow> string option"
  cm_message :: "Message \<Rightarrow> string option"
  cm_hello :: "ClientHello \<Rightarrow> string option"
  cm_proof :: "string \<Rightarrow> string option"
  cm_heartbeat :: "time \<Rightarrow> string option"
  cj_message :: "string \<Rightarrow> (Message \<times> string) option"
  cj_another :: "string \<Rightarrow> bool"
  cj_challenge :: "string \<Rightarrow> (string \<times> string) option"
  cj_authenticated :: "string \<Rightarrow> (ServerAuthenticated \<times> string) option"
  cj_offered :: "string \<Rightarrow> (Offer \<times> string) option"
  cj_ack :: "string \<Rightarrow> (time \<times> string) option"
  cx_sign :: "string \<Rightarrow> string option"
  cx_parse_key :: "string \<Rightarrow> (string \<times> string \<times> string) option"   \<comment> \<open>key, type and rest\<close>

definition c_codec :: "'a codec \<Rightarrow> 'a cl" where
  "c_codec m w = (case m (cw_ctl w) of (r, s) \<Rightarrow> (map_sum GwProto id r, w\<lparr>cw_ctl := s\<rparr>))"

definition c_id :: "(string, id_err, 'a) em \<Rightarrow> 'a cl" where
  "c_id m w = (case m (cw_rand w) of (r, s) \<Rightarrow> (map_sum GwRandom id r, w\<lparr>cw_rand := s\<rparr>))"

definition c_call :: "unit cl" where
  "c_call w = (case cw_io w of [] \<Rightarrow> (Inr (), w)
     | bad # rest \<Rightarrow> (if bad then Inl GwIO else Inr (), w\<lparr>cw_io := rest\<rparr>))"

definition c_now :: "time cl" where
  "c_now w = (case cw_clock w of [] \<Rightarrow> (Inr 0, w) | t # ts \<Rightarrow> (Inr t, w\<lparr>cw_clock := ts\<rparr>))"

definition c_event :: "client_event \<Rightarrow> unit cl" where
  "c_event e = emodify (\<lambda>w. w\<lparr>cw_events := cw_events w @ [e]\<rparr>)"

definition c_fail :: "string \<Rightarrow> 'a cl" where
  "c_fail msg = ethrow (GwOther msg)"

definition c_sum :: "'e + 'a \<Rightarrow> ('e \<Rightarrow> gw_err) \<Rightarrow> 'a cl" where
  "c_sum r f = (case r of Inl e \<Rightarrow> ethrow (f e) | Inr x \<Rightarrow> ereturn x)"

definition c_expect :: "client_params \<Rightarrow> string \<Rightarrow> Message cl" where
  "c_expect p expectedType =
     ebind (c_codec (ReadMessage (cj_message p) (cj_another p))) (\<lambda>message.
     if msg_type message \<noteq> expectedType then ethrow (GwProto ErrUnsupported) else ereturn message)"

definition parseConnectionPublicKey :: "client_params \<Rightarrow> string \<Rightarrow> client_err + string" where
  "parseConnectionPublicKey p encoded = (case cx_parse_key p (TrimSpace encoded) of
     None \<Rightarrow> Inl BadPublicKey
   | Some (publicKey, keyType, rest) \<Rightarrow>
       if length (TrimSpace rest) \<noteq> 0 then Inl BadPublicKey
       else if keyType \<noteq> ''ssh-ed25519'' then Inl NotEd25519 else Inr publicKey)"

definition clientHello :: "Client \<Rightarrow> ClientHello" where
  "clientHello c = \<lparr>ch_DeviceID = idt_DeviceID (cl_identity c),
     ch_DevicePublicKey = encode base64_alphabet 5 (idt_PublicKey (cl_identity c)), ch_DeviceName = cl_deviceName c,
     ch_Platform = cl_platform c, ch_Arch = cl_arch c, ch_ClientVersion = cl_clientVersion c\<rparr>"

text \<open>The device signs the server's challenge.\<close>

definition sendProof :: "client_params \<Rightarrow> string \<Rightarrow> string \<Rightarrow> string cl" where
  "sendProof p requestID signature =
     ethen (c_codec (WriteMessage (cm_proof p) (cm_message p) TypeDeviceProof requestID
       (encode base64_alphabet 5 signature)))
     (ereturn requestID)"

definition respondChallenge :: "client_params \<Rightarrow> Client \<Rightarrow> string \<Rightarrow> Message \<Rightarrow> string cl" where
  "respondChallenge p c requestID challengeMessage =
     (if msg_request_id challengeMessage \<noteq> requestID then c_fail ''challenge request id mismatch''
      else ebind (c_sum (DecodePayload (cj_challenge p) (cj_another p) challengeMessage) GwProto) (\<lambda>challenge.
      case rawurl_decode challenge of
        None \<Rightarrow> c_fail ''invalid server challenge''
      | Some nonce \<Rightarrow>
          if length nonce \<noteq> 32 then c_fail ''invalid server challenge''
          else (case cx_sign p (AuthenticationTranscript nonce (idt_PublicKey (cl_identity c))) of
              None \<Rightarrow> c_fail ''sign'' | Some signature \<Rightarrow> sendProof p requestID signature)))"

text \<open>The handshake up to the proof; the result is the request identifier of the exchange.\<close>

definition answerChallenge :: "client_params \<Rightarrow> Client \<Rightarrow> string cl" where
  "answerChallenge p c =
     ebind (c_id (New ''req'')) (\<lambda>requestID.
     ethen (c_codec (WriteHeader (cm_header p) \<lparr>sh_version = Version, sh_kind = StreamControl, sh_request_id = requestID\<rparr>))
     (ethen (c_codec (WriteMessage (cm_hello p) (cm_message p) TypeClientHello requestID (clientHello c)))
     (ebind (c_expect p TypeServerChallenge) (respondChallenge p c requestID))))"

text \<open>The session the server announced and its heartbeat interval.\<close>

definition awaitAuthenticated :: "client_params \<Rightarrow> string \<Rightarrow> (string \<times> string \<times> int) cl" where
  "awaitAuthenticated p requestID =
     ebind (c_expect p TypeServerAuthenticated) (\<lambda>authenticatedMessage.
     if msg_request_id authenticatedMessage \<noteq> requestID then c_fail ''authenticated request id mismatch''
     else ebind (c_sum (DecodePayload (cj_authenticated p) (cj_another p) authenticatedMessage) GwProto) (\<lambda>authenticated.
     case parseConnectionPublicKey p (sa_SSHClientPublicKey authenticated) of
       Inl _ \<Rightarrow> c_fail ''invalid authenticated response''
     | Inr clientKey \<Rightarrow>
         if length (sa_ConnectionID authenticated) < 6 \<or> sa_HeartbeatInterval authenticated \<le> 0 \<or>
            sa_HeartbeatInterval authenticated > 60000
         then c_fail ''invalid authenticated response''
         else ereturn (sa_ConnectionID authenticated, clientKey, sa_HeartbeatInterval authenticated)))"

subsection \<open>After authentication\<close>

text \<open>One control message in \<^verbatim>\<open>runAuthenticated\<close>.\<close>

definition handleControl :: "client_params \<Rightarrow> Message \<Rightarrow> unit cl" where
  "handleControl p message =
     (if msg_type message = TypePairingOffered then
        ebind (c_sum (DecodePayload (cj_offered p) (cj_another p) message) GwProto) (\<lambda>offer.
        if length (of_code offer) = 0 \<or> length (of_code offer) > 16 \<or> of_expires_at offer = zeroTime
        then c_fail ''invalid pairing offer''
        else c_event (EvPairing (of_code offer) (of_expires_at offer)))
      else if msg_type message = TypeHeartbeatAck then
        ebind (c_sum (DecodePayload (cj_ack p) (cj_another p) message) GwProto) (\<lambda>receivedAt.
        if receivedAt = zeroTime then c_fail ''invalid heartbeat acknowledgement'' else ereturn ())
      else ethrow (GwProto ErrUnsupported))"

text \<open>One tick of \<^verbatim>\<open>sendHeartbeats\<close>.\<close>

definition sendHeartbeat :: "client_params \<Rightarrow> time \<Rightarrow> unit cl" where
  "sendHeartbeat p sentAt =
     ebind (c_id (New ''req'')) (\<lambda>requestID.
     ethen c_call
     (c_codec (WriteMessage (cm_heartbeat p) (cm_message p) TypeDeviceHeartbeat requestID sentAt)))"

text \<open>\<^verbatim>\<open>sendHeartbeats\<close> over the ticks before \<^verbatim>\<open>done\<close>; its error is what \<^verbatim>\<open>errorsOut\<close> gets.\<close>

fun sendHeartbeats :: "client_params \<Rightarrow> time list \<Rightarrow> unit cl" where
  "sendHeartbeats p [] = ereturn ()"
| "sendHeartbeats p (sentAt # ticks) = ethen (sendHeartbeat p sentAt) (sendHeartbeats p ticks)"

text \<open>
  \<^verbatim>\<open>readStreamHeader\<close> reads one frame from the stream itself and decodes it with a codec of its own,
  which sees that frame and nothing else.
\<close>

definition readStreamHeader ::
  "(string \<Rightarrow> (StreamHeader \<times> string) option) \<Rightarrow> (string \<Rightarrow> bool) \<Rightarrow> StreamHeader codec" where
  "readStreamHeader decode another =
     ebind (read_full 4) (\<lambda>length_prefix.
     let size = Uint32 length_prefix in
     if size = 0 then ethrow ErrMalformedFrame
     else if size > MaxControlFrameBytes then ethrow ErrFrameTooLarge
     else ebind (read_full size) (\<lambda>rest.
       (\<lambda>s. (fst (ReadHeader decode another \<lparr>rd = length_prefix @ rest, wr = [], accepts = []\<rparr>), s))))"

text \<open>
  \<^verbatim>\<open>acceptStreams\<close> over the streams the server opens, until \<^verbatim>\<open>AcceptStream\<close> fails at the end of the
  list.  The result lists the streams given to the handler, each as the handler finds it, and the
  error.
\<close>

record in_stream =
  is_stream :: stream
  is_deadlineErr :: bool
  is_clearErr :: bool

fun acceptStreams ::
  "(string \<Rightarrow> (StreamHeader \<times> string) option) \<Rightarrow> (string \<Rightarrow> bool) \<Rightarrow> bool \<Rightarrow> in_stream list \<Rightarrow> (StreamHeader \<times> stream) list \<times> gw_err" where
  "acceptStreams decode another streamHandler [] = ([], GwIO)"
| "acceptStreams decode another streamHandler (i # rest) =
     (if is_deadlineErr i then ([], GwIO)
      else case readStreamHeader decode another (is_stream i) of
        (Inl err, _) \<Rightarrow> ([], GwProto err)
      | (Inr header, stream) \<Rightarrow>
          if sh_kind header \<noteq> StreamSSH then ([], GwProto ErrUnsupported)
          else if is_clearErr i then ([], GwIO)
          else if \<not> streamHandler then acceptStreams decode another streamHandler rest
          else (case acceptStreams decode another streamHandler rest of (hs, err) \<Rightarrow> ((header, stream) # hs, err)))"

text \<open>A handler only gets streams the server marked as SSH, at the byte after their header.\<close>

lemma accepted_are_ssh:
  "(header, s) \<in> set (fst (acceptStreams decode another streamHandler is)) \<Longrightarrow>
    sh_kind header = StreamSSH \<and> (\<exists>i \<in> set is. readStreamHeader decode another (is_stream i) = (Inr header, s))"
  by (induction "is") (auto split: if_splits prod.splits sum.splits)

subsection \<open>Reconnecting\<close>

definition reconnectDelay :: "int \<Rightarrow> duration" where
  "reconnectDelay index =
     [second, 2 * second, 4 * second, 8 * second, 15 * second] ! nat (min 4 (max 0 index))"

text \<open>\<^verbatim>\<open>None\<close> when no random byte could be read; int64 arithmetic, division towards zero.\<close>

definition jitterDuration :: "nat option \<Rightarrow> duration \<Rightarrow> duration" where
  "jitterDuration randomByte base = (case randomByte of
     None \<Rightarrow> base
   | Some b \<Rightarrow> base * (800 + int b * 400 div 255) div 1000)"

text \<open>
  What \<^verbatim>\<open>Run\<close> sees of one attempt: how long the tunnel was online, whether the context is done
  after it, the random byte of the jitter and whether the context ends the wait.
\<close>

record attempt =
  at_onlineFor :: duration
  at_canceled :: bool
  at_random :: "nat option"
  at_stopped :: bool

fun Run :: "duration \<Rightarrow> int \<Rightarrow> attempt list \<Rightarrow> client_event list" where
  "Run stableOnline backoffIndex [] = [EvConnecting]"
| "Run stableOnline backoffIndex (a # rest) = EvConnecting #
     (if at_canceled a then [EvStopped]
      else let index = (if at_onlineFor a \<ge> stableOnline then 0 else backoffIndex);
               delay = jitterDuration (at_random a) (reconnectDelay index);
               next_index = (if index < 4 then index + 1 else index)
           in EvRetrying delay # (if at_stopped a then [EvStopped] else Run stableOnline next_index rest))"

subsection \<open>The whole attempt\<close>

datatype select_event =
    SelDone ctx_err | SelHeartbeatError gw_err | SelAcceptError gw_err | SelControlError gw_err | SelMessage Message

text \<open>The loop of \<^verbatim>\<open>runAuthenticated\<close> over what its \<^verbatim>\<open>select\<close> receives.\<close>

fun runAuthenticated :: "client_params \<Rightarrow> select_event list \<Rightarrow> unit cl" where
  "runAuthenticated p [] = ereturn ()"
| "runAuthenticated p (SelDone e # evs) = ethrow (GwCtx e)"
| "runAuthenticated p (SelHeartbeatError e # evs) = ethrow e"
| "runAuthenticated p (SelAcceptError e # evs) = ethrow e"
| "runAuthenticated p (SelControlError e # evs) = ethrow e"
| "runAuthenticated p (SelMessage m # evs) = ethen (handleControl p m) (runAuthenticated p evs)"

text \<open>\<^verbatim>\<open>runOnce\<close>: dialing, yamux, the handshake and the session; the time online and the error that ended it.\<close>

definition runOnce :: "client_params \<Rightarrow> Client \<Rightarrow> select_event list \<Rightarrow> (duration \<times> gw_err option) cl" where
  "runOnce p c evs =
     ebind (etry (
       ethen c_call (ethen c_call (ethen c_call (ethen c_now (ethen c_call
       (ebind (answerChallenge p c) (\<lambda>requestID.
        ebind (awaitAuthenticated p requestID) (\<lambda>(connectionID, clientKey, interval).
        ebind c_now (\<lambda>onlineAt.
        ethen c_call
        (ethen (c_event (EvSession connectionID clientKey))
        (ethen (c_event EvOnline) (ereturn onlineAt))))))))))))) (\<lambda>result.
     case result of
       Inl err \<Rightarrow> ereturn (0, Some err)
     | Inr onlineAt \<Rightarrow> ebind (etry (runAuthenticated p evs)) (\<lambda>ended. ebind c_now (\<lambda>now.
         ereturn (Sub now onlineAt, case ended of Inl err \<Rightarrow> Some err | Inr _ \<Rightarrow> None))))"

subsection \<open>Frames between the two sides\<close>

definition sent_message :: "('p \<Rightarrow> string option) \<Rightarrow> (Message \<Rightarrow> string option) \<Rightarrow> string \<Rightarrow> string \<Rightarrow> 'p \<Rightarrow> string \<Rightarrow> bool" where
  "sent_message mp m ty rid v f \<longleftrightarrow> KnownMessageType ty \<and> ValidateRequestID rid = Inr () \<and> (\<exists>pl e. mp v = Some pl \<and>
     m \<lparr>msg_version = Version, msg_type = ty, msg_request_id = rid, msg_payload = pl\<rparr> = Some e \<and>
     e \<noteq> [] \<and> length e \<le> MaxControlFrameBytes \<and> f = frame e)"

lemma write_sends:
  assumes "WriteMessage mp m ty rid v s = (Inr x, t)"
  shows "\<exists>f. sent_message mp m ty rid v f \<and> wr t = wr s @ f \<and> rd t = rd s"
proof -
  obtain pl where k: "KnownMessageType ty" "ValidateRequestID rid = Inr ()" "mp v = Some pl"
    and w: "writeJSON m \<lparr>msg_version = Version, msg_type = ty, msg_request_id = rid, msg_payload = pl\<rparr> s = (Inr x, t)"
    using assms by (rule write_message_success)
  obtain e where "m \<lparr>msg_version = Version, msg_type = ty, msg_request_id = rid, msg_payload = pl\<rparr> = Some e"
    "e \<noteq> []" "length e \<le> MaxControlFrameBytes" "wr t = wr s @ frame e" "rd t = rd s"
    using w by (rule writeJSON_success)
  with k show ?thesis unfolding sent_message_def by blast
qed

lemma read_sent:
  assumes "sent_message mp m ty rid v f" and "\<And>v e. m v = Some e \<Longrightarrow> decode e = Some (v, [])"
    and "\<And>pl. mp v = Some pl \<Longrightarrow> pl \<noteq> [] \<and> pl \<noteq> ''null''" and "rd s = f @ rest"
  shows "\<exists>pl. mp v = Some pl \<and> ReadMessage decode another s =
    (Inr \<lparr>msg_version = Version, msg_type = ty, msg_request_id = rid, msg_payload = pl\<rparr>, s\<lparr>rd := rest\<rparr>)"
proof -
  obtain pl e where k: "KnownMessageType ty" "ValidateRequestID rid = Inr ()" "mp v = Some pl"
    and e: "m \<lparr>msg_version = Version, msg_type = ty, msg_request_id = rid, msg_payload = pl\<rparr> = Some e" "e \<noteq> []"
      "length e \<le> MaxControlFrameBytes" "f = frame e"
    using assms(1) unfolding sent_message_def by blast
  have "readJSON decode another s =
      (Inr \<lparr>msg_version = Version, msg_type = ty, msg_request_id = rid, msg_payload = pl\<rparr>, s\<lparr>rd := rest\<rparr>)"
    using e(4) assms(4) by (intro readJSON_frame [where decode = decode, OF e(2,3) assms(2) [OF e(1)]]) simp
  then show ?thesis using k assms(3) [OF k(3)] by (simp add: ReadMessage_def ebind_def lift_result_def ereturn_def)
qed

lemma able_sends:
  assumes "sent_message mp m ty rid v f" and "able s"
  shows "\<exists>t. WriteMessage mp m ty rid v s = (Inr (), t) \<and> wr t = wr s @ f \<and> rd t = rd s"
proof -
  obtain pl e where k: "KnownMessageType ty" "ValidateRequestID rid = Inr ()" "mp v = Some pl"
    and e: "m \<lparr>msg_version = Version, msg_type = ty, msg_request_id = rid, msg_payload = pl\<rparr> = Some e" "e \<noteq> []"
      "length e \<le> MaxControlFrameBytes" "f = frame e"
    using assms(1) unfolding sent_message_def by blast
  obtain t where t: "writeJSON m \<lparr>msg_version = Version, msg_type = ty, msg_request_id = rid, msg_payload = pl\<rparr> s = (Inr (), t)"
    using writeJSON_able [where marshal = m, OF e(1-3) assms(2)] by blast
  then have "wr t = wr s @ f" "rd t = rd s" using e by (auto elim!: writeJSON_success)
  moreover have "WriteMessage mp m ty rid v s = (Inr (), t)"
    using k t by (simp add: WriteMessage_def ebind_def lift_result_def ereturn_def)
  ultimately show ?thesis by blast
qed

lemma base64_alphabet_facts:
  "distinct base64_alphabet" "length base64_alphabet = 64" "list_all (\<lambda>c. \<not> line_end c) base64_alphabet"
  by code_simp+

lemma rawurl_round_trip: "rawurl_decode (encode base64_alphabet 5 s) = Some s"
proof -
  let ?e = "encode base64_alphabet 5 s"
  have chars: "set ?e \<subseteq> set base64_alphabet" by (rule encode_chars) (simp add: base64_alphabet_facts)
  then have f: "filter (Not \<circ> line_end) ?e = ?e"
    using base64_alphabet_facts(3) by (intro filter_True) (auto simp: list_all_iff)
  have "map sextet ?e = groups 5 (bits s)"
    unfolding encode_def map_map
  proof (rule map_idI)
    fix g assume g: "g \<in> set (groups 5 (bits s))"
    have l: "length g = 6" using length_groups [OF g] by simp
    then have "bits_nat g < length base64_alphabet" using bits_nat_bound [of g] by (simp add: base64_alphabet_facts)
    then show "(sextet \<circ> (\<lambda>g. base64_alphabet ! bits_nat g)) g = g"
      using index_of_nth [OF base64_alphabet_facts(1)] nat_bits_bits_nat [of g] l by (simp add: sextet_def)
  qed
  moreover obtain r where r: "r \<le> 5" "concat (groups 5 (bits s)) = bits s @ replicate r False"
    using groups_concat by blast
  moreover from r(1) have "(8 * length s + r) div 8 * 8 = 8 * length s" by simp
  moreover have "length ?e mod 4 \<noteq> 1"
    by (simp add: encode_def length_groups_count) presburger
  moreover have "list_all rawurl_char ?e" using chars by (auto simp: list_all_iff rawurl_char_def)
  ultimately show ?thesis by (simp add: rawurl_decode_def f Let_def bits_bytes_bits)
qed

subsection \<open>The two sides agree\<close>

lemma c_codec_InrE:
  assumes "c_codec m w = (Inr x, w')"
  obtains t where "m (cw_ctl w) = (Inr x, t)" and "w' = w\<lparr>cw_ctl := t\<rparr>"
  using assms by (cases "m (cw_ctl w)"; cases "fst (m (cw_ctl w))") (auto simp: c_codec_def)

lemma c_id_ctl: "c_id m w = (r, w') \<Longrightarrow> cw_ctl w' = cw_ctl w"
  by (auto simp: c_id_def split: prod.splits)

lemma c_sum_Inr: "c_sum r f w = (Inr x, w') \<longleftrightarrow> r = Inr x \<and> w' = w"
  by (auto simp: c_sum_def em_simps split: sum.split)

lemma c_fail_Inr [simp]: "c_fail msg w \<noteq> (Inr x, w')"
  by (simp add: c_fail_def em_simps)

lemma g_codec_Inr: "m (g_ctl w) = (Inr x, t) \<Longrightarrow> g_codec m w = (Inr x, w\<lparr>g_ctl := t\<rparr>)"
  by (simp add: g_codec_def)

definition sent_header :: "(StreamHeader \<Rightarrow> string option) \<Rightarrow> string \<Rightarrow> string \<Rightarrow> bool" where
  "sent_header m rid f \<longleftrightarrow> ValidateRequestID rid = Inr () \<and> (\<exists>e.
     m \<lparr>sh_version = Version, sh_kind = StreamControl, sh_request_id = rid\<rparr> = Some e \<and>
     e \<noteq> [] \<and> length e \<le> MaxControlFrameBytes \<and> f = frame e)"

lemma write_header_sends:
  assumes "WriteHeader m \<lparr>sh_version = Version, sh_kind = StreamControl, sh_request_id = rid\<rparr> s = (Inr x, t)"
  shows "\<exists>f. sent_header m rid f \<and> wr t = wr s @ f \<and> rd t = rd s"
proof -
  have v: "ValidateRequestID rid = Inr ()"
    and w: "writeJSON m \<lparr>sh_version = Version, sh_kind = StreamControl, sh_request_id = rid\<rparr> s = (Inr x, t)"
    using assms by (auto simp: WriteHeader_def header_ok_def lift_Inr elim!: ebind_InrE)
  obtain e where "m \<lparr>sh_version = Version, sh_kind = StreamControl, sh_request_id = rid\<rparr> = Some e"
    "e \<noteq> []" "length e \<le> MaxControlFrameBytes" "wr t = wr s @ frame e" "rd t = rd s"
    using w by (rule writeJSON_success)
  with v show ?thesis unfolding sent_header_def by blast
qed

lemma read_sent_header:
  assumes "sent_header m rid f" and "\<And>v e. m v = Some e \<Longrightarrow> decode e = Some (v, [])" and "rd s = f @ rest"
  shows "ReadHeader decode another s =
    (Inr \<lparr>sh_version = Version, sh_kind = StreamControl, sh_request_id = rid\<rparr>, s\<lparr>rd := rest\<rparr>)"
proof -
  obtain e where v: "ValidateRequestID rid = Inr ()" and e: "m \<lparr>sh_version = Version, sh_kind = StreamControl,
      sh_request_id = rid\<rparr> = Some e" "e \<noteq> []" "length e \<le> MaxControlFrameBytes" "f = frame e"
    using assms(1) unfolding sent_header_def by blast
  have "readJSON decode another s =
      (Inr \<lparr>sh_version = Version, sh_kind = StreamControl, sh_request_id = rid\<rparr>, s\<lparr>rd := rest\<rparr>)"
    using e(4) assms(3) by (intro readJSON_frame [where decode = decode, OF e(2,3) assms(2) [OF e(1)]]) simp
  then show ?thesis using v by (simp add: ReadHeader_def ebind_def lift_result_def ereturn_def header_ok_def)
qed

text \<open>
  What the two programs rely on: each side's JSON decoder gives back what the other side's encoder was
  given, payloads are not empty or null, and a signature the device makes verifies under its key.
\<close>

definition linked :: "gateway_params \<Rightarrow> client_params \<Rightarrow> Client \<Rightarrow> bool" where
  "linked k p c \<longleftrightarrow>
     (\<forall>v e. cm_header p v = Some e \<longrightarrow> j_header k e = Some (v, [])) \<and>
     (\<forall>v e. cm_message p v = Some e \<longrightarrow> j_message k e = Some (v, [])) \<and>
     (\<forall>v e. cm_hello p v = Some e \<longrightarrow> j_hello k e = Some (v, []) \<and> e \<noteq> [] \<and> e \<noteq> ''null'') \<and>
     (\<forall>v e. cm_proof p v = Some e \<longrightarrow> j_proof k e = Some (v, []) \<and> e \<noteq> [] \<and> e \<noteq> ''null'') \<and>
     (\<forall>v e. m_message k v = Some e \<longrightarrow> cj_message p e = Some (v, [])) \<and>
     (\<forall>v e. m_challenge k v = Some e \<longrightarrow> cj_challenge p e = Some (v, []) \<and> e \<noteq> [] \<and> e \<noteq> ''null'') \<and>
     (\<forall>m s. cx_sign p m = Some s \<longrightarrow> length s = 64 \<and> x_verify k (idt_PublicKey (cl_identity c)) m s)"

lemma DecodePayload_plain: "decode (msg_payload m) = Some (v, []) \<Longrightarrow> DecodePayload decode another m = Inr v"
  by (simp add: DecodePayload_def ensureJSONEOF_def)

lemma respond_sends:
  assumes "respondChallenge p c r m w = (Inr rid, w')"
    and "cj_challenge p (msg_payload m) = Some (encode base64_alphabet 5 nonce, [])"
  shows "rid = r \<and> msg_request_id m = r \<and> (\<exists>sig fp.
    cx_sign p (AuthenticationTranscript nonce (idt_PublicKey (cl_identity c))) = Some sig \<and>
    sent_message (cm_proof p) (cm_message p) TypeDeviceProof r (encode base64_alphabet 5 sig) fp \<and>
    wr (cw_ctl w') = wr (cw_ctl w) @ fp)"
proof -
  let ?sign = "cx_sign p (AuthenticationTranscript nonce (idt_PublicKey (cl_identity c)))"
  have d: "DecodePayload (cj_challenge p) (cj_another p) m = Inr (encode base64_alphabet 5 nonce)"
    using assms(2) by (rule DecodePayload_plain)
  obtain sig where m: "msg_request_id m = r" and sig: "?sign = Some sig" and s: "sendProof p r sig w = (Inr rid, w')"
    using assms(1) by (auto simp: respondChallenge_def c_sum_def d rawurl_round_trip split: if_splits option.splits)
  obtain x w1 where 1: "c_codec (WriteMessage (cm_proof p) (cm_message p) TypeDeviceProof r
      (encode base64_alphabet 5 sig)) w = (Inr x, w1)" and 2: "(ereturn r :: string cl) w1 = (Inr rid, w')"
    using s unfolding sendProof_def by (rule ebind_InrE)
  obtain t where t: "WriteMessage (cm_proof p) (cm_message p) TypeDeviceProof r (encode base64_alphabet 5 sig) (cw_ctl w)
      = (Inr x, t)" "w1 = w\<lparr>cw_ctl := t\<rparr>" using 1 by (rule c_codec_InrE)
  obtain fp where "sent_message (cm_proof p) (cm_message p) TypeDeviceProof r (encode base64_alphabet 5 sig) fp"
    "wr t = wr (cw_ctl w) @ fp" using write_sends [OF t(1)] by blast
  moreover have "rid = r" "w' = w1" using 2 by (simp_all add: ereturn_def)
  ultimately show ?thesis using m sig t(2) by auto
qed

text \<open>What the client has sent once it has answered the server's challenge.\<close>

lemma client_sends:
  assumes run: "answerChallenge p c w = (Inr rid, w')" and l: "linked k p c"
    and fc: "sent_message (m_challenge k) (m_message k) TypeServerChallenge rid (encode base64_alphabet 5 nonce) fc"
    and rd: "rd (cw_ctl w) = fc @ rest"
  shows "\<exists>fh fm sig fp. sent_header (cm_header p) rid fh \<and>
    sent_message (cm_hello p) (cm_message p) TypeClientHello rid (clientHello c) fm \<and>
    cx_sign p (AuthenticationTranscript nonce (idt_PublicKey (cl_identity c))) = Some sig \<and>
    sent_message (cm_proof p) (cm_message p) TypeDeviceProof rid (encode base64_alphabet 5 sig) fp \<and>
    wr (cw_ctl w') = wr (cw_ctl w) @ fh @ fm @ fp"
proof -
  let ?header = "\<lambda>r. c_codec (WriteHeader (cm_header p) \<lparr>sh_version = Version, sh_kind = StreamControl, sh_request_id = r\<rparr>)"
  let ?hello = "\<lambda>r. c_codec (WriteMessage (cm_hello p) (cm_message p) TypeClientHello r (clientHello c))"
  let ?expect = "c_expect p TypeServerChallenge"
  obtain r w1 where 1: "c_id (New ''req'') w = (Inr r, w1)"
    and k1: "ethen (?header r) (ethen (?hello r) (ebind ?expect (respondChallenge p c r))) w1 = (Inr rid, w')"
    using run unfolding answerChallenge_def by (rule ebind_InrE)
  obtain x2 w2 where 2: "?header r w1 = (Inr x2, w2)"
    and k2: "ethen (?hello r) (ebind ?expect (respondChallenge p c r)) w2 = (Inr rid, w')" using k1 by (rule ebind_InrE)
  obtain x3 w3 where 3: "?hello r w2 = (Inr x3, w3)"
    and k3: "ebind ?expect (respondChallenge p c r) w3 = (Inr rid, w')" using k2 by (rule ebind_InrE)
  obtain m w4 where 4: "?expect w3 = (Inr m, w4)" and k4: "respondChallenge p c r m w4 = (Inr rid, w')"
    using k3 by (rule ebind_InrE)
  obtain t2 where t2: "WriteHeader (cm_header p) \<lparr>sh_version = Version, sh_kind = StreamControl, sh_request_id = r\<rparr>
      (cw_ctl w1) = (Inr x2, t2)" "w2 = w1\<lparr>cw_ctl := t2\<rparr>" using 2 by (rule c_codec_InrE)
  obtain t3 where t3: "WriteMessage (cm_hello p) (cm_message p) TypeClientHello r (clientHello c) (cw_ctl w2) = (Inr x3, t3)"
      "w3 = w2\<lparr>cw_ctl := t3\<rparr>" using 3 by (rule c_codec_InrE)
  obtain fh where fh: "sent_header (cm_header p) r fh" "wr t2 = wr (cw_ctl w1) @ fh" "rd t2 = rd (cw_ctl w1)"
    using write_header_sends [OF t2(1)] by blast
  obtain fm where fm: "sent_message (cm_hello p) (cm_message p) TypeClientHello r (clientHello c) fm"
    "wr t3 = wr (cw_ctl w2) @ fm" "rd t3 = rd (cw_ctl w2)" using write_sends [OF t3(1)] by blast
  have rd3: "rd (cw_ctl w3) = fc @ rest" using rd c_id_ctl [OF 1] t2(2) t3(2) fh(3) fm(3) by simp
  obtain pl where pl: "m_challenge k (encode base64_alphabet 5 nonce) = Some pl"
    and rm: "ReadMessage (cj_message p) (cj_another p) (cw_ctl w3) =
      (Inr \<lparr>msg_version = Version, msg_type = TypeServerChallenge, msg_request_id = rid, msg_payload = pl\<rparr>,
       (cw_ctl w3)\<lparr>rd := rest\<rparr>)"
    using read_sent [OF fc, where decode = "cj_message p" and another = "cj_another p" and s = "cw_ctl w3" and rest = rest]
      l rd3 unfolding linked_def by blast
  have m: "m = \<lparr>msg_version = Version, msg_type = TypeServerChallenge, msg_request_id = rid, msg_payload = pl\<rparr>"
    and w4: "wr (cw_ctl w4) = wr (cw_ctl w3)"
    using 4 by (auto simp: c_expect_def ebind_def c_codec_def rm ereturn_def)
  have "cj_challenge p (msg_payload m) = Some (encode base64_alphabet 5 nonce, [])"
    using l pl unfolding linked_def m by simp
  from respond_sends [OF k4 this] show ?thesis
    using fh(1,2) fm(1,2) w4 c_id_ctl [OF 1] t2(2) t3(2) by auto
qed

lemma device_id_plain:
  assumes "Device_id sha key = Inr did"
  shows "length did \<le> 128 \<and> CHR 0x00 \<notin> set did \<and> length key = 32"
proof -
  have d: "did = ''dev_'' @ take 32 (base32_lower (sha key))" and l: "length key = 32"
    using assms by (auto simp: Device_id_def Let_def split: if_splits)
  have "CHR 0x00 \<notin> set lower_alphabet" by code_simp
  then have "CHR 0x00 \<notin> set (base32_lower (sha key))" using base32_lower_chars by blast
  then show ?thesis using l by (auto simp: d dest: in_set_takeD)
qed

text \<open>A client \<^verbatim>\<open>NewClient\<close> made for its own identity, whose metadata has no NUL byte.\<close>

definition honest :: "gateway_params \<Rightarrow> ClientOptions \<Rightarrow> Client \<Rightarrow> bool" where
  "honest k opt c \<longleftrightarrow> NewClient opt = Inr c \<and>
     Device_id (x_sha256 k) (idt_PublicKey (cl_identity c)) = Inr (idt_DeviceID (cl_identity c)) \<and>
     list_all (\<lambda>v. CHR 0x00 \<notin> set v) [cl_deviceName c, cl_arch c, cl_clientVersion c]"

lemma NewClient_metadata:
  assumes "NewClient opt = Inr c"
  shows "length (cl_deviceName c) \<noteq> 0 \<and> length (cl_deviceName c) \<le> 128 \<and> SupportedPlatform (cl_platform c) \<and>
    length (cl_arch c) \<noteq> 0 \<and> length (cl_arch c) \<le> 64 \<and> length (cl_clientVersion c) \<noteq> 0 \<and> length (cl_clientVersion c) \<le> 64"
  using assms by (auto simp: NewClient_def split: option.splits sum.splits if_splits)

lemma hello_valid:
  assumes "honest k opt c"
  shows "validateHello (x_sha256 k) (clientHello c) = Inr (idt_PublicKey (cl_identity c))"
proof -
  have d: "Device_id (x_sha256 k) (idt_PublicKey (cl_identity c)) = Inr (idt_DeviceID (cl_identity c))"
    using assms by (simp add: honest_def)
  have m: "length (cl_deviceName c) \<noteq> 0 \<and> length (cl_deviceName c) \<le> 128 \<and> SupportedPlatform (cl_platform c) \<and>
    length (cl_arch c) \<noteq> 0 \<and> length (cl_arch c) \<le> 64 \<and> length (cl_clientVersion c) \<noteq> 0 \<and> length (cl_clientVersion c) \<le> 64"
    using assms by (intro NewClient_metadata [of opt]) (simp add: honest_def)
  then have "CHR 0x00 \<notin> set (cl_platform c)"
    by (auto simp: SupportedPlatform_def PlatformLinux_def PlatformWindows_def)
  then show ?thesis
    using m d device_id_plain [OF d] assms
    by (simp add: validateHello_def clientHello_def rawurl_round_trip honest_def)
qed

lemma g_expect_sent:
  assumes "sent_message mp m ty rid v f" and "\<And>v e. m v = Some e \<Longrightarrow> j_message k e = Some (v, [])"
    and "\<And>pl. mp v = Some pl \<Longrightarrow> pl \<noteq> [] \<and> pl \<noteq> ''null''" and "rd (g_ctl w) = f @ rest"
  shows "\<exists>pl. mp v = Some pl \<and> expectMessage k ty w =
    (Inr \<lparr>msg_version = Version, msg_type = ty, msg_request_id = rid, msg_payload = pl\<rparr>,
     w\<lparr>g_ctl := (g_ctl w)\<lparr>rd := rest\<rparr>\<rparr>)"
proof -
  obtain pl where pl: "mp v = Some pl" and r: "ReadMessage (j_message k) (j_another k) (g_ctl w) =
      (Inr \<lparr>msg_version = Version, msg_type = ty, msg_request_id = rid, msg_payload = pl\<rparr>, (g_ctl w)\<lparr>rd := rest\<rparr>)"
    using read_sent [OF assms(1), where decode = "j_message k" and another = "j_another k", OF assms(2,3,4)] by blast
  show ?thesis using pl g_codec_Inr [where m = "ReadMessage (j_message k) (j_another k)", OF r] by (simp add: expectMessage_def ebind_def ereturn_def)
qed

lemma server_reads_hello:
  assumes "linked k p c" and "honest k opt c" and "sent_header (cm_header p) rid fh"
    and "sent_message (cm_hello p) (cm_message p) TypeClientHello rid (clientHello c) fm"
    and "rd (g_ctl w) = fh @ fm @ rest"
  shows "readHello k w = (Inr (rid, clientHello c, idt_PublicKey (cl_identity c)), w\<lparr>g_ctl := (g_ctl w)\<lparr>rd := rest\<rparr>\<rparr>)"
proof -
  let ?w1 = "w\<lparr>g_ctl := (g_ctl w)\<lparr>rd := fm @ rest\<rparr>\<rparr>"
  have l: "\<And>v e. cm_header p v = Some e \<Longrightarrow> j_header k e = Some (v, [])"
    "\<And>v e. cm_message p v = Some e \<Longrightarrow> j_message k e = Some (v, [])"
    "\<And>v e. cm_hello p v = Some e \<Longrightarrow> j_hello k e = Some (v, []) \<and> e \<noteq> [] \<and> e \<noteq> ''null''"
    using assms(1) unfolding linked_def by blast+
  have h: "g_codec (ReadHeader (j_header k) (j_another k)) w =
      (Inr \<lparr>sh_version = Version, sh_kind = StreamControl, sh_request_id = rid\<rparr>, ?w1)"
    using read_sent_header [OF assms(3), where decode = "j_header k", OF l(1) assms(5)] by (rule g_codec_Inr)
  obtain pl where pl: "cm_hello p (clientHello c) = Some pl" and m: "expectMessage k TypeClientHello ?w1 =
      (Inr \<lparr>msg_version = Version, msg_type = TypeClientHello, msg_request_id = rid, msg_payload = pl\<rparr>,
       w\<lparr>g_ctl := (g_ctl w)\<lparr>rd := rest\<rparr>\<rparr>)"
    using g_expect_sent [OF assms(4), where k = k and w = ?w1 and rest = rest] l(2,3) by auto
  have "DecodePayload (j_hello k) (j_another k) \<lparr>msg_version = Version, msg_type = TypeClientHello,
      msg_request_id = rid, msg_payload = pl\<rparr> = Inr (clientHello c)"
    using l(3) [OF pl] by (simp add: DecodePayload_plain)
  then show ?thesis
    using h m hello_valid [OF assms(2)] by (simp add: readHello_def ebind_def g_sum_def ereturn_def StreamControl_def)
qed

lemma server_accepts_proof:
  assumes "linked k p c" and "sent_message (m_challenge k) (m_message k) TypeServerChallenge rid
      (encode base64_alphabet 5 nonce) fc" and "able (g_ctl w)"
    and "cx_sign p (AuthenticationTranscript nonce (idt_PublicKey (cl_identity c))) = Some sig"
    and "sent_message (cm_proof p) (cm_message p) TypeDeviceProof rid (encode base64_alphabet 5 sig) fp"
    and "rd (g_ctl w) = fp @ rest"
  shows "\<exists>w'. proveDevice k rid hello (idt_PublicKey (cl_identity c)) nonce w =
      (Inr (hello, idt_PublicKey (cl_identity c), rid), w') \<and> wr (g_ctl w') = wr (g_ctl w) @ fc \<and> rd (g_ctl w') = rest"
proof -
  obtain t where t: "WriteMessage (m_challenge k) (m_message k) TypeServerChallenge rid (encode base64_alphabet 5 nonce)
      (g_ctl w) = (Inr (), t)" "wr t = wr (g_ctl w) @ fc" "rd t = rd (g_ctl w)"
    using able_sends [OF assms(2,3)] by blast
  let ?w1 = "w\<lparr>g_ctl := t\<rparr>"
  have l: "\<And>v e. cm_message p v = Some e \<Longrightarrow> j_message k e = Some (v, [])"
    "\<And>v e. cm_proof p v = Some e \<Longrightarrow> j_proof k e = Some (v, []) \<and> e \<noteq> [] \<and> e \<noteq> ''null''"
    "length sig = 64" "x_verify k (idt_PublicKey (cl_identity c)) (AuthenticationTranscript nonce (idt_PublicKey (cl_identity c))) sig"
    using assms(1,4) unfolding linked_def by blast+
  obtain pl where pl: "cm_proof p (encode base64_alphabet 5 sig) = Some pl" and m: "expectMessage k TypeDeviceProof ?w1 =
      (Inr \<lparr>msg_version = Version, msg_type = TypeDeviceProof, msg_request_id = rid, msg_payload = pl\<rparr>,
       ?w1\<lparr>g_ctl := t\<lparr>rd := rest\<rparr>\<rparr>)"
    using g_expect_sent [OF assms(5), where k = k and w = ?w1 and rest = rest] l(1,2) assms(6) t(3) by auto
  have d: "DecodePayload (j_proof k) (j_another k) \<lparr>msg_version = Version, msg_type = TypeDeviceProof,
      msg_request_id = rid, msg_payload = pl\<rparr> = Inr (encode base64_alphabet 5 sig)"
    using l(2) [OF pl] by (simp add: DecodePayload_plain)
  have "g_codec (WriteMessage (m_challenge k) (m_message k) TypeServerChallenge rid (encode base64_alphabet 5 nonce)) w
      = (Inr (), ?w1)" using t(1) by (rule g_codec_Inr)
  then show ?thesis
    using m d t(2) l(3,4) by (simp add: proveDevice_def ebind_def g_sum_def ereturn_def rawurl_round_trip)
qed

subsection \<open>Properties\<close>


text \<open>A concrete pair of peers; every encoder knows the values of this exchange.\<close>

definition tx_rid :: string where
  "tx_rid = ''req_'' @ replicate 26 (CHR ''a'')"

definition tx_key :: string where
  "tx_key = replicate 32 (CHR 0x00)"

definition tx_options :: ClientOptions where
  "tx_options = \<lparr>co_ServerURL = Some \<lparr>url_Scheme = ''https'', url_Host = ''h'', url_Hostname = ''h'', url_User = False,
     url_Path = [], url_RawQuery = [], url_Fragment = []\<rparr>, co_DevMode = False,
     co_Identity = Some \<lparr>idt_DeviceID = ''dev_'' @ replicate 32 (CHR ''a''), idt_PublicKey = tx_key\<rparr>,
     co_DeviceName = ''n'', co_Platform = ''linux'', co_Arch = ''a'', co_ClientVersion = ''1'', co_StableOnline = 0,
     co_ConnectTimeout = 0\<rparr>"

definition tx_client :: Client where
  "tx_client = (case NewClient tx_options of Inr c \<Rightarrow> c | Inl _ \<Rightarrow> undefined)"

definition tx_msg :: "string \<Rightarrow> string \<Rightarrow> Message" where
  "tx_msg ty pl = \<lparr>msg_version = Version, msg_type = ty, msg_request_id = tx_rid, msg_payload = pl\<rparr>"

text \<open>An encoder that knows one value and its decoder.\<close>

definition enc1 :: "'a \<Rightarrow> string \<Rightarrow> 'a \<Rightarrow> string option" where
  "enc1 v e x = (if x = v then Some e else None)"

definition dec1 :: "'a \<Rightarrow> string \<Rightarrow> string \<Rightarrow> ('a \<times> string) option" where
  "dec1 v e x = (if x = e then Some (v, []) else None)"

lemma enc1_dec1 [simp]: "enc1 v e x = Some y \<Longrightarrow> dec1 v e y = Some (x, [])" "enc1 v e x = Some y \<Longrightarrow> y = e"
  by (auto simp: enc1_def dec1_def split: if_splits)

definition tx_enc :: "Message \<Rightarrow> string option" where
  "tx_enc m = (if m = tx_msg TypeClientHello ''1'' then Some ''H'' else if m = tx_msg TypeDeviceProof ''1'' then Some ''P''
     else enc1 (tx_msg TypeServerChallenge ''1'') ''C'' m)"

definition tx_dec :: "string \<Rightarrow> (Message \<times> string) option" where
  "tx_dec e = (if e = ''H'' then Some (tx_msg TypeClientHello ''1'', []) else if e = ''P'' then Some (tx_msg TypeDeviceProof ''1'', [])
     else dec1 (tx_msg TypeServerChallenge ''1'') ''C'' e)"

lemma tx_enc_dec: "tx_enc m = Some e \<Longrightarrow> tx_dec e = Some (m, [])"
  by (auto simp: tx_enc_def tx_dec_def enc1_def dec1_def split: if_splits)

definition tx_header :: StreamHeader where
  "tx_header = \<lparr>sh_version = Version, sh_kind = StreamControl, sh_request_id = tx_rid\<rparr>"

definition tx_server :: gateway_params where
  "tx_server = \<lparr>j_header = dec1 tx_header ''h'', j_message = tx_dec, j_another = (\<lambda>_. False),
     j_hello = dec1 (clientHello tx_client) ''1'', j_proof = dec1 (replicate 86 (CHR ''A'')) ''1'', j_heartbeat = (\<lambda>_. None),
     m_message = tx_enc, m_challenge = enc1 (replicate 43 (CHR ''A'')) ''1'', m_authenticated = (\<lambda>_. None),
     m_offered = (\<lambda>_. None), m_ack = (\<lambda>_. None), x_sha256 = (\<lambda>k. k),
     x_verify = (\<lambda>key m s. s = replicate 64 (CHR 0x00)), x_signer = Some, x_authorized = (\<lambda>s. s), x_digest = (\<lambda>c. c)\<rparr>"

definition tx_params :: client_params where
  "tx_params = \<lparr>cm_header = enc1 tx_header ''h'', cm_message = tx_enc, cm_hello = enc1 (clientHello tx_client) ''1'',
     cm_proof = enc1 (replicate 86 (CHR ''A'')) ''1'', cm_heartbeat = (\<lambda>_. None), cj_message = tx_dec, cj_another = (\<lambda>_. False),
     cj_challenge = dec1 (replicate 43 (CHR ''A'')) ''1'', cj_authenticated = (\<lambda>_. None), cj_offered = (\<lambda>_. None),
     cj_ack = (\<lambda>_. None), cx_sign = (\<lambda>_. Some (replicate 64 (CHR 0x00))), cx_parse_key = (\<lambda>_. None)\<rparr>"

definition tx_world :: cworld where
  "tx_world = \<lparr>cw_ctl = \<lparr>rd = frame ''C'', wr = [], accepts = []\<rparr>, cw_io = [], cw_rand = replicate 16 (CHR 0x00),
     cw_clock = [], cw_events = []\<rparr>"

definition tx_gateway_world :: gworld where
  "tx_gateway_world = \<lparr>g_sh = \<lparr>gs_db = \<lparr>tables = empty_db, faults = []\<rparr>, gs_mgr = NewManager,
       gs_limiter = newSourceLimiter 20 (60 * second), gs_preAuth = 0, gs_handlers = 0, gs_closed = False\<rparr>,
     g_env = [], g_slot = False,
     g_ctl = \<lparr>rd = wr (cw_ctl (snd (answerChallenge tx_params tx_client tx_world))), wr = [], accepts = [Some 3, Some 1]\<rparr>,
     g_io = [], g_ctx = [], g_random = replicate 40 (CHR 0x00), g_rand = [], g_clock = []\<rparr>"

lemma tx_linked: "linked tx_server tx_params tx_client"
  unfolding linked_def by (auto simp: tx_server_def tx_params_def tx_enc_dec dest: enc1_dec1)

lemma tx_honest: "honest tx_server tx_options tx_client"
  by code_simp

lemma tx_answers: "fst (answerChallenge tx_params tx_client tx_world) = Inr tx_rid"
  by code_simp


text \<open>
  The client reads the header of a stream exactly as the codec would, with the same header or
  error and the same number of bytes consumed, although it decodes a copy: on a header that is
  present in full, the stream is left at the first byte after its frame.
\<close>

theorem readStreamHeader_is_ReadHeader:
  "readStreamHeader decode another s = ReadHeader decode another s"
  unfolding readStreamHeader_def ReadHeader_def
  by (auto simp: ebind_def read_full_def readJSON_def ethrow_def ereturn_def lift_result_def Let_def
      split: option.split sum.split prod.split if_splits)

text \<open>
  The client never sends a tunnel in plaintext over the network: an accepted address is \<^verbatim>\<open>wss\<close>, or it
  is \<^verbatim>\<open>ws\<close> and then development mode was asked for and the host is a literal loopback address.
  The host stays the one that was given, and no user, query or fragment is carried along.
\<close>

theorem tunnel_url_protected:
  assumes "ResolveTunnelURL (Some u) development = Inr endpoint"
  shows "(url_Scheme endpoint = ''wss'' \<and> url_Scheme u \<in> {''https'', ''wss''} \<or>
      url_Scheme endpoint = ''ws'' \<and> url_Scheme u \<in> {''http'', ''ws''} \<and> development \<and> literalLoopbackHost (url_Hostname u)) \<and>
    url_Host endpoint = url_Host u \<and> url_Path endpoint = ''/api/v1/tunnel'' \<and> \<not> url_User endpoint \<and>
    url_RawQuery endpoint = [] \<and> url_Fragment endpoint = []"
  using assms by (auto simp: ResolveTunnelURL_def split: if_splits)

theorem tunnel_url_protected_witness:
  "\<exists>endpoint. ResolveTunnelURL (Some \<lparr>url_Scheme = ''http'', url_Host = ''127.0.0.1:80'', url_Hostname = ''127.0.0.1'',
     url_User = False, url_Path = [], url_RawQuery = [], url_Fragment = []\<rparr>) True = Inr endpoint \<and> url_Scheme endpoint = ''ws''"
proof -
  let ?u = "\<lparr>url_Scheme = ''http'', url_Host = ''127.0.0.1:80'', url_Hostname = ''127.0.0.1'',
     url_User = False, url_Path = [], url_RawQuery = [], url_Fragment = []\<rparr>"
  have "literalLoopbackHost ''127.0.0.1''" by code_simp
  then have r: "ResolveTunnelURL (Some ?u) True = Inr (?u\<lparr>url_Scheme := ''ws'', url_Path := ''/api/v1/tunnel''\<rparr>)"
    by (simp add: ResolveTunnelURL_def)
  show ?thesis using tunnel_url_protected [OF r] r by simp
qed

subsubsection \<open>Reconnect delays\<close>

lemma reconnectDelay_range: "second \<le> reconnectDelay i \<and> reconnectDelay i \<le> 15 * second"
proof -
  have "nat (min 4 (max 0 i)) \<in> {0, 1, 2, 3, 4}" by (auto simp: min_def max_def)
  then show ?thesis by (auto simp: reconnectDelay_def)
qed

lemma jitter_range:
  assumes "pred_option (\<lambda>b. b < 256) r" and "0 \<le> d"
  shows "d * 4 div 5 \<le> jitterDuration r d \<and> jitterDuration r d \<le> d * 6 div 5"
proof (cases r)
  case None
  have "d * 4 div 5 \<le> d" "d \<le> d * 6 div 5" using assms(2) by linarith+
  then show ?thesis by (simp add: None jitterDuration_def)
next
  case (Some b)
  define f where "f = 800 + int b * 400 div 255"
  have "int b * 400 div 255 \<le> 255 * 400 div 255" using assms(1) Some by (intro zdiv_mono1) auto
  then have f: "800 \<le> f" "f \<le> 1200" by (simp_all add: f_def)
  have "d * 800 \<le> d * f" "d * f \<le> d * 1200" using f assms(2) by (simp_all add: mult_left_mono)
  then have "d * 800 div 1000 \<le> d * f div 1000" "d * f div 1000 \<le> d * 1200 div 1000" by (simp_all add: zdiv_mono1)
  moreover have "d * 800 div 1000 = d * 4 div 5" "d * 1200 div 1000 = d * 6 div 5"
    using div_mult_mult2 [of 200 "d * 4" 5] div_mult_mult2 [of 200 "d * 6" 5] by (simp_all add: algebra_simps)
  ultimately show ?thesis by (simp add: Some jitterDuration_def f_def)
qed

definition retry_delay :: "duration \<Rightarrow> int \<Rightarrow> attempt \<Rightarrow> duration" where
  "retry_delay st index a = jitterDuration (at_random a) (reconnectDelay (if at_onlineFor a \<ge> st then 0 else index))"

lemma Run_Cons: "\<exists>index'. Run st index (a # rest) = EvConnecting # (if at_canceled a then [EvStopped]
    else EvRetrying (retry_delay st index a) # (if at_stopped a then [EvStopped] else Run st index' rest))"
  by (simp add: retry_delay_def Let_def) blast

lemma retry_delay_range:
  assumes "pred_option (\<lambda>b. b < 256) (at_random a)"
  shows "800 * millisecond \<le> retry_delay st index a" "retry_delay st index a \<le> 18 * second"
    "st \<le> at_onlineFor a \<Longrightarrow> retry_delay st index a \<le> 1200 * millisecond"
proof -
  have j: "d * 4 div 5 \<le> jitterDuration (at_random a) d \<and> jitterDuration (at_random a) d \<le> d * 6 div 5" if "0 \<le> d" for d
    using jitter_range [OF assms that] .
  show "800 * millisecond \<le> retry_delay st index a" "retry_delay st index a \<le> 18 * second"
    unfolding retry_delay_def
    using j [of "reconnectDelay (if at_onlineFor a \<ge> st then 0 else index)"]
      reconnectDelay_range [of "if at_onlineFor a \<ge> st then 0 else index"] by linarith+
  have "reconnectDelay 0 = second" by (simp add: reconnectDelay_def)
  then show "st \<le> at_onlineFor a \<Longrightarrow> retry_delay st index a \<le> 1200 * millisecond"
    using j [of second] by (simp add: retry_delay_def)
qed

lemma Run_delays:
  "\<forall>a \<in> set attempts. pred_option (\<lambda>b. b < 256) (at_random a) \<Longrightarrow> EvRetrying d \<in> set (Run st index attempts) \<Longrightarrow>
   800 * millisecond \<le> d \<and> d \<le> 18 * second"
proof (induction attempts arbitrary: index)
  case (Cons a rest)
  obtain index' where r: "Run st index (a # rest) = EvConnecting # (if at_canceled a then [EvStopped]
    else EvRetrying (retry_delay st index a) # (if at_stopped a then [EvStopped] else Run st index' rest))"
    using Run_Cons by blast
  have "d = retry_delay st index a \<or> EvRetrying d \<in> set (Run st index' rest)"
    using Cons.prems(2) unfolding r by (auto split: if_splits)
  then show ?case using retry_delay_range(1,2) [of a st index] Cons.IH [of index'] Cons.prems(1) by auto
qed simp

lemma Run_stops: "Run st index attempts = evs @ EvStopped # evs' \<Longrightarrow> evs' = []"
proof (induction attempts arbitrary: index evs)
  case (Cons a rest)
  obtain index' where r: "Run st index (a # rest) = EvConnecting # (if at_canceled a then [EvStopped]
    else EvRetrying (retry_delay st index a) # (if at_stopped a then [EvStopped] else Run st index' rest))"
    using Run_Cons by blast
  from Cons.prems [unfolded r] show ?case
    by (auto simp: Cons_eq_append_conv split: if_splits dest: Cons.IH)
qed (simp add: Cons_eq_append_conv)

text \<open>
  A client that cannot connect neither floods the server nor gives up for long: whatever its
  attempts, whatever random bytes it draws, every announced delay is between 0.8 and 18 seconds,
  an attempt that stayed online long enough brings the delay back to at most 1.2 seconds, and
  nothing is announced after the client has stopped.
\<close>

theorem reconnect_delays_bounded:
  assumes "\<forall>a \<in> set attempts. pred_option (\<lambda>b. b < 256) (at_random a)"
  shows "(\<forall>d. EvRetrying d \<in> set (Run st index attempts) \<longrightarrow> 800 * millisecond \<le> d \<and> d \<le> 18 * second) \<and>
    (\<forall>a rest d evs. attempts = a # rest \<and> st \<le> at_onlineFor a \<and>
       Run st index attempts = EvConnecting # EvRetrying d # evs \<longrightarrow> d \<le> 1200 * millisecond) \<and>
    (\<forall>evs evs'. Run st index attempts = evs @ EvStopped # evs' \<longrightarrow> evs' = [])"
proof (intro conjI allI impI)
  fix a rest d evs assume a: "attempts = a # rest \<and> st \<le> at_onlineFor a \<and>
       Run st index attempts = EvConnecting # EvRetrying d # evs"
  obtain index' where "Run st index (a # rest) = EvConnecting # (if at_canceled a then [EvStopped]
    else EvRetrying (retry_delay st index a) # (if at_stopped a then [EvStopped] else Run st index' rest))"
    using Run_Cons by blast
  then have "d = retry_delay st index a" using a by (auto split: if_splits)
  then show "d \<le> 1200 * millisecond" using retry_delay_range(3) a assms by simp
qed (use assms Run_delays Run_stops in blast)+

theorem reconnect_delays_bounded_witness:
  "\<exists>d. Run (30 * second) 4 [\<lparr>at_onlineFor = 31 * second, at_canceled = False, at_random = Some 255, at_stopped = True\<rparr>] =
     [EvConnecting, EvRetrying d, EvStopped] \<and> d \<le> 1200 * millisecond"
proof -
  let ?as = "[\<lparr>at_onlineFor = 31 * second, at_canceled = False, at_random = Some 255, at_stopped = True\<rparr>]"
  have "Run (30 * second) 4 ?as = [EvConnecting, EvRetrying (1200 * millisecond), EvStopped]" by code_simp
  then show ?thesis using reconnect_delays_bounded [of ?as "30 * second" 4] by auto
qed

end
