(* ===== verification/Terminal.thy ===== *)
theory Terminal
  imports GoText "HOL-Library.Word"
begin

text \<open>
  \<^verbatim>\<open>internal/terminal\<close>: browser terminals.  The registry of live sessions is a state machine whose
  steps are the critical sections of \<^verbatim>\<open>handler.go\<close>, the checks of a request around them, and what
  happens to the device's owner in the store; sessions are objects on a heap.  The checks of a
  request are one outcome here; \<open>TerminalSession\<close> has them and the life of an admitted terminal.
\<close>

subsection \<open>Requests\<close>

definition terminalPrefix :: string where "terminalPrefix = ''/api/v1/devices/''"
definition terminalSuffix :: string where "terminalSuffix = ''/terminal''"
definition maxTerminalsPerUser :: int where "maxTerminalsPerUser = 4"

definition terminalDeviceID :: "string \<Rightarrow> string option" where
  "terminalDeviceID path =
     (if \<not> HasPrefix path terminalPrefix \<or> \<not> HasSuffix path terminalSuffix then None
      else let deviceID = TrimSuffix (TrimPrefix path terminalPrefix) terminalSuffix in
        if length deviceID < 5 \<or> length deviceID > 128 \<or> CHR ''/'' \<in> set deviceID then None else Some deviceID)"

datatype term_cause = CauseInvalidated | CauseClosed | CauseEnded | CauseRequest

datatype admit_err = ErrHandlerClosed | ErrDeviceInvalidated | ErrRequestDone | ErrTerminalLimit

record activeSession =
  ts_userID :: ident
  ts_deviceID :: ident
  ts_generation :: "64 word"
  ts_cause :: "term_cause option"     \<comment> \<open>\<^verbatim>\<open>context.Cause\<close> of its context\<close>
  ts_done :: bool

record Handler =
  th_sessions :: "activeSession list"
  th_closed :: bool
  generations :: "ident \<Rightarrow> 64 word"   \<comment> \<open>a missing key reads as 0\<close>
  userCounts :: "ident \<rightharpoonup> int"
  byDevice :: "ident \<rightharpoonup> nat list"

definition new_handler :: Handler where
  "new_handler = \<lparr>th_sessions = [], th_closed = False, generations = (\<lambda>_. 0), userCounts = Map.empty, byDevice = Map.empty\<rparr>"

definition userCount :: "ident \<Rightarrow> Handler \<Rightarrow> int" where
  "userCount u h = (case userCounts h u of None \<Rightarrow> 0 | Some n \<Rightarrow> n)"

definition device_sessions :: "ident \<Rightarrow> Handler \<Rightarrow> nat list" where
  "device_sessions d h = (case byDevice h d of None \<Rightarrow> [] | Some rs \<Rightarrow> rs)"

definition deviceGeneration :: "ident \<Rightarrow> Handler \<Rightarrow> 64 word" where
  "deviceGeneration d h = generations h d"

definition admit :: "bool \<Rightarrow> ident \<Rightarrow> ident \<Rightarrow> 64 word \<Rightarrow> Handler \<Rightarrow> (admit_err + nat) \<times> Handler" where
  "admit parentDone userID deviceID generation h =
     (if th_closed h then (Inl ErrHandlerClosed, h)
      else if generations h deviceID \<noteq> generation then (Inl ErrDeviceInvalidated, h)
      else if parentDone then (Inl ErrRequestDone, h)
      else if userCount userID h \<ge> maxTerminalsPerUser then (Inl ErrTerminalLimit, h)
      else let r = length (th_sessions h) in
        (Inr r, h\<lparr>th_sessions := th_sessions h @ [\<lparr>ts_userID = userID, ts_deviceID = deviceID,
             ts_generation = generation, ts_cause = None, ts_done = False\<rparr>],
           userCounts := (userCounts h)(userID \<mapsto> userCount userID h + 1),
           byDevice := (byDevice h)(deviceID \<mapsto> device_sessions deviceID h @ [r])\<rparr>))"

definition upd_session :: "nat \<Rightarrow> (activeSession \<Rightarrow> activeSession) \<Rightarrow> Handler \<Rightarrow> Handler" where
  "upd_session r f h = h\<lparr>th_sessions := (th_sessions h)[r := f (th_sessions h ! r)]\<rparr>"

definition finish :: "activeSession \<Rightarrow> activeSession" where
  "finish s = s\<lparr>ts_done := True\<rparr>"

definition release :: "nat \<Rightarrow> Handler \<Rightarrow> Handler" where
  "release r h0 = (let h = upd_session r finish h0; s = th_sessions h ! r in
     case byDevice h (ts_deviceID s) of
       None \<Rightarrow> h
     | Some sessions \<Rightarrow>
         if r \<notin> set sessions then h
         else let rest = removeAll r sessions; n = userCount (ts_userID s) h - 1 in
           h\<lparr>userCounts := (userCounts h)(ts_userID s := (if n = 0 then None else Some n)),
             byDevice := (byDevice h)(ts_deviceID s := (if rest = [] then None else Some rest))\<rparr>)"

text \<open>The first cause of a cancellation is the one that is kept.\<close>

definition cancel :: "term_cause \<Rightarrow> activeSession \<Rightarrow> activeSession" where
  "cancel c s = s\<lparr>ts_cause := (case ts_cause s of None \<Rightarrow> Some c | k \<Rightarrow> k)\<rparr>"

text \<open>\<^verbatim>\<open>CancelDevice\<close>: its critical section, whose result is cancelled one by one and waited for.\<close>

definition CancelDevice_begin :: "ident \<Rightarrow> Handler \<Rightarrow> nat list \<times> Handler" where
  "CancelDevice_begin d h = (device_sessions d h, h\<lparr>generations := (generations h)(d := generations h d + 1)\<rparr>)"

definition waitSessions :: "nat list \<Rightarrow> Handler \<Rightarrow> bool" where
  "waitSessions rs h \<longleftrightarrow> list_all (\<lambda>r. ts_done (th_sessions h ! r)) rs"

definition closeAll_begin :: "ident list \<Rightarrow> Handler \<Rightarrow> nat list \<times> Handler" where
  "closeAll_begin devices h = (concat (map (\<lambda>d. device_sessions d h) devices), h\<lparr>th_closed := True\<rparr>)"

subsection \<open>The machine\<close>

text \<open>
  A request carries the number of invalidations it has seen with its generation, which is that number
  in 64 bits; \<open>cancels\<close> counts them.  An unpair commits, then cancels, then waits.
\<close>

datatype req_pc =
    Arrived ident ident
  | Snapped ident ident nat
  | OwnerChecked ident ident nat
  | Running nat
  | Over

datatype unpair_pc =
    Committed ident
  | Canceling ident "nat list" "nat list"     \<comment> \<open>still to cancel, all of them\<close>
  | Unpaired ident

record tstate =
  handler :: Handler
  cancels :: "ident \<Rightarrow> nat"
  owner :: "ident \<rightharpoonup> ident"
  requests :: "req_pc list"
  unpairs :: "unpair_pc list"

definition set_req :: "nat \<Rightarrow> req_pc \<Rightarrow> tstate \<Rightarrow> tstate" where
  "set_req i p s = s\<lparr>requests := (requests s)[i := p]\<rparr>"

definition req_at :: "nat \<Rightarrow> req_pc \<Rightarrow> tstate \<Rightarrow> bool" where
  "req_at i p s \<longleftrightarrow> i < length (requests s) \<and> requests s ! i = p"

definition set_unpair :: "nat \<Rightarrow> unpair_pc \<Rightarrow> tstate \<Rightarrow> tstate" where
  "set_unpair i p s = s\<lparr>unpairs := (unpairs s)[i := p]\<rparr>"

definition unpair_at :: "nat \<Rightarrow> unpair_pc \<Rightarrow> tstate \<Rightarrow> bool" where
  "unpair_at i p s \<longleftrightarrow> i < length (unpairs s) \<and> unpairs s ! i = p"

definition term_init :: "tstate \<Rightarrow> bool" where
  "term_init s \<longleftrightarrow> handler s = new_handler \<and> cancels s = (\<lambda>_. 0) \<and> owner s = Map.empty \<and> requests s = [] \<and> unpairs s = []"

inductive term_step :: "tstate \<Rightarrow> tstate \<Rightarrow> bool" where
  arrive: "term_step s (s\<lparr>requests := requests s @ [Arrived u d]\<rparr>)"
| snap: "req_at i (Arrived u d) s \<Longrightarrow> term_step s (set_req i (Snapped u d (cancels s d)) s)"
| check: "\<lbrakk>req_at i (Snapped u d n) s; owner s d = Some u\<rbrakk> \<Longrightarrow> term_step s (set_req i (OwnerChecked u d n) s)"
| refuse: "i < length (requests s) \<Longrightarrow> (\<forall>r. requests s ! i \<noteq> Running r) \<Longrightarrow> term_step s (set_req i Over s)"
| admitted: "\<lbrakk>req_at i (OwnerChecked u d n) s; admit pd u d (of_nat n) (handler s) = (Inr r, h)\<rbrakk>
    \<Longrightarrow> term_step s (set_req i (Running r) (s\<lparr>handler := h\<rparr>))"
| not_admitted: "\<lbrakk>req_at i (OwnerChecked u d n) s; admit pd u d (of_nat n) (handler s) = (Inl e, h)\<rbrakk>
    \<Longrightarrow> term_step s (set_req i Over (s\<lparr>handler := h\<rparr>))"
| ended: "req_at i (Running r) s \<Longrightarrow> term_step s (s\<lparr>handler := upd_session r (cancel c) (handler s)\<rparr>)"
| released: "req_at i (Running r) s \<Longrightarrow> term_step s (set_req i Over (s\<lparr>handler := release r (handler s)\<rparr>))"
| pair: "owner s d = None \<Longrightarrow> term_step s (s\<lparr>owner := (owner s)(d \<mapsto> u)\<rparr>)"
| unpair: "term_step s (s\<lparr>owner := (owner s)(d := None), unpairs := unpairs s @ [Committed d]\<rparr>)"
| invalidate: "\<lbrakk>unpair_at j (Committed d) s; CancelDevice_begin d (handler s) = (rs, h); Suc (cancels s d) < 2 ^ 64\<rbrakk>
    \<Longrightarrow> term_step s (set_unpair j (Canceling d rs rs)
          (s\<lparr>handler := h, cancels := (cancels s)(d := Suc (cancels s d))\<rparr>))"
| cancel_one: "unpair_at j (Canceling d (r # rs) all) s
    \<Longrightarrow> term_step s (set_unpair j (Canceling d rs all) (s\<lparr>handler := upd_session r (cancel CauseInvalidated) (handler s)\<rparr>))"
| waited: "\<lbrakk>unpair_at j (Canceling d [] all) s; waitSessions all (handler s)\<rbrakk> \<Longrightarrow> term_step s (set_unpair j (Unpaired d) s)"
| shut: "closeAll_begin devices (handler s) = (rs, h) \<Longrightarrow> term_step s (s\<lparr>handler := h\<rparr>)"
| shut_one: "r < length (th_sessions (handler s)) \<Longrightarrow>
    term_step s (s\<lparr>handler := upd_session r (cancel CauseClosed) (handler s)\<rparr>)"

subsection \<open>The registry\<close>

definition session :: "nat \<Rightarrow> Handler \<Rightarrow> activeSession" where
  "session r h = th_sessions h ! r"

text \<open>The sessions the registry knows, and those of one user.\<close>

definition registered :: "Handler \<Rightarrow> nat set" where
  "registered h = {r. r < length (th_sessions h) \<and> r \<in> set (device_sessions (ts_deviceID (session r h)) h)}"

definition registered_of :: "ident \<Rightarrow> Handler \<Rightarrow> nat set" where
  "registered_of u h = {r \<in> registered h. ts_userID (session r h) = u}"

definition reg_ok :: "Handler \<Rightarrow> bool" where
  "reg_ok h \<longleftrightarrow>
     (\<forall>d rs. byDevice h d = Some rs \<longrightarrow> rs \<noteq> [] \<and> distinct rs \<and>
        (\<forall>r \<in> set rs. r < length (th_sessions h) \<and> ts_deviceID (session r h) = d)) \<and>
     (\<forall>r \<in> registered h. \<not> ts_done (session r h)) \<and>
     (\<forall>u. userCount u h = int (card (registered_of u h)) \<and> userCount u h \<le> maxTerminalsPerUser)"

lemma reg_okD:
  assumes "reg_ok h"
  shows "r \<in> set (device_sessions d h) \<Longrightarrow> r < length (th_sessions h) \<and> ts_deviceID (session r h) = d"
    "r \<in> registered h \<Longrightarrow> \<not> ts_done (session r h)"
    "userCount u h = int (card (registered_of u h))" "userCount u h \<le> maxTerminalsPerUser"
    "byDevice h d = Some rs \<Longrightarrow> rs \<noteq> [] \<and> distinct rs"
proof -
  show "r \<in> set (device_sessions d h) \<Longrightarrow> r < length (th_sessions h) \<and> ts_deviceID (session r h) = d"
    using assms by (cases "byDevice h d") (auto simp: reg_ok_def device_sessions_def)
qed (use assms in \<open>unfold reg_ok_def, blast+\<close>)

lemma reg_okI:
  assumes "\<And>d rs. byDevice h d = Some rs \<Longrightarrow> rs \<noteq> [] \<and> distinct rs"
    and "\<And>d r. r \<in> set (device_sessions d h) \<Longrightarrow> r < length (th_sessions h) \<and> ts_deviceID (session r h) = d"
    and "\<And>r. r \<in> registered h \<Longrightarrow> \<not> ts_done (session r h)"
    and "\<And>u. userCount u h = int (card (registered_of u h))" and "\<And>u. userCount u h \<le> maxTerminalsPerUser"
  shows "reg_ok h"
proof -
  have "r < length (th_sessions h) \<and> ts_deviceID (session r h) = d" if "byDevice h d = Some rs" "r \<in> set rs" for d rs r
    by (rule assms(2)) (use that in \<open>simp add: device_sessions_def\<close>)
  then show ?thesis unfolding reg_ok_def using assms(1,3,4,5) by blast
qed

lemma finite_registered [simp]: "finite (registered h)" "finite (registered_of u h)"
  unfolding registered_of_def registered_def by simp_all

lemma device_registered: "reg_ok h \<Longrightarrow> r \<in> set (device_sessions d h) \<Longrightarrow> r \<in> registered h"
  using reg_okD(1) by (auto simp: registered_def)

text \<open>An update of one session that keeps its user, device and completion changes nothing here.\<close>

lemma upd_session_nth: "q < length (th_sessions h) \<Longrightarrow>
    session q (upd_session r f h) = (if q = r then f (session q h) else session q h)"
  by (simp add: upd_session_def session_def)

lemma upd_session_fields [simp]:
  "length (th_sessions (upd_session r f h)) = length (th_sessions h)" "byDevice (upd_session r f h) = byDevice h"
  "userCounts (upd_session r f h) = userCounts h" "generations (upd_session r f h) = generations h"
  "device_sessions d (upd_session r f h) = device_sessions d h" "userCount u (upd_session r f h) = userCount u h"
  by (simp_all add: upd_session_def device_sessions_def userCount_def)

definition keeps_session :: "(activeSession \<Rightarrow> activeSession) \<Rightarrow> bool" where
  "keeps_session f \<longleftrightarrow> (\<forall>s. ts_userID (f s) = ts_userID s \<and> ts_deviceID (f s) = ts_deviceID s)"

lemma keeps_cancel: "keeps_session (cancel c)" "keeps_session finish"
  by (simp_all add: keeps_session_def cancel_def finish_def)

lemma registered_upd:
  assumes "keeps_session f"
  shows "registered (upd_session r f h) = registered h" "registered_of u (upd_session r f h) = registered_of u h"
  using assms by (auto simp: registered_of_def registered_def upd_session_nth keeps_session_def split: if_splits)

lemma registered_bound: "r \<in> registered h \<Longrightarrow> r < length (th_sessions h)"
  by (simp add: registered_def)

lemma cancel_ok:
  assumes "reg_ok h"
  shows "reg_ok (upd_session r (cancel c) h)"
proof (rule reg_okI)
  show "q < length (th_sessions (upd_session r (cancel c) h)) \<and> ts_deviceID (session q (upd_session r (cancel c) h)) = d"
    if "q \<in> set (device_sessions d (upd_session r (cancel c) h))" for q d
    using that reg_okD(1) [OF assms, of q d] by (auto simp: upd_session_nth cancel_def)
  show "\<not> ts_done (session q (upd_session r (cancel c) h))" if "q \<in> registered (upd_session r (cancel c) h)" for q
    using that reg_okD(2) [OF assms, of q] by (auto simp: registered_upd keeps_cancel upd_session_nth cancel_def registered_bound)
qed (use reg_okD(3-5) [OF assms] in \<open>simp_all add: registered_upd keeps_cancel\<close>)

lemma admit_ok:
  assumes ok: "reg_ok h" and a: "admit pd u d g h = (Inr r, h')"
  shows "reg_ok h'" "r = length (th_sessions h)" "session r h' = \<lparr>ts_userID = u, ts_deviceID = d, ts_generation = g,
      ts_cause = None, ts_done = False\<rparr>" "generations h' = generations h" "generations h d = g"
    "q < length (th_sessions h) \<Longrightarrow> session q h' = session q h" "registered h' = insert r (registered h)"
proof -
  let ?new = "\<lparr>ts_userID = u, ts_deviceID = d, ts_generation = g, ts_cause = None, ts_done = False\<rparr>"
  show r: "r = length (th_sessions h)" and gen: "generations h d = g" "generations h' = generations h"
    using a by (auto simp: admit_def Let_def split: if_splits)
  have h': "th_sessions h' = th_sessions h @ [?new]" "userCounts h' = (userCounts h)(u \<mapsto> userCount u h + 1)"
    "byDevice h' = (byDevice h)(d \<mapsto> device_sessions d h @ [r])" and few: "userCount u h < maxTerminalsPerUser"
    using a r by (auto simp: admit_def Let_def split: if_splits)
  show new: "session r h' = ?new" by (simp add: session_def h' r)
  show old: "session q h' = session q h" if "q < length (th_sessions h)" for q
    using that by (simp add: session_def h' nth_append)
  have ds: "device_sessions e h' = device_sessions e h @ (if e = d then [r] else [])" for e
    by (simp add: device_sessions_def h')
  have notin: "r \<notin> set (device_sessions e h)" for e using reg_okD(1) [OF ok, of r e] r by auto
  show reg: "registered h' = insert r (registered h)"
    using new old notin by (auto simp: registered_def h' ds r less_Suc_eq session_def nth_append split: if_splits)
  have fresh: "r \<notin> registered_of v h" for v by (simp add: registered_of_def registered_def r)
  have of_user: "registered_of v h' = (if v = u then insert r (registered_of v h) else registered_of v h)" for v
    using new old [OF registered_bound] by (auto simp: registered_of_def reg)
  show "reg_ok h'"
  proof (rule reg_okI)
    show "userCount v h' = int (card (registered_of v h'))" "userCount v h' \<le> maxTerminalsPerUser" for v
      using reg_okD(3,4) [OF ok, of v] few fresh [of v] by (auto simp: of_user userCount_def h')
    show "\<not> ts_done (session q h')" if "q \<in> registered h'" for q
      using that new old [OF registered_bound] reg_okD(2) [OF ok] by (auto simp: reg)
    show "q < length (th_sessions h') \<and> ts_deviceID (session q h') = e" if "q \<in> set (device_sessions e h')" for q e
      using that reg_okD(1) [OF ok, of q e] new old by (auto simp: ds h' r split: if_splits)
    show "rs \<noteq> [] \<and> distinct rs" if "byDevice h' e = Some rs" for e rs
      using that reg_okD(5) [OF ok, of e] notin [of e]
      by (auto simp: h' device_sessions_def split: if_splits option.splits)
  qed
qed

text \<open>A released session leaves the registry and its user's count; releasing it again does nothing.\<close>

lemma release_ok:
  assumes ok: "reg_ok h" and r: "r < length (th_sessions h)"
  shows "reg_ok (release r h)" "registered (release r h) = registered h - {r}"
    "generations (release r h) = generations h" "length (th_sessions (release r h)) = length (th_sessions h)"
    "q < length (th_sessions h) \<Longrightarrow> q \<noteq> r \<Longrightarrow> session q (release r h) = session q h"
    "ts_done (session r (release r h))"
proof -
  let ?s = "session r h" and ?h = "upd_session r finish h"
  let ?d = "ts_deviceID ?s" and ?u = "ts_userID ?s"
  have s: "th_sessions ?h ! r = finish ?s" using r by (simp add: upd_session_def session_def)
  have eq: "release r h = (if r \<notin> set (device_sessions ?d h) then ?h
      else ?h\<lparr>userCounts := (userCounts h)(?u := (if userCount ?u h - 1 = 0 then None else Some (userCount ?u h - 1))),
        byDevice := (byDevice h)(?d := (if removeAll r (device_sessions ?d h) = [] then None
           else Some (removeAll r (device_sessions ?d h))))\<rparr>)"
    by (simp add: release_def Let_def s finish_def device_sessions_def split: option.split)
  show base: "generations (release r h) = generations h" "length (th_sessions (release r h)) = length (th_sessions h)"
    by (simp_all add: eq)
  have sess: "session q (release r h) = session q ?h" for q by (simp add: eq session_def)
  show other: "session q (release r h) = session q h" if "q < length (th_sessions h)" "q \<noteq> r" for q
    using that by (simp add: sess upd_session_nth)
  have own: "session r (release r h) = finish ?s" using r by (simp add: sess upd_session_nth)
  then show "ts_done (session r (release r h))" by (simp add: finish_def)
  have ds: "device_sessions e (release r h) = removeAll r (device_sessions e h)" for e
  proof (cases "r \<in> set (device_sessions ?d h) \<and> e = ?d")
    case True
    then show ?thesis by (simp add: eq device_sessions_def)
  next
    case False
    then have "r \<notin> set (device_sessions e h)" using reg_okD(1) [OF ok, of r e] by auto
    then have "removeAll r (device_sessions e h) = device_sessions e h" by simp
    then show ?thesis using False by (auto simp: eq device_sessions_def)
  qed
  have dev: "ts_deviceID (session q (release r h)) = ts_deviceID (session q h)"
    "ts_userID (session q (release r h)) = ts_userID (session q h)" if "q < length (th_sessions h)" for q
    using that own other by (cases "q = r"; simp add: finish_def)+
  show reg: "registered (release r h) = registered h - {r}" by (auto simp: registered_def base ds dev)
  have of_user: "registered_of v (release r h) = registered_of v h - {r}" for v
    using dev registered_bound [of _ h] by (auto simp: registered_of_def reg)
  have mem: "r \<in> registered_of v h \<longleftrightarrow> r \<in> set (device_sessions ?d h) \<and> v = ?u" for v
    using r by (auto simp: registered_of_def registered_def)
  have count: "userCount v (release r h) = int (card (registered_of v h - {r}))" for v
  proof (cases "r \<in> registered_of v h")
    case True
    then have "card (registered_of v h) > 0" by (auto simp: card_gt_0_iff)
    then show ?thesis using True mem [of v] reg_okD(3) [OF ok, of v] by (auto simp: eq userCount_def)
  next
    case False
    then show ?thesis using mem [of v] reg_okD(3) [OF ok, of v] by (auto simp: eq userCount_def)
  qed
  show "reg_ok (release r h)"
  proof (rule reg_okI)
    show "userCount v (release r h) = int (card (registered_of v (release r h)))" for v by (simp add: count of_user)
    have "card (registered_of v h - {r}) \<le> card (registered_of v h)" for v by (rule card_mono) auto
    then show "userCount v (release r h) \<le> maxTerminalsPerUser" for v
      using reg_okD(3,4) [OF ok, of v] unfolding count by (metis of_nat_le_iff order_trans)
    show "\<not> ts_done (session q (release r h))" if "q \<in> registered (release r h)" for q
      using that reg_okD(2) [OF ok, of q] other registered_bound [of q h] by (simp add: reg)
    show "q < length (th_sessions (release r h)) \<and> ts_deviceID (session q (release r h)) = e"
      if "q \<in> set (device_sessions e (release r h))" for q e
      using that reg_okD(1) [OF ok, of q e] dev by (simp add: ds base)
    show "rs \<noteq> [] \<and> distinct rs" if "byDevice (release r h) e = Some rs" for e rs
      using that reg_okD(5) [OF ok, of e] reg_okD(5) [OF ok, of ?d]
      by (auto simp: eq device_sessions_def distinct_removeAll split: if_splits option.splits)
  qed
qed

subsection \<open>Who may keep a terminal\<close>

definition pending :: "ident \<Rightarrow> nat \<Rightarrow> tstate \<Rightarrow> bool" where
  "pending d r s \<longleftrightarrow> Committed d \<in> set (unpairs s) \<or> (\<exists>rs all. Canceling d rs all \<in> set (unpairs s) \<and> r \<in> set rs)"

definition req_ok :: "tstate \<Rightarrow> req_pc \<Rightarrow> bool" where
  "req_ok s p \<longleftrightarrow> (case p of
     Snapped u d n \<Rightarrow> n \<le> cancels s d
   | OwnerChecked u d n \<Rightarrow> n \<le> cancels s d \<and>
       (owner s d = Some u \<or> n < cancels s d \<or> Committed d \<in> set (unpairs s))
   | Running r \<Rightarrow> r < length (th_sessions (handler s))
   | _ \<Rightarrow> True)"

definition live_ok :: "tstate \<Rightarrow> nat \<Rightarrow> bool" where
  "live_ok s r \<longleftrightarrow> (let x = session r (handler s) in
     ts_cause x = None \<longrightarrow> owner s (ts_deviceID x) = Some (ts_userID x) \<or> pending (ts_deviceID x) r s)"

definition term_inv :: "tstate \<Rightarrow> bool" where
  "term_inv s \<longleftrightarrow> reg_ok (handler s) \<and>
     (\<forall>d. generations (handler s) d = of_nat (cancels s d) \<and> cancels s d < 2 ^ 64) \<and>
     (\<forall>p \<in> set (requests s). req_ok s p) \<and> (\<forall>r \<in> registered (handler s). live_ok s r)"

lemma term_invD:
  assumes "term_inv s"
  shows "reg_ok (handler s)" "generations (handler s) d = of_nat (cancels s d)" "cancels s d < 2 ^ 64"
    "p \<in> set (requests s) \<Longrightarrow> req_ok s p" "r \<in> registered (handler s) \<Longrightarrow> live_ok s r"
  using assms unfolding term_inv_def by blast+

lemma term_invI:
  assumes "reg_ok (handler s)" and "\<And>d. generations (handler s) d = of_nat (cancels s d)" and "\<And>d. cancels s d < 2 ^ 64"
    and "\<And>p. p \<in> set (requests s) \<Longrightarrow> req_ok s p" and "\<And>r. r \<in> registered (handler s) \<Longrightarrow> live_ok s r"
  shows "term_inv s"
  unfolding term_inv_def using assms by blast

lemma req_atD: "req_at i p s \<Longrightarrow> p \<in> set (requests s)"
  by (auto simp: req_at_def)

lemma set_req_fields [simp]:
  "handler (set_req i p s) = handler s" "cancels (set_req i p s) = cancels s" "owner (set_req i p s) = owner s"
  "unpairs (set_req i p s) = unpairs s"
  by (simp_all add: set_req_def)

lemma req_ok_same: "handler t = handler s \<Longrightarrow> cancels t = cancels s \<Longrightarrow> owner t = owner s \<Longrightarrow> unpairs t = unpairs s \<Longrightarrow>
    req_ok t = req_ok s \<and> live_ok t = live_ok s"
  by (intro conjI ext) (simp_all add: req_ok_def live_ok_def pending_def cong: req_pc.case_cong)

text \<open>A request moves on, nothing else changes.\<close>

lemma set_req_inv:
  assumes "term_inv s" and "req_ok s p"
  shows "term_inv (set_req i p s)"
proof -
  have same: "req_ok (set_req i p s) = req_ok s" "live_ok (set_req i p s) = live_ok s"
    using req_ok_same [of "set_req i p s" s] by simp_all
  have "req_ok s q" if "q \<in> set (requests (set_req i p s))" for q
    using that assms(2) term_invD(4) [OF assms(1)] set_update_subset_insert [of "requests s" i p]
    by (auto simp: set_req_def)
  then show ?thesis using term_invD [OF assms(1)] by (intro term_invI) (simp_all add: same)
qed

text \<open>A session is cancelled, nothing else changes.\<close>

lemma cancel_inv:
  assumes inv: "term_inv s"
  shows "term_inv (s\<lparr>handler := upd_session r (cancel c) (handler s)\<rparr>)" (is "term_inv ?t")
proof (rule term_invI)
  show "reg_ok (handler ?t)" using term_invD(1) [OF inv] by (simp add: cancel_ok)
  show "req_ok ?t p" if "p \<in> set (requests ?t)" for p
    using that term_invD(4) [OF inv, of p] by (auto simp: req_ok_def split: req_pc.split)
  show "live_ok ?t q" if "q \<in> registered (handler ?t)" for q
    using that term_invD(5) [OF inv, of q] registered_bound [of q "handler s"]
    by (auto simp: registered_upd keeps_cancel live_ok_def Let_def pending_def upd_session_nth cancel_def split: option.splits)
qed (use term_invD(2,3) [OF inv] in simp_all)

lemma release_inv:
  assumes inv: "term_inv s" and r: "r < length (th_sessions (handler s))"
  shows "term_inv (s\<lparr>handler := release r (handler s)\<rparr>)" (is "term_inv ?t")
proof (rule term_invI)
  note rel = release_ok [OF term_invD(1) [OF inv] r]
  show "reg_ok (handler ?t)" using rel(1) by simp
  show "req_ok ?t p" if "p \<in> set (requests ?t)" for p
    using that term_invD(4) [OF inv, of p] rel(4) by (auto simp: req_ok_def split: req_pc.split)
  show "live_ok ?t q" if "q \<in> registered (handler ?t)" for q
    using that term_invD(5) [OF inv, of q] rel(2,5) registered_bound [of q "handler s"]
    by (simp add: live_ok_def Let_def pending_def)
qed (use term_invD(2,3) [OF inv] release_ok(3) [OF term_invD(1) [OF inv] r] in simp_all)

lemma of_nat_word_inj: "of_nat m = (of_nat n :: 64 word) \<Longrightarrow> m < 2 ^ 64 \<Longrightarrow> n < 2 ^ 64 \<Longrightarrow> m = n"
  by (simp add: word_of_nat_eq_iff take_bit_nat_eq_self)

lemma admit_inv:
  assumes inv: "term_inv s" and p: "OwnerChecked u d n \<in> set (requests s)"
    and a: "admit pd u d (of_nat n) (handler s) = (Inr r, h)"
  shows "term_inv (s\<lparr>handler := h\<rparr>)" (is "term_inv ?t") and "r < length (th_sessions h)"
proof -
  note ad = admit_ok [OF term_invD(1) [OF inv] a]
  have n: "n \<le> cancels s d" "owner s d = Some u \<or> n < cancels s d \<or> Committed d \<in> set (unpairs s)"
    using term_invD(4) [OF inv p] by (simp_all add: req_ok_def)
  have "of_nat (cancels s d) = (of_nat n :: 64 word)" using ad(5) term_invD(2) [OF inv, of d] by simp
  then have "cancels s d = n" using of_nat_word_inj term_invD(3) [OF inv, of d] n(1) by (meson le_less_trans)
  then have own: "owner s d = Some u \<or> Committed d \<in> set (unpairs s)" using n(2) by auto
  have len: "length (th_sessions (handler s)) < length (th_sessions h)"
    using a by (auto simp: admit_def Let_def split: if_splits)
  then show "r < length (th_sessions h)" using ad(2) by simp
  show "term_inv ?t"
  proof (rule term_invI)
    show "reg_ok (handler ?t)" using ad(1) by simp
    show "req_ok ?t q" if "q \<in> set (requests ?t)" for q
      using that term_invD(4) [OF inv, of q] len by (auto simp: req_ok_def split: req_pc.split)
    show "live_ok ?t q" if "q \<in> registered (handler ?t)" for q
    proof (cases "q = r")
      case True
      then show ?thesis using own ad(3) by (auto simp: live_ok_def pending_def)
    next
      case False
      then have q: "q \<in> registered (handler s)" using that ad(7) by simp
      show ?thesis using term_invD(5) [OF inv q] ad(6) [OF registered_bound [OF q]]
        by (simp add: live_ok_def Let_def pending_def)
    qed
  qed (use term_invD(2,3) [OF inv] ad(4) in simp_all)
qed

lemma in_update: "x \<in> set xs \<Longrightarrow> j < length xs \<Longrightarrow> x \<noteq> xs ! j \<Longrightarrow> x \<in> set (xs[j := y])"
  by (metis in_set_conv_nth length_list_update nth_list_update_neq)

lemma set_unpair_fields [simp]:
  "handler (set_unpair j p s) = handler s" "cancels (set_unpair j p s) = cancels s" "owner (set_unpair j p s) = owner s"
  "requests (set_unpair j p s) = requests s" "unpairs (set_unpair j p s) = (unpairs s)[j := p]"
  by (simp_all add: set_unpair_def)

text \<open>The owner is taken away and the invalidation is pending.\<close>

lemma unpair_inv:
  assumes inv: "term_inv s"
  shows "term_inv (s\<lparr>owner := (owner s)(d := None), unpairs := unpairs s @ [Committed d]\<rparr>)" (is "term_inv ?t")
proof (rule term_invI)
  show "req_ok ?t p" if "p \<in> set (requests ?t)" for p
    using that term_invD(4) [OF inv, of p] by (auto simp: req_ok_def split: req_pc.split)
  show "live_ok ?t q" if "q \<in> registered (handler ?t)" for q
    using that term_invD(5) [OF inv, of q] by (auto simp: live_ok_def Let_def pending_def)
qed (use term_invD(1-3) [OF inv] in simp_all)

lemma pair_inv:
  assumes inv: "term_inv s" and "owner s d = None"
  shows "term_inv (s\<lparr>owner := (owner s)(d \<mapsto> u)\<rparr>)" (is "term_inv ?t")
proof (rule term_invI)
  show "req_ok ?t p" if "p \<in> set (requests ?t)" for p
    using that term_invD(4) [OF inv, of p] assms(2) by (auto simp: req_ok_def split: req_pc.split)
  show "live_ok ?t q" if "q \<in> registered (handler ?t)" for q
    using that term_invD(5) [OF inv, of q] assms(2) by (auto simp: live_ok_def Let_def pending_def)
qed (use term_invD(1-3) [OF inv] in simp_all)

text \<open>The generation advances: checked requests become stale and the sessions are on the list.\<close>

lemma invalidate_inv:
  assumes inv: "term_inv s" and j: "unpair_at j (Committed d) s" and few: "Suc (cancels s d) < 2 ^ 64"
    and b: "CancelDevice_begin d (handler s) = (rs, h)"
  shows "term_inv (set_unpair j (Canceling d rs rs) (s\<lparr>handler := h, cancels := (cancels s)(d := Suc (cancels s d))\<rparr>))"
    (is "term_inv ?t")
proof -
  have rs: "rs = device_sessions d (handler s)" and h: "h = (handler s)\<lparr>generations := (generations (handler s))(d := generations (handler s) d + 1)\<rparr>"
    using b by (simp_all add: CancelDevice_begin_def)
  have same: "registered h = registered (handler s)" "session q h = session q (handler s)" "device_sessions e h = device_sessions e (handler s)"
    "userCount u h = userCount u (handler s)" "registered_of u h = registered_of u (handler s)" "th_sessions h = th_sessions (handler s)"
    "byDevice h = byDevice (handler s)" for q e u by (simp_all add: h registered_def registered_of_def session_def device_sessions_def userCount_def)
  have still: "p \<in> set (unpairs ?t)" if "p \<in> set (unpairs s)" "p \<noteq> Committed d" for p
    using that j in_update [of p "unpairs s" j] by (auto simp: unpair_at_def)
  show ?thesis
  proof (rule term_invI)
    show "reg_ok (handler ?t)"
      using reg_okD [OF term_invD(1) [OF inv]] by (intro reg_okI) (auto simp: same)
    show "generations (handler ?t) e = of_nat (cancels ?t e)" for e
      using term_invD(2) [OF inv] by (simp add: h)
    show "cancels ?t e < 2 ^ 64" for e using term_invD(3) [OF inv, of e] few by simp
    show "req_ok ?t p" if "p \<in> set (requests ?t)" for p
      using that term_invD(4) [OF inv, of p] still
      by (auto simp: req_ok_def same split: req_pc.splits)
    show "live_ok ?t q" if "q \<in> registered (handler ?t)" for q
    proof (cases "ts_deviceID (session q (handler s)) = d")
      case True
      then have "q \<in> set rs" using that by (simp add: same rs registered_def)
      then show ?thesis using True j
        by (auto simp: live_ok_def pending_def same Let_def unpair_at_def intro: set_update_memI)
    next
      case False
      then show ?thesis using that term_invD(5) [OF inv, of q] still by (auto simp: live_ok_def Let_def pending_def same)
    qed
  qed
qed

lemma shut_inv:
  assumes inv: "term_inv s" and h: "h = (handler s)\<lparr>th_closed := True\<rparr>"
  shows "term_inv (s\<lparr>handler := h\<rparr>)" (is "term_inv ?t")
proof -
  have same: "registered h = registered (handler s)" "session q h = session q (handler s)" "device_sessions e h = device_sessions e (handler s)"
    "userCount u h = userCount u (handler s)" "registered_of u h = registered_of u (handler s)" "th_sessions h = th_sessions (handler s)"
    "byDevice h = byDevice (handler s)" "generations h = generations (handler s)" for q e u
    by (simp_all add: h registered_def registered_of_def session_def device_sessions_def userCount_def)
  show ?thesis
  proof (rule term_invI)
    show "reg_ok (handler ?t)"
      using reg_okD [OF term_invD(1) [OF inv]] by (intro reg_okI) (auto simp: same)
    show "req_ok ?t p" if "p \<in> set (requests ?t)" for p
      using that term_invD(4) [OF inv, of p] by (auto simp: req_ok_def same split: req_pc.splits)
    show "live_ok ?t q" if "q \<in> registered (handler ?t)" for q
      using that term_invD(5) [OF inv, of q] by (simp add: live_ok_def Let_def pending_def same)
  qed (use term_invD(2,3) [OF inv] in \<open>simp_all add: same\<close>)
qed

text \<open>A cancelled session no longer needs its place on the list, and an empty list protects nobody.\<close>

lemma canceling_inv:
  assumes inv: "term_inv s" and j: "unpair_at j (Canceling d rs all) s"
    and p: "(\<exists>rs'. p = Canceling d rs' all \<and> (\<forall>r \<in> set rs - set rs'. r \<in> registered (handler s) \<longrightarrow>
      ts_cause (session r (handler s)) \<noteq> None)) \<or> rs = [] \<and> p = Unpaired d"
  shows "term_inv (set_unpair j p s)" (is "term_inv ?t")
proof (rule term_invI)
  have still: "x \<in> set (unpairs ?t)" if "x \<in> set (unpairs s)" "x \<noteq> Canceling d rs all" for x
    using that j in_update [of x "unpairs s" j] by (auto simp: unpair_at_def)
  show "req_ok ?t q" if "q \<in> set (requests ?t)" for q
    using that term_invD(4) [OF inv, of q] still by (auto simp: req_ok_def split: req_pc.splits)
  have new: "p \<in> set (unpairs ?t)" using j by (auto simp: unpair_at_def intro: set_update_memI)
  show "live_ok ?t q" if "q \<in> registered (handler ?t)" for q
  proof -
    have r: "q \<in> registered (handler s)" using that by simp
    have "pending e q ?t" if pend: "pending e q s" and nc: "ts_cause (session q (handler s)) = None" for e
    proof (cases "Committed e \<in> set (unpairs s)")
      case True
      then show ?thesis using still unfolding pending_def by blast
    next
      case False
      then obtain rs0 all0 where c: "Canceling e rs0 all0 \<in> set (unpairs s)" "q \<in> set rs0"
        using pend unfolding pending_def by blast
      show ?thesis
      proof (cases "Canceling e rs0 all0 = Canceling d rs all")
        case True
        then obtain rs' where "p = Canceling d rs' all" "q \<in> set rs'" using p c(2) r nc by auto
        then show ?thesis using new True unfolding pending_def by blast
      next
        case False
        then show ?thesis using still [OF c(1)] c(2) unfolding pending_def by blast
      qed
    qed
    then show ?thesis using that term_invD(5) [OF inv, of q] by (auto simp: live_ok_def Let_def)
  qed
qed (use term_invD(1-3) [OF inv] in simp_all)

lemma term_init_inv: "term_init s \<Longrightarrow> term_inv s"
  by (auto simp: term_init_def term_inv_def new_handler_def reg_ok_def registered_def registered_of_def userCount_def
      device_sessions_def maxTerminalsPerUser_def)

lemma term_step_inv: "term_step s t \<Longrightarrow> term_inv s \<Longrightarrow> term_inv t"
proof (induction rule: term_step.induct)
  case (arrive s u d)
  have "req_ok (s\<lparr>requests := requests s @ [Arrived u d]\<rparr>) = req_ok s \<and> live_ok (s\<lparr>requests := requests s @ [Arrived u d]\<rparr>) = live_ok s"
    by (rule req_ok_same) simp_all
  moreover have "req_ok s (Arrived u d)" by (simp add: req_ok_def)
  ultimately show ?case using term_invD [OF arrive] by (intro term_invI) auto
next
  case (snap i u d s)
  then show ?case by (intro set_req_inv) (simp_all add: req_ok_def)
next
  case (check i u d n s)
  then show ?case using term_invD(4) [OF check.prems req_atD [OF check.hyps(1)]]
    by (intro set_req_inv) (simp_all add: req_ok_def)
next
  case (refuse i s)
  then show ?case by (intro set_req_inv) (simp_all add: req_ok_def)
next
  case (admitted i u d n s pd r h)
  note a = admit_inv [OF admitted.prems req_atD [OF admitted.hyps(1)] admitted.hyps(2)]
  show ?case by (rule set_req_inv [OF a(1)]) (simp add: req_ok_def a(2))
next
  case (not_admitted i u d n s pd e h)
  then have "h = handler s" by (auto simp: admit_def Let_def split: if_splits)
  then show ?case using not_admitted by (intro set_req_inv) (simp_all add: req_ok_def)
next
  case (released i r s)
  then have "r < length (th_sessions (handler s))"
    using term_invD(4) [OF released.prems req_atD [OF released.hyps]] by (simp add: req_ok_def)
  from release_inv [OF released.prems this] show ?case by (rule set_req_inv) (simp add: req_ok_def)
next
  case (cancel_one j d r rs all s)
  let ?s = "s\<lparr>handler := upd_session r (cancel CauseInvalidated) (handler s)\<rparr>"
  have c: "ts_cause (session r (handler ?s)) \<noteq> None" if "r \<in> registered (handler ?s)"
    using registered_bound [OF that] by (auto simp: upd_session_nth cancel_def split: option.split)
  have j: "unpair_at j (Canceling d (r # rs) all) ?s" using cancel_one.hyps by (simp add: unpair_at_def)
  show ?case by (rule canceling_inv [OF cancel_inv [OF cancel_one.prems] j]) (use c in auto)
next
  case (waited j d all s)
  show ?case by (rule canceling_inv [OF waited.prems waited.hyps(1)]) simp
next
  case (shut devices s rs h)
  then show ?case by (intro shut_inv) (simp_all add: closeAll_begin_def)
qed (auto intro: cancel_inv unpair_inv pair_inv invalidate_inv)


interpretation terminals: invariant_of term_init term_step term_inv
  by unfold_locales (auto intro: term_init_inv term_step_inv)

subsection \<open>Properties\<close>

text \<open>Until an unpair of a device has been cancelled through, its list holds the live sessions.\<close>

definition unpairing :: "ident \<Rightarrow> nat \<Rightarrow> tstate \<Rightarrow> bool" where
  "unpairing d r s \<longleftrightarrow> list_ex (\<lambda>p. case p of Committed e \<Rightarrow> e = d | Canceling e rs _ \<Rightarrow> e = d \<and> r \<in> set rs | Unpaired _ \<Rightarrow> False) (unpairs s)"

lemma pending_unpairing: "pending d r s \<longleftrightarrow> unpairing d r s"
proof
  assume "pending d r s"
  then show "unpairing d r s"
    unfolding pending_def unpairing_def list_ex_iff by (elim disjE exE conjE; intro bexI) simp_all
next
  assume "unpairing d r s"
  then obtain p where p: "p \<in> set (unpairs s)"
    "case p of Committed e \<Rightarrow> e = d | Canceling e rs _ \<Rightarrow> e = d \<and> r \<in> set rs | Unpaired _ \<Rightarrow> False"
    unfolding unpairing_def list_ex_iff by blast
  show "pending d r s" unfolding pending_def by (cases p) (use p in auto)
qed


text \<open>
  In every reachable state the registry counts exactly: the number kept for a user is the number
  of that user's registered terminals, at most four, and no registered terminal has finished, so
  that whoever waits for the registered ones waits for all that run.
\<close>

theorem terminal_registry_counts:
  assumes "reach term_init term_step s"
  shows "userCount u (handler s) = int (card (registered_of u (handler s))) \<and>
    card (registered_of u (handler s)) \<le> 4 \<and> (\<forall>r \<in> registered (handler s). \<not> ts_done (session r (handler s)))"
proof -
  note ok = reg_okD [OF term_invD(1) [OF terminals.reach_inv [OF assms]]]
  have "card (registered_of u (handler s)) \<le> 4" using ok(3) [of u] ok(4) [of u] by (simp add: maxTerminalsPerUser_def)
  then show ?thesis by (intro conjI ballI) (rule ok(3), assumption, erule ok(2))
qed

subsection \<open>Witnesses\<close>

definition ex_term :: tstate where
  "ex_term = \<lparr>handler = snd (admit False ''usr_1'' ''dev_1'' 0 new_handler), cancels = (\<lambda>_. 0),
     owner = [''dev_1'' \<mapsto> ''usr_1''], requests = [Running 0], unpairs = []\<rparr>"

lemma ex_term_reach: "reach term_init term_step ex_term"
proof -
  let ?s0 = "\<lparr>handler = new_handler, cancels = (\<lambda>_. 0), owner = Map.empty, requests = [], unpairs = []\<rparr>"
  let ?s1 = "?s0\<lparr>owner := [''dev_1'' \<mapsto> ''usr_1'']\<rparr>"
  let ?s2 = "?s1\<lparr>requests := [Arrived ''usr_1'' ''dev_1'']\<rparr>"
  let ?s3 = "set_req 0 (Snapped ''usr_1'' ''dev_1'' 0) ?s2"
  let ?s4 = "set_req 0 (OwnerChecked ''usr_1'' ''dev_1'' 0) ?s3"
  have "reach term_init term_step ?s0" by (rule reach_init) (simp add: term_init_def)
  moreover have "term_step ?s0 ?s1" using pair [of ?s0 "''dev_1''" "''usr_1''"] by simp
  moreover have "term_step ?s1 ?s2" using arrive [of ?s1 "''usr_1''" "''dev_1''"] by simp
  moreover have "term_step ?s2 ?s3" using snap [of 0 "''usr_1''" "''dev_1''" ?s2] by (simp add: req_at_def)
  moreover have "term_step ?s3 ?s4" by (rule check) (simp_all add: req_at_def set_req_def)
  moreover have "term_step ?s4 ex_term"
  proof -
    have "admit False ''usr_1'' ''dev_1'' (of_nat 0) (handler ?s4) = (Inr 0, snd (admit False ''usr_1'' ''dev_1'' 0 new_handler))"
      by (simp add: set_req_def admit_def new_handler_def userCount_def maxTerminalsPerUser_def)
    from admitted [OF _ this, of 0] show ?thesis by (simp add: req_at_def set_req_def ex_term_def)
  qed
  ultimately show ?thesis by (meson reach_step)
qed

lemmas ex_term_simps = ex_term_def admit_def new_handler_def userCount_def maxTerminalsPerUser_def device_sessions_def
  registered_def session_def unpairing_def


theorem terminal_registry_counts_witness:
  "card (registered_of ''usr_1'' (handler ex_term)) = 1 \<and> \<not> ts_done (session 0 (handler ex_term))"
proof -
  have "userCount ''usr_1'' (handler ex_term) = 1" "0 \<in> registered (handler ex_term)" by (simp_all add: ex_term_simps)
  with terminal_registry_counts [OF ex_term_reach, of "''usr_1''"] show ?thesis by auto
qed

end
