(* ===== verification/DeviceService.thy ===== *)
theory DeviceService
  imports AgentService Store_Props Terminal
begin

text \<open>
  \<^verbatim>\<open>internal/device/service.go\<close>: device views and the unpairing that composes the store, the agent
  service, the tunnel registry and the terminals.  A call runs in a world of \<open>AgentService\<close>, with the
  terminal handler beside it and the warnings it logs.  The three goroutines of the cleanup report
  in any order and the deadline may come before them: \<open>cleanup_event\<close> lists what the loop receives.
\<close>

datatype dev_err = ErrLifecycleUnavailable | DevAgent agent_err

datatype cleanup_component = TunnelJoin | TerminalCancel | AgentInvalidate

datatype cleanup_event = Completed cleanup_component "agent_err option" | CleanupTimeout

datatype cleanup_log = LogIncomplete ident cleanup_component string | LogTimedOut ident

record dworld =
  dw_w :: world
  dw_term :: Handler
  dw_log :: "cleanup_log list"

type_synonym 'a dev = "(dworld, dev_err, 'a) em"

record View =
  vw_Device :: Device
  vw_Online :: bool

record LifecycleOptions =
  lo_Store :: bool
  lo_Gate :: bool
  lo_Tunnel :: bool
  lo_Terminal :: bool
  lo_Agent :: bool
  lo_Online :: bool
  lo_CleanupTimeout :: duration

text \<open>Whether an online state is configured, and the cleanup timeout of the lifecycle.\<close>

record dservice =
  dv_online :: bool
  dv_lifecycle :: "duration option"

definition NewService :: "bool \<Rightarrow> dservice" where
  "NewService hasOnline = \<lparr>dv_online = hasOnline, dv_lifecycle = None\<rparr>"

definition NewLifecycleService :: "LifecycleOptions \<Rightarrow> string + dservice" where
  "NewLifecycleService opt =
     (if \<not> lo_Store opt \<or> \<not> lo_Gate opt \<or> \<not> lo_Tunnel opt \<or> \<not> lo_Terminal opt \<or> \<not> lo_Agent opt
      then Inl ''device lifecycle store, gate, tunnel, terminal, and agent are required''
      else Inr \<lparr>dv_online = lo_Online opt,
        dv_lifecycle = Some (if lo_CleanupTimeout opt \<le> 0 then 5 * second else lo_CleanupTimeout opt)\<rparr>)"

definition d_agent :: "'a agent \<Rightarrow> 'a dev" where
  "d_agent m w = (case m (dw_w w) of (r, v) \<Rightarrow> (map_sum DevAgent id r, w\<lparr>dw_w := v\<rparr>))"

definition on_mgr :: "(Manager \<Rightarrow> 'a \<times> Manager) \<Rightarrow> 'a agent" where
  "on_mgr f w0 = (let w = interfere w0; sh = w_sh w in
     case f (sh_mgr sh) of (x, m) \<Rightarrow> (Inr x, w\<lparr>w_sh := sh\<lparr>sh_mgr := m\<rparr>\<rparr>))"

subsection \<open>Views\<close>

definition is_online :: "dservice \<Rightarrow> ident \<Rightarrow> bool agent" where
  "is_online s deviceID = (if dv_online s then on_online deviceID else ereturn False)"

fun views :: "dservice \<Rightarrow> Device list \<Rightarrow> View list agent" where
  "views s [] = ereturn []"
| "views s (item # rest) =
     ebind (is_online s (d_id item)) (\<lambda>b. ebind (views s rest) (\<lambda>vs. ereturn (\<lparr>vw_Device = item, vw_Online = b\<rparr> # vs)))"

definition List :: "dservice \<Rightarrow> ident \<Rightarrow> View list dev" where
  "List s ownerUserID = d_agent (ebind (on_store (DevicesByOwner ownerUserID)) (views s))"

definition GetView :: "dservice \<Rightarrow> ident \<Rightarrow> ident \<Rightarrow> View dev" where
  "GetView s ownerUserID deviceID =
     d_agent (ebind (on_store (DeviceByOwner ownerUserID deviceID)) (\<lambda>item.
       ebind (is_online s (d_id item)) (\<lambda>b. ereturn \<lparr>vw_Device = item, vw_Online = b\<rparr>)))"

subsection \<open>Unpairing\<close>

text \<open>Waiting for the gate: the others go on, and the wait ends with the gate or with the context.\<close>

definition LockDevice :: "unit agent" where
  "LockDevice w = ebind ctxErr check (interfere w)"

definition safeCleanupError :: "agent_err \<Rightarrow> string" where
  "safeCleanupError err =
     (if err_is err (AgCtx DeadlineExceeded) then ''timeout''
      else if err_is err (AgCtx Canceled) then ''canceled'' else ''cleanup_failed'')"

text \<open>\<^verbatim>\<open>CancelDevice\<close> of the terminal handler up to its wait.\<close>

definition cancelTerminals :: "ident \<Rightarrow> Handler \<Rightarrow> Handler" where
  "cancelTerminals deviceID h = (case CancelDevice_begin deviceID h of
     (sessions, h1) \<Rightarrow> fold (\<lambda>r. upd_session r (cancel CauseInvalidated)) sessions h1)"

text \<open>The work of one goroutine; \<open>ids\<close> are the sessions \<^verbatim>\<open>InvalidateDevice\<close> finds in the map of running turns.\<close>

fun cleanup_work :: "ident list \<Rightarrow> ident \<Rightarrow> ident list \<Rightarrow> cleanup_component \<Rightarrow> dworld \<Rightarrow> dworld" where
  "cleanup_work ids deviceID sessionIDs TunnelJoin w = w"
| "cleanup_work ids deviceID sessionIDs TerminalCancel w = w\<lparr>dw_term := cancelTerminals deviceID (dw_term w)\<rparr>"
| "cleanup_work ids deviceID sessionIDs AgentInvalidate w =
     w\<lparr>dw_w := snd (InvalidateDevice ids deviceID sessionIDs (dw_w w))\<rparr>"

definition log_result :: "ident \<Rightarrow> cleanup_component \<Rightarrow> agent_err option \<Rightarrow> dworld \<Rightarrow> dworld" where
  "log_result deviceID c err w = (case err of None \<Rightarrow> w
     | Some e \<Rightarrow> w\<lparr>dw_log := dw_log w @ [LogIncomplete deviceID c (safeCleanupError e)]\<rparr>)"

text \<open>The loop, \<open>n\<close> results still to come; a list that ends early is a state in which it still waits.\<close>

fun runPostCommitCleanup ::
  "nat \<Rightarrow> ident list \<Rightarrow> ident \<Rightarrow> ident list \<Rightarrow> cleanup_event list \<Rightarrow> dworld \<Rightarrow> dworld" where
  "runPostCommitCleanup 0 ids deviceID sessionIDs evs w = w"
| "runPostCommitCleanup (Suc n) ids deviceID sessionIDs [] w = w"
| "runPostCommitCleanup (Suc n) ids deviceID sessionIDs (CleanupTimeout # evs) w =
     w\<lparr>dw_log := dw_log w @ [LogTimedOut deviceID]\<rparr>"
| "runPostCommitCleanup (Suc n) ids deviceID sessionIDs (Completed c err # evs) w =
     runPostCommitCleanup n ids deviceID sessionIDs evs
       (log_result deviceID c err (cleanup_work ids deviceID sessionIDs c w))"

definition commitUnpair :: "ident \<Rightarrow> ident \<Rightarrow> time \<Rightarrow> ident list agent" where
  "commitUnpair ownerUserID deviceID now =
     ethen LockDevice
     (ebind (on_store (UnpairDevice ownerUserID deviceID now)) (\<lambda>sessionIDs.
      ethen (svc_do (MarkDeviceRevoked deviceID sessionIDs))
      (ethen (on_mgr (DetachDevice deviceID)) (ereturn sessionIDs))))"

definition Unpair :: "dservice \<Rightarrow> ident \<Rightarrow> ident \<Rightarrow> time \<Rightarrow> ident list \<Rightarrow> cleanup_event list \<Rightarrow> unit dev" where
  "Unpair s ownerUserID deviceID now ids evs =
     (case dv_lifecycle s of
        None \<Rightarrow> ethrow ErrLifecycleUnavailable
      | Some _ \<Rightarrow> ebind (d_agent (commitUnpair ownerUserID deviceID now)) (\<lambda>sessionIDs.
          emodify (runPostCommitCleanup 3 ids deviceID sessionIDs evs)))"

subsection \<open>What the agent service keeps\<close>

lemma mark_revoked:
  "revoked (MarkDeviceRevoked v ids s) i = (if i \<in> set ids \<and> i \<noteq> [] then Some v else revoked s i)"
  unfolding MarkDeviceRevoked_def by (induction ids arbitrary: s) (auto simp: cancel_session_def)

lemma mark_running:
  "running (MarkDeviceRevoked v ids s) i =
    (if i \<in> set ids \<and> i \<noteq> [] then map_option (\<lambda>t. t\<lparr>rt_canceled := True\<rparr>) (running s i) else running s i)"
  unfolding MarkDeviceRevoked_def
  by (induction ids arbitrary: s) (auto simp: cancel_session_def option.map_comp comp_def split: option.splits)

text \<open>Tombstones of a device stay, no turn starts and no cancellation is taken back.\<close>

definition svc_le :: "ident \<Rightarrow> Service \<Rightarrow> Service \<Rightarrow> bool" where
  "svc_le v s s' \<longleftrightarrow> (\<forall>i. revoked s i = Some v \<longrightarrow> revoked s' i = Some v) \<and> dom (revoked s) \<subseteq> dom (revoked s') \<and>
     (\<forall>i t'. running s' i = Some t' \<longrightarrow> (\<exists>t. running s i = Some t \<and> (rt_canceled t \<longrightarrow> rt_canceled t')))"

lemma svc_le_refl [simp]: "svc_le v s s"
  by (simp add: svc_le_def)

lemma svc_le_trans: "svc_le v s t \<Longrightarrow> svc_le v t u \<Longrightarrow> svc_le v s u"
  unfolding svc_le_def by (metis order_trans)

lemma mark_le: "svc_le v s (MarkDeviceRevoked v ids s)"
  by (auto simp: svc_le_def mark_revoked mark_running split: if_splits)

lemma cancel_session_le: "svc_le v s (cancel_session i s)"
  by (auto simp: svc_le_def cancel_session_def split: option.splits if_splits)

lemma cancel_sessions_le: "svc_le v s (fold cancel_session is s)"
  by (induction "is" arbitrary: s) (auto intro: svc_le_trans cancel_session_le)

text \<open>With nobody interfering; and with others that keep the tombstones.\<close>

definition quiet_le :: "ident \<Rightarrow> world \<Rightarrow> world \<Rightarrow> bool" where
  "quiet_le v w w' \<longleftrightarrow> (w_env w = [] \<longrightarrow> w_env w' = [] \<and> sh_db (w_sh w') = sh_db (w_sh w) \<and>
     sh_mgr (w_sh w') = sh_mgr (w_sh w) \<and> svc_le v (sh_svc (w_sh w)) (sh_svc (w_sh w')))"

definition keeps_tombstones :: "world \<Rightarrow> bool" where
  "keeps_tombstones w \<longleftrightarrow> (\<forall>f \<in> set (w_env w). \<forall>sh. dom (revoked (sh_svc sh)) \<subseteq> dom (revoked (sh_svc (f sh))))"

definition tombs_le :: "world \<Rightarrow> world \<Rightarrow> bool" where
  "tombs_le w w' \<longleftrightarrow> (keeps_tombstones w \<longrightarrow> keeps_tombstones w' \<and> dom (revoked (sh_svc (w_sh w))) \<subseteq> dom (revoked (sh_svc (w_sh w'))))"

interpretation qle: step_order "quiet_le v" for v
  by unfold_locales (auto simp: quiet_le_def intro: svc_le_trans)

interpretation tle: step_order tombs_le
  by unfold_locales (auto simp: tombs_le_def)

lemma interfere_le: "quiet_le v w (interfere w)" "tombs_le w (interfere w)"
  by (auto simp: quiet_le_def tombs_le_def keeps_tombstones_def interfere_def split: list.split)

lemma on_svc_le:
  assumes "\<And>s. svc_le v s (snd (f s))"
  shows "moves (quiet_le v) (on_svc f)" "moves tombs_le (on_svc f)"
proof -
  have step: "snd (on_svc f w) = (interfere w)\<lparr>w_sh := (w_sh (interfere w))\<lparr>sh_svc := snd (f (sh_svc (w_sh (interfere w))))\<rparr>\<rparr>" for w
    by (simp add: on_svc_def Let_def split: prod.split)
  have upd: "quiet_le v w (w\<lparr>w_sh := (w_sh w)\<lparr>sh_svc := snd (f (sh_svc (w_sh w)))\<rparr>\<rparr>)"
      "tombs_le w (w\<lparr>w_sh := (w_sh w)\<lparr>sh_svc := snd (f (sh_svc (w_sh w)))\<rparr>\<rparr>)" for w
    using assms [of "sh_svc (w_sh w)"] by (auto simp: quiet_le_def tombs_le_def keeps_tombstones_def svc_le_def)
  show "moves (quiet_le v) (on_svc f)" "moves tombs_le (on_svc f)"
    by (rule movesI, unfold step, blast intro: qle.R_trans tle.R_trans interfere_le upd)+
qed

lemma svc_do_le:
  assumes "\<And>s. svc_le v s (f s)"
  shows "moves (quiet_le v) (svc_do f)" "moves tombs_le (svc_do f)"
  unfolding svc_do_def using assms by (auto intro!: on_svc_le [where v = v])

lemma close_hub_le: "svc_le v s (s\<lparr>hub := h\<rparr>)"
  by (simp add: svc_le_def)

lemma close_hubs_le:
  "moves (quiet_le v) (foldr (\<lambda>i m. ethen (svc_do (\<lambda>s. s\<lparr>hub := closeSession i (hub s)\<rparr>)) m) is (ereturn ()))"
  "moves tombs_le (foldr (\<lambda>i m. ethen (svc_do (\<lambda>s. s\<lparr>hub := closeSession i (hub s)\<rparr>)) m) is (ereturn ()))"
  by (induction "is") (auto intro!: qle.moves_rules tle.moves_rules svc_do_le close_hub_le)

lemma InvalidateDevice_le:
  "moves (quiet_le v) (InvalidateDevice ids v sids)" "moves tombs_le (InvalidateDevice ids v sids)"
proof -
  have rd: "svc_le v s (snd (Inr (filter (\<lambda>i. running s i \<noteq> None \<and> revoked s i = Some v) ids), s))" for s by simp
  note steps = svc_do_le [OF mark_le] on_svc_le [OF rd] svc_do_le [OF cancel_sessions_le] close_hubs_le
  show "moves (quiet_le v) (InvalidateDevice ids v sids)" unfolding InvalidateDevice_def
    by (intro qle.moves_rules steps)
  show "moves tombs_le (InvalidateDevice ids v sids)" unfolding InvalidateDevice_def
    by (intro tle.moves_rules steps)
qed

text \<open>The cleanup loop keeps what the goroutines keep.\<close>

lemma cleanup_work_le:
  "quiet_le v (dw_w w) (dw_w (cleanup_work ids v sids c w))" "tombs_le (dw_w w) (dw_w (cleanup_work ids v sids c w))"
  by (cases c; simp add: qle.R_refl tle.R_refl movesD [OF InvalidateDevice_le(1)] movesD [OF InvalidateDevice_le(2)])+

lemma log_result_w [simp]: "dw_w (log_result v c err w) = dw_w w" "dw_term (log_result v c err w) = dw_term w"
  by (simp_all add: log_result_def split: option.split)

lemma cleanup_le:
  "quiet_le v (dw_w w) (dw_w (runPostCommitCleanup n ids v sids evs w))"
  "tombs_le (dw_w w) (dw_w (runPostCommitCleanup n ids v sids evs w))"
proof (induction n ids v sids evs w rule: runPostCommitCleanup.induct)
  case (4 n ids v sids c err evs w)
  { case 1 show ?case using qle.R_trans [OF cleanup_work_le(1) "4.IH"(1) [unfolded log_result_w]] by simp }
  { case 2 show ?case using tle.R_trans [OF cleanup_work_le(2) "4.IH"(2) [unfolded log_result_w]] by simp }
qed (simp_all add: qle.R_refl tle.R_refl)

subsection \<open>The terminals\<close>

lemma cancel_all_cause:
  "r < length (th_sessions h) \<Longrightarrow>
    ts_cause (session r (fold (\<lambda>q. upd_session q (cancel c)) rs h)) = None \<longleftrightarrow>
    ts_cause (session r h) = None \<and> r \<notin> set rs"
proof (induction rs arbitrary: h)
  case (Cons q rs)
  then show ?case by (auto simp: upd_session_nth cancel_def split: option.splits)
qed simp

lemma cancel_all_fields:
  "length (th_sessions (fold (\<lambda>q. upd_session q (cancel c)) rs h)) = length (th_sessions h)"
  "generations (fold (\<lambda>q. upd_session q (cancel c)) rs h) = generations h"
  "device_sessions e (fold (\<lambda>q. upd_session q (cancel c)) rs h) = device_sessions e h"
  by (induction rs arbitrary: h) simp_all

definition canceled_terminals :: "ident \<Rightarrow> Handler \<Rightarrow> bool" where
  "canceled_terminals v h \<longleftrightarrow> list_all (\<lambda>r. ts_cause (session r h) \<noteq> None) (device_sessions v h)"

lemma cancelTerminals_cause:
  assumes "\<forall>r \<in> set (device_sessions v h). r < length (th_sessions h)"
  shows "canceled_terminals v (cancelTerminals v h)" "device_sessions e (cancelTerminals v h) = device_sessions e h"
    "length (th_sessions (cancelTerminals v h)) = length (th_sessions h)"
proof -
  let ?h = "h\<lparr>generations := (generations h)(v := generations h v + 1)\<rparr>"
  have e: "cancelTerminals v h = fold (\<lambda>r. upd_session r (cancel CauseInvalidated)) (device_sessions v h) ?h"
    by (simp add: cancelTerminals_def CancelDevice_begin_def)
  have d: "device_sessions e ?h = device_sessions e h" for e by (simp add: device_sessions_def)
  have "ts_cause (session r (cancelTerminals v h)) \<noteq> None" if "r \<in> set (device_sessions v h)" for r
    unfolding e using that assms by (subst cancel_all_cause) simp_all
  then show "canceled_terminals v (cancelTerminals v h)"
    by (simp add: canceled_terminals_def list_all_iff e cancel_all_fields d)
  show "device_sessions e (cancelTerminals v h) = device_sessions e h"
    "length (th_sessions (cancelTerminals v h)) = length (th_sessions h)" by (simp_all add: e cancel_all_fields d)
qed

text \<open>A goroutine reports among the \<open>n\<close> results and before the deadline.\<close>

fun completes :: "nat \<Rightarrow> cleanup_component \<Rightarrow> cleanup_event list \<Rightarrow> bool" where
  "completes (Suc n) c (Completed d err # evs) \<longleftrightarrow> c = d \<or> completes n c evs"
| "completes _ c _ \<longleftrightarrow> False"

lemma cleanup_terminals:
  assumes "\<forall>r \<in> set (device_sessions v (dw_term w)). r < length (th_sessions (dw_term w))"
    and "canceled_terminals v (dw_term w) \<or> completes n TerminalCancel evs"
  shows "canceled_terminals v (dw_term (runPostCommitCleanup n ids v sids evs w))"
  using assms
proof (induction n ids v sids evs w rule: runPostCommitCleanup.induct)
  case (4 n ids v sids c err evs w)
  show ?case
  proof (cases "c = TerminalCancel")
    case True
    show ?thesis unfolding runPostCommitCleanup.simps True
      by (rule "4.IH" [unfolded True]) (use cancelTerminals_cause [OF "4.prems"(1)] "4.prems"(1) in simp_all)
  next
    case False
    then have "dw_term (cleanup_work ids v sids c w) = dw_term w" by (cases c) simp_all
    then show ?thesis using "4.IH" "4.prems" False by simp
  qed
qed simp_all

subsection \<open>Properties\<close>

lemma map_sum_Inr [simp]: "map_sum f id r = Inr x \<longleftrightarrow> r = Inr x" "map_sum f id r = Inl e \<longleftrightarrow> (\<exists>e0. r = Inl e0 \<and> e = f e0)"
  by (cases r; auto)+

lemma on_store_quiet: "w_env w = [] \<Longrightarrow> on_store m w =
    (map_sum AgStore id (fst (m (sh_db (w_sh w)))), w\<lparr>w_sh := (w_sh w)\<lparr>sh_db := snd (m (sh_db (w_sh w)))\<rparr>\<rparr>)"
  by (simp add: on_store_def Let_def interfere_def split: prod.split)

lemma svc_do_quiet: "w_env w = [] \<Longrightarrow> svc_do f w = (Inr (), w\<lparr>w_sh := (w_sh w)\<lparr>sh_svc := f (sh_svc (w_sh w))\<rparr>\<rparr>)"
  by (simp add: svc_do_def on_svc_def Let_def interfere_def)

lemma on_mgr_quiet: "w_env w = [] \<Longrightarrow> on_mgr f w =
    (Inr (fst (f (sh_mgr (w_sh w)))), w\<lparr>w_sh := (w_sh w)\<lparr>sh_mgr := snd (f (sh_mgr (w_sh w)))\<rparr>\<rparr>)"
  by (simp add: on_mgr_def Let_def interfere_def split: prod.split)

lemma lock_quiet: "w_env w = [] \<Longrightarrow> w_sh (snd (LockDevice w)) = w_sh w \<and> w_env (snd (LockDevice w)) = []"
  by (simp add: LockDevice_def interfere_def ctxErr_def check_def em_simps split: list.split option.split prod.split)

text \<open>The commit with nobody interfering.\<close>

lemma commit_quiet:
  assumes c: "commitUnpair u v now w = (Inr sids, w')" and e: "w_env w = []"
  shows "\<exists>st. UnpairDevice u v now (sh_db (w_sh w)) = (Inr sids, st) \<and> w_env w' = [] \<and> sh_db (w_sh w') = st \<and>
    sh_svc (w_sh w') = MarkDeviceRevoked v sids (sh_svc (w_sh w)) \<and> sh_mgr (w_sh w') = snd (DetachDevice v (sh_mgr (w_sh w)))"
proof -
  obtain x w1 where l: "LockDevice w = (Inr x, w1)" and
    k: "ebind (on_store (UnpairDevice u v now)) (\<lambda>sids. ethen (svc_do (MarkDeviceRevoked v sids))
      (ethen (on_mgr (DetachDevice v)) (ereturn sids))) w1 = (Inr sids, w')"
    using c unfolding commitUnpair_def by (rule ebind_InrE)
  have w1: "w_env w1 = []" "w_sh w1 = w_sh w" using lock_quiet [OF e] l by simp_all
  show ?thesis using k w1
    by (cases "UnpairDevice u v now (sh_db (w_sh w))")
      (auto simp: em_simps on_store_quiet svc_do_quiet on_mgr_quiet split: sum.splits)
qed

lemma Unpair_InrE:
  assumes "Unpair s u v now ids evs w = (Inr (), w')"
  obtains sids w1 where "commitUnpair u v now (dw_w w) = (Inr sids, w1)"
    "w' = runPostCommitCleanup 3 ids v sids evs (w\<lparr>dw_w := w1\<rparr>)"
  using assms by (auto simp: Unpair_def em_simps d_agent_def split: option.splits prod.splits sum.splits)

text \<open>
  C35: Unpairing a device with nobody interfering leaves nothing of the old owner behind: the device
  has no owner, each of the owner's agent sessions on it is revoked in the store and marked in the
  service, its running turn is cancelled, the device is offline, and once the terminal goroutine has
  reported before the deadline every terminal on the device is cancelled.
\<close>

theorem unpair_effect:
  assumes "Unpair s u v now ids evs w = (Inr (), w')" and "w_env (dw_w w) = []"
    and "store_inv (tables (sh_db (w_sh (dw_w w))))" and "reg_ok (dw_term w)"
  shows "(\<forall>r \<in> set (devices (tables (sh_db (w_sh (dw_w w'))))). d_id r = v \<longrightarrow> d_owner_user_id r = None) \<and>
    (\<forall>a \<in> set (agent_sessions (tables (sh_db (w_sh (dw_w w'))))). session_of u v a \<longrightarrow> as_state a = AgentSessionRevoked) \<and>
    (\<forall>a \<in> set (agent_sessions (tables (sh_db (w_sh (dw_w w))))). session_of u v a \<and> as_id a \<noteq> [] \<longrightarrow>
      revoked (sh_svc (w_sh (dw_w w'))) (as_id a) = Some v \<and>
      (\<forall>t. running (sh_svc (w_sh (dw_w w'))) (as_id a) = Some t \<longrightarrow> rt_canceled t)) \<and>
    \<not> IsOnline v (sh_mgr (w_sh (dw_w w'))) \<and>
    (completes 3 TerminalCancel evs \<longrightarrow> canceled_terminals v (dw_term w'))"
proof -
  let ?sh = "w_sh (dw_w w)"
  from assms(1) obtain sids w1 where c: "commitUnpair u v now (dw_w w) = (Inr sids, w1)"
    and w': "w' = runPostCommitCleanup 3 ids v sids evs (w\<lparr>dw_w := w1\<rparr>)" by (rule Unpair_InrE)
  from commit_quiet [OF c assms(2)] obtain st where un: "UnpairDevice u v now (sh_db ?sh) = (Inr sids, st)"
    and w1: "w_env w1 = []" "sh_db (w_sh w1) = st" "sh_svc (w_sh w1) = MarkDeviceRevoked v sids (sh_svc ?sh)"
      "sh_mgr (w_sh w1) = snd (DetachDevice v (sh_mgr ?sh))" by blast
  have "quiet_le v w1 (dw_w w')" unfolding w' using cleanup_le(1) [of v "w\<lparr>dw_w := w1\<rparr>"] by simp
  then have fin: "sh_db (w_sh (dw_w w')) = st" "sh_mgr (w_sh (dw_w w')) = snd (DetachDevice v (sh_mgr ?sh))"
    "svc_le v (MarkDeviceRevoked v sids (sh_svc ?sh)) (sh_svc (w_sh (dw_w w')))" using w1 by (simp_all add: quiet_le_def)
  note ok = unpair_success [OF un]
  have sch: "schema_ok (tables (sh_db ?sh))" using assms(3) by (simp add: store_inv_def)
  have 1: "d_owner_user_id r = None" if "r \<in> set (devices (tables st))" "d_id r = v" for r
    using that(1) ok unfolding tab_unpaired
    by (auto elim!: upd_rowsE dest: unpaired_owner [OF sch] simp: that(2) tab_unpaired)
  have 2: "as_state a = AgentSessionRevoked" if "a \<in> set (agent_sessions (tables st))" "session_of u v a" for a
    using that ok by (auto simp: tab_unpaired elim!: upd_rowsE)
  have 3: "revoked (sh_svc (w_sh (dw_w w'))) (as_id a) = Some v \<and>
      (\<forall>t. running (sh_svc (w_sh (dw_w w'))) (as_id a) = Some t \<longrightarrow> rt_canceled t)"
    if "a \<in> set (agent_sessions (tables (sh_db ?sh)))" "session_of u v a" "as_id a \<noteq> []" for a
  proof -
    have i: "as_id a \<in> set sids" using that ok by (auto simp: revoked_ids_def)
    show ?thesis using fin(3) i that(3) unfolding svc_le_def by (fastforce simp: mark_revoked mark_running)
  qed
  have 4: "\<not> IsOnline v (snd (DetachDevice v (sh_mgr ?sh)))"
    by (auto simp: DetachDevice_def IsOnline_def Get_def upd_conn_def split: option.splits)
  have 5: "canceled_terminals v (dw_term w')" if "completes 3 TerminalCancel evs"
    unfolding w' by (rule cleanup_terminals) (use reg_okD(1) [OF assms(4)] that in auto)
  show ?thesis unfolding fin(1,2) using 1 2 3 4 5 by blast
qed

text \<open>The other steps of an unpairing keep the tombstones as well.\<close>

lemma tombs_same:
  assumes "tombs_le w v" and "w_env t = w_env v" and "sh_svc (w_sh t) = sh_svc (w_sh v)"
  shows "tombs_le w t"
  using assms by (simp add: tombs_le_def keeps_tombstones_def)

lemma other_steps_tombs:
  "moves tombs_le LockDevice" "moves tombs_le (on_store m)" "moves tombs_le (on_mgr f)"
  by (rule movesI, rule tombs_same [OF interfere_le(2)],
      simp_all add: LockDevice_def on_store_def on_mgr_def ctxErr_def check_def em_simps Let_def
      split: prod.split list.split option.split)+

text \<open>Where an unpairing commits, and that its marks are set when it has.\<close>

lemma commit_marks:
  assumes c: "commitUnpair u v now w = (Inr sids, w')" and e: "keeps_tombstones w"
  obtains st st' where "UnpairDevice u v now st = (Inr sids, st')" "set sids - {[]} \<subseteq> dom (revoked (sh_svc (w_sh w')))"
    "keeps_tombstones w'"
proof -
  from c obtain x1 w1 where l: "LockDevice w = (Inr x1, w1)" and
    k: "ebind (on_store (UnpairDevice u v now)) (\<lambda>sids. ethen (svc_do (MarkDeviceRevoked v sids))
      (ethen (on_mgr (DetachDevice v)) (ereturn sids))) w1 = (Inr sids, w')"
    unfolding commitUnpair_def by (rule ebind_InrE)
  from k obtain ids' w2 where o: "on_store (UnpairDevice u v now) w1 = (Inr ids', w2)" and
    k2: "ethen (svc_do (MarkDeviceRevoked v ids')) (ethen (on_mgr (DetachDevice v)) (ereturn ids')) w2 = (Inr sids, w')"
    by (rule ebind_InrE)
  from k2 obtain x3 w3 where m: "svc_do (MarkDeviceRevoked v ids') w2 = (Inr x3, w3)" and
    k3: "ethen (on_mgr (DetachDevice v)) (ereturn ids') w3 = (Inr sids, w')" by (rule ebind_InrE)
  from k3 obtain x4 where d: "on_mgr (DetachDevice v) w3 = (Inr x4, w')" and same: "ids' = sids"
    by (rule ebind_InrE) (simp add: em_simps)
  obtain st' where un: "UnpairDevice u v now (sh_db (w_sh (interfere w1))) = (Inr sids, st')"
    using o same by (auto simp: on_store_def Let_def split: prod.splits)
  note le = moves_result [OF other_steps_tombs(1) l] moves_result [OF other_steps_tombs(2) o]
    moves_result [OF svc_do_le(2) [OF mark_le] m] moves_result [OF other_steps_tombs(3) d]
  have marked: "set sids - {[]} \<subseteq> dom (revoked (sh_svc (w_sh w3)))"
    using m same by (auto simp: svc_do_def on_svc_def Let_def mark_revoked)
  have "keeps_tombstones w'" "dom (revoked (sh_svc (w_sh w3))) \<subseteq> dom (revoked (sh_svc (w_sh w')))"
    using le e by (simp_all add: tombs_le_def)
  with un marked show ?thesis by (meson order_trans that)
qed

text \<open>
  Unpairing marks the sessions of the old owner even while others use the service: whatever the
  other callers do between its steps, as long as they take no mark away, at its return every agent
  session the owner had on the device when the unpairing committed is marked in the service.
\<close>

theorem unpair_tombstones:
  assumes "Unpair s u v now ids evs w = (Inr (), w')" and "keeps_tombstones (dw_w w)"
  shows "\<exists>st st' sids. UnpairDevice u v now st = (Inr sids, st') \<and>
    (\<forall>a \<in> set (agent_sessions (tables st)). session_of u v a \<and> as_id a \<noteq> [] \<longrightarrow>
      revoked (sh_svc (w_sh (dw_w w'))) (as_id a) \<noteq> None)"
proof -
  from assms(1) obtain sids w1 where c: "commitUnpair u v now (dw_w w) = (Inr sids, w1)"
    and w': "w' = runPostCommitCleanup 3 ids v sids evs (w\<lparr>dw_w := w1\<rparr>)" by (rule Unpair_InrE)
  from c assms(2) obtain st st' where un: "UnpairDevice u v now st = (Inr sids, st')"
    and m: "set sids - {[]} \<subseteq> dom (revoked (sh_svc (w_sh w1)))" and kt: "keeps_tombstones w1" by (rule commit_marks)
  have "tombs_le w1 (dw_w w')" unfolding w' using cleanup_le(2) [of "w\<lparr>dw_w := w1\<rparr>"] by simp
  with m kt have "set sids - {[]} \<subseteq> dom (revoked (sh_svc (w_sh (dw_w w'))))" by (auto simp: tombs_le_def)
  moreover have "as_id a \<in> set sids" if "a \<in> set (agent_sessions (tables st))" "session_of u v a" for a
    using unpair_success [OF un] that by (simp add: revoked_ids_def)
  ultimately show ?thesis using un by blast
qed

text \<open>
  An unpairing that fails, because the wait for the gate was cancelled, the device is not the
  caller's or the transaction failed, changes nothing: neither the tables nor the service, the
  registry or the terminals.
\<close>

theorem unpair_failure_harmless:
  assumes "Unpair s u v now ids evs w = (Inl e, w')" and "w_env (dw_w w) = []"
  shows "tables (sh_db (w_sh (dw_w w'))) = tables (sh_db (w_sh (dw_w w))) \<and>
    sh_svc (w_sh (dw_w w')) = sh_svc (w_sh (dw_w w)) \<and> sh_mgr (w_sh (dw_w w')) = sh_mgr (w_sh (dw_w w)) \<and>
    dw_term w' = dw_term w \<and> dw_log w' = dw_log w"
proof (cases "dv_lifecycle s")
  case (Some c)
  then obtain e0 w1 where c: "commitUnpair u v now (dw_w w) = (Inl e0, w1)" and w': "w' = w\<lparr>dw_w := w1\<rparr>"
    using assms(1) by (auto simp: Unpair_def em_simps d_agent_def split: prod.splits sum.splits)
  obtain r w0 where l: "LockDevice (dw_w w) = (r, w0)" by fastforce
  have w0: "w_env w0 = []" "w_sh w0 = w_sh (dw_w w)" using lock_quiet [OF assms(2)] l by simp_all
  have un: "tables y = tables x" if "UnpairDevice u v now x = (Inl e1, y)" for x y e1
    using that unfolding UnpairDevice_def by (rule tx_error_unchanged)
  show ?thesis using c l w0
    by (cases r; cases "UnpairDevice u v now (sh_db (w_sh (dw_w w)))")
      (auto simp: w' commitUnpair_def em_simps on_store_quiet svc_do_quiet on_mgr_quiet split: sum.splits dest: un)
qed (use assms in \<open>simp add: Unpair_def em_simps\<close>)

subsection \<open>Witnesses\<close>

definition dx_service :: Service where
  "dx_service = \<lparr>adapters = Map.empty, provider = ''fake'', hub = newEventHub 0, rootCanceled = False,
     running = [''ses_1'' \<mapsto> \<lparr>rt_deviceID = ''dev_1'', rt_userID = ''usr_1'', rt_canceled = False\<rparr>], configuring = {},
     pending = Map.empty, revoked = Map.empty, archived = Map.empty, s_shut = False, mutations = 0, turns = 1\<rparr>"

definition dx_world :: "ctx_err option list \<Rightarrow> dworld" where
  "dx_world ctx = \<lparr>dw_w = \<lparr>w_sh = \<lparr>sh_db = ex_st, sh_svc = dx_service, sh_mgr = ex_first\<rparr>, w_env = [], w_rand = [], w_clock = [],
       w_ctx = ctx, w_waits = [], w_execs = []\<rparr>, dw_term = handler ex_term, dw_log = []\<rparr>"

definition dx_unpair :: "ctx_err option list \<Rightarrow> (dev_err + unit) \<times> dworld" where
  "dx_unpair ctx = Unpair \<lparr>dv_online = True, dv_lifecycle = Some 5\<rparr> ''usr_1'' ''dev_1'' 8 [''ses_1'']
     [Completed TunnelJoin None, Completed TerminalCancel None, Completed AgentInvalidate None] (dx_world ctx)"

lemma dx_env: "w_env (dw_w (dx_world ctx)) = []"
  by (simp add: dx_world_def)

lemma Unpair_commits:
  assumes "dv_lifecycle s = Some t" and "w_env (dw_w w) = []" and "w_ctx (dw_w w) = []"
    and "UnpairDevice u v now (sh_db (w_sh (dw_w w))) = (Inr sids, st)"
  shows "Unpair s u v now ids evs w = (Inr (), snd (Unpair s u v now ids evs w))"
proof -
  have "LockDevice (dw_w w) = (Inr (), dw_w w)"
    using assms(2,3) by (simp add: LockDevice_def interfere_def ctxErr_def check_def em_simps)
  then have "fst (commitUnpair u v now (dw_w w)) = Inr sids"
    using assms(2,4) by (simp add: commitUnpair_def em_simps on_store_quiet svc_do_quiet on_mgr_quiet)
  then show ?thesis using assms(1)
    by (cases "commitUnpair u v now (dw_w w)") (simp add: Unpair_def em_simps d_agent_def)
qed

lemma dx_unpair_ok: "dx_unpair [] = (Inr (), snd (dx_unpair []))"
  unfolding dx_unpair_def
  by (rule Unpair_commits [where sids = "[''ses_1'']" and st = "snd (UnpairDevice ''usr_1'' ''dev_1'' 8 ex_st)"])
    (simp_all add: dx_world_def ex_unpair_ok [symmetric])

lemma dx_term_ok: "reg_ok (dw_term (dx_world ctx))"
  using term_invD(1) [OF terminals.reach_inv [OF ex_term_reach]] by (simp add: dx_world_def)

lemma dx_session: "\<exists>a \<in> set (agent_sessions ex_db). as_id a = ''ses_1'' \<and> session_of ''usr_1'' ''dev_1'' a"
  by (simp add: ex_db_def session_of_def)

theorem unpair_effect_witness:
  "\<exists>w'. dx_unpair [] = (Inr (), w') \<and> revoked (sh_svc (w_sh (dw_w w'))) ''ses_1'' = Some ''dev_1'' \<and>
    \<not> IsOnline ''dev_1'' (sh_mgr (w_sh (dw_w w'))) \<and> canceled_terminals ''dev_1'' (dw_term w')"
proof -
  have inv: "store_inv (tables (sh_db (w_sh (dw_w (dx_world [])))))" using ex_inv by (simp add: dx_world_def)
  have db: "tables (sh_db (w_sh (dw_w (dx_world [])))) = ex_db" by (simp add: dx_world_def)
  note eff = unpair_effect [OF dx_unpair_ok [unfolded dx_unpair_def] dx_env inv dx_term_ok, folded dx_unpair_def, unfolded db]
  obtain a where "a \<in> set (agent_sessions ex_db)" "as_id a = ''ses_1''" "session_of ''usr_1'' ''dev_1'' a" using dx_session by blast
  then have "revoked (sh_svc (w_sh (dw_w (snd (dx_unpair []))))) ''ses_1'' = Some ''dev_1''" using eff by (metis list.distinct(1))
  moreover have "canceled_terminals ''dev_1'' (dw_term (snd (dx_unpair [])))" using eff by (simp add: numeral_3_eq_3)
  ultimately show ?thesis using eff dx_unpair_ok by blast
qed

theorem unpair_tombstones_witness:
  "\<exists>w'. dx_unpair [] = (Inr (), w') \<and> (\<exists>st st' sids. UnpairDevice ''usr_1'' ''dev_1'' 8 st = (Inr sids, st') \<and>
    (\<forall>a \<in> set (agent_sessions (tables st)). session_of ''usr_1'' ''dev_1'' a \<and> as_id a \<noteq> [] \<longrightarrow>
      revoked (sh_svc (w_sh (dw_w w'))) (as_id a) \<noteq> None))"
proof -
  have "keeps_tombstones (dw_w (dx_world []))" by (simp add: keeps_tombstones_def dx_env)
  from unpair_tombstones [OF dx_unpair_ok [unfolded dx_unpair_def] this] dx_unpair_ok
  show ?thesis unfolding dx_unpair_def by blast
qed

theorem unpair_failure_harmless_witness:
  "\<exists>e w'. dx_unpair [Some Canceled] = (Inl e, w') \<and> tables (sh_db (w_sh (dw_w w'))) = ex_db"
proof -
  have f: "dx_unpair [Some Canceled] = (Inl (DevAgent (AgCtx Canceled)), snd (dx_unpair [Some Canceled]))"
    by (rule prod_eqI) (simp_all add: dx_unpair_def dx_world_def Unpair_def d_agent_def commitUnpair_def LockDevice_def
        em_simps interfere_def ctxErr_def check_def)
  from unpair_failure_harmless [OF f [unfolded dx_unpair_def] dx_env] f show ?thesis
    unfolding dx_unpair_def by (auto simp: dx_world_def)
qed

end
