(* ===== verification/OpenCodeSse.thy ===== *)
theory OpenCodeSse
  imports AgentTypes GoJson "HOL-Library.AList" "HOL-Library.Code_Target_Nat"
begin

text \<open>
  \<^verbatim>\<open>internal/opencode/sse.go\<close>: the event stream of the OpenCode sidecar.  \<open>scan\<close> is the line scanner
  over what successive reads return, \<open>consumeEvents\<close> collects records and gives them to the
  tracker, a state machine that decides which text belongs to the answer of the current prompt.

  \<^verbatim>\<open>encoding/json\<close> enters as the results of its decoder, the Unicode table behind \<^verbatim>\<open>strings.ToLower\<close>
  as a function on the runes outside ASCII.  \<open>tk_dispatched\<close>, \<open>tk_ctx\<close> and \<open>tk_sink\<close> list what the
  \<^verbatim>\<open>select\<close> on \<^verbatim>\<open>dispatched\<close>, \<^verbatim>\<open>ctx.Err()\<close> and the calls of the sink return (an empty list: dispatched,
  no error), \<open>tk_calls\<close> the calls of the sink.  \<open>tk_shown\<close> is a history variable: for each piece of
  text given to the sink its family, message and part.
\<close>

subsection \<open>Text\<close>

definition maximumMessageRoles :: nat where "maximumMessageRoles = 512"
definition maximumPendingParts :: int where "maximumPendingParts = 512"
definition maximumSSERecordBytes :: nat where "maximumSSERecordBytes = 256 * 1024"
definition maximumSSELineBytes :: nat where "maximumSSELineBytes = maximumSSERecordBytes + 6"
definition maximumEventIDs :: nat where "maximumEventIDs = 2048"
definition maximumTextParts :: nat where "maximumTextParts = 512"

text \<open>\<^verbatim>\<open>strings.ToLower\<close>; U+0130 and U+212A have ASCII lower cases.\<close>

definition lower_chunk :: "(string \<Rightarrow> string) \<Rightarrow> string \<Rightarrow> string" where
  "lower_chunk table c =
     (if 65 \<le> rune_of c \<and> rune_of c \<le> 90 then [char_of (rune_of c + 32)]
      else if rune_of c < 128 then c
      else if rune_of c = 304 then ''i'' else if rune_of c = 8490 then ''k''
      else table (rune_bytes c))"

definition ToLower :: "(string \<Rightarrow> string) \<Rightarrow> string \<Rightarrow> string" where
  "ToLower table s = concat (map (lower_chunk table) (chunks s))"

fun Contains :: "string \<Rightarrow> string \<Rightarrow> bool" where
  "Contains [] sub \<longleftrightarrow> sub = []"
| "Contains (c # s) sub \<longleftrightarrow> HasPrefix (c # s) sub \<or> Contains s sub"

definition ContainsNUL :: "string \<Rightarrow> bool" where
  "ContainsNUL s \<longleftrightarrow> CHR 0x00 \<in> set s"

definition protocolError :: "string \<Rightarrow> agent_err" where
  "protocolError message = AgAdapter ''protocol_error'' (AgOther message)"

definition validEventIdentity :: "string \<Rightarrow> bool" where
  "validEventIdentity v \<longleftrightarrow> v \<noteq> [] \<and> length v \<le> 512 \<and> ValidString v \<and> \<not> ContainsNUL v"

definition validSessionIdentity :: "string \<Rightarrow> bool" where
  "validSessionIdentity v \<longleftrightarrow> length v \<le> 512 \<and> ValidString v \<and> \<not> ContainsNUL v"

definition partKey :: "string \<Rightarrow> string \<Rightarrow> string" where
  "partKey messageID partID = (if messageID = [] \<or> partID = [] then [] else messageID @ [CHR 0x00] @ partID)"

subsection \<open>Events and state\<close>

record providerEvent =
  ev_ID :: string
  ev_Type :: string
  ev_Properties :: string

record messageInfo =
  mi_ID :: string
  mi_SessionID :: string
  mi_Role :: string
  mi_ParentID :: string
  mi_Finish :: string
  mi_Error :: string

record messagePart =
  mp_ID :: string
  mp_SessionID :: string
  mp_MessageID :: string
  mp_Type :: string
  mp_Text :: string
  mp_Role :: string

record eventProperties =
  ep_SessionID :: string
  ep_MessageID :: string
  ep_PartID :: string
  ep_Field :: string
  ep_Delta :: string
  ep_Status :: string
  ep_Info :: "messageInfo option"
  ep_Part :: "messagePart option"
  ep_Error :: string
  ep_AssistantMessageID :: string
  ep_TextID :: string

record textPart =
  tp_text :: string
  tp_kind :: string

record pendingText =
  pe_family :: string
  pe_partID :: string
  pe_kind :: string
  pe_full :: "string option"
  pe_delta :: string

datatype sink_call = SinkText string | SinkReasoning string | SinkState string

record eventTracker =
  externalSessionID :: string
  promptMessageID :: string
  armed :: bool
  promptSeen :: bool
  assistantActivity :: bool
  assistantFinal :: bool
  idleObserved :: bool
  seenIDs :: "string list"
  messageRoles :: "(string \<times> string) list"
  messageParents :: "string \<Rightarrow> string"      \<comment> \<open>a missing key reads as the empty string, here and below\<close>
  currentAssistants :: "string set"
  firstTextFamily :: "string \<Rightarrow> string"
  fallbackFamily :: "string \<Rightarrow> string"
  families :: "string \<Rightarrow> string"
  parts :: "(string \<times> textPart) list"
  tk_pending :: "(string \<times> pendingText list) list"
  pendingRecords :: int
  pendingBytes :: int
  tk_dispatched :: "bool list"
  tk_ctx :: "ctx_err option list"
  tk_sink :: "agent_err option list"
  tk_calls :: "sink_call list"
  tk_shown :: "(string \<times> string \<times> string \<times> string) list"

type_synonym 'a trk = "(eventTracker, agent_err, 'a) em"

record sse_lib =
  jd_event :: "string \<Rightarrow> (providerEvent \<times> string) option"    \<comment> \<open>the event and the bytes after it\<close>
  jd_properties :: "string \<Rightarrow> eventProperties option"
  jd_string :: "string \<Rightarrow> string option"
  jd_type :: "string \<Rightarrow> string option"
  uni_lower :: "string \<Rightarrow> string"

subsection \<open>Giving text to the sink\<close>

definition sink_call :: "sink_call \<Rightarrow> unit trk" where
  "sink_call c t = (let t1 = t\<lparr>tk_calls := tk_calls t @ [c]\<rparr> in case tk_sink t of
     [] \<Rightarrow> (Inr (), t1)
   | r # rs \<Rightarrow> (case r of None \<Rightarrow> Inr () | Some e \<Rightarrow> Inl e, t1\<lparr>tk_sink := rs\<rparr>))"

definition shown :: "string \<Rightarrow> string \<Rightarrow> string \<Rightarrow> string \<Rightarrow> unit trk" where
  "shown family messageID partID delta =
     emodify (\<lambda>t. t\<lparr>tk_shown := tk_shown t @ [(family, messageID, partID, delta)]\<rparr>)"

definition recordFirstFamily :: "string \<Rightarrow> string \<Rightarrow> unit trk" where
  "recordFirstFamily messageID family = emodify (\<lambda>t.
     if firstTextFamily t messageID = [] then t\<lparr>firstTextFamily := (firstTextFamily t)(messageID := family)\<rparr> else t)"

definition emitPartDelta :: "string \<Rightarrow> string \<Rightarrow> string \<Rightarrow> string \<Rightarrow> unit trk" where
  "emitPartDelta messageID partID kind delta =
     ethen (shown ''message-part'' messageID partID delta)
       (sink_call (if kind = ''reasoning'' then SinkReasoning delta else SinkText delta))"

definition getPart :: "string \<Rightarrow> string \<Rightarrow> textPart trk" where
  "getPart partID kind t =
     (if partID = [] then (Inl (protocolError ''OpenCode text part lacks identity''), t)
      else case map_of (parts t) partID of
        Some part \<Rightarrow> if kind \<noteq> [] \<and> tp_kind part \<noteq> kind
          then (Inl (protocolError ''OpenCode message part type changed''), t) else (Inr part, t)
      | None \<Rightarrow>
          if length (parts t) \<ge> maximumTextParts then (Inl (protocolError ''too many OpenCode text parts''), t)
          else let part = \<lparr>tp_text = [], tp_kind = (if kind = [] then ''text'' else kind)\<rparr>
            in (Inr part, t\<lparr>parts := AList.update partID part (parts t)\<rparr>))"

definition setPartText :: "string \<Rightarrow> textPart \<Rightarrow> string \<Rightarrow> unit trk" where
  "setPartText partID part text = emodify (\<lambda>t. t\<lparr>parts := AList.update partID (part\<lparr>tp_text := text\<rparr>) (parts t)\<rparr>)"

definition markFamily :: "string \<Rightarrow> string \<Rightarrow> string \<Rightarrow> unit trk" where
  "markFamily messageID partID family =
     ethen (emodify (\<lambda>t. t\<lparr>families := (families t)(partID := family)\<rparr>))
     (ethen (recordFirstFamily messageID family) (emodify (\<lambda>t. t\<lparr>assistantActivity := True\<rparr>)))"

text \<open>Whether the message or the part belongs to another family than \<open>family\<close>.\<close>

definition other_family :: "string \<Rightarrow> string \<Rightarrow> string \<Rightarrow> eventTracker \<Rightarrow> bool" where
  "other_family family messageID partID t \<longleftrightarrow>
     (fallbackFamily t messageID \<noteq> [] \<and> fallbackFamily t messageID \<noteq> family) \<or>
     (families t partID \<noteq> [] \<and> families t partID \<noteq> family)"

definition emitDelta :: "string \<Rightarrow> string \<Rightarrow> string \<Rightarrow> unit trk" where
  "emitDelta messageID partID delta =
     ebind (eget (other_family ''message-part'' messageID partID)) (\<lambda>other.
     if other then ereturn ()
     else ebind (getPart partID []) (\<lambda>part.
       ethen (markFamily messageID partID ''message-part'')
       (ethen (setPartText partID part (tp_text part @ delta))
         (emitPartDelta messageID partID (tp_kind part) delta))))"

definition emitFull :: "string \<Rightarrow> string \<Rightarrow> string \<Rightarrow> string \<Rightarrow> unit trk" where
  "emitFull messageID partID kind text =
     ebind (eget (other_family ''message-part'' messageID partID)) (\<lambda>other.
     if other then ereturn ()
     else ebind (getPart partID kind) (\<lambda>part.
       if text = tp_text part then ereturn ()
       else if HasPrefix (tp_text part) text then ereturn ()
       else if \<not> HasPrefix text (tp_text part)
       then ethrow (protocolError ''OpenCode text part changed non-monotonically'')
       else let delta = drop (length (tp_text part)) text in
         ethen (setPartText partID part text)
         (if delta = [] then ereturn ()
          else ethen (markFamily messageID partID ''message-part'') (emitPartDelta messageID partID (tp_kind part) delta))))"

definition emitCompatText :: "string \<Rightarrow> string \<Rightarrow> string \<Rightarrow> unit trk" where
  "emitCompatText messageID partID delta =
     ethen (recordFirstFamily messageID ''compatibility'')
     (ethen (emodify (\<lambda>t. t\<lparr>assistantActivity := True\<rparr>))
     (ethen (shown ''compatibility'' messageID partID delta) (sink_call (SinkText delta))))"

definition chooseFallback :: "string \<Rightarrow> unit trk" where
  "chooseFallback messageID = emodify (\<lambda>t.
     if fallbackFamily t messageID = []
     then t\<lparr>fallbackFamily := (fallbackFamily t)(messageID :=
        (if firstTextFamily t messageID = [] then ''compatibility'' else firstTextFamily t messageID))\<rparr>
     else t)"

definition emitCompatibility :: "string \<Rightarrow> string \<Rightarrow> string \<Rightarrow> unit trk" where
  "emitCompatibility messageID textID delta =
     (if textID = [] then
        ethen (chooseFallback messageID)
        (ebind (eget (\<lambda>t. fallbackFamily t messageID)) (\<lambda>fallback.
         if fallback \<noteq> ''compatibility'' then ereturn () else emitCompatText messageID [] delta))
      else ebind (eget (\<lambda>t. fallbackFamily t messageID)) (\<lambda>fallback.
        if fallback \<noteq> [] then
          (if fallback \<noteq> ''compatibility'' then ereturn () else emitCompatText messageID (partKey messageID textID) delta)
        else let partID = partKey messageID textID in
          ebind (eget (\<lambda>t. families t partID)) (\<lambda>family.
          if family \<noteq> [] \<and> family \<noteq> ''compatibility'' then ereturn ()
          else ethen (emodify (\<lambda>t. t\<lparr>families := (families t)(partID := ''compatibility'')\<rparr>))
            (emitCompatText messageID partID delta))))"

subsection \<open>Text that waits for its message\<close>

definition pending_size :: "pendingText \<Rightarrow> nat" where
  "pending_size p = (case pe_full p of Some text \<Rightarrow> length text | None \<Rightarrow> length (pe_delta p))"

definition pending_of :: "string \<Rightarrow> eventTracker \<Rightarrow> pendingText list" where
  "pending_of messageID t = (case map_of (tk_pending t) messageID of None \<Rightarrow> [] | Some ps \<Rightarrow> ps)"

definition queue :: "string \<Rightarrow> pendingText \<Rightarrow> unit trk" where
  "queue messageID text t =
     (if messageID = [] then (Inr (), t)
      else let n = int (pending_size text) in
        if pendingRecords t \<ge> maximumPendingParts \<or> n > int MaxMessageBytes \<or> pendingBytes t > int MaxMessageBytes - n
        then (Inl (protocolError ''too many unassociated OpenCode parts''), t)
        else (Inr (), t\<lparr>tk_pending := AList.update messageID (pending_of messageID t @ [text]) (tk_pending t),
           pendingRecords := pendingRecords t + 1, pendingBytes := pendingBytes t + n\<rparr>))"

definition clearPending :: "string \<Rightarrow> unit trk" where
  "clearPending messageID = emodify (\<lambda>t. let ps = pending_of messageID t in
     t\<lparr>tk_pending := AList.delete messageID (tk_pending t), pendingRecords := pendingRecords t - int (length ps),
       pendingBytes := pendingBytes t -
         sum_list (map (\<lambda>p. int (length (pe_delta p)) + (case pe_full p of None \<Rightarrow> 0 | Some s \<Rightarrow> int (length s))) ps)\<rparr>)"

definition emitPending :: "string \<Rightarrow> pendingText \<Rightarrow> unit trk" where
  "emitPending messageID p =
     (if pe_family p = ''compatibility'' then emitCompatibility messageID (pe_partID p) (pe_delta p)
      else case pe_full p of
        Some full \<Rightarrow> emitFull messageID (pe_partID p) (pe_kind p) full
      | None \<Rightarrow> emitDelta messageID (pe_partID p) (pe_delta p))"

fun emitAll :: "string \<Rightarrow> pendingText list \<Rightarrow> unit trk" where
  "emitAll messageID [] = ereturn ()"
| "emitAll messageID (p # ps) = ethen (emitPending messageID p) (emitAll messageID ps)"

subsection \<open>One event\<close>

definition finalAssistantFinish :: "sse_lib \<Rightarrow> string \<Rightarrow> agent_err + bool" where
  "finalAssistantFinish k v =
     (if v = [] then Inr False
      else if length v > 128 \<or> \<not> ValidString v then Inl (protocolError ''invalid OpenCode assistant finish'')
      else let w = ToLower (uni_lower k) v in Inr (w \<noteq> ''tool-calls'' \<and> w \<noteq> ''tool_calls''))"

definition classifySessionError :: "sse_lib \<Rightarrow> string \<Rightarrow> agent_err" where
  "classifySessionError k raw = (let encoded = ToLower (uni_lower k) raw in
     AgAdapter (if Contains encoded ''rate'' \<or> Contains encoded ''quota'' \<or> Contains encoded ''429'' then ''rate_limited''
       else if Contains encoded ''unauthorized'' \<or> Contains encoded ''forbidden'' \<or> Contains encoded ''credential'' \<or>
          Contains encoded ''401'' \<or> Contains encoded ''403'' then ''unauthorized''
       else ''provider_unavailable'') (AgOther ''OpenCode session failed''))"

definition parseProviderState :: "sse_lib \<Rightarrow> string \<Rightarrow> agent_err + string" where
  "parseProviderState k raw =
     (if raw = [] then Inl (protocolError ''OpenCode status lacks state'')
      else case (if hd raw = CHR 0x22 then jd_string k raw else jd_type k raw) of
        None \<Rightarrow> Inl (protocolError ''malformed OpenCode status'')
      | Some s \<Rightarrow> let state = ToLower (uni_lower k) s in
          if state = [] \<or> length state > 128 \<or> \<not> ValidString state
          then Inl (protocolError ''invalid OpenCode status'') else Inr state)"

fun same_session :: "string \<Rightarrow> string list \<Rightarrow> agent_err + string" where
  "same_session sessionID [] = Inr sessionID"
| "same_session sessionID (v # vs) =
     (if v = [] then same_session sessionID vs
      else if \<not> validSessionIdentity v then Inl (protocolError ''invalid OpenCode session identity'')
      else if sessionID \<noteq> [] \<and> sessionID \<noteq> v then Inl (protocolError ''OpenCode event session identity changed'')
      else same_session v vs)"

definition consistentSessionID :: "eventProperties \<Rightarrow> agent_err + string" where
  "consistentSessionID p = same_session [] (ep_SessionID p #
     (case ep_Info p of None \<Rightarrow> [] | Some i \<Rightarrow> [mi_SessionID i]) @ (case ep_Part p of None \<Rightarrow> [] | Some q \<Rightarrow> [mp_SessionID q]))"

definition trk_sum :: "agent_err + 'a \<Rightarrow> 'a trk" where
  "trk_sum r t = (r, t)"

definition finished :: "eventTracker \<Rightarrow> bool" where
  "finished t \<longleftrightarrow> idleObserved t \<and> assistantFinal t"

text \<open>The role and parent of a message, and what a user message says about the prompt.\<close>

definition learnMessage :: "messageInfo \<Rightarrow> string \<Rightarrow> unit trk" where
  "learnMessage info role t =
     (if length (messageRoles t) \<ge> maximumMessageRoles \<and> map_of (messageRoles t) (mi_ID info) = None
      then (Inl (protocolError ''too many OpenCode messages''), t)
      else case map_of (messageRoles t) (mi_ID info) of
        Some existing \<Rightarrow> if existing \<noteq> role \<or> messageParents t (mi_ID info) \<noteq> mi_ParentID info
          then (Inl (protocolError ''OpenCode message identity changed''), t) else (Inr (), t)
      | None \<Rightarrow> (Inr (), t\<lparr>messageRoles := AList.update (mi_ID info) role (messageRoles t),
           messageParents := (messageParents t)(mi_ID info := mi_ParentID info)\<rparr>))"

definition learnPrompt :: "messageInfo \<Rightarrow> string \<Rightarrow> eventTracker \<Rightarrow> eventTracker" where
  "learnPrompt info role t =
     (if role = ''user'' then
        let t1 = (if promptMessageID t = [] then t\<lparr>promptMessageID := mi_ID info\<rparr> else t)
        in if mi_ID info = promptMessageID t1 then t1\<lparr>promptSeen := True\<rparr> else t1
      else if role = ''assistant'' \<and> promptMessageID t \<noteq> [] \<and> mi_ParentID info = promptMessageID t
      then t\<lparr>currentAssistants := insert (mi_ID info) (currentAssistants t), assistantActivity := True\<rparr>
      else t)"

text \<open>A message of the answer: its error, its finish and the text that waited for it.\<close>

definition answerUpdated :: "sse_lib \<Rightarrow> messageInfo \<Rightarrow> unit trk" where
  "answerUpdated k info =
     (if mi_Error info \<noteq> [] \<and> mi_Error info \<noteq> ''null'' \<and> mi_Error info \<noteq> ''{}''
      then ethrow (classifySessionError k (mi_Error info))
      else ebind (trk_sum (finalAssistantFinish k (mi_Finish info))) (\<lambda>final.
        ethen (if final then emodify (\<lambda>t. t\<lparr>assistantFinal := True\<rparr>) else ereturn ())
        (ebind (eget (pending_of (mi_ID info))) (emitAll (mi_ID info)))))"

definition messageUpdated :: "sse_lib \<Rightarrow> eventProperties \<Rightarrow> bool trk" where
  "messageUpdated k p = (case ep_Info p of
     None \<Rightarrow> ereturn False
   | Some info \<Rightarrow>
     let role = ToLower (uni_lower k) (mi_Role info) in
     if \<not> validEventIdentity (mi_ID info) then ethrow (protocolError ''invalid OpenCode message identity'')
     else if mi_ParentID info \<noteq> [] \<and> \<not> validEventIdentity (mi_ParentID info)
     then ethrow (protocolError ''invalid OpenCode parent identity'')
     else if role \<noteq> ''assistant'' \<and> role \<noteq> ''user'' \<and> role \<noteq> ''system'' then ereturn False
     else ethen (learnMessage info role)
       (ethen (emodify (learnPrompt info role))
       (ebind (eget (\<lambda>t. mi_ID info \<in> currentAssistants t)) (\<lambda>current.
        ethen (if current then answerUpdated k info else ereturn ())
        (ethen (clearPending (mi_ID info)) (eget finished))))))"

text \<open>A message whose role is known and that does not answer the prompt.\<close>

definition foreign :: "string \<Rightarrow> eventTracker \<Rightarrow> bool" where
  "foreign messageID t \<longleftrightarrow> map_of (messageRoles t) messageID \<noteq> None \<and> messageID \<notin> currentAssistants t"

definition answering :: "string \<Rightarrow> eventTracker \<Rightarrow> bool" where
  "answering messageID t \<longleftrightarrow> map_of (messageRoles t) messageID = Some ''assistant'' \<and> messageID \<in> currentAssistants t"

definition messageDelta :: "eventProperties \<Rightarrow> unit trk" where
  "messageDelta p =
     (if ep_Field p \<noteq> ''text'' \<or> ep_Delta p = [] \<or> \<not> ValidString (ep_Delta p) then ereturn ()
      else if \<not> validEventIdentity (ep_MessageID p) \<or> \<not> validEventIdentity (ep_PartID p)
      then ethrow (protocolError ''invalid OpenCode text identity'')
      else ebind (eget (foreign (ep_MessageID p))) (\<lambda>f.
        if f then ereturn ()
        else let partID = partKey (ep_MessageID p) (ep_PartID p) in
          ebind (eget (answering (ep_MessageID p))) (\<lambda>a.
          if \<not> a then queue (ep_MessageID p) \<lparr>pe_family = ''message-part'', pe_partID = partID, pe_kind = [],
             pe_full = None, pe_delta = ep_Delta p\<rparr>
          else emitDelta (ep_MessageID p) partID (ep_Delta p))))"

definition messagePartUpdated :: "sse_lib \<Rightarrow> eventProperties \<Rightarrow> unit trk" where
  "messagePartUpdated k p = (case ep_Part p of
     None \<Rightarrow> ereturn ()
   | Some part \<Rightarrow>
     if (mp_Type part \<noteq> ''text'' \<and> mp_Type part \<noteq> ''reasoning'') \<or> \<not> ValidString (mp_Text part) then ereturn ()
     else if \<not> validEventIdentity (mp_MessageID part) \<or> \<not> validEventIdentity (mp_ID part)
     then ethrow (protocolError ''invalid OpenCode text identity'')
     else if mp_Role part \<noteq> [] \<and> ToLower (uni_lower k) (mp_Role part) \<noteq> ''assistant'' then ereturn ()
     else ebind (eget (foreign (mp_MessageID part))) (\<lambda>f.
       if f then ereturn ()
       else let partID = partKey (mp_MessageID part) (mp_ID part) in
         ebind (eget (answering (mp_MessageID part))) (\<lambda>a.
         if \<not> a then queue (mp_MessageID part) \<lparr>pe_family = ''message-part'', pe_partID = partID, pe_kind = mp_Type part,
            pe_full = Some (mp_Text part), pe_delta = []\<rparr>
         else emitFull (mp_MessageID part) partID (mp_Type part) (mp_Text part))))"

definition compatibilityDelta :: "string \<Rightarrow> string \<Rightarrow> string \<Rightarrow> unit trk" where
  "compatibilityDelta assistantMessageID textID delta =
     (if delta = [] \<or> \<not> ValidString delta then ereturn ()
      else if assistantMessageID = [] then ereturn ()
      else if \<not> validEventIdentity assistantMessageID \<or> (textID \<noteq> [] \<and> \<not> validEventIdentity textID)
      then ethrow (protocolError ''invalid OpenCode compatibility identity'')
      else ebind (eget (foreign assistantMessageID)) (\<lambda>f.
        if f then ereturn ()
        else ebind (eget (\<lambda>t. assistantMessageID \<in> currentAssistants t)) (\<lambda>current.
          if \<not> current then queue assistantMessageID \<lparr>pe_family = ''compatibility'', pe_partID = textID, pe_kind = [],
             pe_full = None, pe_delta = delta\<rparr>
          else emitCompatibility assistantMessageID textID delta)))"

definition observeIdle :: "bool \<Rightarrow> bool trk" where
  "observeIdle idle = ethen (emodify (\<lambda>t. if idle \<and> assistantActivity t then t\<lparr>idleObserved := True\<rparr> else t)) (eget finished)"

definition handleEvent :: "sse_lib \<Rightarrow> string \<Rightarrow> eventProperties \<Rightarrow> bool trk" where
  "handleEvent k ty p =
     (if ty = ''message.updated'' then messageUpdated k p
      else if ty = ''message.part.delta'' then ethen (messageDelta p) (ereturn False)
      else if ty = ''message.part.updated'' then ethen (messagePartUpdated k p) (ereturn False)
      else if ty = ''session.next.text.delta''
      then ethen (compatibilityDelta (ep_AssistantMessageID p) (ep_TextID p) (ep_Delta p)) (ereturn False)
      else if ty = ''session.status'' then
        ebind (trk_sum (parseProviderState k (ep_Status p))) (\<lambda>state.
        ethen (sink_call (SinkState state)) (observeIdle (state = ''idle'')))
      else if ty = ''session.idle'' then observeIdle True
      else if ty = ''session.error'' then
        ebind (eget (\<lambda>t. promptSeen t \<or> assistantActivity t)) (\<lambda>b.
        if \<not> b then ereturn False else ethrow (classifySessionError k (ep_Error p)))
      else ethen (emodify (\<lambda>t. if Contains ty ''tool'' \<and> ep_MessageID p \<in> currentAssistants t
             then t\<lparr>assistantActivity := True\<rparr> else t))
        (ereturn False))"

definition arm :: "unit trk" where
  "arm = emodify (\<lambda>t. if armed t then t else case tk_dispatched t of
     [] \<Rightarrow> t\<lparr>armed := True\<rparr> | b # bs \<Rightarrow> t\<lparr>armed := b, tk_dispatched := bs\<rparr>)"

definition decodeEvent :: "sse_lib \<Rightarrow> string \<Rightarrow> agent_err + (providerEvent \<times> eventProperties)" where
  "decodeEvent k encoded = (case jd_event k encoded of
     None \<Rightarrow> Inl (protocolError ''malformed OpenCode event'')
   | Some (event, rest) \<Rightarrow>
       if ev_ID event = [] \<or> length (ev_ID event) > 512 \<or> ev_Type event = [] \<or> length (ev_Type event) > 128 \<or>
          ev_Properties event = [] then Inl (protocolError ''malformed OpenCode event'')
       else if \<not> list_all json_space rest then Inl (protocolError ''malformed OpenCode event'')
       else (case jd_properties k (ev_Properties event) of
           None \<Rightarrow> Inl (protocolError ''malformed OpenCode event properties'')
         | Some p \<Rightarrow> Inr (event, p)))"

definition consume :: "sse_lib \<Rightarrow> string \<Rightarrow> bool trk" where
  "consume k encoded =
     ethen arm
     (ebind (trk_sum (decodeEvent k encoded)) (\<lambda>(event, p).
      ebind (trk_sum (consistentSessionID p)) (\<lambda>sessionID.
      ebind (eget (\<lambda>t. sessionID \<noteq> externalSessionID t \<or> \<not> armed t \<or> ev_ID event \<in> set (seenIDs t))) (\<lambda>skip.
      if skip then ereturn False
      else ebind (eget (\<lambda>t. length (seenIDs t) \<ge> maximumEventIDs)) (\<lambda>full.
        if full then ethrow (protocolError ''too many OpenCode events'')
        else ethen (emodify (\<lambda>t. t\<lparr>seenIDs := ev_ID event # seenIDs t\<rparr>)) (handleEvent k (ev_Type event) p))))))"

subsection \<open>The stream\<close>

definition newline :: char where "newline = CHR 0x0A"

text \<open>\<^verbatim>\<open>bufio.ScanLines\<close> drops one carriage return at the end of a line.\<close>

definition dropCR :: "string \<Rightarrow> string" where
  "dropCR line = (if line \<noteq> [] \<and> last line = CHR 0x0D then butlast line else line)"

datatype split_result = NeedMore | Oversized | Token string string

text \<open>The split function: the line and the bytes after it.\<close>

definition sse_split :: "string \<Rightarrow> bool \<Rightarrow> split_result" where
  "sse_split data atEOF =
     (let line = takeWhile (\<lambda>c. c \<noteq> newline) data; found = newline \<in> set data in
      if found \<and> length line > maximumSSELineBytes then Oversized
      else if length data > maximumSSELineBytes then Oversized
      else if data = [] then NeedMore
      else if found then Token (dropCR line) (drop (length line + 1) data)
      else if atEOF then Token (dropCR data) []
      else NeedMore)"

datatype scanned = Line string | TooLong

text \<open>The scanner over the data it holds and the results of the reads to come.\<close>

function scan :: "string \<Rightarrow> string list \<Rightarrow> scanned list" where
  "scan data reads = (case sse_split data (reads = []) of
     Oversized \<Rightarrow> [TooLong]
   | Token line rest \<Rightarrow> Line line # scan rest reads
   | NeedMore \<Rightarrow> (case reads of [] \<Rightarrow> [] | c # cs \<Rightarrow> scan (data @ c) cs))"
  by pat_completeness auto
termination
proof (relation "inv_image (less_than <*lex*> less_than) (\<lambda>(data, reads). (length data + length (concat reads), length reads))",
    goal_cases)
  case (3 data reads line rest)
  then have "data \<noteq> [] \<and> (rest = [] \<or> rest = drop (length (takeWhile (\<lambda>c. c \<noteq> newline) data) + 1) data)"
    by (auto simp: sse_split_def Let_def split: if_splits)
  then have "length rest < length data" by auto
  then show ?case by simp
qed auto

declare scan.simps [simp del]

text \<open>The loop over the lines: None when the turn has ended, else the record that is left.\<close>

definition ctxErr_trk :: "unit trk" where
  "ctxErr_trk t = (case tk_ctx t of [] \<Rightarrow> (Inr (), t)
     | c # cs \<Rightarrow> (case c of None \<Rightarrow> Inr () | Some e \<Rightarrow> Inl (AgCtx e), t\<lparr>tk_ctx := cs\<rparr>))"

definition data_of :: "string \<Rightarrow> string" where
  "data_of line = (let data = drop 5 line in if data \<noteq> [] \<and> hd data = CHR '' '' then tl data else data)"

fun consume_lines :: "sse_lib \<Rightarrow> string \<Rightarrow> scanned list \<Rightarrow> string option trk" where
  "consume_lines k record [] = ereturn (Some record)"
| "consume_lines k record (TooLong # ls) = ethrow (protocolError ''OpenCode event exceeds limit'')"
| "consume_lines k record (Line line # ls) = ethen ctxErr_trk
     (if line = [] then
        if record = [] then consume_lines k record ls
        else ebind (consume k record) (\<lambda>terminal. if terminal then ereturn None else consume_lines k [] ls)
      else if hd line = CHR '':'' \<or> \<not> HasPrefix line ''data:'' then consume_lines k record ls
      else let data = data_of line; record1 = (if record \<noteq> [] then record @ [newline] else record) in
        if length record1 + length data > maximumSSERecordBytes
        then ethrow (protocolError ''OpenCode event exceeds limit'')
        else consume_lines k (record1 @ data) ls)"

definition newTracker :: "string \<Rightarrow> string \<Rightarrow> bool list \<Rightarrow> ctx_err option list \<Rightarrow> agent_err option list \<Rightarrow> eventTracker" where
  "newTracker external prompt dispatched ctx sink =
     \<lparr>externalSessionID = external, promptMessageID = prompt, armed = False, promptSeen = False, assistantActivity = False,
      assistantFinal = False, idleObserved = False, seenIDs = [], messageRoles = [], messageParents = (\<lambda>_. []),
      currentAssistants = {}, firstTextFamily = (\<lambda>_. []), fallbackFamily = (\<lambda>_. []), families = (\<lambda>_. []), parts = [],
      tk_pending = [], pendingRecords = 0, pendingBytes = 0, tk_dispatched = dispatched, tk_ctx = ctx, tk_sink = sink,
      tk_calls = [], tk_shown = []\<rparr>"

text \<open>The whole function; \<open>broken\<close> tells whether the last read failed otherwise than with EOF.\<close>

definition consumeEvents :: "sse_lib \<Rightarrow> string list \<Rightarrow> bool \<Rightarrow> unit trk" where
  "consumeEvents k reads broken =
     ebind (consume_lines k [] (scan [] reads)) (\<lambda>left. case left of
       None \<Rightarrow> ereturn ()
     | Some record \<Rightarrow>
         ethen ctxErr_trk
         (if broken then ethrow (AgAdapter ''provider_unavailable'' (AgOther ''OpenCode event stream read failed''))
          else ebind (if record \<noteq> [] then consume k record else ereturn False) (\<lambda>terminal.
            if terminal then ereturn ()
            else ethrow (protocolError ''OpenCode event stream ended before terminal event''))))"

subsection \<open>What the tracker keeps\<close>

definition total_records :: "(string \<times> pendingText list) list \<Rightarrow> nat" where
  "total_records ps = sum_list (map (\<lambda>(_, xs). length xs) ps)"

definition total_bytes :: "(string \<times> pendingText list) list \<Rightarrow> nat" where
  "total_bytes ps = sum_list (map (\<lambda>(_, xs). sum_list (map pending_size xs)) ps)"

definition pending_ok :: "eventTracker \<Rightarrow> bool" where
  "pending_ok t \<longleftrightarrow> distinct (map fst (tk_pending t)) \<and>
     pendingRecords t = int (total_records (tk_pending t)) \<and> pendingRecords t \<le> maximumPendingParts \<and>
     pendingBytes t = int (total_bytes (tk_pending t)) \<and> pendingBytes t \<le> int MaxMessageBytes \<and>
     (\<forall>(m, ps) \<in> set (tk_pending t). \<forall>p \<in> set ps. pe_full p \<noteq> None \<longrightarrow> pe_delta p = [])"

definition tables_ok :: "eventTracker \<Rightarrow> bool" where
  "tables_ok t \<longleftrightarrow> distinct (seenIDs t) \<and> length (seenIDs t) \<le> maximumEventIDs \<and>
     distinct (map fst (messageRoles t)) \<and> length (messageRoles t) \<le> maximumMessageRoles"

definition parts_ok :: "eventTracker \<Rightarrow> bool" where
  "parts_ok t \<longleftrightarrow> distinct (map fst (parts t)) \<and> length (parts t) \<le> maximumTextParts"

text \<open>Messages that answer the prompt; and what has been shown of a part.\<close>

definition answers_ok :: "eventTracker \<Rightarrow> bool" where
  "answers_ok t \<longleftrightarrow> (\<forall>m \<in> currentAssistants t. map_of (messageRoles t) m = Some ''assistant'' \<and>
     messageParents t m = promptMessageID t \<and> promptMessageID t \<noteq> [])"

definition shown_text :: "string \<Rightarrow> eventTracker \<Rightarrow> string" where
  "shown_text p t = concat (map (\<lambda>(f, m, q, d). if f = ''message-part'' \<and> q = p then d else []) (tk_shown t))"

definition part_text :: "string \<Rightarrow> eventTracker \<Rightarrow> string" where
  "part_text p t = (case map_of (parts t) p of None \<Rightarrow> [] | Some q \<Rightarrow> tp_text q)"

fun call_text :: "sink_call \<Rightarrow> string list" where
  "call_text (SinkText d) = [d]"
| "call_text (SinkReasoning d) = [d]"
| "call_text (SinkState _) = []"

definition text_ok :: "eventTracker \<Rightarrow> bool" where
  "text_ok t \<longleftrightarrow> (\<forall>p. shown_text p t = part_text p t) \<and> (\<forall>(f, m, p, d) \<in> set (tk_shown t). m \<in> currentAssistants t) \<and>
     concat (map call_text (tk_calls t)) = map (\<lambda>(f, m, p, d). d) (tk_shown t)"

definition end_ok :: "eventTracker \<Rightarrow> bool" where
  "end_ok t \<longleftrightarrow> (idleObserved t \<longrightarrow> assistantActivity t) \<and> (assistantFinal t \<longrightarrow> currentAssistants t \<noteq> {})"

text \<open>Showing text of a message \<open>m\<close> leaves everything else alone.\<close>

definition frame where
  "frame t = (seenIDs t, messageRoles t, messageParents t, promptMessageID t, currentAssistants t, tk_pending t,
     pendingRecords t, pendingBytes t, idleObserved t, assistantFinal t)"

lemma frame_eq: "frame t' = frame t \<longleftrightarrow> seenIDs t' = seenIDs t \<and> messageRoles t' = messageRoles t \<and> messageParents t' = messageParents t \<and>
     promptMessageID t' = promptMessageID t \<and> currentAssistants t' = currentAssistants t \<and> tk_pending t' = tk_pending t \<and>
     pendingRecords t' = pendingRecords t \<and> pendingBytes t' = pendingBytes t \<and> idleObserved t' = idleObserved t \<and>
     assistantFinal t' = assistantFinal t"
  by (simp add: frame_def)

definition emits :: "string \<Rightarrow> eventTracker \<Rightarrow> eventTracker \<Rightarrow> bool" where
  "emits m t t' \<longleftrightarrow> frame t' = frame t \<and> (assistantActivity t \<longrightarrow> assistantActivity t') \<and> (parts_ok t \<longrightarrow> parts_ok t') \<and>
     (m \<in> currentAssistants t \<and> text_ok t \<longrightarrow> text_ok t')"

interpretation emt: step_order "emits m" for m
  by unfold_locales (auto simp: emits_def frame_eq)

lemma shown_text_snoc: "shown_text p (t\<lparr>tk_shown := tk_shown t @ [(f, m, q, d)]\<rparr>) =
    shown_text p t @ (if f = ''message-part'' \<and> q = p then d else [])"
  by (simp add: shown_text_def)

lemma sink_call_state: "snd (sink_call c t) = t\<lparr>tk_calls := tk_calls t @ [c], tk_sink := tk_sink (snd (sink_call c t))\<rparr>"
  by (simp add: sink_call_def Let_def split: list.split)

text \<open>One part grows by what is shown of it.\<close>

lemma grow_text:
  assumes "text_ok t" and "m \<in> currentAssistants t" and "part_text p t' = part_text p t @ (if f = ''message-part'' then d else [])"
    and "\<And>q. q \<noteq> p \<Longrightarrow> part_text q t' = part_text q t" and "tk_shown t' = tk_shown t @ [(f, m, p, d)]"
    and "currentAssistants t' = currentAssistants t" and "concat (map call_text (tk_calls t')) = concat (map call_text (tk_calls t)) @ [d]"
  shows "text_ok t'"
proof -
  have "shown_text q t' = shown_text q t @ (if f = ''message-part'' \<and> p = q then d else [])" for q
    using assms(5) by (simp add: shown_text_def)
  then have "shown_text q t' = part_text q t'" for q
    using assms(1,3,4) by (cases "q = p") (auto simp: text_ok_def)
  then show ?thesis using assms by (auto simp: text_ok_def)
qed

lemma update_length: "length (AList.update k v al) = (if map_of al k = None then Suc (length al) else length al)"
  by (induction al) (auto simp: map_of_eq_None_iff)

lemma getPart_InrE:
  assumes "getPart p kind t = (Inr part, t')"
  obtains ps where "t' = t\<lparr>parts := ps\<rparr>" "map_of ps = (map_of (parts t))(p \<mapsto> part)" "part_text p t = tp_text part"
    "parts_ok t \<longrightarrow> parts_ok (t\<lparr>parts := ps\<rparr>)"
proof (cases "map_of (parts t) p")
  case None
  then show ?thesis using assms
    by (intro that [of "AList.update p part (parts t)"])
      (auto simp: getPart_def part_text_def parts_ok_def Let_def update_conv' distinct_update update_length split: if_splits)
next
  case (Some q)
  then show ?thesis using assms
    by (intro that [of "parts t"]) (auto simp: getPart_def part_text_def fun_upd_idem split: if_splits)
qed

lemma getPart_Inl: "getPart p kind t = (Inl e, t') \<Longrightarrow> t' = t"
  by (auto simp: getPart_def Let_def split: if_splits option.splits)

text \<open>The new text of a part is stored and shown.\<close>

lemma show_part:
  assumes g: "getPart p kind t = (Inr part, t1)" and new: "new = tp_text part @ d" and c: "call_text c = [d]"
    and fr: "frame t2 = frame t1" "assistantActivity t2" and
    t2: "parts t2 = AList.update p (part\<lparr>tp_text := new\<rparr>) (parts t1)" "tk_shown t2 = tk_shown t1 @ [(''message-part'', m, p, d)]"
      "tk_calls t2 = tk_calls t1 @ [c]"
  shows "emits m t t2"
proof -
  from g obtain ps where t1: "t1 = t\<lparr>parts := ps\<rparr>" and ps: "map_of ps = (map_of (parts t))(p \<mapsto> part)"
    and old: "part_text p t = tp_text part" and ok: "parts_ok t \<longrightarrow> parts_ok (t\<lparr>parts := ps\<rparr>)" by (rule getPart_InrE)
  have keep: "parts_ok t \<longrightarrow> parts_ok t2"
    using ok ps by (auto simp: parts_ok_def t2 t1 distinct_update update_length)
  have text': "part_text p t2 = part_text p t @ d" "q \<noteq> p \<Longrightarrow> part_text q t2 = part_text q t" for q
    using ps old new by (simp_all add: t2 t1 part_text_def update_conv')
  have "text_ok t2" if "m \<in> currentAssistants t" "text_ok t"
    by (rule grow_text [OF that(2,1)]) (use fr(1) in \<open>simp_all add: text' t2 t1 c frame_eq\<close>)
  then show ?thesis using keep fr by (simp add: emits_def t1 frame_eq)
qed

lemma new_part: "getPart p kind t = (Inr part, t1) \<Longrightarrow> emits m t t1"
proof -
  assume "getPart p kind t = (Inr part, t1)"
  then obtain ps where t1: "t1 = t\<lparr>parts := ps\<rparr>" and ps: "map_of ps = (map_of (parts t))(p \<mapsto> part)"
    and old: "part_text p t = tp_text part" and ok: "parts_ok t \<longrightarrow> parts_ok (t\<lparr>parts := ps\<rparr>)" by (rule getPart_InrE)
  have "part_text q t1 = part_text q t" for q using ps old by (simp add: t1 part_text_def)
  then show ?thesis using ok by (simp add: emits_def t1 text_ok_def shown_text_def frame_def)
qed

lemmas emission = emitPartDelta_def markFamily_def recordFirstFamily_def setPartText_def shown_def sink_call_def emitCompatText_def
  chooseFallback_def

lemma getPart_then:
  assumes "\<And>part t1. getPart p kind t = (Inr part, t1) \<Longrightarrow> emits m t (snd (f part t1))"
  shows "emits m t (snd (ebind (getPart p kind) f t))"
proof (cases "getPart p kind t")
  case (Pair r t1)
  then show ?thesis using assms getPart_Inl [of p kind t] by (cases r) (auto simp: em_simps emt.R_refl)
qed

lemma emitDelta_emits: "moves (emits m) (emitDelta m p d)"
proof (rule movesI)
  fix t
  have "emits m t (snd (ebind (getPart p []) (\<lambda>part. ethen (markFamily m p ''message-part'')
      (ethen (setPartText p part (tp_text part @ d)) (emitPartDelta m p (tp_kind part) d))) t))"
  proof (rule getPart_then)
    fix part t1
    assume g: "getPart p [] t = (Inr part, t1)"
    show "emits m t (snd (ethen (markFamily m p ''message-part'') (ethen (setPartText p part (tp_text part @ d))
        (emitPartDelta m p (tp_kind part) d)) t1))"
      by (rule show_part [OF g refl, where c = "if tp_kind part = ''reasoning'' then SinkReasoning d else SinkText d" and d = d])
        (simp_all add: emission em_simps frame_def Let_def split: list.split)
  qed
  then show "emits m t (snd (emitDelta m p d t))" by (simp add: emitDelta_def em_simps emt.R_refl)
qed

lemma emitFull_emits: "moves (emits m) (emitFull m p kind new)"
proof (rule movesI)
  fix t
  let ?rest = "\<lambda>part. if new = tp_text part then ereturn () else if HasPrefix (tp_text part) new then ereturn ()
      else if \<not> HasPrefix new (tp_text part) then ethrow (protocolError ''OpenCode text part changed non-monotonically'')
      else let delta = drop (length (tp_text part)) new in ethen (setPartText p part new)
        (if delta = [] then ereturn ()
         else ethen (markFamily m p ''message-part'') (emitPartDelta m p (tp_kind part) delta))"
  have "emits m t (snd (ebind (getPart p kind) ?rest t))"
  proof (rule getPart_then)
    fix part t1
    assume g: "getPart p kind t = (Inr part, t1)"
    show "emits m t (snd (?rest part t1))"
    proof (cases "new \<noteq> tp_text part \<and> \<not> HasPrefix (tp_text part) new \<and> HasPrefix new (tp_text part)")
      case True
      then obtain d where d: "new = tp_text part @ d" "d \<noteq> []" by (auto simp: HasPrefix_iff)
      have "emits m t (snd (ethen (setPartText p part new) (ethen (markFamily m p ''message-part'')
          (emitPartDelta m p (tp_kind part) d)) t1))"
        by (rule show_part [OF g d(1), where c = "if tp_kind part = ''reasoning'' then SinkReasoning d else SinkText d"])
          (simp_all add: emission em_simps frame_def Let_def split: list.split)
      then show ?thesis using True d by (simp add: Let_def)
    next
      case False
      then show ?thesis using new_part [OF g] by (auto simp: em_simps)
    qed
  qed
  then show "emits m t (snd (emitFull m p kind new t))" by (simp add: emitFull_def em_simps emt.R_refl)
qed

lemma emitCompatText_emits: "moves (emits m) (emitCompatText m p d)"
proof (rule movesI)
  fix t
  let ?t = "snd (emitCompatText m p d t)"
  have fr: "frame ?t = frame t" "assistantActivity ?t" "parts ?t = parts t" "tk_shown ?t = tk_shown t @ [(''compatibility'', m, p, d)]"
    "tk_calls ?t = tk_calls t @ [SinkText d]"
    by (simp_all add: emission em_simps frame_def Let_def split: list.split)
  have "text_ok ?t" if "m \<in> currentAssistants t" "text_ok t"
    by (rule grow_text [OF that(2,1), where f = "''compatibility''" and p = p and d = d])
      (use fr in \<open>simp_all add: part_text_def frame_eq\<close>)
  then show "emits m t ?t" using fr by (simp add: emits_def parts_ok_def)
qed

lemma silent_emits: "moves (emits m) (emodify (\<lambda>t. t\<lparr>families := f t\<rparr>))" "moves (emits m) (chooseFallback m')"
  by (auto simp: moves_def em_simps emission emits_def frame_def parts_ok_def text_ok_def shown_text_def part_text_def)

lemma emitCompatibility_emits: "moves (emits m) (emitCompatibility m tid d)"
  unfolding emitCompatibility_def Let_def
  by (intro emt.moves_rules silent_emits emitCompatText_emits)

lemma emitAll_emits: "moves (emits m) (emitAll m ps)"
  by (induction ps) (auto simp: emitPending_def split: option.split
      intro!: emt.moves_rules emitDelta_emits emitFull_emits emitCompatibility_emits)

subsection \<open>The invariant of the tracker\<close>

definition trk_inv :: "eventTracker \<Rightarrow> bool" where
  "trk_inv t \<longleftrightarrow> tables_ok t \<and> pending_ok t \<and> parts_ok t \<and> answers_ok t \<and> text_ok t \<and> end_ok t"

interpretation tin: step_order "implies_after trk_inv"
  by (rule step_order_implies)

lemma frame_ok: "frame t' = frame t \<Longrightarrow> tables_ok t' = tables_ok t \<and> pending_ok t' = pending_ok t \<and> answers_ok t' = answers_ok t"
  by (simp add: frame_eq tables_ok_def pending_ok_def answers_ok_def)

lemma frame_end: "frame t' = frame t \<Longrightarrow> (assistantActivity t \<longrightarrow> assistantActivity t') \<Longrightarrow> end_ok t \<Longrightarrow> end_ok t'"
  by (simp add: frame_eq end_ok_def)

lemma emits_inv: "emits m t t' \<Longrightarrow> m \<in> currentAssistants t \<Longrightarrow> trk_inv t \<Longrightarrow> trk_inv t'"
  unfolding trk_inv_def emits_def using frame_ok [of t' t] frame_end [of t' t] by blast

lemma moves_inv: "moves (emits m) f \<Longrightarrow> m \<in> currentAssistants t \<Longrightarrow> trk_inv t \<Longrightarrow> trk_inv (snd (f t))"
  by (rule emits_inv [of m t]) (auto dest: movesD)

text \<open>Sums over the values of an association list.\<close>

definition value_sum :: "('v \<Rightarrow> nat) \<Rightarrow> ('k \<times> 'v) list \<Rightarrow> nat" where
  "value_sum f al = sum_list (map (\<lambda>(_, v). f v) al)"

definition value_at :: "('v \<Rightarrow> nat) \<Rightarrow> 'k \<Rightarrow> ('k \<times> 'v) list \<Rightarrow> nat" where
  "value_at f k al = (case map_of al k of None \<Rightarrow> 0 | Some v \<Rightarrow> f v)"

lemma value_sum_update: "distinct (map fst al) \<Longrightarrow> value_sum f (AList.update k v al) + value_at f k al = value_sum f al + f v"
  by (induction al) (auto simp: value_sum_def value_at_def)

lemma value_sum_delete: "distinct (map fst al) \<Longrightarrow> value_sum f (AList.delete k al) + value_at f k al = value_sum f al"
proof (induction al)
  case (Cons x al)
  obtain k' v where x: "x = (k', v)" by (cases x)
  show ?case
  proof (cases "k' = k")
    case True
    then have "map_of al k = None" "AList.delete k al = al"
      using Cons.prems x by (auto simp: map_of_eq_None_iff delete_idem)
    then show ?thesis using True x by (simp add: value_sum_def value_at_def)
  next
    case False
    then show ?thesis using Cons x by (simp add: value_sum_def value_at_def)
  qed
qed (simp add: value_sum_def value_at_def)

lemma totals: "total_records = value_sum length" "total_bytes = value_sum (\<lambda>xs. sum_list (map pending_size xs))"
  by (simp_all add: fun_eq_iff total_records_def total_bytes_def value_sum_def)

lemma pending_at: "value_at length m (tk_pending t) = length (pending_of m t)"
  "value_at (\<lambda>xs. sum_list (map pending_size xs)) m (tk_pending t) = sum_list (map pending_size (pending_of m t))"
  by (simp_all add: value_at_def pending_of_def split: option.split)

lemma pending_same: "tk_pending t' = tk_pending t \<Longrightarrow> pendingRecords t' = pendingRecords t \<Longrightarrow> pendingBytes t' = pendingBytes t \<Longrightarrow>
    pending_ok t' = pending_ok t"
  by (simp add: pending_ok_def)

definition plain_pending :: "pendingText \<Rightarrow> bool" where
  "plain_pending p \<longleftrightarrow> (pe_full p \<noteq> None \<longrightarrow> pe_delta p = [])"

lemma pending_plain: "pending_ok t \<Longrightarrow> p \<in> set (pending_of m t) \<Longrightarrow> plain_pending p"
  by (auto simp: pending_ok_def pending_of_def plain_pending_def split: option.splits dest!: map_of_SomeD)

lemma queue_pending:
  assumes "pending_ok t" and "plain_pending x"
  shows "pending_ok (snd (queue m x t))"
proof -
  let ?ps = "AList.update m (pending_of m t @ [x]) (tk_pending t)"
  note ok = assms(1) [unfolded pending_ok_def]
  have "total_records ?ps = Suc (total_records (tk_pending t))" "total_bytes ?ps = total_bytes (tk_pending t) + pending_size x"
    using value_sum_update [of "tk_pending t" length m "pending_of m t @ [x]"]
      value_sum_update [of "tk_pending t" "\<lambda>xs. sum_list (map pending_size xs)" m "pending_of m t @ [x]"] ok
    by (simp_all add: totals pending_at)
  moreover have "\<forall>(m', ps) \<in> set ?ps. \<forall>p \<in> set ps. pe_full p \<noteq> None \<longrightarrow> pe_delta p = []"
  proof (clarify)
    fix m' ps p y
    assume "(m', ps) \<in> set ?ps" "p \<in> set ps" "pe_full p = Some y"
    then have "map_of ?ps m' = Some ps" using ok by (simp add: distinct_update)
    then have "ps = pending_of m t @ [x] \<or> (m', ps) \<in> set (tk_pending t)"
      by (auto simp: update_conv' dest: map_of_SomeD split: if_splits)
    then show "pe_delta p = []" using \<open>p \<in> set ps\<close> \<open>pe_full p = Some y\<close> assms(2) pending_plain [OF assms(1), of p m] ok
      by (auto simp: plain_pending_def)
  qed
  ultimately show ?thesis using ok assms(1)
    by (auto simp: queue_def Let_def pending_ok_def distinct_update maximumPendingParts_def)
qed

lemma plain_sizes: "list_all plain_pending ps \<Longrightarrow>
    sum_list (map (\<lambda>p. int (length (pe_delta p)) + (case pe_full p of None \<Rightarrow> 0 | Some s \<Rightarrow> int (length s))) ps) =
    int (sum_list (map pending_size ps))"
  by (induction ps) (auto simp: plain_pending_def pending_size_def split: option.splits)

lemma clear_pending:
  assumes "pending_ok t"
  shows "pending_ok (snd (clearPending m t))"
proof -
  note ok = assms [unfolded pending_ok_def]
  have "list_all plain_pending (pending_of m t)" using pending_plain [OF assms] by (simp add: list_all_iff)
  moreover have "total_records (AList.delete m (tk_pending t)) + length (pending_of m t) = total_records (tk_pending t)"
    "total_bytes (AList.delete m (tk_pending t)) + sum_list (map pending_size (pending_of m t)) = total_bytes (tk_pending t)"
    using value_sum_delete [of "tk_pending t" length m] value_sum_delete [of "tk_pending t" "\<lambda>xs. sum_list (map pending_size xs)" m] ok
    by (simp_all add: totals pending_at)
  ultimately show ?thesis using ok
    by (auto simp: clearPending_def em_simps Let_def pending_ok_def plain_sizes distinct_delete AList.delete_eq distinct_map_filter)
qed

lemma implies_movesI: "(\<And>t. P t \<Longrightarrow> P (snd (f t))) \<Longrightarrow> moves (implies_after P) f"
  by (simp add: moves_def implies_after_def)

text \<open>Updates that touch none of the fields the invariant is about.\<close>

lemma same_inv:
  assumes "frame t' = frame t" "parts t' = parts t" "tk_shown t' = tk_shown t"
    and "concat (map call_text (tk_calls t')) = concat (map call_text (tk_calls t))"
    and "assistantActivity t \<longrightarrow> assistantActivity t'" and "trk_inv t"
  shows "trk_inv t'"
proof -
  have "parts_ok t'" "text_ok t'" using assms(1-4,6)
    by (simp_all add: trk_inv_def parts_ok_def text_ok_def shown_text_def part_text_def frame_eq)
  then show ?thesis using assms frame_ok [of t' t] frame_end [of t' t] by (simp add: trk_inv_def)
qed

lemma upd_pending:
  assumes "trk_inv t" and "pending_ok (t\<lparr>tk_pending := a, pendingRecords := b, pendingBytes := c\<rparr>)"
  shows "trk_inv (t\<lparr>tk_pending := a, pendingRecords := b, pendingBytes := c\<rparr>)"
  using assms unfolding trk_inv_def by (simp add: tables_ok_def parts_ok_def answers_ok_def text_ok_def end_ok_def shown_text_def part_text_def)

lemma queue_inv: "plain_pending x \<Longrightarrow> trk_inv t \<Longrightarrow> trk_inv (snd (queue m x t))"
  using queue_pending [of t x m] upd_pending [of t] by (auto simp: trk_inv_def [of t] queue_def Let_def)

lemma clear_inv: "trk_inv t \<Longrightarrow> trk_inv (snd (clearPending m t))"
  using clear_pending [of t m] upd_pending [of t] by (auto simp: trk_inv_def [of t] clearPending_def em_simps Let_def)

lemma learn_inv:
  assumes "trk_inv t" and "tables_ok t'" and "answers_ok t'" and "end_ok t'"
    and "tk_pending t' = tk_pending t" "pendingRecords t' = pendingRecords t" "pendingBytes t' = pendingBytes t"
      "parts t' = parts t" "tk_shown t' = tk_shown t" "tk_calls t' = tk_calls t" "currentAssistants t \<subseteq> currentAssistants t'"
  shows "trk_inv t'"
proof -
  have "text_ok t'" using assms(1,8-) by (auto simp: trk_inv_def text_ok_def shown_text_def part_text_def)
  then show ?thesis using assms by (simp add: trk_inv_def pending_same [of t' t] parts_ok_def)
qed

lemma learnMessage_inv:
  assumes inv: "trk_inv t" and m: "learnMessage info role t = (r, t')"
  shows "trk_inv t' \<and> (\<forall>x. r = Inr x \<longrightarrow> map_of (messageRoles t') (mi_ID info) = Some role \<and>
    messageParents t' (mi_ID info) = mi_ParentID info)"
proof (cases "map_of (messageRoles t) (mi_ID info) = None \<and> length (messageRoles t) < maximumMessageRoles")
  case False
  then show ?thesis using inv m by (auto simp: learnMessage_def split: if_splits option.splits)
next
  case True
  then have none: "map_of (messageRoles t) (mi_ID info) = None" and few: "length (messageRoles t) < maximumMessageRoles" and
    t': "t' = t\<lparr>messageRoles := AList.update (mi_ID info) role (messageRoles t),
           messageParents := (messageParents t)(mi_ID info := mi_ParentID info)\<rparr>"
    using m by (auto simp: learnMessage_def split: if_splits option.splits)
  have nc: "mi_ID info \<notin> currentAssistants t" using none inv by (auto simp: trk_inv_def answers_ok_def)
  have "tables_ok t'" using inv none few by (simp add: t' trk_inv_def tables_ok_def distinct_update update_length)
  moreover have "answers_ok t'" using inv nc by (auto simp: t' trk_inv_def answers_ok_def update_conv')
  moreover have "end_ok t'" using inv by (simp add: t' trk_inv_def end_ok_def)
  ultimately have "trk_inv t'" by (rule learn_inv [OF inv]) (simp_all add: t')
  then show ?thesis by (simp add: t' update_conv')
qed

lemma learnPrompt_inv:
  assumes inv: "trk_inv t" and m: "map_of (messageRoles t) (mi_ID info) = Some role" "messageParents t (mi_ID info) = mi_ParentID info"
    and "mi_ID info \<noteq> []"
  shows "trk_inv (learnPrompt info role t)"
proof (rule learn_inv [OF inv])
  have "tables_ok t" "answers_ok t" "end_ok t" using inv by (simp_all add: trk_inv_def)
  moreover have "promptMessageID t = [] \<Longrightarrow> currentAssistants t = {}" using inv by (auto simp: trk_inv_def answers_ok_def)
  ultimately show "tables_ok (learnPrompt info role t)" "answers_ok (learnPrompt info role t)" "end_ok (learnPrompt info role t)"
    using m by (auto simp: learnPrompt_def Let_def tables_ok_def answers_ok_def end_ok_def)
qed (auto simp: learnPrompt_def Let_def)

lemma answerUpdated_inv:
  assumes inv: "trk_inv t" and "mi_ID info \<in> currentAssistants t"
  shows "trk_inv (snd (answerUpdated k info t))"
proof -
  have "trk_inv (t\<lparr>assistantFinal := True\<rparr>)"
    by (rule learn_inv [OF inv]) (use assms in \<open>auto simp: trk_inv_def tables_ok_def answers_ok_def end_ok_def\<close>)
  then show ?thesis using assms moves_inv [OF emitAll_emits, of "mi_ID info"]
    by (auto simp: answerUpdated_def em_simps trk_sum_def split: sum.split)
qed

lemma messageUpdated_inv:
  assumes inv: "trk_inv t"
  shows "trk_inv (snd (messageUpdated k p t))"
proof (cases "ep_Info p")
  case (Some info)
  let ?role = "ToLower (uni_lower k) (mi_Role info)"
  obtain r t1 where l: "learnMessage info ?role t = (r, t1)" by fastforce
  note lm = learnMessage_inv [OF inv l]
  show ?thesis
  proof (cases "validEventIdentity (mi_ID info) \<and> isl r = False")
    case True
    then obtain x where r: "r = Inr x" by (cases r) auto
    let ?t2 = "learnPrompt info ?role t1"
    have t2: "trk_inv ?t2" using lm r True by (intro learnPrompt_inv) (auto simp: validEventIdentity_def)
    have "trk_inv (snd ((if mi_ID info \<in> currentAssistants ?t2 then answerUpdated k info else ereturn ()) ?t2))"
      using t2 answerUpdated_inv [of ?t2 info k] by (simp add: em_simps)
    then have "trk_inv (snd (ethen (if mi_ID info \<in> currentAssistants ?t2 then answerUpdated k info else ereturn ())
        (ethen (clearPending (mi_ID info)) (eget finished)) ?t2))"
      using clear_inv by (auto simp: em_simps split: prod.split sum.split) (metis snd_conv)+
    then show ?thesis using inv l r by (simp add: messageUpdated_def Some Let_def em_simps)
  next
    case False
    then show ?thesis using inv lm l by (cases r) (auto simp: messageUpdated_def Some Let_def em_simps)
  qed
qed (simp add: messageUpdated_def em_simps inv)

lemma answering_current: "answering m t \<Longrightarrow> m \<in> currentAssistants t"
  by (simp add: answering_def)

lemma deltas_inv:
  assumes "trk_inv t"
  shows "trk_inv (snd (messageDelta p t))" "trk_inv (snd (messagePartUpdated k p t))" "trk_inv (snd (compatibilityDelta m tid d t))"
  using assms moves_inv [OF emitDelta_emits] moves_inv [OF emitFull_emits] moves_inv [OF emitCompatibility_emits]
    queue_inv answering_current
  by (auto simp: messageDelta_def messagePartUpdated_def compatibilityDelta_def em_simps Let_def plain_pending_def split: option.split)

lemma flags_inv:
  assumes "trk_inv t"
  shows "trk_inv (t\<lparr>assistantActivity := True\<rparr>)" "assistantActivity t \<Longrightarrow> trk_inv (t\<lparr>idleObserved := True\<rparr>)"
  by (rule learn_inv [OF assms]; use assms in \<open>simp add: trk_inv_def tables_ok_def answers_ok_def end_ok_def\<close>)+

lemma state_inv: "trk_inv t \<Longrightarrow> trk_inv (snd (sink_call (SinkState s) t))"
  by (rule same_inv [of _ t]) (simp_all add: sink_call_def Let_def frame_def split: list.split)

lemma observeIdle_inv: "trk_inv t \<Longrightarrow> trk_inv (snd (observeIdle b t))"
  using flags_inv by (simp add: observeIdle_def em_simps)

lemma handleEvent_inv:
  assumes "trk_inv t"
  shows "trk_inv (snd (handleEvent k ty p t))"
proof -
  note d = deltas_inv(1) [OF assms, of p] deltas_inv(2) [OF assms, of k p] deltas_inv(3) [OF assms, of "ep_AssistantMessageID p" "ep_TextID p" "ep_Delta p"]
  have ret: "trk_inv (snd (ethen f (ereturn False) t))" if "trk_inv (snd (f t))" for f :: "unit trk"
    using that by (auto simp: em_simps split: prod.split sum.split)
  have status: "trk_inv (snd (ebind (trk_sum r) (\<lambda>state. ethen (sink_call (SinkState state)) (observeIdle (state = ''idle''))) t))" for r
  proof (cases r)
    case (Inr s)
    obtain x t1 where c: "sink_call (SinkState s) t = (x, t1)" by fastforce
    then have "trk_inv t1" using state_inv [OF assms, of s] by simp
    then show ?thesis using Inr c observeIdle_inv by (cases x) (simp_all add: em_simps trk_sum_def)
  qed (use assms in \<open>simp add: em_simps trk_sum_def\<close>)
  show ?thesis unfolding handleEvent_def
    using messageUpdated_inv [OF assms, of k p] observeIdle_inv [OF assms] ret [of "messageDelta p", OF d(1)]
      ret [of "messagePartUpdated k p", OF d(2)] ret [of "compatibilityDelta (ep_AssistantMessageID p) (ep_TextID p) (ep_Delta p)", OF d(3)] status
      flags_inv(1) [OF assms] assms by (simp add: em_simps)
qed

lemma consume_inv: "moves (implies_after trk_inv) (consume k enc)"
proof -
  have a: "moves (implies_after trk_inv) arm" by (rule implies_movesI, rule same_inv)
      (auto simp: arm_def em_simps frame_def split: list.split)
  have b: "moves (implies_after trk_inv) (trk_sum r)" for r :: "agent_err + 'a" by (rule implies_movesI) (simp add: trk_sum_def)
  have c: "moves (implies_after trk_inv) (ebind (eget (\<lambda>t. sid \<noteq> externalSessionID t \<or> \<not> armed t \<or> i \<in> set (seenIDs t))) (\<lambda>skip.
      if skip then ereturn False
      else ebind (eget (\<lambda>t. length (seenIDs t) \<ge> maximumEventIDs)) (\<lambda>full.
        if full then ethrow (protocolError ''too many OpenCode events'')
        else ethen (emodify (\<lambda>t. t\<lparr>seenIDs := i # seenIDs t\<rparr>)) (handleEvent k ty p))))" for sid i ty p
  proof (rule implies_movesI)
    fix t assume inv: "trk_inv t"
    have "trk_inv (t\<lparr>seenIDs := i # seenIDs t\<rparr>)" if "i \<notin> set (seenIDs t)" "length (seenIDs t) < maximumEventIDs"
      by (rule learn_inv [OF inv]) (use inv that in \<open>simp_all add: trk_inv_def tables_ok_def answers_ok_def end_ok_def\<close>)
    then show "trk_inv (snd (ebind (eget (\<lambda>t. sid \<noteq> externalSessionID t \<or> \<not> armed t \<or> i \<in> set (seenIDs t))) (\<lambda>skip.
      if skip then ereturn False
      else ebind (eget (\<lambda>t. length (seenIDs t) \<ge> maximumEventIDs)) (\<lambda>full.
        if full then ethrow (protocolError ''too many OpenCode events'')
        else ethen (emodify (\<lambda>t. t\<lparr>seenIDs := i # seenIDs t\<rparr>)) (handleEvent k ty p))) t))"
      using inv handleEvent_inv by (simp add: em_simps)
  qed
  show ?thesis unfolding consume_def by (intro tin.moves_bind tin.moves_case_prod a b c)
qed

lemma ctx_inv: "moves (implies_after trk_inv) ctxErr_trk"
  by (rule implies_movesI, rule same_inv) (auto simp: ctxErr_trk_def frame_def split: list.split)

lemma consume_lines_inv: "moves (implies_after trk_inv) (consume_lines k rec ls)"
  by (induction k rec ls rule: consume_lines.induct)
    (auto simp: Let_def intro!: tin.moves_rules ctx_inv consume_inv)

lemma consumeEvents_inv: "moves (implies_after trk_inv) (consumeEvents k reads broken)"
  unfolding consumeEvents_def by (intro tin.moves_rules ctx_inv consume_inv consume_lines_inv)

lemma newTracker_inv: "trk_inv (newTracker external prompt dispatched ctx sink)"
  by (simp add: trk_inv_def newTracker_def tables_ok_def pending_ok_def parts_ok_def answers_ok_def text_ok_def end_ok_def shown_text_def
      part_text_def total_records_def total_bytes_def maximumPendingParts_def)

subsection \<open>The end of a turn\<close>

text \<open>Only \<open>messageUpdated\<close> and \<open>observeIdle\<close> report the end, and they read it from the state.\<close>

lemma handleEvent_end: "handleEvent k ty p t = (Inr True, t') \<Longrightarrow> finished t'"
  by (auto simp: handleEvent_def messageUpdated_def observeIdle_def em_simps Let_def split: if_splits option.splits prod.splits sum.splits)

lemma consume_end: "consume k enc t = (Inr True, t') \<Longrightarrow> finished t'"
  using handleEvent_end
  by (auto simp: consume_def em_simps split: if_splits prod.splits sum.splits)

lemma consume_lines_end: "consume_lines k rec ls t = (Inr None, t') \<Longrightarrow> finished t'"
proof (induction k rec ls arbitrary: t rule: consume_lines.induct)
  case (3 k rec line ls)
  from "3.prems" obtain u t1 where *: "(if line = [] then
        if rec = [] then consume_lines k rec ls
        else ebind (consume k rec) (\<lambda>terminal. if terminal then ereturn None else consume_lines k [] ls)
      else if hd line = CHR '':'' \<or> \<not> HasPrefix line ''data:'' then consume_lines k rec ls
      else let data = data_of line; record1 = (if rec \<noteq> [] then rec @ [newline] else rec) in
        if length record1 + length data > maximumSSERecordBytes
        then ethrow (protocolError ''OpenCode event exceeds limit'')
        else consume_lines k (record1 @ data) ls) t1 = (Inr None, t')"
    unfolding consume_lines.simps by (rule ebind_InrE)
  show ?case
  proof (cases "line = [] \<and> rec \<noteq> []")
    case True
    then obtain b t2 where c: "consume k rec t1 = (Inr b, t2)" and
      d: "(if b then ereturn None else consume_lines k [] ls) t2 = (Inr None, t')"
      using * by (auto elim!: ebind_InrE)
    then show ?thesis using consume_end [of k rec t1 t2] "3.IH"(2) True by (cases b) (auto simp: em_simps)
  next
    case False
    then show ?thesis using * "3.IH" by (auto simp: Let_def em_simps split: if_splits)
  qed
qed (simp_all add: em_simps)

subsection \<open>The lines of a stream\<close>

function stream_lines :: "string \<Rightarrow> string list" where
  "stream_lines [] = []"
| "stream_lines (c # cs) = (let line = takeWhile (\<lambda>c. c \<noteq> newline) (c # cs) in
     dropCR line # stream_lines (drop (length line + 1) (c # cs)))"
  by pat_completeness auto
termination by (relation "measure length") auto

declare stream_lines.simps [simp del]

lemma takeWhile_found: "newline \<in> set xs \<Longrightarrow> takeWhile (\<lambda>c. c \<noteq> newline) (xs @ ys) = takeWhile (\<lambda>c. c \<noteq> newline) xs"
  by (induction xs) auto

lemma found_length: "newline \<in> set xs \<Longrightarrow> length (takeWhile (\<lambda>c. c \<noteq> newline) xs) < length xs"
  by (induction xs) auto

lemma stream_lines_step:
  assumes "newline \<in> set xs"
  shows "stream_lines (xs @ ys) = dropCR (takeWhile (\<lambda>c. c \<noteq> newline) xs) #
    stream_lines (drop (length (takeWhile (\<lambda>c. c \<noteq> newline) xs) + 1) xs @ ys)"
proof (cases "xs @ ys")
  case (Cons c cs)
  then show ?thesis using takeWhile_found [OF assms, of ys] found_length [OF assms]
    by (simp only: stream_lines.simps Let_def) (metis Cons Suc_eq_plus1 Suc_leI append_Nil2 diff_is_0_eq drop_append drop0)
qed (use assms in auto)

lemma takeWhile_missing: "newline \<notin> set xs \<Longrightarrow> takeWhile (\<lambda>c. c \<noteq> newline) xs = xs"
  by (induction xs) auto

lemma stream_lines_last: "newline \<notin> set xs \<Longrightarrow> xs \<noteq> [] \<Longrightarrow> stream_lines xs = [dropCR xs]"
  using takeWhile_missing [of xs] by (cases xs) (simp_all add: stream_lines.simps Let_def)

lemma scan_lines: "length (data @ concat reads) \<le> maximumSSELineBytes \<Longrightarrow> scan data reads = map Line (stream_lines (data @ concat reads))"
proof (induction data reads rule: scan.induct)
  case (1 data reads)
  have short: "length data \<le> maximumSSELineBytes" "length (takeWhile (\<lambda>c. c \<noteq> newline) data) \<le> maximumSSELineBytes"
    using "1.prems" length_takeWhile_le [of "\<lambda>c. c \<noteq> newline" data] by simp_all
  show ?case
  proof (cases "newline \<in> set data")
    case True
    let ?rest = "drop (length (takeWhile (\<lambda>c. c \<noteq> newline) data) + 1) data"
    have s: "sse_split data (reads = []) = Token (dropCR (takeWhile (\<lambda>c. c \<noteq> newline) data)) ?rest"
      using True short by (auto simp: sse_split_def Let_def)
    have "scan ?rest reads = map Line (stream_lines (?rest @ concat reads))"
      using "1.IH"(2) [OF s] "1.prems" by simp
    then show ?thesis using s stream_lines_step [OF True, of "concat reads"] by (simp add: scan.simps [of data])
  next
    case False
    show ?thesis
    proof (cases reads)
      case Nil
      then show ?thesis using False short
        by (cases "data = []") (simp_all add: scan.simps [of data] scan.simps [of "[]"] sse_split_def Let_def stream_lines_last stream_lines.simps)
    next
      case (Cons c cs)
      then have s: "sse_split data (reads = []) = NeedMore" using False short by (simp add: sse_split_def Let_def)
      show ?thesis using "1.IH"(1) [OF s Cons] "1.prems" s Cons by (simp add: scan.simps [of data])
    qed
  qed
qed

subsection \<open>Properties\<close>

definition sse_run :: "sse_lib \<Rightarrow> string \<Rightarrow> string \<Rightarrow> bool list \<Rightarrow> ctx_err option list \<Rightarrow> agent_err option list \<Rightarrow> string list \<Rightarrow> bool \<Rightarrow>
    (agent_err + unit) \<times> eventTracker" where
  "sse_run k external prompt dispatched ctx sink reads broken =
     consumeEvents k reads broken (newTracker external prompt dispatched ctx sink)"

lemma sse_run_inv: "sse_run k external prompt dispatched ctx sink reads broken = (r, t) \<Longrightarrow> trk_inv t"
  using moves_result [OF consumeEvents_inv] newTracker_inv unfolding sse_run_def implies_after_def by metis

text \<open>
  C30: Whatever the sidecar sends, in whatever pieces, and however the sink and the context fail: the
  text handed to the sink belongs to assistant messages that answer the prompt of this turn, the
  pieces shown of a part of a message add up to exactly the text the tracker holds for it, with
  nothing repeated or left out, and the sink was given these pieces and no others, in this order.
\<close>

theorem sse_text_faithful:
  assumes "sse_run k external prompt dispatched ctx sink reads broken = (r, t)"
  shows "(\<forall>(f, m, p, d) \<in> set (tk_shown t). map_of (messageRoles t) m = Some ''assistant'' \<and> messageParents t m = promptMessageID t) \<and>
    (\<forall>p. shown_text p t = part_text p t) \<and> concat (map call_text (tk_calls t)) = map (\<lambda>(f, m, p, d). d) (tk_shown t)"
proof -
  have ok: "answers_ok t" "text_ok t" using sse_run_inv [OF assms] by (simp_all add: trk_inv_def)
  have "case x of (f, m, p, d) \<Rightarrow> map_of (messageRoles t) m = Some ''assistant'' \<and> messageParents t m = promptMessageID t"
    if "x \<in> set (tk_shown t)" for x
    using ok that unfolding answers_ok_def text_ok_def by (auto split: prod.splits)
  then show ?thesis using ok(2) by (simp add: text_ok_def)
qed

text \<open>
  The memory of a turn is bounded: no event is handled twice, at most 2048 events, 512 messages and
  512 parts are remembered, and the text that waits for its message is counted exactly and stays
  within 512 pieces and the size of one message.
\<close>

theorem sse_limits:
  assumes "sse_run k external prompt dispatched ctx sink reads broken = (r, t)"
  shows "distinct (seenIDs t) \<and> length (seenIDs t) \<le> 2048 \<and> length (messageRoles t) \<le> 512 \<and> length (parts t) \<le> 512 \<and>
    total_records (tk_pending t) \<le> 512 \<and> total_bytes (tk_pending t) \<le> MaxMessageBytes"
  using sse_run_inv [OF assms]
  by (simp add: trk_inv_def tables_ok_def parts_ok_def pending_ok_def maximumEventIDs_def maximumMessageRoles_def
      maximumTextParts_def maximumPendingParts_def)




subsection \<open>Witnesses\<close>

definition sx_props :: eventProperties where
  "sx_props = \<lparr>ep_SessionID = ''ses'', ep_MessageID = ''a1'', ep_PartID = ''p1'', ep_Field = ''text'', ep_Delta = ''Hi'', ep_Status = [],
     ep_Info = None, ep_Part = None, ep_Error = [], ep_AssistantMessageID = [], ep_TextID = []\<rparr>"

definition sx_info :: "string \<Rightarrow> string \<Rightarrow> string \<Rightarrow> string \<Rightarrow> eventProperties" where
  "sx_info i role parent fin = sx_props\<lparr>ep_Info := Some \<lparr>mi_ID = i, mi_SessionID = [], mi_Role = role, mi_ParentID = parent,
     mi_Finish = fin, mi_Error = []\<rparr>\<rparr>"

definition sx_event :: "string \<Rightarrow> string" where
  "sx_event i = (if i = ''2'' then ''message.part.delta''
     else if i = ''5'' then ''session.idle'' else ''message.updated'')"

definition sx_properties :: "string \<Rightarrow> eventProperties" where
  "sx_properties i = (if i = ''0'' then sx_info ''u1'' ''user'' [] [] else if i = ''4'' then sx_info ''a1'' ''assistant'' ''u1'' ''stop'' else sx_props)"

definition sx_lib :: sse_lib where
  "sx_lib = \<lparr>jd_event = (\<lambda>s. Some (\<lparr>ev_ID = s, ev_Type = sx_event s, ev_Properties = s\<rparr>, [])), jd_properties = (\<lambda>s. Some (sx_properties s)),
     jd_string = (\<lambda>_. None), jd_type = (\<lambda>_. None), uni_lower = (\<lambda>s. s)\<rparr>"

definition sx_record :: "string \<Rightarrow> string" where
  "sx_record i = ''data: '' @ i @ [newline, newline]"

definition sx_reads :: "string list" where
  "sx_reads = map sx_record [''0'', ''4'', ''2'', ''5'']"

definition sx_run :: "(agent_err + unit) \<times> eventTracker" where
  "sx_run = sse_run sx_lib ''ses'' [] [] [] [] sx_reads False"

lemma sx_scan: "scan [] sx_reads = map Line [''data: 0'', [], ''data: 4'', [], ''data: 2'', [], ''data: 5'', []]"
proof -
  have "length ([] @ concat sx_reads) \<le> maximumSSELineBytes"
    by (simp add: sx_reads_def sx_record_def maximumSSELineBytes_def maximumSSERecordBytes_def)
  from scan_lines [OF this] show ?thesis
    by (simp add: sx_reads_def sx_record_def stream_lines.simps newline_def dropCR_def)
qed

lemma sx_lib_sel: "jd_event sx_lib x = Some (\<lparr>ev_ID = x, ev_Type = sx_event x, ev_Properties = x\<rparr>, [])"
  "jd_properties sx_lib x = Some (sx_properties x)"
  by (simp_all add: sx_lib_def)

lemmas sx_simps = em_simps consume_def arm_def trk_sum_def decodeEvent_def sx_lib_sel sx_event_def sx_properties_def sx_info_def
  sx_props_def consistentSessionID_def handleEvent_def messageUpdated_def learnMessage_def learnPrompt_def
  answerUpdated_def finalAssistantFinish_def clearPending_def finished_def pending_of_def messageDelta_def 
  observeIdle_def foreign_def answering_def other_family_def emitDelta_def getPart_def markFamily_def
  recordFirstFamily_def setPartText_def emitPartDelta_def shown_def sink_call_def Let_def newTracker_def
  maximumEventIDs_def maximumMessageRoles_def maximumTextParts_def

lemma sx_texts: "ToLower f ''user'' = ''user''" "ToLower f ''assistant'' = ''assistant''" "ToLower f ''stop'' = ''stop''"
  "validEventIdentity ''u1''" "validEventIdentity ''a1''" "validEventIdentity ''p1''" "validSessionIdentity ''ses''" "ValidString ''Hi''"
  "ValidString ''stop''" "partKey ''a1'' ''p1'' = ''a1'' @ [CHR 0x00] @ ''p1''"
  by code_simp+

definition sx_t0 :: eventTracker where
  "sx_t0 = (newTracker ''ses'' [] [] [] [])\<lparr>armed := True, seenIDs := [''0''], messageRoles := [(''u1'', ''user'')],
     messageParents := (\<lambda>_. [])(''u1'' := []), promptMessageID := ''u1'', promptSeen := True\<rparr>"

definition sx_t4 :: eventTracker where
  "sx_t4 = sx_t0\<lparr>seenIDs := [''4'', ''0''], messageRoles := [(''u1'', ''user''), (''a1'', ''assistant'')],
     messageParents := (\<lambda>_. [])(''u1'' := [], ''a1'' := ''u1''), currentAssistants := {''a1''}, assistantActivity := True, assistantFinal := True\<rparr>"

definition sx_t2 :: eventTracker where
  "sx_t2 = sx_t4\<lparr>seenIDs := [''2'', ''4'', ''0''], families := (\<lambda>_. [])(''a1'' @ [CHR 0x00] @ ''p1'' := ''message-part''),
     firstTextFamily := (\<lambda>_. [])(''a1'' := ''message-part''), parts := [(''a1'' @ [CHR 0x00] @ ''p1'', \<lparr>tp_text = ''Hi'', tp_kind = ''text''\<rparr>)],
     tk_shown := [(''message-part'', ''a1'', ''a1'' @ [CHR 0x00] @ ''p1'', ''Hi'')], tk_calls := [SinkText ''Hi'']\<rparr>"

lemma sx_0: "consume sx_lib ''0'' (newTracker ''ses'' [] [] [] []) = (Inr False, sx_t0)"
  by (simp add: sx_simps sx_texts sx_t0_def)

lemma sx_4: "consume sx_lib ''4'' sx_t0 = (Inr False, sx_t4)"
  by (simp add: sx_simps sx_texts sx_t0_def sx_t4_def)

lemma sx_2: "consume sx_lib ''2'' sx_t4 = (Inr False, sx_t2)"
  by (simp add: sx_simps sx_texts sx_t0_def sx_t4_def sx_t2_def)

lemma sx_5: "consume sx_lib ''5'' sx_t2 = (Inr True, sx_t2\<lparr>seenIDs := [''5'', ''2'', ''4'', ''0''], idleObserved := True\<rparr>)"
  by (simp add: sx_simps sx_texts sx_t0_def sx_t4_def sx_t2_def)

lemma sx_ctx: "ctxErr_trk (newTracker ''ses'' [] [] [] []) = (Inr (), newTracker ''ses'' [] [] [] [])" "ctxErr_trk sx_t0 = (Inr (), sx_t0)"
  "ctxErr_trk sx_t4 = (Inr (), sx_t4)" "ctxErr_trk sx_t2 = (Inr (), sx_t2)"
  by (simp_all add: ctxErr_trk_def newTracker_def sx_t0_def sx_t4_def sx_t2_def)

lemma sx_run_eq: "sse_run sx_lib ''ses'' [] [] [] [] sx_reads False = (Inr (), snd sx_run)"
proof -
  have "consume_lines sx_lib [] (map Line [''data: 0'', [], ''data: 4'', [], ''data: 2'', [], ''data: 5'', []]) (newTracker ''ses'' [] [] [] []) =
      (Inr None, sx_t2\<lparr>seenIDs := [''5'', ''2'', ''4'', ''0''], idleObserved := True\<rparr>)"
    by (simp add: em_simps sx_ctx data_of_def HasPrefix_def maximumSSERecordBytes_def sx_0 sx_4 sx_2 sx_5 Let_def)
  then show ?thesis unfolding sx_run_def sse_run_def consumeEvents_def sx_scan by (simp add: em_simps)
qed

theorem sse_text_faithful_witness:
  "\<exists>t. sse_run sx_lib ''ses'' [] [] [] [] sx_reads False = (Inr (), t) \<and> (\<forall>p. shown_text p t = part_text p t)"
  using sse_text_faithful [OF sx_run_eq] sx_run_eq by blast

theorem sse_limits_witness: "\<exists>t. sse_run sx_lib ''ses'' [] [] [] [] sx_reads False = (Inr (), t) \<and> length (seenIDs t) \<le> 2048"
  using sse_limits [OF sx_run_eq] sx_run_eq by blast



end
