(* ===== verification/GoFold.thy ===== *)
theory GoFold
  imports GoText
begin

text \<open>
  Runes of a string as a \<^verbatim>\<open>range\<close> loop sees them, and \<^verbatim>\<open>strings.EqualFold\<close> over a parameter that maps a
  rune to a representative of the runes equal to it under simple folding.
\<close>

definition runes :: "string \<Rightarrow> nat list" where
  "runes s = map (\<lambda>c. if valid_chunk c then rune_of c else 0xFFFD) (chunks s)"

definition EqualFold :: "(string \<Rightarrow> string) \<Rightarrow> string \<Rightarrow> string \<Rightarrow> bool" where
  "EqualFold sf a b \<longleftrightarrow> map sf (chunks a) = map sf (chunks b)"

end
