(* ===== verification/TerminalSession.thy ===== *)
theory TerminalSession
  imports Terminal GoJson GoFold RequestSource
begin

text \<open>
  The rest of \<^verbatim>\<open>internal/terminal\<close>: the checks of a request before its admission (\<^verbatim>\<open>handler.go\<close>) and
  the life of an admitted terminal (\<^verbatim>\<open>session.go\<close>): the two copying loops over what the browser and
  the PTY deliver, the resize messages, and the cleanup.

  What the other side answers is given: \<open>tp_Write\<close> and \<open>tp_Resize\<close> are the results of the calls of
  the PTY by their number, events carry the outcome of a read with the cause of the context at that
  moment.  The JSON decoder, base64, \<^verbatim>\<open>url.Parse\<close> and the case folding of runes are parameters.
\<close>

subsection \<open>Requests\<close>

record origin_url =
  ou_Scheme :: string
  ou_Host :: string
  ou_User :: bool
  ou_Path :: string
  ou_RawQuery :: string
  ou_Fragment :: string

record term_request =
  tq_Path :: string
  tq_Method :: string
  tq_Header :: "(string \<times> string) list"
  tq_Cookie :: "string option"               \<comment> \<open>the value of the session cookie\<close>
  tq_ProtoAtLeast11 :: bool
  tq_Host :: string
  tq_Writers :: "bool list"                  \<comment> \<open>the chain of response writers: which are hijackers\<close>

datatype auth_outcome = AuthInvalid | AuthFailed | AuthUser ident

datatype owner_outcome = OwnerMissing | OwnerFailed | OwnerOk

record term_deps =
  td_allowedOrigin :: string
  td_Authenticate :: "string \<Rightarrow> auth_outcome"
  td_DeviceByOwner :: "ident \<Rightarrow> ident \<Rightarrow> owner_outcome"
  td_IsOnline :: "ident \<Rightarrow> bool"
  td_parse :: "string \<Rightarrow> origin_url option"
  td_base64 :: "string \<Rightarrow> string option"
  td_fold :: "string \<Rightarrow> string"             \<comment> \<open>a representative of the runes equal to one under simple folding\<close>

record term_refusal =
  tr_status :: int
  tr_code :: string

definition refuse :: "int \<Rightarrow> string \<Rightarrow> term_refusal" where
  "refuse status code = \<lparr>tr_status = status, tr_code = code\<rparr>"

text \<open>\<^verbatim>\<open>strings.Split(s, ",")\<close>.\<close>

fun split_comma :: "string \<Rightarrow> string list" where
  "split_comma [] = [[]]"
| "split_comma (c # cs) = (if c = CHR '','' then [] # split_comma cs
     else (case split_comma cs of f # fs \<Rightarrow> (c # f) # fs | [] \<Rightarrow> [[c]]))"

definition headerContainsToken :: "(string \<Rightarrow> string) \<Rightarrow> (string \<times> string) list \<Rightarrow> string \<Rightarrow> string \<Rightarrow> bool" where
  "headerContainsToken sf h name token \<longleftrightarrow>
     list_ex (\<lambda>v. list_ex (\<lambda>c. EqualFold sf (TrimSpace c) token) (split_comma v)) (Header_Values name h)"

definition unwrapHijacker :: "bool list \<Rightarrow> bool" where
  "unwrapHijacker writers \<longleftrightarrow> list_ex id (take 32 writers)"

definition validOrigin :: "term_deps \<Rightarrow> term_request \<Rightarrow> bool" where
  "validOrigin k rq = (case td_parse k (td_allowedOrigin k) of
     None \<Rightarrow> False
   | Some u \<Rightarrow> (ou_Scheme u = ''http'' \<or> ou_Scheme u = ''https'') \<and> ou_Host u \<noteq> [] \<and> \<not> ou_User u \<and> ou_RawQuery u = [] \<and>
       ou_Fragment u = [] \<and> (ou_Path u = [] \<or> ou_Path u = ''/'') \<and> EqualFold (td_fold k) (ou_Host u) (tq_Host rq))"

definition validateWebSocketHandshake :: "term_deps \<Rightarrow> term_request \<Rightarrow> term_refusal option" where
  "validateWebSocketHandshake k rq =
     (if \<not> tq_ProtoAtLeast11 rq then Some (refuse 426 ''WEBSOCKET_UPGRADE_REQUIRED'')
      else if \<not> headerContainsToken (td_fold k) (tq_Header rq) ''Connection'' ''upgrade'' \<or>
         \<not> headerContainsToken (td_fold k) (tq_Header rq) ''Upgrade'' ''websocket''
      then Some (refuse 426 ''WEBSOCKET_UPGRADE_REQUIRED'')
      else if (case Header_Values ''Sec-Websocket-Version'' (tq_Header rq) of [v] \<Rightarrow> TrimSpace v \<noteq> ''13'' | _ \<Rightarrow> True)
      then Some (refuse 400 ''INVALID_WEBSOCKET_HANDSHAKE'')
      else if (case Header_Values ''Sec-Websocket-Key'' (tq_Header rq) of
         [key] \<Rightarrow> (case td_base64 k (TrimSpace key) of None \<Rightarrow> True | Some decoded \<Rightarrow> length decoded \<noteq> 16) | _ \<Rightarrow> True)
      then Some (refuse 400 ''INVALID_WEBSOCKET_HANDSHAKE'')
      else if \<not> validOrigin k rq then Some (refuse 403 ''ORIGIN_FORBIDDEN'')
      else if \<not> unwrapHijacker (tq_Writers rq) then Some (refuse 501 ''WEBSOCKET_UNAVAILABLE'')
      else None)"

definition authenticate :: "term_deps \<Rightarrow> term_request \<Rightarrow> term_refusal + ident" where
  "authenticate k rq = (case tq_Cookie rq of
     None \<Rightarrow> Inl (refuse 401 ''UNAUTHENTICATED'')
   | Some cookie \<Rightarrow> (case td_Authenticate k cookie of
       AuthInvalid \<Rightarrow> Inl (refuse 401 ''UNAUTHENTICATED'')
     | AuthFailed \<Rightarrow> Inl (refuse 500 ''INTERNAL'')
     | AuthUser u \<Rightarrow> Inr u))"

text \<open>The checks up to the snapshot of the generation: the user and the device.\<close>

definition identify :: "term_deps \<Rightarrow> term_request \<Rightarrow> term_refusal + (ident \<times> ident)" where
  "identify k rq = (case terminalDeviceID (tq_Path rq) of
     None \<Rightarrow> Inl (refuse 404 ''NOT_FOUND'')
   | Some deviceID \<Rightarrow>
     if tq_Method rq \<noteq> ''GET'' then Inl (refuse 405 ''METHOD_NOT_ALLOWED'')
     else if Header_Values ''Origin'' (tq_Header rq) \<noteq> [td_allowedOrigin k] then Inl (refuse 403 ''ORIGIN_FORBIDDEN'')
     else (case authenticate k rq of Inl e \<Rightarrow> Inl e | Inr user \<Rightarrow> Inr (user, deviceID)))"

text \<open>The checks between the snapshot and the admission.\<close>

definition authorize :: "term_deps \<Rightarrow> term_request \<Rightarrow> ident \<Rightarrow> ident \<Rightarrow> term_refusal option" where
  "authorize k rq user deviceID = (case td_DeviceByOwner k user deviceID of
     OwnerMissing \<Rightarrow> Some (refuse 404 ''DEVICE_NOT_FOUND'')
   | OwnerFailed \<Rightarrow> Some (refuse 500 ''INTERNAL'')
   | OwnerOk \<Rightarrow> if \<not> td_IsOnline k deviceID then Some (refuse 409 ''DEVICE_OFFLINE'')
       else validateWebSocketHandshake k rq)"

fun admit_refusal :: "admit_err \<Rightarrow> term_refusal" where
  "admit_refusal ErrTerminalLimit = refuse 429 ''TERMINAL_LIMIT''"
| "admit_refusal ErrDeviceInvalidated = refuse 404 ''DEVICE_NOT_FOUND''"
| "admit_refusal ErrHandlerClosed = refuse 503 ''SERVICE_UNAVAILABLE''"
| "admit_refusal ErrRequestDone = refuse 503 ''SERVICE_UNAVAILABLE''"

definition writeCanceledAdmission :: "term_cause \<Rightarrow> term_refusal" where
  "writeCanceledAdmission cause =
     (if cause = CauseInvalidated then refuse 404 ''DEVICE_NOT_FOUND'' else refuse 503 ''SERVICE_UNAVAILABLE'')"

datatype term_outcome =
    TermRefused term_refusal
  | UpgradeFailed nat
  | TermServed nat

text \<open>
  The handler between its snapshot and the upgrade in two steps, because others act between them: \<open>h0\<close>
  is the registry at the snapshot, \<open>h\<close> at the admission, \<open>cause\<close> the one found right after it.
\<close>

definition serveHTTP ::
  "term_deps \<Rightarrow> term_request \<Rightarrow> bool \<Rightarrow> term_cause option \<Rightarrow> bool \<Rightarrow> Handler \<Rightarrow> Handler \<Rightarrow> term_outcome \<times> Handler" where
  "serveHTTP k rq parentDone cause accepted h0 h = (case identify k rq of
     Inl e \<Rightarrow> (TermRefused e, h)
   | Inr (user, deviceID) \<Rightarrow>
     let generation = deviceGeneration deviceID h0 in
     (case authorize k rq user deviceID of
        Some e \<Rightarrow> (TermRefused e, h)
      | None \<Rightarrow> (case admit parentDone user deviceID generation h of
          (Inl e, h1) \<Rightarrow> (TermRefused (admit_refusal e), h1)
        | (Inr r, h1) \<Rightarrow>
            (case cause of
               Some c \<Rightarrow> (TermRefused (writeCanceledAdmission c), release r h1)
             | None \<Rightarrow> if accepted then (TermServed r, h1) else (UpgradeFailed r, release r h1)))))"

subsection \<open>Ends\<close>

record terminalEnd =
  te_category :: string
  te_code :: int
  te_reason :: string

definition endRemoteEOF where "endRemoteEOF = \<lparr>te_category = ''remote_eof'', te_code = 1000, te_reason = ''remote terminal closed''\<rparr>"
definition endBrowser where "endBrowser = \<lparr>te_category = ''browser_closed'', te_code = 1000, te_reason = ''terminal closed''\<rparr>"
definition endProtocol where "endProtocol = \<lparr>te_category = ''protocol_error'', te_code = 1008, te_reason = ''invalid terminal control''\<rparr>"
definition endTooLarge where "endTooLarge = \<lparr>te_category = ''frame_too_large'', te_code = 1009, te_reason = ''terminal frame too large''\<rparr>"
definition endRemote where "endRemote = \<lparr>te_category = ''remote_closed'', te_code = 1001, te_reason = ''remote terminal unavailable''\<rparr>"
definition endInternal where "endInternal = \<lparr>te_category = ''internal_error'', te_code = 1011, te_reason = ''terminal unavailable''\<rparr>"
definition endCanceled where "endCanceled = \<lparr>te_category = ''canceled'', te_code = 1001, te_reason = ''terminal canceled''\<rparr>"
definition endUnpaired where "endUnpaired = \<lparr>te_category = ''device_invalidated'', te_code = 1001, te_reason = ''device unpaired''\<rparr>"
definition endShutdown where "endShutdown = \<lparr>te_category = ''server_shutdown'', te_code = 1001, te_reason = ''server shutting down''\<rparr>"

fun terminalEndForCause :: "term_cause \<Rightarrow> terminalEnd" where
  "terminalEndForCause CauseInvalidated = endUnpaired"
| "terminalEndForCause CauseClosed = endShutdown"
| "terminalEndForCause _ = endCanceled"

subsection \<open>Input\<close>

record tio =
  io_calls :: nat
  io_input :: string                      \<comment> \<open>the bytes the PTY has accepted\<close>
  io_sizes :: "(16 word \<times> 16 word) list"   \<comment> \<open>the sizes the PTY was set to\<close>
  io_output :: "string list"              \<comment> \<open>the frames the browser got\<close>

record resizeMessage =
  rz_Type :: string
  rz_Cols :: int
  rz_Rows :: int

record term_params =
  tp_Write :: "nat \<Rightarrow> string \<Rightarrow> int \<times> bool"    \<comment> \<open>bytes written and whether there was an error\<close>
  tp_Resize :: "nat \<Rightarrow> bool"
  tp_decode :: "string \<Rightarrow> (resizeMessage \<times> string) option"

definition accept_bytes :: "string \<Rightarrow> tio \<Rightarrow> tio" where
  "accept_bytes s io = io\<lparr>io_input := io_input io @ s, io_calls := Suc (io_calls io)\<rparr>"

function writeAll :: "term_params \<Rightarrow> string \<Rightarrow> tio \<Rightarrow> bool \<times> tio" where
  "writeAll k contents io =
     (if contents = [] then (True, io)
      else case tp_Write k (io_calls io) contents of (written, err) \<Rightarrow>
        if written < 0 \<or> written > int (length contents) then (False, accept_bytes [] io)
        else let io1 = accept_bytes (take (nat written) contents) io in
          if err then (False, io1)
          else if written = 0 then (False, io1)
          else writeAll k (drop (nat written) contents) io1)"
  by pat_completeness auto
termination by (relation "measure (\<lambda>(k, contents, io). length contents)") auto

declare writeAll.simps [simp del]

definition decodeResize :: "term_params \<Rightarrow> string \<Rightarrow> (16 word \<times> 16 word) option" where
  "decodeResize k contents = (case tp_decode k contents of
     None \<Rightarrow> None
   | Some (message, rest) \<Rightarrow>
       if \<not> list_all json_space rest then None
       else if rz_Type message \<noteq> ''terminal.resize'' \<or> rz_Cols message < 1 \<or> rz_Cols message > 500 \<or>
          rz_Rows message < 1 \<or> rz_Rows message > 300 then None
       else Some (word_of_int (rz_Cols message), word_of_int (rz_Rows message)))"

datatype ws_read =
    WsBinary string
  | WsText string
  | WsOther
  | WsError "term_cause option" int      \<comment> \<open>the cause of the context and the close status\<close>

definition read_error :: "term_cause option \<Rightarrow> int \<Rightarrow> terminalEnd" where
  "read_error cause status = (case cause of
     Some c \<Rightarrow> terminalEndForCause c
   | None \<Rightarrow> if status = 1000 \<or> status = 1001 then endBrowser else if status = 1009 then endTooLarge else endRemote)"

definition resize :: "16 word \<times> 16 word \<Rightarrow> tio \<Rightarrow> tio" where
  "resize sz io = io\<lparr>io_sizes := io_sizes io @ [sz], io_calls := Suc (io_calls io)\<rparr>"

text \<open>None: the loop still waits for the browser.\<close>

fun readBrowser :: "term_params \<Rightarrow> ws_read list \<Rightarrow> tio \<Rightarrow> terminalEnd option \<times> tio" where
  "readBrowser k [] io = (None, io)"
| "readBrowser k (WsError cause status # evs) io = (Some (read_error cause status), io)"
| "readBrowser k (WsBinary contents # evs) io = (case writeAll k contents io of
     (True, io1) \<Rightarrow> readBrowser k evs io1
   | (False, io1) \<Rightarrow> (Some endRemote, io1))"
| "readBrowser k (WsText contents # evs) io = (case decodeResize k contents of
     None \<Rightarrow> (Some endProtocol, io)
   | Some sz \<Rightarrow> if \<not> tp_Resize k (io_calls io) then (Some endRemote, io\<lparr>io_calls := Suc (io_calls io)\<rparr>)
       else readBrowser k evs (resize sz io))"
| "readBrowser k (WsOther # evs) io = (Some endProtocol, io)"

subsection \<open>Output\<close>

datatype read_end = ReadMore | ReadEOF | ReadFailed

text \<open>A read of the PTY: its bytes and error, and the outcome of the write that follows it.\<close>

record pty_read =
  pr_bytes :: string
  pr_end :: read_end
  pr_writeErr :: bool
  pr_cause :: "term_cause option"

definition cause_or_remote :: "term_cause option \<Rightarrow> terminalEnd" where
  "cause_or_remote cause = (case cause of Some c \<Rightarrow> terminalEndForCause c | None \<Rightarrow> endRemote)"

fun writeBrowser :: "pty_read list \<Rightarrow> tio \<Rightarrow> terminalEnd option \<times> tio" where
  "writeBrowser [] io = (None, io)"
| "writeBrowser (r # rs) io =
     (if pr_bytes r \<noteq> [] \<and> pr_writeErr r then (Some (cause_or_remote (pr_cause r)), io)
      else let io1 = (if pr_bytes r \<noteq> [] then io\<lparr>io_output := io_output io @ [pr_bytes r]\<rparr> else io) in
        (case pr_end r of
           ReadEOF \<Rightarrow> (Some endRemoteEOF, io1)
         | ReadFailed \<Rightarrow> (Some (cause_or_remote (pr_cause r)), io1)
         | ReadMore \<Rightarrow> if pr_bytes r = [] then (Some endInternal, io1) else writeBrowser rs io1))"

subsection \<open>The session\<close>

datatype term_effect =
    SetReadLimit int | OpenPTY nat nat | CloseFrame int string | CancelSession | CancelWorkers | ClosePTY | ForceClose
  | WaitWorkers

text \<open>A failed call may still return a handle; a panic may come from the call, or later from the handle's methods.\<close>

datatype open_result =
    OpenPanics bool               \<comment> \<open>whether the handle was returned before the panic\<close>
  | OpenFails bool                \<comment> \<open>whether a handle came with the error\<close>
  | Opens bool bool               \<comment> \<open>whether input and output are there\<close>

record term_env =
  tv_open :: open_result
  tv_first :: terminalEnd              \<comment> \<open>the first result a worker reports, or that of the cancelled context\<close>
  tv_cause :: "term_cause option"      \<comment> \<open>of the session when it is cleaned up\<close>
  tv_closeInGrace :: bool              \<comment> \<open>the close handshake ends within the grace period\<close>
  tv_closeFails :: bool                \<comment> \<open>it fails or panics\<close>

definition runTerminalWorker :: "(terminalEnd) option \<Rightarrow> terminalEnd" where
  "runTerminalWorker work = (case work of None \<Rightarrow> endInternal | Some r \<Rightarrow> r)"     \<comment> \<open>None: the work panicked\<close>

definition cleanupTerminal :: "term_env \<Rightarrow> bool \<Rightarrow> terminalEnd \<Rightarrow> term_effect list" where
  "cleanupTerminal v opened result =
     [CloseFrame (te_code result) (te_reason result)] @
     (if tv_closeInGrace v \<and> tv_closeFails v then [ForceClose] else []) @
     [CancelSession, CancelWorkers] @ (if opened then [ClosePTY] else []) @
     (if \<not> tv_closeInGrace v then [ForceClose] else []) @
     (if \<not> tv_closeInGrace v \<and> tv_closeFails v then [ForceClose] else []) @ [WaitWorkers]"

definition serveTerminal :: "term_env \<Rightarrow> terminalEnd \<times> term_effect list" where
  "serveTerminal v =
     (let panicked = (case tv_open v of OpenPanics _ \<Rightarrow> True | _ \<Rightarrow> False);
          opened = (case tv_open v of Opens _ _ \<Rightarrow> True | OpenFails handle \<Rightarrow> handle | OpenPanics handle \<Rightarrow> handle);
          ran = (case tv_open v of Opens inp out \<Rightarrow> inp \<and> out | _ \<Rightarrow> False);
          result = (if panicked then endInternal
            else case tv_cause v of Some c \<Rightarrow> terminalEndForCause c
            | None \<Rightarrow> if ran then tv_first v else endInternal)
      in (result, [SetReadLimit (64 * 1024), OpenPTY 80 24] @ cleanupTerminal v opened result))"

subsection \<open>What is copied\<close>

lemma writeAll_prefix:
  "writeAll k contents io = (ok, io') \<Longrightarrow>
    \<exists>n. io_input io' = io_input io @ take n contents \<and> (ok \<longrightarrow> io_input io' = io_input io @ contents) \<and>
      io_sizes io' = io_sizes io \<and> io_output io' = io_output io"
proof (induction k contents io rule: writeAll.induct)
  case (1 k contents io)
  obtain w err where w: "tp_Write k (io_calls io) contents = (w, err)" by fastforce
  show ?case
  proof (cases "contents = [] \<or> w < 0 \<or> w > int (length contents) \<or> err \<or> w = 0")
    case True
    then show ?thesis using "1.prems" w
      by (auto simp: writeAll.simps [of k contents io] accept_bytes_def Let_def split: if_splits intro: exI [of _ 0])
  next
    case False
    let ?io = "accept_bytes (take (nat w) contents) io"
    from False "1.prems" w have "writeAll k (drop (nat w) contents) ?io = (ok, io')"
      by (simp add: writeAll.simps [of k contents io] Let_def)
    with "1.IH" [OF _ w [symmetric] _ refl] False have
      "\<exists>n. io_input io' = io_input ?io @ take n (drop (nat w) contents) \<and> (ok \<longrightarrow> io_input io' = io_input ?io @ drop (nat w) contents) \<and>
        io_sizes io' = io_sizes ?io \<and> io_output io' = io_output ?io" by blast
    then obtain n where
      "io_input io' = io_input ?io @ take n (drop (nat w) contents)" "ok \<longrightarrow> io_input io' = io_input ?io @ drop (nat w) contents"
      "io_sizes io' = io_sizes ?io" "io_output io' = io_output ?io" by blast
    then show ?thesis by (intro exI [of _ "nat w + n"]) (auto simp: accept_bytes_def take_add)
  qed
qed

fun binaries :: "ws_read list \<Rightarrow> string" where
  "binaries [] = []"
| "binaries (WsBinary c # evs) = c @ binaries evs"
| "binaries (_ # evs) = binaries evs"

definition size_ok :: "16 word \<times> 16 word \<Rightarrow> bool" where
  "size_ok sz \<longleftrightarrow> 1 \<le> unat (fst sz) \<and> unat (fst sz) \<le> 500 \<and> 1 \<le> unat (snd sz) \<and> unat (snd sz) \<le> 300"

lemma unat_small: "1 \<le> i \<Longrightarrow> i \<le> 500 \<Longrightarrow> unat (word_of_int i :: 16 word) = nat i"
  by (simp add: unat_eq_nat_uint uint_word_of_int take_bit_int_eq_self_iff)

lemma decodeResize_ok: "decodeResize k c = Some sz \<Longrightarrow> size_ok sz"
  by (auto simp: decodeResize_def size_ok_def unat_small split: option.splits if_splits)

lemma readBrowser_input:
  "readBrowser k evs io = (r, io') \<Longrightarrow> \<exists>n. io_input io' = io_input io @ take n (binaries evs) \<and>
    (r = None \<longrightarrow> io_input io' = io_input io @ binaries evs) \<and> (\<exists>szs. io_sizes io' = io_sizes io @ szs \<and> list_all size_ok szs) \<and>
    io_output io' = io_output io"
proof (induction k evs io rule: readBrowser.induct)
  case (3 k c evs io)
  obtain ok io1 where w: "writeAll k c io = (ok, io1)" by fastforce
  from writeAll_prefix [OF w] obtain m where m: "io_input io1 = io_input io @ take m c" "ok \<longrightarrow> io_input io1 = io_input io @ c"
    "io_sizes io1 = io_sizes io" "io_output io1 = io_output io" by blast
  show ?case
  proof (cases ok)
    case True
    then have "readBrowser k evs io1 = (r, io')" using "3.prems" w by simp
    with "3.IH" [OF w [symmetric]] True obtain n where
      "io_input io' = io_input io1 @ take n (binaries evs)" "r = None \<longrightarrow> io_input io' = io_input io1 @ binaries evs"
      "\<exists>szs. io_sizes io' = io_sizes io1 @ szs \<and> list_all size_ok szs" "io_output io' = io_output io1" by blast
    with m True show ?thesis by (intro exI [of _ "length c + n"]) simp
  next
    case False
    then show ?thesis using "3.prems" w m
      by (intro exI [of _ "min m (length c)"]) (auto simp: min_def)
  qed
next
  case (4 k c evs io)
  show ?case
  proof (cases "decodeResize k c")
    case (Some sz)
    show ?thesis
    proof (cases "tp_Resize k (io_calls io)")
      case True
      then have "readBrowser k evs (resize sz io) = (r, io')" using "4.prems" Some by simp
      with "4.IH" [OF Some] True obtain n szs where
        "io_input io' = io_input (resize sz io) @ take n (binaries evs)"
        "r = None \<longrightarrow> io_input io' = io_input (resize sz io) @ binaries evs"
        "io_sizes io' = io_sizes (resize sz io) @ szs" "list_all size_ok szs" "io_output io' = io_output (resize sz io)" by blast
      then show ?thesis using decodeResize_ok [OF Some]
        by (intro exI [of _ n] conjI exI [of _ "sz # szs"]) (simp_all add: resize_def)
    qed (use "4.prems" Some in \<open>auto intro: exI [of _ 0]\<close>)
  qed (use "4.prems" in \<open>auto intro: exI [of _ 0]\<close>)
qed (auto intro: exI [of _ 0])

text \<open>
  What the browser types reaches the PTY byte for byte: at every moment the PTY has received a prefix
  of the binary frames in their order, all of them while the loop goes on, however the writer cuts its
  writes; and the PTY is only set to sizes of 1 to 500 columns and 1 to 300 rows, which lose nothing
  in 16 bits.
\<close>

theorem terminal_input_faithful:
  assumes "readBrowser k evs \<lparr>io_calls = 0, io_input = [], io_sizes = [], io_output = []\<rparr> = (r, io)"
  shows "(\<exists>n. io_input io = take n (binaries evs)) \<and> (r = None \<longrightarrow> io_input io = binaries evs) \<and> list_all size_ok (io_sizes io)"
  using readBrowser_input [OF assms] by auto

text \<open>The other direction: the browser gets the PTY's bytes in their order, each read as one frame.\<close>

lemma writeBrowser_output:
  "writeBrowser rs io = (r, io') \<Longrightarrow> \<exists>n. io_output io' = io_output io @ filter (\<lambda>s. s \<noteq> []) (map pr_bytes (take n rs)) \<and>
    (r = None \<longrightarrow> io_output io' = io_output io @ map pr_bytes rs) \<and> io_input io' = io_input io"
proof (induction rs io rule: writeBrowser.induct)
  case (2 x rs io)
  show ?case
  proof (cases "pr_bytes x \<noteq> [] \<and> \<not> pr_writeErr x \<and> pr_end x = ReadMore")
    case True
    then obtain n where "io_output io' = io_output io @ pr_bytes x # filter (\<lambda>s. s \<noteq> []) (map pr_bytes (take n rs))"
      "r = None \<longrightarrow> io_output io' = io_output io @ pr_bytes x # map pr_bytes rs" "io_input io' = io_input io"
      using "2.prems" "2.IH" by (auto simp: Let_def)
    then show ?thesis using True by (intro exI [of _ "Suc n"]) simp
  next
    case False
    then show ?thesis using "2.prems"
      by (intro exI [of _ "if pr_bytes x \<noteq> [] \<and> pr_writeErr x then 0 else 1"]) (auto simp: Let_def split: if_splits read_end.splits)
  qed
qed (auto intro: exI [of _ 0])

text \<open>Every terminal is closed: a close frame, then the session, its workers and its PTY, which are joined last.\<close>

lemma serveTerminal_cleans:
  assumes "serveTerminal v = (result, effects)"
  shows "last effects = WaitWorkers \<and> CancelSession \<in> set effects \<and> CancelWorkers \<in> set effects \<and>
    CloseFrame (te_code result) (te_reason result) \<in> set effects \<and>
    ((\<exists>i out. tv_open v \<in> {Opens i out, OpenFails True, OpenPanics True}) \<longrightarrow> ClosePTY \<in> set effects) \<and>
    (\<not> tv_closeInGrace v \<or> tv_closeFails v \<longrightarrow> ForceClose \<in> set effects)"
  using assms by (auto simp: serveTerminal_def cleanupTerminal_def Let_def)

subsection \<open>Admission of a request\<close>

text \<open>
  C34: A terminal is opened only for an authenticated user from the allowed origin, on a device that the
  store says is this user's and that is online, after a complete handshake; and only if no
  invalidation of the device came between the snapshot taken before the owner was looked up and the
  admission.  Every request that is refused leaves the registry as it was.
\<close>

theorem terminal_request_checked:
  assumes "serveHTTP k rq parentDone cause accepted h0 h = (outcome, h')" and "reg_ok h"
  shows "(\<forall>r. outcome = TermServed r \<longrightarrow> (\<exists>cookie user deviceID. tq_Cookie rq = Some cookie \<and> td_Authenticate k cookie = AuthUser user \<and>
      terminalDeviceID (tq_Path rq) = Some deviceID \<and> Header_Values ''Origin'' (tq_Header rq) = [td_allowedOrigin k] \<and>
      td_DeviceByOwner k user deviceID = OwnerOk \<and> td_IsOnline k deviceID \<and> validateWebSocketHandshake k rq = None \<and>
      generations h0 deviceID = generations h deviceID \<and>
      ts_userID (session r h') = user \<and> ts_deviceID (session r h') = deviceID)) \<and>
    ((\<forall>r. outcome \<noteq> TermServed r) \<longrightarrow> registered h' = registered h)"
proof -
  have adm: "registered (release r h1) = registered h" if "admit pd u d g h = (Inr r, h1)" for pd u d g r h1
  proof -
    note a = admit_ok [OF assms(2) that]
    have "length (th_sessions h) < length (th_sessions h1)" using that by (auto simp: admit_def Let_def split: if_splits)
    then have "registered (release r h1) = registered h1 - {r}" using release_ok(2) [OF a(1)] a(2) by simp
    moreover have "r \<notin> registered h" using a(2) registered_bound [of r h] by auto
    ultimately show ?thesis using a(7) by auto
  qed
  have no: "h1 = h" if "admit pd u d g h = (Inl e, h1)" for pd u d g e h1
    using that by (auto simp: admit_def Let_def split: if_splits)
  show ?thesis using assms adm admit_ok(3,5) [OF assms(2)]
    by (auto dest: no simp: serveHTTP_def identify_def authenticate_def authorize_def deviceGeneration_def Let_def
        split: option.splits if_splits auth_outcome.splits owner_outcome.splits sum.splits prod.splits)
qed

subsection \<open>Concrete sessions\<close>

text \<open>A PTY that accepts at most two bytes at a time.\<close>

definition ex_pty :: term_params where
  "ex_pty = \<lparr>tp_Write = \<lambda>n s. (int (min 2 (length s)), False), tp_Resize = \<lambda>n. True,
     tp_decode = \<lambda>s. if s = ''r'' then Some (\<lparr>rz_Type = ''terminal.resize'', rz_Cols = 120, rz_Rows = 40\<rparr>, []) else None\<rparr>"

theorem terminal_input_faithful_witness:
  "let (r, io) = readBrowser ex_pty [WsBinary ''abc'', WsText ''r'', WsBinary ''d'', WsText ''x'']
       \<lparr>io_calls = 0, io_input = [], io_sizes = [], io_output = []\<rparr>
   in r = Some endProtocol \<and> io_input io = ''abcd'' \<and> io_calls io = 4 \<and> list_all size_ok (io_sizes io)"
proof -
  let ?io = "\<lparr>io_calls = 4, io_input = ''abcd'', io_sizes = [(120, 40)], io_output = []\<rparr> :: tio"
  have run: "readBrowser ex_pty [WsBinary ''abc'', WsText ''r'', WsBinary ''d'', WsText ''x'']
       \<lparr>io_calls = 0, io_input = [], io_sizes = [], io_output = []\<rparr> = (Some endProtocol, ?io)"
    by (simp add: ex_pty_def writeAll.simps accept_bytes_def decodeResize_def resize_def Let_def)
  show ?thesis using terminal_input_faithful [OF run] run by simp
qed

definition ex_deps :: term_deps where
  "ex_deps = \<lparr>td_allowedOrigin = ''https://a'', td_Authenticate = \<lambda>c. if c = ''tok'' then AuthUser ''usr_1'' else AuthInvalid,
     td_DeviceByOwner = \<lambda>u d. if u = ''usr_1'' \<and> d = ''dev_1'' then OwnerOk else OwnerMissing, td_IsOnline = \<lambda>d. True,
     td_parse = \<lambda>s. Some \<lparr>ou_Scheme = ''https'', ou_Host = ''a'', ou_User = False, ou_Path = [], ou_RawQuery = [], ou_Fragment = []\<rparr>,
     td_base64 = \<lambda>s. Some (replicate 16 CHR ''k''), td_fold = \<lambda>s. s\<rparr>"

definition ex_request :: term_request where
  "ex_request = \<lparr>tq_Path = ''/api/v1/devices/dev_1/terminal'', tq_Method = ''GET'',
     tq_Header = [(''Origin'', ''https://a''), (''Connection'', ''keep-alive, upgrade''), (''Upgrade'', ''websocket''),
       (''Sec-Websocket-Version'', ''13''), (''Sec-Websocket-Key'', ''k'')],
     tq_Cookie = Some ''tok'', tq_ProtoAtLeast11 = True, tq_Host = ''a'', tq_Writers = [False, True]\<rparr>"

lemma ex_request_admitted:
  "identify ex_deps ex_request = Inr (''usr_1'', ''dev_1'')" "authorize ex_deps ex_request ''usr_1'' ''dev_1'' = None"
  by code_simp+

theorem terminal_request_checked_witness:
  "\<exists>h'. serveHTTP ex_deps ex_request False None True new_handler new_handler = (TermServed 0, h') \<and>
     ts_userID (session 0 h') = ''usr_1'' \<and> ts_deviceID (session 0 h') = ''dev_1''"
proof -
  obtain h' where "admit False ''usr_1'' ''dev_1'' (generations new_handler ''dev_1'') new_handler = (Inr 0, h')"
    by (simp add: admit_def new_handler_def userCount_def maxTerminalsPerUser_def)
  then have run: "serveHTTP ex_deps ex_request False None True new_handler new_handler = (TermServed 0, h')"
    by (simp add: serveHTTP_def ex_request_admitted deviceGeneration_def)
  have "reg_ok new_handler" by (auto simp: reg_ok_def new_handler_def registered_def registered_of_def userCount_def device_sessions_def maxTerminalsPerUser_def)
  then obtain cookie user deviceID where "tq_Cookie ex_request = Some cookie" "td_Authenticate ex_deps cookie = AuthUser user"
    "td_DeviceByOwner ex_deps user deviceID = OwnerOk" "ts_userID (session 0 h') = user" "ts_deviceID (session 0 h') = deviceID"
    using terminal_request_checked [OF run] by blast
  then show ?thesis using run by (intro exI [of _ h']) (simp add: ex_deps_def split: if_splits)
qed

end
