(* ===== verification/Bridge.thy ===== *)
theory Bridge
  imports TunnelClient AgentTypes GoFold
begin

text \<open>
  \<^verbatim>\<open>internal/opencodebridge/bridge.go\<close>: the loopback callback through which a provider's \<^verbatim>\<open>remote_exec\<close> tool
  reaches the invoker of the turn that is active for its external session.

  The checks of a request are functions.  Mappings are objects on a heap; their lifecycle and the
  callback handlers are a state machine with one step per critical section, channel operation or
  call, so any number of handlers, activations and closings interleave.  \<^verbatim>\<open>Activation.Close\<close> may be
  called at any moment.  HMAC, JSON and the media type parser are parameters.
\<close>

subsection \<open>Constants and text\<close>

definition CallbackPath :: string where "CallbackPath = ''/internal/opencode/remote-exec''"
definition HeaderTimestamp :: string where "HeaderTimestamp = ''X-Aisummoner-Timestamp''"    \<comment> \<open>in canonical form\<close>
definition Authorization :: string where "Authorization = ''AISummoner-HMAC''"
definition MaxRequestBytes :: nat where "MaxRequestBytes = 80 * 1024"
definition MaxResponseBytes :: nat where "MaxResponseBytes = 2 * 1024 * 1024"
definition proofDomain :: string where "proofDomain = ''AISummoner.OpenCodeBridge.v1''"
definition maximumClockSkew :: duration where "maximumClockSkew = 120 * second"
definition defaultBodyReadTime :: duration where "defaultBodyReadTime = 5 * second"
definition defaultResponseTime :: duration where "defaultResponseTime = 5 * second"
definition maximumIOTimeout :: duration where "maximumIOTimeout = 30 * second"
definition minimumBridgeSecret :: nat where "minimumBridgeSecret = 32"
definition maximumExternalIDSize :: nat where "maximumExternalIDSize = 512"

definition nul :: char where "nul = CHR 0x00"

fun double_slash :: "string \<Rightarrow> bool" where
  "double_slash (c # d # s) \<longleftrightarrow> c = CHR ''/'' \<and> d = CHR ''/'' \<or> double_slash (d # s)"
| "double_slash _ \<longleftrightarrow> False"

definition validCallbackPath :: "string \<Rightarrow> bool" where
  "validCallbackPath v \<longleftrightarrow> length v \<ge> 11 \<and> length v \<le> 256 \<and> HasPrefix v ''/internal/'' \<and>
     list_all (\<lambda>c. c \<notin> set ''?#'' \<and> c \<noteq> CHR 0x5C \<and> c \<noteq> nul) v \<and> \<not> double_slash v \<and>
     list_all (\<lambda>r. r > 32 \<and> r \<noteq> 127) (runes v)"

definition validProofDomain :: "string \<Rightarrow> bool" where
  "validProofDomain v \<longleftrightarrow> v \<noteq> [] \<and> list_all (\<lambda>r. 0x21 \<le> r \<and> r \<le> 0x7E) (runes v)"

definition session_rune :: "nat \<Rightarrow> bool" where
  "session_rune r \<longleftrightarrow> 97 \<le> r \<and> r \<le> 122 \<or> 65 \<le> r \<and> r \<le> 90 \<or> 48 \<le> r \<and> r \<le> 57 \<or> r = 95 \<or> r = 45"

definition validExternalSessionID :: "string \<Rightarrow> bool" where
  "validExternalSessionID v \<longleftrightarrow> length v > 4 \<and> length v \<le> maximumExternalIDSize \<and> HasPrefix v ''ses_'' \<and>
     list_all session_rune (runes (drop 4 v))"

text \<open>\<^verbatim>\<open>net.SplitHostPort\<close>: the host, when the address has the form \<^verbatim>\<open>host:port\<close> or \<^verbatim>\<open>[host]:port\<close>.\<close>

definition last_colon :: "string \<Rightarrow> nat option" where
  "last_colon s = (case index_of (CHR '':'') (rev s) of None \<Rightarrow> None | Some i \<Rightarrow> Some (length s - 1 - i))"

definition SplitHostPort :: "string \<Rightarrow> string option" where
  "SplitHostPort s = (case last_colon s of
     None \<Rightarrow> None
   | Some i \<Rightarrow>
       if s ! 0 = CHR ''['' then
         (case index_of (CHR '']'') s of
            None \<Rightarrow> None
          | Some e \<Rightarrow> if Suc e \<noteq> i then None
              else if CHR ''['' \<in> set (drop 1 s) \<or> CHR '']'' \<in> set (drop (Suc e) s) then None
              else Some (take (e - 1) (drop 1 s)))
       else let host = take i s in
         if CHR '':'' \<in> set host \<or> CHR ''['' \<in> set s \<or> CHR '']'' \<in> set s then None else Some host)"

definition loopbackRemote :: "string \<Rightarrow> bool" where
  "loopbackRemote remoteAddress = (case SplitHostPort remoteAddress of
     None \<Rightarrow> False
   | Some host \<Rightarrow> (case ParseAddr host of None \<Rightarrow> False | Some a \<Rightarrow> Zone a = [] \<and> IsLoopback a))"

text \<open>\<^verbatim>\<open>strconv.ParseInt(s, 10, 64)\<close> and \<^verbatim>\<open>strconv.FormatInt(i, 10)\<close>.\<close>

definition dec_digit :: "char \<Rightarrow> bool" where
  "dec_digit c \<longleftrightarrow> 48 \<le> byte c \<and> byte c \<le> 57"

definition dec_value :: "string \<Rightarrow> nat" where
  "dec_value s = foldl (\<lambda>n c. 10 * n + (byte c - 48)) 0 s"

definition ParseInt :: "string \<Rightarrow> int option" where
  "ParseInt s =
     (let neg = HasPrefix s ''-''; ds = (if neg \<or> HasPrefix s ''+'' then drop 1 s else s);
          v = (if neg then - int (dec_value ds) else int (dec_value ds)) in
      if ds = [] \<or> \<not> list_all dec_digit ds then None
      else if v < - (2 ^ 63) \<or> v \<ge> 2 ^ 63 then None else Some v)"

definition FormatInt :: "int \<Rightarrow> string" where
  "FormatInt i = (if i < 0 then ''-'' @ digits 10 (nat (- i)) else digits 10 (nat i))"

subsection \<open>Construction\<close>

datatype act_err = ErrBridgeClosed | ErrDuplicateMapping | ErrInvalidActivation

datatype close_phase =
    Open
  | Marked           \<comment> \<open>inactive and cancelled\<close>
  | Removed          \<comment> \<open>not in \<^verbatim>\<open>mappings\<close>, the waiter runs\<close>
  | Joined           \<comment> \<open>\<^verbatim>\<open>closeDone\<close> is closed\<close>
  | Finished         \<comment> \<open>not in \<^verbatim>\<open>all\<close>\<close>

record mapping =
  mp_productSessionID :: string
  mp_externalSessionID :: string
  mp_done :: bool                     \<comment> \<open>\<^verbatim>\<open>ctx.Err() != nil\<close>\<close>
  mp_gate :: bool                     \<comment> \<open>whether the channel of capacity one is full\<close>
  mp_fatal :: "agent_err list"        \<comment> \<open>the channel of capacity one\<close>
  mp_fatalOnce :: bool
  mp_active :: bool
  mp_inflight :: int
  mp_phase :: close_phase

record Bridge =
  br_secret :: string
  br_callbackPath :: string
  br_proofDomain :: string
  br_bodyReadTimeout :: duration
  br_responseTimeout :: duration
  br_objects :: "mapping list"
  br_mappings :: "string \<rightharpoonup> nat"
  br_all :: "nat list"
  br_closed :: bool
  br_closeDone :: bool

record BridgeOptions =
  bo_Secret :: string
  bo_CallbackPath :: string
  bo_ProofDomain :: string
  bo_BodyReadTimeout :: duration
  bo_ResponseTimeout :: duration

definition NewBridge :: "BridgeOptions \<Rightarrow> string + Bridge" where
  "NewBridge options =
     (let path = (if bo_CallbackPath options = [] then CallbackPath else bo_CallbackPath options);
          domain = (if bo_ProofDomain options = [] then proofDomain else bo_ProofDomain options);
          body = (if bo_BodyReadTimeout options = 0 then defaultBodyReadTime else bo_BodyReadTimeout options);
          resp = (if bo_ResponseTimeout options = 0 then defaultResponseTime else bo_ResponseTimeout options) in
      if length (bo_Secret options) < minimumBridgeSecret then Inl ''opencode bridge secret must contain at least 32 bytes''
      else if \<not> validCallbackPath path then Inl ''bridge callback path is invalid''
      else if length domain > 128 \<or> \<not> validProofDomain domain then Inl ''bridge proof domain is invalid''
      else if body < 0 \<or> body > maximumIOTimeout \<or> resp < 0 \<or> resp > maximumIOTimeout
      then Inl ''opencode bridge I/O timeout is outside the safe range''
      else Inr \<lparr>br_secret = bo_Secret options, br_callbackPath = path, br_proofDomain = domain, br_bodyReadTimeout = body,
             br_responseTimeout = resp, br_objects = [], br_mappings = Map.empty, br_all = [], br_closed = False, br_closeDone = False\<rparr>)"

subsection \<open>Mappings\<close>

definition upd_mapping :: "nat \<Rightarrow> (mapping \<Rightarrow> mapping) \<Rightarrow> Bridge \<Rightarrow> Bridge" where
  "upd_mapping r f b = b\<lparr>br_objects := (br_objects b)[r := f (br_objects b ! r)]\<rparr>"

definition mapping_at :: "nat \<Rightarrow> Bridge \<Rightarrow> mapping" where
  "mapping_at r b = br_objects b ! r"

text \<open>\<open>invalid\<close>: no context or no invoker; \<open>turnDone\<close>: the context of the turn is already cancelled.\<close>

definition Activate :: "bool \<Rightarrow> bool \<Rightarrow> string \<Rightarrow> string \<Rightarrow> Bridge \<Rightarrow> (act_err + nat) \<times> Bridge" where
  "Activate invalid turnDone productSessionID externalSessionID b =
     (if invalid \<or> productSessionID = [] \<or> \<not> validExternalSessionID externalSessionID then (Inl ErrInvalidActivation, b)
      else if br_closed b then (Inl ErrBridgeClosed, b)
      else if br_mappings b externalSessionID \<noteq> None then (Inl ErrDuplicateMapping, b)
      else let r = length (br_objects b) in
        (Inr r, b\<lparr>br_objects := br_objects b @ [\<lparr>mp_productSessionID = productSessionID, mp_externalSessionID = externalSessionID,
               mp_done = turnDone, mp_gate = False, mp_fatal = [], mp_fatalOnce = False, mp_active = True, mp_inflight = 0,
               mp_phase = Open\<rparr>],
           br_mappings := (br_mappings b)(externalSessionID \<mapsto> r), br_all := r # br_all b\<rparr>))"

definition ActiveCount :: "Bridge \<Rightarrow> nat" where
  "ActiveCount b = card (dom (br_mappings b))"

text \<open>\<^verbatim>\<open>startClose\<close>: the critical section of the mapping, then the one of the bridge.\<close>

definition startClose_mark :: "mapping \<Rightarrow> mapping" where
  "startClose_mark e = e\<lparr>mp_active := False, mp_done := True, mp_phase := Marked\<rparr>"

definition remove_mapping :: "nat \<Rightarrow> Bridge \<Rightarrow> Bridge" where
  "remove_mapping r b =
     (if br_mappings b (mp_externalSessionID (mapping_at r b)) = Some r
      then b\<lparr>br_mappings := (br_mappings b)(mp_externalSessionID (mapping_at r b) := None)\<rparr> else b)"

definition finished_mapping :: "nat \<Rightarrow> Bridge \<Rightarrow> Bridge" where
  "finished_mapping r b = b\<lparr>br_all := removeAll r (br_all b)\<rparr>"

definition beginCall :: "mapping \<Rightarrow> mapping option" where
  "beginCall e = (if \<not> mp_active e \<or> mp_done e then None else Some (e\<lparr>mp_inflight := mp_inflight e + 1\<rparr>))"

text \<open>\<^verbatim>\<open>reportFatal\<close> up to its call of \<^verbatim>\<open>startClose\<close>.\<close>

definition reportFatal :: "agent_err \<Rightarrow> mapping \<Rightarrow> mapping" where
  "reportFatal err e = (if mp_fatalOnce e then e
     else e\<lparr>mp_fatalOnce := True, mp_fatal := (if mp_fatal e = [] then [err] else mp_fatal e)\<rparr>)"

definition lookup_mapping :: "string \<Rightarrow> Bridge \<Rightarrow> nat option" where
  "lookup_mapping externalSessionID b = (if br_closed b then None else br_mappings b externalSessionID)"

definition Close_bridge :: "Bridge \<Rightarrow> nat list \<times> Bridge" where
  "Close_bridge b = (br_all b, b\<lparr>br_closed := True\<rparr>)"

subsection \<open>Requests\<close>

record callbackRequest =
  cb_SessionID :: string
  cb_Command :: string
  cb_CWD :: string
  cb_TimeoutSeconds :: string         \<comment> \<open>the raw value, empty when absent\<close>

record callback_http =
  cq_Path :: string
  cq_Method :: string
  cq_RemoteAddr :: string
  cq_Header :: "(string \<times> string) list"
  cq_Body :: string                   \<comment> \<open>what can be read before the end or an error\<close>
  cq_BodyErr :: bool                  \<comment> \<open>whether an error ends it\<close>
  cq_DeadlineErr :: bool

record bridge_lib =
  bl_mediaType :: "string \<Rightarrow> string option"
  bl_decode :: "string \<Rightarrow> (callbackRequest \<times> string) option"    \<comment> \<open>the value and the rest of the input\<close>
  bl_int :: "string \<Rightarrow> (int \<times> string) option"
  bl_hmac :: "string \<Rightarrow> string \<Rightarrow> string"
  bl_arguments :: "RemoteExecArguments \<Rightarrow> string option"
  bl_result :: "ToolResult \<Rightarrow> string option"

definition Header_Get :: "string \<Rightarrow> (string \<times> string) list \<Rightarrow> string" where
  "Header_Get name h = (case Header_Values name h of [] \<Rightarrow> [] | v # _ \<Rightarrow> v)"

definition signProof :: "bridge_lib \<Rightarrow> string \<Rightarrow> string \<Rightarrow> string \<Rightarrow> string \<Rightarrow> string" where
  "signProof k secret domain externalSessionID timestamp =
     bl_hmac k secret (domain @ [nul] @ externalSessionID @ [nul] @ timestamp)"

definition bridge_signature :: "bridge_lib \<Rightarrow> Bridge \<Rightarrow> string \<Rightarrow> string \<Rightarrow> string" where
  "bridge_signature k b externalSessionID timestamp = signProof k (br_secret b) (br_proofDomain b) externalSessionID timestamp"

definition validProof :: "bridge_lib \<Rightarrow> Bridge \<Rightarrow> int \<Rightarrow> callback_http \<Rightarrow> string \<Rightarrow> bool" where
  "validProof k b now rq externalSessionID =
     (let timestampText = Header_Get HeaderTimestamp (cq_Header rq);
          authorization = Header_Get ''Authorization'' (cq_Header rq);
          prefix = Authorization @ '' ''; skew = maximumClockSkew div second in
      case ParseInt timestampText of
        None \<Rightarrow> False
      | Some timestamp \<Rightarrow>
          if FormatInt timestamp \<noteq> timestampText then False
          else if timestamp < now - skew \<or> timestamp > now + skew then False
          else if \<not> HasPrefix authorization prefix \<or> CHR '' '' \<in> set (drop (length prefix) authorization) then False
          else (case rawurl_decode (TrimPrefix authorization prefix) of
             None \<Rightarrow> False
           | Some provided \<Rightarrow> if length provided \<noteq> 32 then False
               else provided = bridge_signature k b externalSessionID timestampText))"

definition timeoutSeconds :: "bridge_lib \<Rightarrow> string \<Rightarrow> int option" where
  "timeoutSeconds k raw =
     (if raw = [] then Some (DefaultExecTimeout div second)
      else if TrimSpace raw = ''null'' then None
      else case bl_int k (TrimSpace raw) of
        None \<Rightarrow> None
      | Some (n, rest) \<Rightarrow> if list_all GoJson.json_space rest then Some n else None)"

text \<open>The checks of \<^verbatim>\<open>serveHTTP\<close> before the lookup: a status, or the callback and its timeout.\<close>

definition readCallback :: "bridge_lib \<Rightarrow> Bridge \<Rightarrow> int \<Rightarrow> callback_http \<Rightarrow> int + (callbackRequest \<times> int)" where
  "readCallback k b now rq =
     (if cq_Path rq \<noteq> br_callbackPath b then Inl 404
      else if cq_Method rq \<noteq> ''POST'' then Inl 405
      else if \<not> loopbackRemote (cq_RemoteAddr rq) then Inl 403
      else if bl_mediaType k (Header_Get ''Content-Type'' (cq_Header rq)) \<noteq> Some ''application/json'' then Inl 415
      else if cq_DeadlineErr rq then Inl 500
      else if cq_BodyErr rq \<and> length (cq_Body rq) \<le> MaxRequestBytes then Inl 400
      else if length (cq_Body rq) > MaxRequestBytes then Inl 413
      else (case bl_decode k (cq_Body rq) of
        None \<Rightarrow> Inl 400
      | Some (callback, rest) \<Rightarrow>
          if \<not> list_all GoJson.json_space rest then Inl 400
          else if \<not> validExternalSessionID (cb_SessionID callback) \<or> cb_Command callback = [] then Inl 400
          else (case timeoutSeconds k (cb_TimeoutSeconds callback) of
            None \<Rightarrow> Inl 400
          | Some t \<Rightarrow>
              if t < MinimumExecTimeout div second \<or> t > MaximumExecTimeout div second then Inl 400
              else if \<not> validProof k b now rq (cb_SessionID callback) then Inl 401
              else Inr (callback, t))))"

definition call_arguments :: "callbackRequest \<Rightarrow> int \<Rightarrow> RemoteExecArguments" where
  "call_arguments callback t = \<lparr>ra_Command = cb_Command callback, ra_CWD = cb_CWD callback, ra_TimeoutMS = t * 1000\<rparr>"

text \<open>The response to a result of the invoker: its status, and the error to report when there is one.\<close>

definition answer :: "bridge_lib \<Rightarrow> bool \<Rightarrow> bool \<Rightarrow> agent_err + ToolResult \<Rightarrow> int \<times> agent_err option" where
  "answer k deadlineErr copyErr result = (case result of
     Inl e \<Rightarrow> (500, Some e)
   | Inr v \<Rightarrow> (case bl_result k v of
       None \<Rightarrow> (500, Some (AgAdapter ''protocol_error'' (AgOther ''opencode bridge response encoding failed'')))
     | Some encoded \<Rightarrow>
         if length encoded > MaxResponseBytes
         then (500, Some (AgAdapter ''protocol_error'' (AgOther ''opencode bridge response exceeds limit'')))
         else if deadlineErr then (500, Some (AgAdapter ''protocol_error'' (AgOther ''opencode bridge response delivery failed'')))
         else if copyErr then (200, Some (AgAdapter ''protocol_error'' (AgOther ''opencode bridge response delivery failed'')))
         else (200, None)))"

subsection \<open>The machine\<close>

text \<open>
  A handler of \<^verbatim>\<open>serveHTTP\<close>.  \<open>Reporting\<close> is before \<^verbatim>\<open>fatalOnce\<close>, \<open>Closing\<close> inside \<^verbatim>\<open>startClose\<close> or waiting for the
  caller that is; \<open>Leaving\<close> runs the deferred calls and says whether the handler still holds the gate.
\<close>

datatype handler_pc =
    Arrived callback_http
  | Checked callback_http int callbackRequest int
  | Found callback_http int callbackRequest int nat
  | Queued callback_http int callbackRequest int nat
  | Gated callback_http int callbackRequest int nat
  | Invoking nat
  | Reporting nat agent_err int
  | Closing nat int
  | Leaving nat bool int
  | Ended int

record call =
  cl_mapping :: nat
  cl_request :: callback_http
  cl_now :: int                        \<comment> \<open>the clock when the proof was checked\<close>
  cl_callback :: callbackRequest
  cl_tool :: ToolRequest

record bstate =
  bridge :: Bridge
  handlers :: "handler_pc list"
  closing :: "nat list option"         \<comment> \<open>the entries of \<^verbatim>\<open>finishClose\<close>\<close>
  calls :: "call list"                 \<comment> \<open>every call of an invoker, in order\<close>
  clock :: int

definition goto :: "nat \<Rightarrow> handler_pc \<Rightarrow> bstate \<Rightarrow> bstate" where
  "goto i p s = s\<lparr>handlers := (handlers s)[i := p]\<rparr>"

definition at :: "nat \<Rightarrow> handler_pc \<Rightarrow> bstate \<Rightarrow> bool" where
  "at i p s \<longleftrightarrow> i < length (handlers s) \<and> handlers s ! i = p"

definition on_entry :: "nat \<Rightarrow> (mapping \<Rightarrow> mapping) \<Rightarrow> bstate \<Rightarrow> bstate" where
  "on_entry r f s = s\<lparr>bridge := upd_mapping r f (bridge s)\<rparr>"

definition entry_of :: "nat \<Rightarrow> bstate \<Rightarrow> mapping" where
  "entry_of r s = mapping_at r (bridge s)"

definition is_entry :: "nat \<Rightarrow> bstate \<Rightarrow> bool" where
  "is_entry r s \<longleftrightarrow> r < length (br_objects (bridge s))"

definition bridge_init :: "bstate \<Rightarrow> bool" where
  "bridge_init s \<longleftrightarrow> (\<exists>options b. NewBridge options = Inr b \<and> bridge s = b) \<and> handlers s = [] \<and> closing s = None \<and> calls s = []"

text \<open>The handlers.\<close>

inductive handler_step :: "bridge_lib \<Rightarrow> bstate \<Rightarrow> bstate \<Rightarrow> bool" for k where
  arrive: "handler_step k s (s\<lparr>handlers := handlers s @ [Arrived rq]\<rparr>)"
| refused: "\<lbrakk>at i (Arrived rq) s; readCallback k (bridge s) (clock s) rq = Inl status\<rbrakk> \<Longrightarrow> handler_step k s (goto i (Ended status) s)"
| checked: "\<lbrakk>at i (Arrived rq) s; readCallback k (bridge s) (clock s) rq = Inr (cb, t)\<rbrakk>
    \<Longrightarrow> handler_step k s (goto i (Checked rq (clock s) cb t) s)"
| unknown: "\<lbrakk>at i (Checked rq n cb t) s; lookup_mapping (cb_SessionID cb) (bridge s) = None\<rbrakk> \<Longrightarrow> handler_step k s (goto i (Ended 404) s)"
| found: "\<lbrakk>at i (Checked rq n cb t) s; lookup_mapping (cb_SessionID cb) (bridge s) = Some r\<rbrakk>
    \<Longrightarrow> handler_step k s (goto i (Found rq n cb t r) s)"
| inactive: "\<lbrakk>at i (Found rq n cb t r) s; beginCall (entry_of r s) = None\<rbrakk> \<Longrightarrow> handler_step k s (goto i (Ended 404) s)"
| begun: "\<lbrakk>at i (Found rq n cb t r) s; beginCall (entry_of r s) = Some e\<rbrakk>
    \<Longrightarrow> handler_step k s (goto i (Queued rq n cb t r) (on_entry r (\<lambda>_. e) s))"
| queue_timeout: "at i (Queued rq n cb t r) s \<Longrightarrow> handler_step k s (goto i (Leaving r False 408) s)"
| gate: "\<lbrakk>at i (Queued rq n cb t r) s; \<not> mp_gate (entry_of r s)\<rbrakk>
    \<Longrightarrow> handler_step k s (goto i (Gated rq n cb t r) (on_entry r (\<lambda>e. e\<lparr>mp_gate := True\<rparr>) s))"
| gate_timeout: "at i (Gated rq n cb t r) s \<Longrightarrow> handler_step k s (goto i (Leaving r True 408) s)"
| not_encoded: "\<lbrakk>at i (Gated rq n cb t r) s; \<not> mp_done (entry_of r s); bl_arguments k (call_arguments cb t) = None\<rbrakk>
    \<Longrightarrow> handler_step k s (goto i (Reporting r (AgAdapter ''protocol_error'' (AgOther ''opencode bridge response encoding failed'')) 500) s)"
| invoke: "\<lbrakk>at i (Gated rq n cb t r) s; \<not> mp_done (entry_of r s); bl_arguments k (call_arguments cb t) = Some arguments\<rbrakk>
    \<Longrightarrow> handler_step k s (goto i (Invoking r) (s\<lparr>calls := calls s @ [\<lparr>cl_mapping = r, cl_request = rq, cl_now = n, cl_callback = cb,
          cl_tool = \<lparr>tr_Name = ToolRemoteExec, tr_Arguments = arguments\<rparr>\<rparr>]\<rparr>))"
| answered: "\<lbrakk>at i (Invoking r) s; answer k deadlineErr copyErr result = (status, None)\<rbrakk>
    \<Longrightarrow> handler_step k s (goto i (Leaving r True status) s)"
| failed: "\<lbrakk>at i (Invoking r) s; answer k deadlineErr copyErr result = (status, Some e)\<rbrakk>
    \<Longrightarrow> handler_step k s (goto i (Reporting r e status) s)"
| report: "at i (Reporting r e status) s
    \<Longrightarrow> handler_step k s (goto i (Closing r status) (on_entry r (reportFatal e) s))"
| reported: "\<lbrakk>at i (Closing r status) s; mp_phase (entry_of r s) \<notin> {Open, Marked}\<rbrakk>
    \<Longrightarrow> handler_step k s (goto i (Leaving r True status) s)"
| leave_gate: "at i (Leaving r True status) s
    \<Longrightarrow> handler_step k s (goto i (Leaving r False status) (on_entry r (\<lambda>e. e\<lparr>mp_gate := False\<rparr>) s))"
| leave: "at i (Leaving r False status) s
    \<Longrightarrow> handler_step k s (goto i (Ended status) (on_entry r (\<lambda>e. e\<lparr>mp_inflight := mp_inflight e - 1\<rparr>) s))"

text \<open>The mappings and the bridge: turns that activate, are cancelled, read a failure or close, and the shutdown.\<close>

inductive mapping_step :: "bstate \<Rightarrow> bstate \<Rightarrow> bool" where
  tick: "clock s \<le> n \<Longrightarrow> mapping_step s (s\<lparr>clock := n\<rparr>)"
| activate: "Activate invalid turnDone product external (bridge s) = (x, b) \<Longrightarrow> mapping_step s (s\<lparr>bridge := b\<rparr>)"
| turn_done: "is_entry r s \<Longrightarrow> mapping_step s (on_entry r (\<lambda>e. e\<lparr>mp_done := True\<rparr>) s)"
| received: "is_entry r s \<Longrightarrow> mapping_step s (on_entry r (\<lambda>e. e\<lparr>mp_fatal := []\<rparr>) s)"
| mark: "\<lbrakk>is_entry r s; mp_phase (entry_of r s) = Open\<rbrakk> \<Longrightarrow> mapping_step s (on_entry r startClose_mark s)"
| unmap: "\<lbrakk>is_entry r s; mp_phase (entry_of r s) = Marked\<rbrakk>
    \<Longrightarrow> mapping_step s (on_entry r (\<lambda>e. e\<lparr>mp_phase := Removed\<rparr>) (s\<lparr>bridge := remove_mapping r (bridge s)\<rparr>))"
| join: "\<lbrakk>is_entry r s; mp_phase (entry_of r s) = Removed; mp_inflight (entry_of r s) = 0\<rbrakk>
    \<Longrightarrow> mapping_step s (on_entry r (\<lambda>e. e\<lparr>mp_phase := Joined\<rparr>) s)"
| finish_entry: "\<lbrakk>is_entry r s; mp_phase (entry_of r s) = Joined\<rbrakk>
    \<Longrightarrow> mapping_step s (on_entry r (\<lambda>e. e\<lparr>mp_phase := Finished\<rparr>) (s\<lparr>bridge := finished_mapping r (bridge s)\<rparr>))"
| close: "\<lbrakk>\<not> br_closed (bridge s); Close_bridge (bridge s) = (entries, b)\<rbrakk>
    \<Longrightarrow> mapping_step s (s\<lparr>bridge := b, closing := Some entries\<rparr>)"
| close_done: "\<lbrakk>closing s = Some entries; \<forall>r \<in> set entries. mp_phase (entry_of r s) \<in> {Joined, Finished}\<rbrakk>
    \<Longrightarrow> mapping_step s (s\<lparr>bridge := bridge s\<lparr>br_closeDone := True\<rparr>\<rparr>)"

definition bridge_step :: "bridge_lib \<Rightarrow> bstate \<Rightarrow> bstate \<Rightarrow> bool" where
  "bridge_step k s t \<longleftrightarrow> handler_step k s t \<or> mapping_step s t"

subsection \<open>Invariants\<close>

fun in_flight :: "nat \<Rightarrow> handler_pc \<Rightarrow> bool" where
  "in_flight r (Queued _ _ _ _ q) \<longleftrightarrow> q = r"
| "in_flight r (Gated _ _ _ _ q) \<longleftrightarrow> q = r"
| "in_flight r (Invoking q) \<longleftrightarrow> q = r"
| "in_flight r (Reporting q _ _) \<longleftrightarrow> q = r"
| "in_flight r (Closing q _) \<longleftrightarrow> q = r"
| "in_flight r (Leaving q _ _) \<longleftrightarrow> q = r"
| "in_flight r _ \<longleftrightarrow> False"

fun holds_gate :: "nat \<Rightarrow> handler_pc \<Rightarrow> bool" where
  "holds_gate r (Queued _ _ _ _ q) \<longleftrightarrow> False"
| "holds_gate r (Leaving q g _) \<longleftrightarrow> q = r \<and> g"
| "holds_gate r p \<longleftrightarrow> in_flight r p"

definition slots :: "nat \<Rightarrow> bstate \<Rightarrow> nat" where
  "slots r s = length (filter (in_flight r) (handlers s))"

definition gates :: "nat \<Rightarrow> bstate \<Rightarrow> nat" where
  "gates r s = length (filter (holds_gate r) (handlers s))"

lemma entry_of_goto [simp]: "entry_of r (goto i p s) = entry_of r s" "is_entry r (goto i p s) = is_entry r s"
  "bridge (goto i p s) = bridge s" "calls (goto i p s) = calls s" "closing (goto i p s) = closing s" "clock (goto i p s) = clock s"
  by (simp_all add: goto_def entry_of_def is_entry_def)

lemma entry_of_on_entry [simp]:
  "entry_of q (on_entry r f s) = (if q = r \<and> is_entry r s then f (entry_of r s) else entry_of q s)"
  "is_entry q (on_entry r f s) = is_entry q s" "handlers (on_entry r f s) = handlers s" "calls (on_entry r f s) = calls s"
  "closing (on_entry r f s) = closing s" "clock (on_entry r f s) = clock s"
  by (auto simp: on_entry_def entry_of_def is_entry_def upd_mapping_def mapping_at_def nth_list_update list_update_beyond)

lemma entry_of_update [simp]: "entry_of r (s\<lparr>calls := c\<rparr>) = entry_of r s" "is_entry r (s\<lparr>calls := c\<rparr>) = is_entry r s"
  "entry_of r (s\<lparr>clock := n\<rparr>) = entry_of r s" "is_entry r (s\<lparr>clock := n\<rparr>) = is_entry r s"
  "entry_of r (s\<lparr>handlers := hs\<rparr>) = entry_of r s" "is_entry r (s\<lparr>handlers := hs\<rparr>) = is_entry r s"
  "entry_of r (s\<lparr>closing := x\<rparr>) = entry_of r s" "is_entry r (s\<lparr>closing := x\<rparr>) = is_entry r s"
  by (simp_all add: entry_of_def is_entry_def)

lemma bridge_on_entry [simp]:
  "br_secret (bridge (on_entry r f s)) = br_secret (bridge s)" "br_callbackPath (bridge (on_entry r f s)) = br_callbackPath (bridge s)"
  "br_proofDomain (bridge (on_entry r f s)) = br_proofDomain (bridge s)" "br_mappings (bridge (on_entry r f s)) = br_mappings (bridge s)"
  "br_all (bridge (on_entry r f s)) = br_all (bridge s)" "br_closed (bridge (on_entry r f s)) = br_closed (bridge s)"
  "br_closeDone (bridge (on_entry r f s)) = br_closeDone (bridge s)"
  by (simp_all add: on_entry_def upd_mapping_def)

text \<open>What no handler changes.\<close>

definition same_ident :: "bstate \<Rightarrow> bstate \<Rightarrow> bool" where
  "same_ident s t \<longleftrightarrow> br_secret (bridge t) = br_secret (bridge s) \<and> br_callbackPath (bridge t) = br_callbackPath (bridge s) \<and>
     br_proofDomain (bridge t) = br_proofDomain (bridge s)"

definition fixed :: "mapping \<Rightarrow> mapping \<Rightarrow> bool" where
  "fixed e f \<longleftrightarrow> mp_externalSessionID f = mp_externalSessionID e \<and> mp_phase f = mp_phase e \<and> mp_active f = mp_active e \<and> mp_done f = mp_done e"

definition handler_frame :: "bstate \<Rightarrow> bstate \<Rightarrow> bool" where
  "handler_frame s t \<longleftrightarrow> same_ident s t \<and> (\<forall>r. is_entry r t = is_entry r s) \<and> (\<forall>r. fixed (entry_of r s) (entry_of r t)) \<and>
     br_mappings (bridge t) = br_mappings (bridge s) \<and> br_all (bridge t) = br_all (bridge s) \<and> br_closed (bridge t) = br_closed (bridge s) \<and>
     br_closeDone (bridge t) = br_closeDone (bridge s) \<and> closing t = closing s"

lemma handler_step_frame: "handler_step k s t \<Longrightarrow> handler_frame s t"
  by (induction rule: handler_step.induct)
     (auto simp: handler_frame_def same_ident_def fixed_def beginCall_def reportFatal_def split: if_splits)

lemma readCallback_ident: "same_ident s t \<Longrightarrow> readCallback k (bridge t) = readCallback k (bridge s)"
  by (rule ext)+ (simp add: same_ident_def readCallback_def validProof_def bridge_signature_def cong: if_cong option.case_cong)

text \<open>\<^verbatim>\<open>inflight\<close> and the gate count the handlers, for every mapping.\<close>

definition counts_ok :: "bstate \<Rightarrow> bool" where
  "counts_ok s \<longleftrightarrow> (\<forall>r. is_entry r s \<longrightarrow> mp_inflight (entry_of r s) = int (slots r s) \<and> of_bool (mp_gate (entry_of r s)) = gates r s)"

definition of_entry :: "bstate \<Rightarrow> handler_pc \<Rightarrow> bool" where
  "of_entry s p \<longleftrightarrow> (\<forall>r. in_flight r p \<longrightarrow> is_entry r s)"

lemma slots_goto: "at i q s \<Longrightarrow> slots r (goto i p t) + of_bool (in_flight r q) = slots r s + of_bool (in_flight r p)"
  if "handlers t = handlers s" for t
  using that count_update [of i "handlers s" "in_flight r" p] by (auto simp: slots_def goto_def at_def)

lemma gates_goto: "at i q s \<Longrightarrow> gates r (goto i p t) + of_bool (holds_gate r q) = gates r s + of_bool (holds_gate r p)"
  if "handlers t = handlers s" for t
  using that count_update [of i "handlers s" "holds_gate r" p] by (auto simp: gates_def goto_def at_def)

lemma counts_move:
  assumes "counts_ok s" and "at i q s" and "handlers t = handlers s" and "\<And>r. is_entry r t = is_entry r s"
    and "\<And>r. is_entry r s \<Longrightarrow> mp_inflight (entry_of r t) + of_bool (in_flight r q) = mp_inflight (entry_of r s) + of_bool (in_flight r p)"
    and "\<And>r. is_entry r s \<Longrightarrow> of_bool (mp_gate (entry_of r t)) + of_bool (holds_gate r q) = (of_bool (mp_gate (entry_of r s)) + of_bool (holds_gate r p) :: nat)"
  shows "counts_ok (goto i p t)"
  unfolding counts_ok_def
proof (intro allI impI conjI)
  fix r assume "is_entry r (goto i p t)"
  then have e: "is_entry r s" using assms(4) by simp
  with assms(1) have c: "mp_inflight (entry_of r s) = int (slots r s)" "of_bool (mp_gate (entry_of r s)) = gates r s" by (auto simp: counts_ok_def)
  show "mp_inflight (entry_of r (goto i p t)) = int (slots r (goto i p t))"
    using assms(5) [OF e] slots_goto [OF assms(3,2), of r p] c(1) by (simp add: of_bool_def split: if_splits)
  show "of_bool (mp_gate (entry_of r (goto i p t))) = gates r (goto i p t)"
    using assms(6) [OF e] gates_goto [OF assms(3,2), of r p] c(2) by simp
qed

lemma gate_free: "counts_ok s \<Longrightarrow> is_entry r s \<Longrightarrow> at i p s \<Longrightarrow> holds_gate r p \<Longrightarrow> mp_gate (entry_of r s)"
proof -
  assume a: "counts_ok s" "is_entry r s" "at i p s" "holds_gate r p"
  then have "p \<in> set (filter (holds_gate r) (handlers s))" by (auto simp: at_def)
  then have "gates r s \<noteq> 0" by (auto simp: gates_def filter_empty_conv)
  moreover have "of_bool (mp_gate (entry_of r s)) = gates r s" using a(1,2) by (simp add: counts_ok_def)
  ultimately show ?thesis by (cases "mp_gate (entry_of r s)") simp_all
qed

lemma slot_taken: "counts_ok s \<Longrightarrow> is_entry r s \<Longrightarrow> p \<in> set (handlers s) \<Longrightarrow> in_flight r p \<Longrightarrow> mp_inflight (entry_of r s) > 0"
  by (auto simp: counts_ok_def slots_def filter_empty_conv)

lemma handler_step_counts:
  assumes "handler_step k s t" and "counts_ok s" and "\<And>p. p \<in> set (handlers s) \<Longrightarrow> of_entry s p"
  shows "counts_ok t"
  using assms
proof (induction rule: handler_step.induct)
  case (arrive s rq)
  then show ?case by (simp add: counts_ok_def slots_def gates_def)
next
  case (leave_gate i r status s)
  then have "is_entry r s" by (metis at_def in_flight.simps(6) nth_mem of_entry_def)
  with leave_gate gate_free [of s r i] show ?case by (intro counts_move [OF leave_gate(2,1)]) auto
qed (erule counts_move, assumption, auto simp: beginCall_def reportFatal_def split: if_splits)+

text \<open>The phases of a mapping, and what the bridge knows of it.\<close>

definition phase_ok :: "mapping \<Rightarrow> bool" where
  "phase_ok e \<longleftrightarrow> mp_active e = (mp_phase e = Open) \<and> (mp_phase e \<noteq> Open \<longrightarrow> mp_done e) \<and>
     (mp_phase e \<in> {Joined, Finished} \<longrightarrow> mp_inflight e = 0)"

definition phases_ok :: "bstate \<Rightarrow> bool" where
  "phases_ok s \<longleftrightarrow> (\<forall>r. is_entry r s \<longrightarrow> phase_ok (entry_of r s))"

definition joined :: "nat \<Rightarrow> bstate \<Rightarrow> bool" where
  "joined r s \<longleftrightarrow> mp_phase (entry_of r s) \<in> {Joined, Finished}"

definition registry_ok :: "bstate \<Rightarrow> bool" where
  "registry_ok s \<longleftrightarrow>
     (\<forall>x r. br_mappings (bridge s) x = Some r \<longleftrightarrow>
        is_entry r s \<and> mp_externalSessionID (entry_of r s) = x \<and> mp_phase (entry_of r s) \<in> {Open, Marked}) \<and>
     (\<forall>r. r \<in> set (br_all (bridge s)) \<longleftrightarrow> is_entry r s \<and> mp_phase (entry_of r s) \<noteq> Finished)"

definition closing_ok :: "bstate \<Rightarrow> bool" where
  "closing_ok s \<longleftrightarrow> (br_closed (bridge s) \<longleftrightarrow> closing s \<noteq> None) \<and>
     (\<forall>entries r. closing s = Some entries \<longrightarrow> is_entry r s \<longrightarrow> \<not> joined r s \<longrightarrow> r \<in> set entries) \<and>
     (\<forall>entries r. closing s = Some entries \<longrightarrow> r \<in> set entries \<longrightarrow> is_entry r s) \<and>
     (br_closeDone (bridge s) \<longrightarrow> closing s \<noteq> None \<and> (\<forall>r. is_entry r s \<longrightarrow> joined r s))"

text \<open>What a handler has checked, and every call that was made.\<close>

definition checked_for :: "bridge_lib \<Rightarrow> bstate \<Rightarrow> nat \<Rightarrow> callback_http \<Rightarrow> int \<Rightarrow> callbackRequest \<Rightarrow> int \<Rightarrow> bool" where
  "checked_for k s r rq n cb t \<longleftrightarrow> is_entry r s \<and> mp_externalSessionID (entry_of r s) = cb_SessionID cb \<and>
     readCallback k (bridge s) n rq = Inr (cb, t)"

fun pc_ok :: "bridge_lib \<Rightarrow> bstate \<Rightarrow> handler_pc \<Rightarrow> bool" where
  "pc_ok k s (Checked rq n cb t) \<longleftrightarrow> readCallback k (bridge s) n rq = Inr (cb, t)"
| "pc_ok k s (Found rq n cb t r) \<longleftrightarrow> checked_for k s r rq n cb t"
| "pc_ok k s (Queued rq n cb t r) \<longleftrightarrow> checked_for k s r rq n cb t"
| "pc_ok k s (Gated rq n cb t r) \<longleftrightarrow> checked_for k s r rq n cb t"
| "pc_ok k s p \<longleftrightarrow> of_entry s p"

definition call_ok :: "bridge_lib \<Rightarrow> bstate \<Rightarrow> call \<Rightarrow> bool" where
  "call_ok k s c \<longleftrightarrow> (\<exists>t. checked_for k s (cl_mapping c) (cl_request c) (cl_now c) (cl_callback c) t \<and>
     tr_Name (cl_tool c) = ToolRemoteExec \<and> bl_arguments k (call_arguments (cl_callback c) t) = Some (tr_Arguments (cl_tool c)))"

definition checks_ok :: "bridge_lib \<Rightarrow> bstate \<Rightarrow> bool" where
  "checks_ok k s \<longleftrightarrow> (\<forall>p \<in> set (handlers s). pc_ok k s p) \<and> (\<forall>c \<in> set (calls s). call_ok k s c)"

definition bridge_inv :: "bridge_lib \<Rightarrow> bstate \<Rightarrow> bool" where
  "bridge_inv k s \<longleftrightarrow> counts_ok s \<and> phases_ok s \<and> registry_ok s \<and> closing_ok s \<and> checks_ok k s"

text \<open>A mapping that exists stays, with its identity.\<close>

definition grows :: "bstate \<Rightarrow> bstate \<Rightarrow> bool" where
  "grows s t \<longleftrightarrow> same_ident s t \<and>
     (\<forall>r. is_entry r s \<longrightarrow> is_entry r t \<and> mp_externalSessionID (entry_of r t) = mp_externalSessionID (entry_of r s))"

lemma of_entry_pc: "pc_ok k s p \<Longrightarrow> of_entry s p"
  by (cases p) (auto simp: of_entry_def checked_for_def)

lemma checked_grows: "grows s t \<Longrightarrow> checked_for k s r rq n cb u \<Longrightarrow> checked_for k t r rq n cb u"
  by (auto simp: grows_def checked_for_def readCallback_ident)

lemma pc_grows: "grows s t \<Longrightarrow> pc_ok k s p \<Longrightarrow> pc_ok k t p"
  by (cases p) (auto simp: checked_grows grows_def readCallback_ident of_entry_def)

lemma call_grows: "grows s t \<Longrightarrow> call_ok k s c \<Longrightarrow> call_ok k t c"
  unfolding call_ok_def using checked_grows by blast

lemma frame_grows: "handler_frame s t \<Longrightarrow> grows s t"
  by (simp add: handler_frame_def grows_def fixed_def)

lemma mapping_step_grows: "mapping_step s t \<Longrightarrow> grows s t"
proof (induction rule: mapping_step.induct)
  case (activate invalid turnDone product external s x b)
  then show ?case
    by (auto simp: Activate_def Let_def grows_def same_ident_def is_entry_def entry_of_def mapping_at_def nth_append split: if_splits)
qed (auto simp: grows_def same_ident_def startClose_mark_def remove_mapping_def finished_mapping_def Close_bridge_def is_entry_def
  entry_of_def mapping_at_def on_entry_def upd_mapping_def nth_list_update)

text \<open>The mapping whose identity a handler read.\<close>

lemma lookup_entry: "registry_ok s \<Longrightarrow> lookup_mapping x (bridge s) = Some r \<Longrightarrow> is_entry r s \<and> mp_externalSessionID (entry_of r s) = x"
  by (auto simp: registry_ok_def lookup_mapping_def split: if_splits)

lemma at_pc: "checks_ok k s \<Longrightarrow> at i p s \<Longrightarrow> pc_ok k s p"
  by (auto simp: checks_ok_def at_def)

lemma grows_same: "grows s s"
  by (simp add: grows_def same_ident_def)

lemma grows_on_entry: "mp_externalSessionID (f (entry_of r s)) = mp_externalSessionID (entry_of r s) \<Longrightarrow> grows s (on_entry r f s)"
  by (simp add: grows_def same_ident_def)

lemma checks_move:
  assumes "checks_ok k s" and "at i q s" and "grows s t" and "handlers t = handlers s" and "calls t = calls s"
    and "pc_ok k s q \<Longrightarrow> pc_ok k s p"
  shows "checks_ok k (goto i p t)"
proof -
  have g: "grows s (goto i p t)" using assms(3) by (simp add: grows_def same_ident_def)
  have p: "pc_ok k s p" using assms(6) at_pc [OF assms(1,2)] by blast
  have "pc_ok k (goto i p t) x" if "x \<in> set (handlers (goto i p t))" for x
    using that p assms(1,4) set_update_subset_insert [of "handlers s" i p] pc_grows [OF g, of k x]
    by (auto simp: checks_ok_def goto_def)
  moreover have "call_ok k (goto i p t) c" if "c \<in> set (calls (goto i p t))" for c
    using that assms(1,5) call_grows [OF g, of k c] by (simp add: checks_ok_def)
  ultimately show ?thesis by (simp add: checks_ok_def)
qed

lemma handler_step_checks:
  assumes "handler_step k s t" and "checks_ok k s" and "registry_ok s"
  shows "checks_ok k t"
  using assms
proof (induction rule: handler_step.induct)
  case (arrive s rq)
  have g: "grows s (s\<lparr>handlers := handlers s @ [Arrived rq]\<rparr>)" by (simp add: grows_def same_ident_def)
  show ?case using arrive pc_grows [OF g] call_grows [OF g] by (auto simp: checks_ok_def of_entry_def)
next
  case (invoke i rq n cb u r s arguments)
  let ?c = "\<lparr>cl_mapping = r, cl_request = rq, cl_now = n, cl_callback = cb, cl_tool = \<lparr>tr_Name = ToolRemoteExec, tr_Arguments = arguments\<rparr>\<rparr>"
  have g: "grows s (s\<lparr>calls := calls s @ [?c]\<rparr>)" by (simp add: grows_def same_ident_def)
  have "pc_ok k s (Gated rq n cb u r)" using invoke by (blast intro: at_pc)
  then have "checked_for k s r rq n cb u" by simp
  then have c: "call_ok k s ?c" and e: "is_entry r s" using invoke.hyps(3) by (auto simp: call_ok_def checked_for_def)
  have "checks_ok k (s\<lparr>calls := calls s @ [?c]\<rparr>)"
    using invoke.prems(1) c pc_grows [OF g] call_grows [OF g] by (auto simp: checks_ok_def)
  then show ?case
    by (rule checks_move) (use invoke.hyps(1) e in \<open>auto simp: grows_same at_def of_entry_def\<close>)
next
  case (found i rq n cb u s r)
  show ?case using found.prems(1) found.hyps(1)
    by (rule checks_move) (use lookup_entry [OF found.prems(2) found.hyps(2)] in \<open>auto simp: grows_same checked_for_def\<close>)
qed (rule checks_move, assumption, assumption, (rule grows_same | rule grows_on_entry),
  auto simp: of_entry_def checked_for_def beginCall_def reportFatal_def grows_same split: if_splits)+

lemma goto_set: "x \<in> set (handlers (goto i p s)) \<Longrightarrow> x = p \<or> x \<in> set (handlers s)"
  using set_update_subset_insert [of "handlers s" i p] by (auto simp: goto_def)

lemma not_flying: "\<forall>p \<in> set (handlers s). \<not> in_flight r p \<Longrightarrow> at i p s \<Longrightarrow> \<not> in_flight r p"
  by (auto simp: at_def)

lemma handler_step_phases:
  assumes "handler_step k s t" and "phases_ok s" and "counts_ok s" and "counts_ok t"
  shows "phases_ok t"
  unfolding phases_ok_def
proof (intro allI impI)
  fix r assume r: "is_entry r t"
  note f = handler_step_frame [OF assms(1)]
  from f r have e: "is_entry r s" "fixed (entry_of r s) (entry_of r t)" by (auto simp: handler_frame_def)
  then have ok: "phase_ok (entry_of r s)" using assms(2) by (simp add: phases_ok_def)
  have "mp_inflight (entry_of r t) = 0" if j: "joined r s"
  proof -
    have "slots r s = 0" using ok j assms(3) e(1) by (auto simp: phase_ok_def joined_def counts_ok_def)
    then have none: "\<forall>p \<in> set (handlers s). \<not> in_flight r p" by (simp add: slots_def filter_empty_conv)
    have dead: "beginCall (entry_of r s) = None" using ok j by (auto simp: beginCall_def phase_ok_def joined_def)
    have "\<forall>p \<in> set (handlers t). \<not> in_flight r p"
      using assms(1) none dead
      by (induction rule: handler_step.induct)
         (auto dest!: goto_set dest: not_flying)
    then show ?thesis using assms(4) r by (simp add: counts_ok_def slots_def filter_empty_conv)
  qed
  then show "phase_ok (entry_of r t)" using ok e(2) by (auto simp: phase_ok_def fixed_def joined_def)
qed

lemma handler_step_registry: "handler_step k s t \<Longrightarrow> registry_ok s \<Longrightarrow> registry_ok t"
  using handler_step_frame [of k s t] by (simp add: registry_ok_def handler_frame_def fixed_def)

lemma handler_step_closing: "handler_step k s t \<Longrightarrow> closing_ok s \<Longrightarrow> closing_ok t"
  using handler_step_frame [of k s t] by (simp add: closing_ok_def handler_frame_def fixed_def joined_def)

lemma mapping_step_counts: "mapping_step s t \<Longrightarrow> counts_ok s \<Longrightarrow> (\<And>p. p \<in> set (handlers s) \<Longrightarrow> of_entry s p) \<Longrightarrow> counts_ok t"
proof (induction rule: mapping_step.induct)
  case (activate invalid turnDone product external s x b)
  have "slots r s = 0 \<and> gates r s = 0" if "r = length (br_objects (bridge s))" for r
  proof -
    have "\<not> in_flight r p \<and> \<not> holds_gate r p" if "p \<in> set (handlers s)" for p
      using activate.prems(2) [OF that] \<open>r = _\<close> by (cases p) (auto simp: of_entry_def is_entry_def)
    then show ?thesis by (simp add: slots_def gates_def filter_empty_conv)
  qed
  then show ?case using activate
    by (auto simp: Activate_def Let_def counts_ok_def is_entry_def entry_of_def mapping_at_def nth_append slots_def gates_def
        less_Suc_eq split: if_splits)
qed (auto simp: counts_ok_def slots_def gates_def startClose_mark_def remove_mapping_def finished_mapping_def Close_bridge_def is_entry_def
  entry_of_def mapping_at_def on_entry_def upd_mapping_def nth_list_update)

lemma mapping_step_phases: "mapping_step s t \<Longrightarrow> phases_ok s \<Longrightarrow> phases_ok t"
proof (induction rule: mapping_step.induct)
  case (activate invalid turnDone product external s x b)
  then show ?case
    by (auto simp: Activate_def Let_def phases_ok_def phase_ok_def is_entry_def entry_of_def mapping_at_def nth_append less_Suc_eq split: if_splits)
qed (auto simp: phases_ok_def phase_ok_def startClose_mark_def remove_mapping_def finished_mapping_def Close_bridge_def is_entry_def
  entry_of_def mapping_at_def on_entry_def upd_mapping_def nth_list_update)

lemma mapping_step_registry: "mapping_step s t \<Longrightarrow> registry_ok s \<Longrightarrow> registry_ok t"
proof (induction rule: mapping_step.induct)
  case (activate invalid turnDone product external s x b)
  then show ?case
    by (auto simp: Activate_def Let_def registry_ok_def is_entry_def entry_of_def mapping_at_def nth_append less_Suc_eq split: if_splits)
next
  case (unmap r s)
  then have "br_mappings (bridge s) (mp_externalSessionID (entry_of r s)) = Some r" by (simp add: registry_ok_def)
  then show ?case using unmap
    by (auto simp: registry_ok_def remove_mapping_def is_entry_def entry_of_def mapping_at_def on_entry_def upd_mapping_def nth_list_update)
       (metis option.inject)+
qed (auto simp: registry_ok_def startClose_mark_def finished_mapping_def Close_bridge_def is_entry_def
  entry_of_def mapping_at_def on_entry_def upd_mapping_def nth_list_update)

lemma closing_frame:
  "closing_ok s \<Longrightarrow> closing t = closing s \<Longrightarrow> br_closed (bridge t) = br_closed (bridge s) \<Longrightarrow> br_closeDone (bridge t) = br_closeDone (bridge s) \<Longrightarrow>
    (\<And>r. is_entry r t = is_entry r s) \<Longrightarrow> (\<And>r. is_entry r s \<Longrightarrow> joined r s \<Longrightarrow> joined r t) \<Longrightarrow> closing_ok t"
  unfolding closing_ok_def by (simp, blast)

lemma registry_fields [simp]:
  "br_closed (remove_mapping r b) = br_closed b" "br_closeDone (remove_mapping r b) = br_closeDone b" "br_objects (remove_mapping r b) = br_objects b"
  "br_closed (finished_mapping r b) = br_closed b" "br_closeDone (finished_mapping r b) = br_closeDone b"
  "br_objects (finished_mapping r b) = br_objects b"
  by (simp_all add: remove_mapping_def finished_mapping_def)

lemma entry_of_bridge: "br_objects b = br_objects (bridge s) \<Longrightarrow> entry_of r (s\<lparr>bridge := b\<rparr>) = entry_of r s \<and> is_entry r (s\<lparr>bridge := b\<rparr>) = is_entry r s"
  by (simp add: entry_of_def is_entry_def mapping_at_def)

lemma mapping_step_closing: "mapping_step s t \<Longrightarrow> registry_ok s \<Longrightarrow> closing_ok s \<Longrightarrow> closing_ok t"
proof (induction rule: mapping_step.induct)
  case (activate invalid turnDone product external s x b)
  then show ?case
    by (auto simp: Activate_def Let_def closing_ok_def joined_def is_entry_def entry_of_def mapping_at_def nth_append less_Suc_eq split: if_splits)
next
  case (close s entries b)
  then show ?case by (auto simp: closing_ok_def registry_ok_def joined_def Close_bridge_def is_entry_def entry_of_def mapping_at_def)
next
  case (close_done s entries)
  then show ?case by (auto simp: closing_ok_def joined_def is_entry_def entry_of_def mapping_at_def)
qed ((erule closing_frame; auto simp: joined_def entry_of_bridge startClose_mark_def)+)

lemma mapping_step_checks: "mapping_step s t \<Longrightarrow> checks_ok k s \<Longrightarrow> checks_ok k t"
proof -
  assume m: "mapping_step s t" and c: "checks_ok k s"
  note g = mapping_step_grows [OF m]
  have "handlers t = handlers s \<and> calls t = calls s" using m by (induction rule: mapping_step.induct) (simp_all add: on_entry_def)
  then show ?thesis using c pc_grows [OF g] call_grows [OF g] by (simp add: checks_ok_def)
qed

lemma bridge_step_inv: "bridge_step k s t \<Longrightarrow> bridge_inv k s \<Longrightarrow> bridge_inv k t"
proof -
  assume s: "bridge_step k s t" and i: "bridge_inv k s"
  have of: "of_entry s p" if "p \<in> set (handlers s)" for p using i that of_entry_pc by (auto simp: bridge_inv_def checks_ok_def)
  show ?thesis
  proof (cases "handler_step k s t")
    case True
    then have "counts_ok t" using i of handler_step_counts by (auto simp: bridge_inv_def)
    with True i show ?thesis
      unfolding bridge_inv_def using handler_step_phases handler_step_registry handler_step_closing handler_step_checks by blast
  next
    case False
    with s have m: "mapping_step s t" by (simp add: bridge_step_def)
    then have "counts_ok t" using i of mapping_step_counts by (auto simp: bridge_inv_def)
    with m i show ?thesis
      unfolding bridge_inv_def using mapping_step_phases mapping_step_registry mapping_step_closing mapping_step_checks by blast
  qed
qed

lemma NewBridge_fresh: "NewBridge options = Inr b \<Longrightarrow>
  br_objects b = [] \<and> br_mappings b = Map.empty \<and> br_all b = [] \<and> \<not> br_closed b \<and> \<not> br_closeDone b"
  by (auto simp: NewBridge_def Let_def split: if_splits)

lemma bridge_init_inv: "bridge_init s \<Longrightarrow> bridge_inv k s"
proof -
  assume i: "bridge_init s"
  then have "br_objects (bridge s) = [] \<and> br_mappings (bridge s) = Map.empty \<and> br_all (bridge s) = [] \<and> \<not> br_closed (bridge s) \<and> \<not> br_closeDone (bridge s)"
    using NewBridge_fresh by (auto simp: bridge_init_def)
  with i show ?thesis
    by (simp add: bridge_init_def bridge_inv_def counts_ok_def phases_ok_def registry_ok_def closing_ok_def checks_ok_def is_entry_def)
qed

interpretation bridges: invariant_of bridge_init "bridge_step k" "bridge_inv k" for k
  by unfold_locales (auto intro: bridge_init_inv bridge_step_inv)

subsection \<open>Authorized calls\<close>

lemma readCallback_Inr:
  assumes "readCallback k b n rq = Inr (cb, t)"
  shows "cq_Path rq = br_callbackPath b \<and> cq_Method rq = ''POST'' \<and> loopbackRemote (cq_RemoteAddr rq) \<and> length (cq_Body rq) \<le> MaxRequestBytes \<and>
    cb_Command cb \<noteq> [] \<and> 1 \<le> t \<and> t \<le> 60 \<and> validProof k b n rq (cb_SessionID cb)"
  using assms
  by (auto simp: readCallback_def MinimumExecTimeout_def MaximumExecTimeout_def split: if_splits option.splits prod.splits)

lemma invoking_once: "counts_ok s \<Longrightarrow> is_entry r s \<Longrightarrow> length (filter (\<lambda>p. p = Invoking r) (handlers s)) \<le> 1"
proof -
  assume a: "counts_ok s" "is_entry r s"
  have "length (filter (\<lambda>p. p = Invoking r) (handlers s)) \<le> length (filter (holds_gate r) (handlers s))"
    by (auto simp: length_filter_conv_card intro!: card_mono)
  moreover have "of_bool (mp_gate (entry_of r s)) = gates r s" using a by (simp add: counts_ok_def)
  ultimately show ?thesis by (cases "mp_gate (entry_of r s)") (simp_all add: gates_def)
qed


subsection \<open>Closing\<close>

lemma joined_step:
  assumes "bridge_step k s t" and "bridge_inv k s" and "is_entry r s" and "joined r s"
  shows "is_entry r t \<and> joined r t \<and> filter (\<lambda>c. cl_mapping c = r) (calls t) = filter (\<lambda>c. cl_mapping c = r) (calls s)"
proof (cases "handler_step k s t")
  case True
  have flying: "\<forall>p \<in> set (handlers s). \<not> in_flight r p"
    using slot_taken [OF _ assms(3)] assms(2-4) by (force simp: bridge_inv_def phases_ok_def phase_ok_def joined_def)
  have "filter (\<lambda>c. cl_mapping c = r) (calls t) = filter (\<lambda>c. cl_mapping c = r) (calls s)"
    using True flying by (induction rule: handler_step.induct) (auto dest: not_flying)
  then show ?thesis using handler_step_frame [OF True] assms(3,4) by (auto simp: handler_frame_def fixed_def joined_def)
next
  case False
  with assms(1) have m: "mapping_step s t" by (simp add: bridge_step_def)
  have "calls t = calls s" using m by (induction rule: mapping_step.induct) simp_all
  moreover have "joined r t" using m assms(3,4)
  proof (induction rule: mapping_step.induct)
    case (activate invalid turnDone product external s x b)
    then show ?case by (auto simp: Activate_def Let_def joined_def is_entry_def entry_of_def mapping_at_def nth_append split: if_splits)
  qed (auto simp: joined_def entry_of_bridge startClose_mark_def Close_bridge_def)
  ultimately show ?thesis using mapping_step_grows [OF m] assms(3) by (simp add: grows_def)
qed

text \<open>
  C24: When the close of an activation has returned, or the close of the whole bridge, no handler is inside
  the invoker of a mapping that existed then and none will ever call it again, in whatever way the
  rest interleaves.
\<close>

theorem bridge_close_joins:
  assumes "reach bridge_init (bridge_step k) s" and "is_entry r s" and "joined r s \<or> br_closeDone (bridge s)"
    and "(bridge_step k)\<^sup>*\<^sup>* s t"
  shows "Invoking r \<notin> set (handlers t) \<and> filter (\<lambda>c. cl_mapping c = r) (calls t) = filter (\<lambda>c. cl_mapping c = r) (calls s)"
proof -
  have inv: "bridge_inv k s" by (rule bridges.reach_inv [OF assms(1)])
  then have j: "joined r s" using assms(2,3) by (auto simp: bridge_inv_def closing_ok_def)
  have "bridge_inv k t \<and> is_entry r t \<and> joined r t \<and> filter (\<lambda>c. cl_mapping c = r) (calls t) = filter (\<lambda>c. cl_mapping c = r) (calls s)"
    using assms(4)
  proof (induction rule: rtranclp_induct)
    case (step y z)
    then show ?case using joined_step [of k y z r] bridge_step_inv by auto
  qed (use inv assms(2) j in auto)
  then have t: "counts_ok t" "phase_ok (entry_of r t)" "is_entry r t" "joined r t"
    "filter (\<lambda>c. cl_mapping c = r) (calls t) = filter (\<lambda>c. cl_mapping c = r) (calls s)"
    by (auto simp: bridge_inv_def phases_ok_def)
  have "Invoking r \<notin> set (handlers t)"
    using slot_taken [OF t(1,3), of "Invoking r"] t(2,4) by (auto simp: phase_ok_def joined_def)
  with t(5) show ?thesis by simp
qed

text \<open>Every handler and every mapping has a next step while a close is under way; ranks fall with it.\<close>

fun pc_rank :: "handler_pc \<Rightarrow> nat" where
  "pc_rank (Arrived _) = 10"
| "pc_rank (Checked _ _ _ _) = 9"
| "pc_rank (Found _ _ _ _ _) = 8"
| "pc_rank (Queued _ _ _ _ _) = 7"
| "pc_rank (Gated _ _ _ _ _) = 6"
| "pc_rank (Invoking _) = 5"
| "pc_rank (Reporting _ _ _) = 4"
| "pc_rank (Closing _ _) = 3"
| "pc_rank (Leaving _ g _) = (if g then 2 else 1)"
| "pc_rank (Ended _) = 0"

fun phase_rank :: "close_phase \<Rightarrow> nat" where
  "phase_rank Open = 3" | "phase_rank Marked = 2" | "phase_rank Removed = 1" | "phase_rank Joined = 0" | "phase_rank Finished = 0"

definition phases_rank :: "bstate \<Rightarrow> nat" where
  "phases_rank s = sum_list (map (phase_rank \<circ> mp_phase) (br_objects (bridge s)))"

definition bridge_rank :: "bstate \<Rightarrow> nat" where
  "bridge_rank s = sum_list (map pc_rank (handlers s)) + phases_rank s"

lemma sum_list_update_less:
  fixes f :: "'a \<Rightarrow> nat"
  shows "i < length xs \<Longrightarrow> f y < f (xs ! i) \<Longrightarrow> sum_list (map f (xs[i := y])) < sum_list (map f xs)"
proof (induction xs arbitrary: i)
  case (Cons x xs)
  then show ?case by (cases i) auto
qed simp

lemma phases_rank_same: "mp_phase (f (entry_of r s)) = mp_phase (entry_of r s) \<Longrightarrow> phases_rank (on_entry r f s) = phases_rank s"
proof (cases "is_entry r s")
  case True
  assume "mp_phase (f (entry_of r s)) = mp_phase (entry_of r s)"
  then have "map mp_phase ((br_objects (bridge s))[r := f (br_objects (bridge s) ! r)]) = map mp_phase (br_objects (bridge s))"
    by (simp add: map_update entry_of_def mapping_at_def list_update_same_conv [THEN iffD2] True [unfolded is_entry_def])
  then show ?thesis by (simp add: phases_rank_def on_entry_def upd_mapping_def map_map [symmetric] del: map_map)
qed (simp add: phases_rank_def on_entry_def upd_mapping_def is_entry_def list_update_beyond)

lemma phases_rank_less:
  "is_entry r s \<Longrightarrow> br_objects b = br_objects (bridge s) \<Longrightarrow> phase_rank (mp_phase (f (entry_of r s))) < phase_rank (mp_phase (entry_of r s)) \<Longrightarrow>
    phases_rank (on_entry r f (s\<lparr>bridge := b\<rparr>)) < phases_rank s"
  by (simp add: phases_rank_def on_entry_def upd_mapping_def is_entry_def entry_of_def mapping_at_def sum_list_update_less [of _ _ "phase_rank \<circ> mp_phase"])

lemma goto_rank:
  "at i q s \<Longrightarrow> handlers t = handlers s \<Longrightarrow> phases_rank t = phases_rank s \<Longrightarrow> pc_rank p < pc_rank q \<Longrightarrow> bridge_rank (goto i p t) < bridge_rank s"
  using sum_list_update_less [of i "handlers s" pc_rank p]
  by (auto simp: bridge_rank_def goto_def at_def phases_rank_def)

lemma handler_progress:
  assumes "bridge_inv k s" and "br_closed (bridge s)" and "\<And>r. is_entry r s \<Longrightarrow> mp_phase (entry_of r s) \<notin> {Open, Marked}"
    and "i < length (handlers s)" and "pc_rank (handlers s ! i) \<noteq> 0"
  shows "\<exists>t. handler_step k s t \<and> bridge_rank t < bridge_rank s"
proof -
  have a: "at i (handlers s ! i) s" using assms(4) by (simp add: at_def)
  have pc: "pc_ok k s (handlers s ! i)" using assms(1) a by (auto simp: bridge_inv_def intro: at_pc)
  note rank = goto_rank [OF a refl refl]
  show ?thesis
  proof (cases "handlers s ! i")
    case (Arrived rq)
    show ?thesis
    proof (cases "readCallback k (bridge s) (clock s) rq")
      case (Inl status)
      then show ?thesis using refused [of i rq s k status] a Arrived rank [of "Ended status"] by auto
    next
      case (Inr x)
      then show ?thesis using checked [of i rq s k "fst x" "snd x"] a Arrived rank [of "Checked rq (clock s) (fst x) (snd x)"] by auto
    qed
  next
    case (Checked rq n cb t)
    then show ?thesis using unknown [of i rq n cb t s k] a assms(2) rank [of "Ended 404"] by (auto simp: lookup_mapping_def)
  next
    case (Found rq n cb t r)
    then have "is_entry r s" using pc by (simp add: checked_for_def)
    then have "beginCall (entry_of r s) = None"
      using assms(1,3) by (auto simp: beginCall_def bridge_inv_def phases_ok_def phase_ok_def)
    then show ?thesis using inactive [of i rq n cb t r s k] a Found rank [of "Ended 404"] by auto
  next
    case (Queued rq n cb t r)
    then show ?thesis using queue_timeout [of i rq n cb t r s k] a rank [of "Leaving r False 408"] by auto
  next
    case (Gated rq n cb t r)
    then show ?thesis using gate_timeout [of i rq n cb t r s k] a rank [of "Leaving r True 408"] by auto
  next
    case (Invoking r)
    have "answer k False False (Inl (AgOther [])) = (500, Some (AgOther []))" by (simp add: answer_def)
    then show ?thesis using failed [of i r s k False False "Inl (AgOther [])"] a Invoking rank [of "Reporting r (AgOther []) 500"] by auto
  next
    case (Reporting r e status)
    have "phases_rank (on_entry r (reportFatal e) s) = phases_rank s" by (rule phases_rank_same) (simp add: reportFatal_def)
    then show ?thesis using report [of i r e status s k] a Reporting goto_rank [OF a, of "on_entry r (reportFatal e) s" "Closing r status"] by auto
  next
    case (Closing r status)
    then have "is_entry r s" using pc by (simp add: of_entry_def)
    then show ?thesis using reported [of i r status s k] a Closing assms(3) rank [of "Leaving r True status"] by auto
  next
    case (Leaving r g status)
    show ?thesis
    proof (cases g)
      case True
      have "phases_rank (on_entry r (\<lambda>e. e\<lparr>mp_gate := False\<rparr>) s) = phases_rank s" by (rule phases_rank_same) simp
      then show ?thesis using leave_gate [of i r status s k] a Leaving True goto_rank [OF a, of "on_entry r (\<lambda>e. e\<lparr>mp_gate := False\<rparr>) s" "Leaving r False status"] by auto
    next
      case False
      have "phases_rank (on_entry r (\<lambda>e. e\<lparr>mp_inflight := mp_inflight e - 1\<rparr>) s) = phases_rank s" by (rule phases_rank_same) simp
      then show ?thesis using leave [of i r status s k] a Leaving False goto_rank [OF a, of "on_entry r (\<lambda>e. e\<lparr>mp_inflight := mp_inflight e - 1\<rparr>) s" "Ended status"] by auto
    qed
  qed (use assms(5) in simp)
qed

lemma in_flight_rank: "in_flight r p \<Longrightarrow> pc_rank p > 0"
  by (cases p) auto

lemma mapping_rank:
  "is_entry r s \<Longrightarrow> br_objects b = br_objects (bridge s) \<Longrightarrow> phase_rank (mp_phase (f (entry_of r s))) < phase_rank (mp_phase (entry_of r s)) \<Longrightarrow>
    bridge_rank (on_entry r f (s\<lparr>bridge := b\<rparr>)) < bridge_rank s"
  using phases_rank_less by (auto simp: bridge_rank_def)

lemma close_progress:
  assumes "bridge_inv k s" and "br_closed (bridge s)" and "\<not> br_closeDone (bridge s)"
  shows "\<exists>t. bridge_step k s t \<and> br_closed (bridge t) \<and> (br_closeDone (bridge t) \<or> bridge_rank t < bridge_rank s)"
proof -
  consider (opn) r where "is_entry r s" "mp_phase (entry_of r s) = Open" | (marked) r where "is_entry r s" "mp_phase (entry_of r s) = Marked"
    | (handler) i where "\<And>r. is_entry r s \<Longrightarrow> mp_phase (entry_of r s) \<notin> {Open, Marked}" "i < length (handlers s)" "pc_rank (handlers s ! i) \<noteq> 0"
    | (removed) r where "is_entry r s" "mp_phase (entry_of r s) = Removed" "\<forall>p \<in> set (handlers s). pc_rank p = 0"
    | (ready) "\<forall>r. is_entry r s \<longrightarrow> joined r s"
  proof (cases "\<exists>r. is_entry r s \<and> mp_phase (entry_of r s) \<in> {Open, Marked}")
    case False
    note calm = this
    show ?thesis
    proof (cases "\<forall>p \<in> set (handlers s). pc_rank p = 0")
      case True
      have "mp_phase (entry_of r s) = Removed" if "is_entry r s" "\<not> joined r s" for r
        using that calm by (cases "mp_phase (entry_of r s)") (auto simp: joined_def)
      then show ?thesis using True removed ready by blast
    next
      case False
      then obtain i where "i < length (handlers s)" "pc_rank (handlers s ! i) \<noteq> 0" by (auto simp: in_set_conv_nth)
      then show ?thesis using calm handler by blast
    qed
  qed (use opn marked in auto)
  then show ?thesis
  proof cases
    case (opn r)
    then show ?thesis using mark [OF opn] mapping_rank [of r s "bridge s" startClose_mark] assms(2)
      by (intro exI [of _ "on_entry r startClose_mark s"]) (simp add: bridge_step_def startClose_mark_def)
  next
    case (marked r)
    let ?t = "on_entry r (mp_phase_update (\<lambda>_. Removed)) (s\<lparr>bridge := remove_mapping r (bridge s)\<rparr>)"
    have "bridge_rank ?t < bridge_rank s" using marked by (intro mapping_rank) simp_all
    then show ?thesis using unmap [OF marked] assms(2) by (intro exI [of _ ?t]) (simp add: bridge_step_def)
  next
    case (handler i)
    then show ?thesis using handler_progress [OF assms(1,2) handler] handler_step_frame assms(2)
      by (meson bridge_step_def handler_frame_def)
  next
    case (removed r)
    have "slots r s = 0"
      using removed(3) in_flight_rank [of r] by (fastforce simp: slots_def filter_empty_conv)
    then have "mp_inflight (entry_of r s) = 0" using assms(1) removed(1) by (simp add: bridge_inv_def counts_ok_def)
    then show ?thesis using join [OF removed(1,2)] mapping_rank [of r s "bridge s" "mp_phase_update (\<lambda>_. Joined)"] removed assms(2)
      by (intro exI [of _ "on_entry r (mp_phase_update (\<lambda>_. Joined)) s"]) (simp add: bridge_step_def)
  next
    case ready
    obtain entries where e: "closing s = Some entries" "\<forall>r \<in> set entries. is_entry r s"
      using assms(1,2) by (auto simp: bridge_inv_def closing_ok_def)
    then show ?thesis using close_done [OF e(1)] ready assms(2)
      by (intro exI [of _ "s\<lparr>bridge := bridge s\<lparr>br_closeDone := True\<rparr>\<rparr>"]) (auto simp: bridge_step_def joined_def)
  qed
qed

text \<open>
  C25: A close of the bridge is never stuck: whatever handlers are queued, invoking or reporting when it is
  called, and even if one of them is the caller's own failure, there is a way to its end in which
  every mapping is joined.
\<close>

theorem bridge_close_completes:
  assumes "reach bridge_init (bridge_step k) s" and "br_closed (bridge s)"
  shows "\<exists>t. (bridge_step k)\<^sup>*\<^sup>* s t \<and> br_closeDone (bridge t) \<and> (\<forall>r. is_entry r t \<longrightarrow> joined r t)"
proof -
  have "\<exists>t. (bridge_step k)\<^sup>*\<^sup>* s t \<and> bridge_inv k t \<and> br_closeDone (bridge t)" if "bridge_inv k s" "br_closed (bridge s)" for s
    using that
  proof (induction "bridge_rank s" arbitrary: s rule: less_induct)
    case less
    show ?case
    proof (cases "br_closeDone (bridge s)")
      case False
      obtain t where t: "bridge_step k s t" "br_closed (bridge t)" "br_closeDone (bridge t) \<or> bridge_rank t < bridge_rank s"
        using close_progress [OF less.prems False] by blast
      note i = bridge_step_inv [OF t(1) less.prems(1)]
      from t(3) show ?thesis
      proof
        assume "bridge_rank t < bridge_rank s"
        from less.hyps [OF this i t(2)] t(1) show ?thesis by (meson converse_rtranclp_into_rtranclp)
      qed (use t(1) i in blast)
    qed (use less.prems in blast)
  qed
  from this [OF bridges.reach_inv [OF assms(1)] assms(2)] show ?thesis by (auto simp: bridge_inv_def closing_ok_def)
qed

subsection \<open>A concrete bridge\<close>

definition bx_callback :: callbackRequest where
  "bx_callback = \<lparr>cb_SessionID = ''ses_a'', cb_Command = ''uptime'', cb_CWD = [], cb_TimeoutSeconds = []\<rparr>"

definition bx_lib :: bridge_lib where
  "bx_lib = \<lparr>bl_mediaType = \<lambda>_. Some ''application/json'', bl_decode = \<lambda>_. Some (bx_callback, []), bl_int = \<lambda>_. None,
     bl_hmac = \<lambda>_ _. replicate 32 (CHR 0x00), bl_arguments = \<lambda>a. Some (ra_Command a), bl_result = \<lambda>_. Some ''{}''\<rparr>"

definition bx_request :: callback_http where
  "bx_request = \<lparr>cq_Path = CallbackPath, cq_Method = ''POST'', cq_RemoteAddr = ''127.0.0.1:4000'',
     cq_Header = [(HeaderTimestamp, ''100''), (''Authorization'', Authorization @ '' '' @ replicate 43 (CHR ''A''))], cq_Body = ''{}'',
     cq_BodyErr = False, cq_DeadlineErr = False\<rparr>"

definition bx_entry :: "bool \<Rightarrow> bool \<Rightarrow> int \<Rightarrow> close_phase \<Rightarrow> mapping" where
  "bx_entry fin g n p = \<lparr>mp_productSessionID = ''s'', mp_externalSessionID = ''ses_a'', mp_done = fin, mp_gate = g, mp_fatal = [],
     mp_fatalOnce = False, mp_active = (p = Open), mp_inflight = n, mp_phase = p\<rparr>"

definition bx_bridge :: "mapping list \<Rightarrow> bool \<Rightarrow> Bridge" where
  "bx_bridge es mapped = \<lparr>br_secret = replicate 32 (CHR ''k''), br_callbackPath = CallbackPath, br_proofDomain = proofDomain,
     br_bodyReadTimeout = defaultBodyReadTime, br_responseTimeout = defaultResponseTime, br_objects = es,
     br_mappings = (if mapped then [''ses_a'' \<mapsto> 0] else Map.empty), br_all = (if es = [] then [] else [0]), br_closed = False,
     br_closeDone = False\<rparr>"

definition bx :: "mapping list \<Rightarrow> bool \<Rightarrow> handler_pc list \<Rightarrow> call list \<Rightarrow> bstate" where
  "bx es mapped hs cs = \<lparr>bridge = bx_bridge es mapped, handlers = hs, closing = None, calls = cs, clock = 100\<rparr>"

definition bx_call :: call where
  "bx_call = \<lparr>cl_mapping = 0, cl_request = bx_request, cl_now = 100, cl_callback = bx_callback,
     cl_tool = \<lparr>tr_Name = ToolRemoteExec, tr_Arguments = ''uptime''\<rparr>\<rparr>"

lemmas bx_defs = bx_def bx_bridge_def bx_entry_def goto_def on_entry_def upd_mapping_def entry_of_def mapping_at_def is_entry_def at_def

lemma bx_new: "NewBridge \<lparr>bo_Secret = replicate 32 (CHR ''k''), bo_CallbackPath = [], bo_ProofDomain = [], bo_BodyReadTimeout = 0,
  bo_ResponseTimeout = 0\<rparr> = Inr (bx_bridge [] False)"
proof -
  have "validCallbackPath CallbackPath" "validProofDomain proofDomain" "length proofDomain = 28" by code_simp+
  then show ?thesis
    by (simp add: NewBridge_def bx_bridge_def minimumBridgeSecret_def defaultBodyReadTime_def defaultResponseTime_def maximumIOTimeout_def)
qed

lemma bx_readCallback: "readCallback bx_lib (bx_bridge es mapped) 100 bx_request = Inr (bx_callback, 30)"
proof -
  have "readCallback bx_lib (bx_bridge [] False) 100 bx_request = Inr (bx_callback, 30)" by code_simp
  moreover have "same_ident (bx [] False [] []) (bx es mapped [] [])" by (simp add: same_ident_def bx_def bx_bridge_def)
  from readCallback_ident [OF this, of bx_lib] have "readCallback bx_lib (bx_bridge es mapped) = readCallback bx_lib (bx_bridge [] False)"
    by (simp add: bx_def)
  ultimately show ?thesis by simp
qed

lemma bx_active: "reach bridge_init (bridge_step bx_lib) (bx [bx_entry False False 0 Open] True [] [])"
proof -
  have "reach bridge_init (bridge_step bx_lib) (bx [] False [] [])"
    by (rule reach_init) (auto simp: bridge_init_def bx_def intro!: bx_new)
  moreover have "mapping_step (bx [] False [] []) (bx [bx_entry False False 0 Open] True [] [])"
  proof -
    have "validExternalSessionID ''ses_a''" by code_simp
    then show ?thesis using activate [of False False "''s''" "''ses_a''" "bx [] False [] []"] by (simp add: Activate_def bx_defs)
  qed
  ultimately show ?thesis by (meson bridge_step_def reach_step)
qed

lemma bx_called: "reach bridge_init (bridge_step bx_lib) (bx [bx_entry False True 1 Open] True [Invoking 0] [bx_call])"
proof -
  let ?m = "\<lambda>g n. bx [bx_entry False g n Open] True"
  have "handler_step bx_lib (?m False 0 [] []) (?m False 0 [Arrived bx_request] [])"
    using arrive [of bx_lib "?m False 0 [] []" bx_request] by (simp add: bx_defs)
  moreover have "handler_step bx_lib (?m False 0 [Arrived bx_request] []) (?m False 0 [Checked bx_request 100 bx_callback 30] [])"
    using checked [of 0 bx_request "?m False 0 [Arrived bx_request] []" bx_lib bx_callback 30] bx_readCallback
    by (simp add: bx_def at_def goto_def)
  moreover have "handler_step bx_lib (?m False 0 [Checked bx_request 100 bx_callback 30] []) (?m False 0 [Found bx_request 100 bx_callback 30 0] [])"
    using found [of 0 bx_request 100 bx_callback 30 "?m False 0 [Checked bx_request 100 bx_callback 30] []" 0]
    by (simp add: bx_defs lookup_mapping_def bx_callback_def)
  moreover have "handler_step bx_lib (?m False 0 [Found bx_request 100 bx_callback 30 0] []) (?m False 1 [Queued bx_request 100 bx_callback 30 0] [])"
    using begun [of 0 bx_request 100 bx_callback 30 0 "?m False 0 [Found bx_request 100 bx_callback 30 0] []"]
    by (simp add: bx_defs beginCall_def)
  moreover have "handler_step bx_lib (?m False 1 [Queued bx_request 100 bx_callback 30 0] []) (?m True 1 [Gated bx_request 100 bx_callback 30 0] [])"
    using gate [of 0 bx_request 100 bx_callback 30 0 "?m False 1 [Queued bx_request 100 bx_callback 30 0] []"]
    by (simp add: bx_defs)
  moreover have "handler_step bx_lib (?m True 1 [Gated bx_request 100 bx_callback 30 0] []) (?m True 1 [Invoking 0] [bx_call])"
    using invoke [of 0 bx_request 100 bx_callback 30 0 "?m True 1 [Gated bx_request 100 bx_callback 30 0] []" bx_lib "''uptime''"]
    by (simp add: bx_defs bx_lib_def call_arguments_def bx_callback_def bx_call_def)
  ultimately show ?thesis using bx_active by (meson bridge_step_def reach_step)
qed


lemma bx_closed: "reach bridge_init (bridge_step bx_lib) (bx [bx_entry True False 0 Joined] False [] [])"
proof -
  have "mapping_step (bx [bx_entry False False 0 Open] True [] []) (bx [bx_entry True False 0 Marked] True [] [])"
    using mark [of 0 "bx [bx_entry False False 0 Open] True [] []"] by (simp add: bx_defs startClose_mark_def)
  moreover have "mapping_step (bx [bx_entry True False 0 Marked] True [] []) (bx [bx_entry True False 0 Removed] False [] [])"
    using unmap [of 0 "bx [bx_entry True False 0 Marked] True [] []"] by (simp add: bx_defs remove_mapping_def)
  moreover have "mapping_step (bx [bx_entry True False 0 Removed] False [] []) (bx [bx_entry True False 0 Joined] False [] [])"
    using join [of 0 "bx [bx_entry True False 0 Removed] False [] []"] by (simp add: bx_defs)
  ultimately show ?thesis using bx_active by (meson bridge_step_def reach_step)
qed

theorem bridge_close_joins_witness:
  "reach bridge_init (bridge_step bx_lib) (bx [bx_entry True False 0 Joined] False [] []) \<and>
   bridge_step bx_lib (bx [bx_entry True False 0 Joined] False [] []) (bx [bx_entry True False 0 Joined] False [Arrived bx_request] []) \<and>
   Invoking 0 \<notin> set (handlers (bx [bx_entry True False 0 Joined] False [Arrived bx_request] []))"
proof -
  let ?s = "bx [bx_entry True False 0 Joined] False [] []"
  have step: "bridge_step bx_lib ?s (bx [bx_entry True False 0 Joined] False [Arrived bx_request] [])"
    using arrive [of bx_lib ?s bx_request] by (simp add: bridge_step_def bx_def)
  have "is_entry 0 ?s" "joined 0 ?s" by (simp_all add: bx_defs joined_def)
  then show ?thesis using bridge_close_joins [OF bx_closed, of 0] step bx_closed by blast
qed

theorem bridge_close_completes_witness:
  "\<exists>s t. br_closed (bridge s) \<and> handlers s = [Invoking 0] \<and> (bridge_step bx_lib)\<^sup>*\<^sup>* s t \<and> br_closeDone (bridge t)"
proof -
  let ?s = "bx [bx_entry False True 1 Open] True [Invoking 0] [bx_call]"
  let ?t = "?s\<lparr>bridge := (bridge ?s)\<lparr>br_closed := True\<rparr>, closing := Some [0]\<rparr>"
  have "mapping_step ?s ?t" using close [of ?s "[0]"] by (simp add: bx_def bx_bridge_def Close_bridge_def)
  then have "reach bridge_init (bridge_step bx_lib) ?t" using bx_called by (meson bridge_step_def reach_step)
  moreover have "br_closed (bridge ?t)" "handlers ?t = [Invoking 0]" by (simp_all add: bx_def)
  ultimately show ?thesis using bridge_close_completes [of bx_lib ?t] by blast
qed

end
