(* ===== verification/DeepSeek.thy ===== *)
theory DeepSeek
  imports AgentService OpenCodeSse GoFold
begin

text \<open>
  \<^verbatim>\<open>internal/deepseek/adapter.go\<close>: the adapter that talks to DeepSeek directly.  \<open>deepseek_Run\<close> is the tree of
  callbacks a turn of \<open>AgentTurn\<close> drives, so what is proved of every adapter's turn holds of it.

  The provider is a list of functions from a request to a response, one per round; after the last
  one the transport fails.  A response carries the reads of its body as the transport cuts them and
  the number of lines after which the idle watchdog cancels the stream.  JSON, the media type parser
  and case folding are parameters.  The split function is the one of \<open>OpenCodeSse\<close>, text and limits
  included.
\<close>

subsection \<open>Data\<close>

definition maximumModelIDBytes :: nat where "maximumModelIDBytes = 256"
definition maximumAPIKeyBytes :: nat where "maximumAPIKeyBytes = 4096"
definition maximumRequestBytes :: nat where "maximumRequestBytes = 4 * 1024 * 1024"
definition maximumStreamRecords :: nat where "maximumStreamRecords = 4096"
definition maximumToolCallsPerReply :: nat where "maximumToolCallsPerReply = 64"
definition maximumToolArgumentBytes :: nat where "maximumToolArgumentBytes = 128 * 1024"
definition defaultStreamIdleTimeout :: duration where "defaultStreamIdleTimeout = 60 * second"
definition defaultMaximumTokens :: int where "defaultMaximumTokens = 8192"

definition systemPrompt :: string where
  "systemPrompt = ''You are an agent operating on one selected remote device. Use remote_exec for every device fact or action; never claim that a command ran unless its tool result proves it. The server may require the user to approve a command. Keep the final answer concise and distinguish observed command output from inference.''"

record wireToolCall =
  wc_ID :: string
  wc_Type :: string
  wc_Name :: string
  wc_Arguments :: string

record wireMessage =
  wm_Role :: string
  wm_Content :: string
  wm_Reasoning :: string
  wm_ToolCalls :: "wireToolCall list"
  wm_ToolCallID :: string

record chatRequest =
  cr_Model :: string
  cr_Messages :: "wireMessage list"
  cr_Tools :: "string list"             \<comment> \<open>the names of the offered functions\<close>
  cr_Stream :: bool
  cr_IncludeUsage :: bool
  cr_MaximumTokens :: int
  cr_Thinking :: string
  cr_ReasoningEffort :: string

record streamToolCallDelta =
  sd_Index :: "int option"
  sd_ID :: string
  sd_Type :: string
  sd_Name :: string
  sd_Arguments :: string

record streamChoice =
  sc_Index :: int
  sc_Content :: "string option"
  sc_Reasoning :: "string option"
  sc_ToolCalls :: "streamToolCallDelta list"
  sc_FinishReason :: "string option"

record streamResult =
  sr_content :: string
  sr_reasoning :: string
  sr_finish :: string
  sr_toolCalls :: "wireToolCall list"

text \<open>The variables of \<^verbatim>\<open>consumeStream\<close>.\<close>

record streamState =
  ss_content :: string
  ss_reasoning :: string
  ss_finish :: string
  ss_finishSeen :: bool
  ss_doneMarker :: bool
  ss_records :: nat
  ss_toolCalls :: "(int \<times> wireToolCall) list"
  ss_lines :: nat                       \<comment> \<open>lines the scanner has delivered\<close>

record ds_body =
  db_reads :: "string list"
  db_err :: "agent_err option"          \<comment> \<open>the error that ends the body, if not EOF\<close>
  db_idle :: "nat option"               \<comment> \<open>lines after which the watchdog cancels, if it does before an error is classified\<close>

datatype ds_response =
    BuildFails
  | TransportFails bool                 \<comment> \<open>whether the watchdog was the cause\<close>
  | Response int string ds_body         \<comment> \<open>status, content type\<close>

record ds_lib =
  dl_request :: "chatRequest \<Rightarrow> string option"
  dl_chunk :: "string \<Rightarrow> (streamChoice list \<times> string) option"
  dl_result :: "ToolResult \<Rightarrow> string option"
  dl_mediaType :: "string \<Rightarrow> string option"
  dl_fold :: "string \<Rightarrow> string"

text \<open>The fields of \<^verbatim>\<open>url.URL\<close>; \<open>pu_User\<close> tells whether there is user information.\<close>

record provider_url =
  pu_Scheme :: string
  pu_Opaque :: string
  pu_User :: bool
  pu_Host :: string
  pu_Path :: string
  pu_RawPath :: string
  pu_RawQuery :: string
  pu_Fragment :: string

record dsAdapter =
  da_endpoint :: provider_url
  da_apiKey :: string
  da_modelID :: string
  da_streamIdleTimeout :: duration

definition providerError :: "string \<Rightarrow> string \<Rightarrow> agent_err" where
  "providerError code detail = AgAdapter code (AgOther detail)"

definition ds_protocolError :: "string \<Rightarrow> agent_err" where
  "ds_protocolError detail = providerError ''protocol_error'' detail"

subsection \<open>Construction\<close>

definition validVisibleASCII :: "string \<Rightarrow> nat \<Rightarrow> bool" where
  "validVisibleASCII value maximumBytes \<longleftrightarrow> value \<noteq> [] \<and> length value \<le> maximumBytes \<and> list_all (\<lambda>r. 0x21 \<le> r \<and> r \<le> 0x7E) (runes value)"

definition validModelID :: "string \<Rightarrow> bool" where
  "validModelID value \<longleftrightarrow> validVisibleASCII value maximumModelIDBytes"

definition providerEndpoint :: "provider_url option \<Rightarrow> string + provider_url" where
  "providerEndpoint parsed = (case parsed of
     None \<Rightarrow> Inl ''DeepSeek base URL must be an HTTPS origin''
   | Some u \<Rightarrow>
       if pu_Scheme u \<noteq> ''https'' \<or> pu_Host u = [] \<or> pu_User u \<or> pu_Opaque u \<noteq> [] \<or> pu_RawPath u \<noteq> [] \<or> pu_RawQuery u \<noteq> [] \<or>
          pu_Fragment u \<noteq> [] \<or> (pu_Path u \<noteq> [] \<and> pu_Path u \<noteq> ''/'')
       then Inl ''DeepSeek base URL must be an HTTPS origin''
       else Inr (u\<lparr>pu_Path := ''/chat/completions''\<rparr>))"

definition NewDeepSeek :: "provider_url option \<Rightarrow> string \<Rightarrow> string \<Rightarrow> duration \<Rightarrow> string + dsAdapter" where
  "NewDeepSeek baseURL apiKey modelID idle = (case providerEndpoint baseURL of
     Inl e \<Rightarrow> Inl e
   | Inr endpoint \<Rightarrow>
       if \<not> validVisibleASCII apiKey maximumAPIKeyBytes then Inl ''DeepSeek API key is required''
       else if \<not> validModelID modelID then Inl ''DeepSeek model is required''
       else Inr \<lparr>da_endpoint = endpoint, da_apiKey = apiKey, da_modelID = modelID,
         da_streamIdleTimeout = (if idle \<le> 0 then defaultStreamIdleTimeout else idle)\<rparr>)"

subsection \<open>Dialogue\<close>

definition validUserText :: "string \<Rightarrow> bool" where
  "validUserText value \<longleftrightarrow> value \<noteq> [] \<and> length value \<le> MaxMessageBytes \<and> ValidString value \<and> TrimSpace value \<noteq> [] \<and> CHR 0x00 \<notin> set value"

definition plain_message :: "string \<Rightarrow> string \<Rightarrow> wireMessage" where
  "plain_message role content = \<lparr>wm_Role = role, wm_Content = content, wm_Reasoning = [], wm_ToolCalls = [], wm_ToolCallID = []\<rparr>"

fun history_messages :: "ConversationMessage list \<Rightarrow> wireMessage list \<Rightarrow> int \<Rightarrow> agent_err + wireMessage list" where
  "history_messages [] messages totalBytes = Inr messages"
| "history_messages (message # rest) messages totalBytes =
     (if (cm_Role message \<noteq> ''user'' \<and> cm_Role message \<noteq> ''assistant'') \<or> \<not> validUserText (cm_Content message)
      then Inl (ds_protocolError ''invalid DeepSeek conversation history'')
      else let total = totalBytes + int (length (cm_Content message)) in
        if length messages > MaxConversationHistoryMessages \<or> total > MaxConversationHistoryBytes
        then Inl (ds_protocolError ''DeepSeek conversation history exceeds limit'')
        else history_messages rest (messages @ [plain_message (cm_Role message) (cm_Content message)]) total)"

definition conversationMessages :: "RunRequest \<Rightarrow> agent_err + wireMessage list" where
  "conversationMessages request = (case history_messages (rq_History request) [plain_message ''system'' systemPrompt] 0 of
     Inl e \<Rightarrow> Inl e
   | Inr messages \<Rightarrow> Inr
       (if rq_History request = [] \<or> cm_Role (last (rq_History request)) \<noteq> ''user'' \<or> cm_Content (last (rq_History request)) \<noteq> rq_UserText request
        then messages @ [plain_message ''user'' (rq_UserText request)] else messages))"

subsection \<open>The stream of one reply\<close>

type_synonym 'a after = "(agent_err + 'a) \<Rightarrow> behaviour"

definition new_stream :: streamState where
  "new_stream = \<lparr>ss_content = [], ss_reasoning = [], ss_finish = [], ss_finishSeen = False, ss_doneMarker = False, ss_records = 0,
     ss_toolCalls = [], ss_lines = 0\<rparr>"

text \<open>The watchdog has cancelled the stream; then \<^verbatim>\<open>streamCtx.Err()\<close> is not nil.\<close>

definition fired :: "nat option \<Rightarrow> streamState \<Rightarrow> bool" where
  "fired idle st = (case idle of None \<Rightarrow> False | Some n \<Rightarrow> n \<le> ss_lines st)"

definition streamCtxErr :: "nat option \<Rightarrow> streamState \<Rightarrow> (agent_err option \<Rightarrow> behaviour) \<Rightarrow> behaviour" where
  "streamCtxErr idle st c = CheckCtx (\<lambda>e. case e of Some e \<Rightarrow> c (Some e) | None \<Rightarrow> c (if fired idle st then Some (AgCtx Canceled) else None))"

definition over_limit :: "string \<Rightarrow> string \<Rightarrow> bool" where
  "over_limit old delta \<longleftrightarrow> \<not> ValidString delta \<or> int (length old) > int MaxMessageBytes - int (length delta)"

definition sink_rejected :: "nat option \<Rightarrow> streamState \<Rightarrow> string \<Rightarrow> 'a after \<Rightarrow> behaviour" where
  "sink_rejected idle st message c = streamCtxErr idle st (\<lambda>e. case e of Some e \<Rightarrow> c (Inl e) | None \<Rightarrow> c (Inl (ds_protocolError message)))"

definition ds_reasoning :: "nat option \<Rightarrow> string option \<Rightarrow> streamState \<Rightarrow> streamState after \<Rightarrow> behaviour" where
  "ds_reasoning idle value st c = (case value of
     None \<Rightarrow> c (Inr st)
   | Some delta \<Rightarrow> if delta = [] then c (Inr st)
       else if over_limit (ss_reasoning st) delta then c (Inl (ds_protocolError ''DeepSeek reasoning exceeds limit''))
       else DoReasoning delta (\<lambda>err. case err of
           Some _ \<Rightarrow> sink_rejected idle st ''DeepSeek reasoning was rejected'' c
         | None \<Rightarrow> c (Inr (st\<lparr>ss_reasoning := ss_reasoning st @ delta\<rparr>))))"

definition ds_content :: "nat option \<Rightarrow> string option \<Rightarrow> streamState \<Rightarrow> streamState after \<Rightarrow> behaviour" where
  "ds_content idle value st c = (case value of
     None \<Rightarrow> c (Inr st)
   | Some delta \<Rightarrow> if delta = [] then c (Inr st)
       else if over_limit (ss_content st) delta then c (Inl (ds_protocolError ''DeepSeek answer exceeds limit''))
       else DoText delta (\<lambda>err. case err of
           Some _ \<Rightarrow> sink_rejected idle st ''DeepSeek answer was rejected'' c
         | None \<Rightarrow> c (Inr (st\<lparr>ss_content := ss_content st @ delta\<rparr>))))"

definition merge_call :: "streamToolCallDelta \<Rightarrow> wireToolCall \<Rightarrow> agent_err + wireToolCall" where
  "merge_call delta call =
     (if sd_ID delta \<noteq> [] \<and> wc_ID call \<noteq> [] \<and> wc_ID call \<noteq> sd_ID delta
      then Inl (ds_protocolError ''DeepSeek tool-call identity changed'')
      else let call1 = (if sd_ID delta \<noteq> [] then call\<lparr>wc_ID := sd_ID delta\<rparr> else call) in
        if sd_Type delta \<noteq> [] \<and> sd_Type delta \<noteq> ''function'' then Inl (ds_protocolError ''unsupported DeepSeek tool-call type'')
        else if sd_Name delta \<noteq> [] \<and> wc_Name call1 \<noteq> [] \<and> wc_Name call1 \<noteq> sd_Name delta
        then Inl (ds_protocolError ''DeepSeek tool-call name changed'')
        else let call2 = (if sd_Name delta \<noteq> [] then call1\<lparr>wc_Name := sd_Name delta\<rparr> else call1) in
          if int (length (wc_Arguments call2)) > int maximumToolArgumentBytes - int (length (sd_Arguments delta))
          then Inl (ds_protocolError ''DeepSeek tool arguments exceed limit'')
          else Inr (call2\<lparr>wc_Arguments := wc_Arguments call2 @ sd_Arguments delta\<rparr>))"

fun ds_calls :: "streamToolCallDelta list \<Rightarrow> (int \<times> wireToolCall) list \<Rightarrow> agent_err + (int \<times> wireToolCall) list" where
  "ds_calls [] calls = Inr calls"
| "ds_calls (delta # deltas) calls = (case sd_Index delta of
     None \<Rightarrow> Inl (ds_protocolError ''invalid DeepSeek tool-call index'')
   | Some i \<Rightarrow>
       if i < 0 \<or> i \<ge> int maximumToolCallsPerReply then Inl (ds_protocolError ''invalid DeepSeek tool-call index'')
       else if map_of calls i = None \<and> length calls \<ge> maximumToolCallsPerReply then Inl (ds_protocolError ''too many DeepSeek tool calls'')
       else let call = (case map_of calls i of Some call \<Rightarrow> call
              | None \<Rightarrow> \<lparr>wc_ID = [], wc_Type = ''function'', wc_Name = [], wc_Arguments = []\<rparr>) in
         (case merge_call delta call of Inl e \<Rightarrow> Inl e | Inr call1 \<Rightarrow> ds_calls deltas (AList.update i call1 calls)))"

definition ds_finish :: "string option \<Rightarrow> streamState \<Rightarrow> agent_err + streamState" where
  "ds_finish reason st = (case reason of
     None \<Rightarrow> Inr st
   | Some r \<Rightarrow> if ss_finishSeen st \<or> r = [] \<or> length r > 64 then Inl (ds_protocolError ''invalid DeepSeek finish reason'')
       else Inr (st\<lparr>ss_finishSeen := True, ss_finish := r\<rparr>))"

fun ds_choices :: "nat option \<Rightarrow> streamChoice list \<Rightarrow> streamState \<Rightarrow> streamState after \<Rightarrow> behaviour" where
  "ds_choices idle [] st c = c (Inr st)"
| "ds_choices idle (choice # choices) st c =
     (if sc_Index choice \<noteq> 0 then c (Inl (ds_protocolError ''unexpected DeepSeek stream choice''))
      else ds_reasoning idle (sc_Reasoning choice) st (\<lambda>r. case r of Inl e \<Rightarrow> c (Inl e) | Inr st1 \<Rightarrow>
        ds_content idle (sc_Content choice) st1 (\<lambda>r. case r of Inl e \<Rightarrow> c (Inl e) | Inr st2 \<Rightarrow>
          (case ds_calls (sc_ToolCalls choice) (ss_toolCalls st2) of Inl e \<Rightarrow> c (Inl e) | Inr calls \<Rightarrow>
            (case ds_finish (sc_FinishReason choice) (st2\<lparr>ss_toolCalls := calls\<rparr>) of Inl e \<Rightarrow> c (Inl e) | Inr st3 \<Rightarrow>
              ds_choices idle choices st3 c)))))"

definition consumeRecord :: "ds_lib \<Rightarrow> nat option \<Rightarrow> string \<Rightarrow> streamState \<Rightarrow> streamState after \<Rightarrow> behaviour" where
  "consumeRecord k idle encoded st c =
     (if encoded = ''[DONE]'' then c (Inr (st\<lparr>ss_doneMarker := True\<rparr>))
      else let st1 = st\<lparr>ss_records := ss_records st + 1\<rparr> in
        if ss_records st1 > maximumStreamRecords then c (Inl (ds_protocolError ''too many DeepSeek stream records''))
        else (case dl_chunk k encoded of
           None \<Rightarrow> c (Inl (ds_protocolError ''malformed DeepSeek stream record''))
         | Some (choices, rest) \<Rightarrow>
             if \<not> list_all json_space rest then c (Inl (ds_protocolError ''malformed DeepSeek stream record''))
             else ds_choices idle choices st1 c))"

text \<open>
  The loop over the lines: the state, the record that is left, and whether no line was left.  When
  \<^verbatim>\<open>[DONE]\<close> breaks the loop the scanner has seen the end of the body only if that line was the last and
  unterminated.
\<close>

fun ds_lines :: "ds_lib \<Rightarrow> nat option \<Rightarrow> string \<Rightarrow> scanned list \<Rightarrow> streamState \<Rightarrow> (streamState \<times> string \<times> bool) after \<Rightarrow> behaviour" where
  "ds_lines k idle record [] st c = c (Inr (st, record, True))"
| "ds_lines k idle record (TooLong # ls) st c = c (Inl (ds_protocolError ''DeepSeek SSE line exceeds limit''))"
| "ds_lines k idle record (Line line # ls) st c = streamCtxErr idle st (\<lambda>e. case e of Some e \<Rightarrow> c (Inl e) | None \<Rightarrow>
     (let st1 = st\<lparr>ss_lines := ss_lines st + 1\<rparr> in
      if line = [] then
        if record = [] then ds_lines k idle record ls st1 c
        else consumeRecord k idle record st1 (\<lambda>r. case r of Inl e \<Rightarrow> c (Inl e) | Inr st2 \<Rightarrow>
          if ss_doneMarker st2 then c (Inr (st2, [], ls = [])) else ds_lines k idle [] ls st2 c)
      else if hd line = CHR '':'' \<or> \<not> HasPrefix line ''data:'' then ds_lines k idle record ls st1 c
      else let data = data_of line; record1 = (if record \<noteq> [] then record @ [newline] else record) in
        if length record1 + length data > maximumSSERecordBytes
        then c (Inl (ds_protocolError ''DeepSeek SSE record exceeds limit''))
        else ds_lines k idle (record1 @ data) ls st1 c))"

text \<open>The tool calls of a complete reply, in the order of their indexes.\<close>

fun check_calls :: "string list \<Rightarrow> wireToolCall list \<Rightarrow> agent_err option" where
  "check_calls identities [] = None"
| "check_calls identities (call # calls) =
     (if \<not> validVisibleASCII (wc_ID call) 512 \<or> wc_Name call \<noteq> ToolRemoteExec \<or> \<not> json_Valid (wc_Arguments call)
      then Some (ds_protocolError ''invalid DeepSeek remote tool call'')
      else if wc_ID call \<in> set identities then Some (ds_protocolError ''duplicate DeepSeek tool-call identity'')
      else check_calls (wc_ID call # identities) calls)"

definition ordered_calls :: "(int \<times> wireToolCall) list \<Rightarrow> agent_err + wireToolCall list" where
  "ordered_calls calls =
     (let indexes = sort (map fst calls);
          contiguous = length (takeWhile (\<lambda>(i, e). i = e) (zip indexes (map int [0..<length indexes])));
          good = map (\<lambda>i. the (map_of calls i)) (take contiguous indexes) in
      case check_calls [] good of
        Some e \<Rightarrow> Inl e
      | None \<Rightarrow> if contiguous < length indexes then Inl (ds_protocolError ''DeepSeek tool-call indexes are not contiguous'')
          else Inr good)"

definition finish_stream :: "streamState \<Rightarrow> agent_err + streamResult" where
  "finish_stream st =
     (if \<not> ss_finishSeen st \<or> \<not> ss_doneMarker st then Inl (ds_protocolError ''DeepSeek stream ended before completion'')
      else case ordered_calls (ss_toolCalls st) of
        Inl e \<Rightarrow> Inl e
      | Inr calls \<Rightarrow> Inr \<lparr>sr_content = ss_content st, sr_reasoning = ss_reasoning st, sr_finish = ss_finish st, sr_toolCalls = calls\<rparr>)"

definition unterminated :: "string list \<Rightarrow> bool" where
  "unterminated reads \<longleftrightarrow> concat reads \<noteq> [] \<and> last (concat reads) \<noteq> newline"

definition consumeStream :: "ds_lib \<Rightarrow> ds_body \<Rightarrow> streamResult after \<Rightarrow> behaviour" where
  "consumeStream k body c = ds_lines k (db_idle body) [] (scan [] (db_reads body)) new_stream (\<lambda>r. case r of
     Inl e \<Rightarrow> c (Inl e)
   | Inr (st, record, ended) \<Rightarrow>
       (case (if \<not> ss_doneMarker st \<or> ended \<and> unterminated (db_reads body) then db_err body else None) of
          Some e \<Rightarrow> c (Inl e)
        | None \<Rightarrow>
            if record \<noteq> [] then consumeRecord k (db_idle body) record st (\<lambda>r. case r of Inl e \<Rightarrow> c (Inl e) | Inr st1 \<Rightarrow> c (finish_stream st1))
            else c (finish_stream st)))"

subsection \<open>One round\<close>

definition classifyHTTPStatus :: "int \<Rightarrow> agent_err" where
  "classifyHTTPStatus status =
     (if status = 401 \<or> status = 403 then providerError ''unauthorized'' ''DeepSeek authentication failed''
      else if status = 429 then providerError ''rate_limited'' ''DeepSeek rate limited the request''
      else if status = 408 then providerError ''provider_unavailable'' ''DeepSeek request timed out''
      else if status \<ge> 500 then providerError ''provider_unavailable'' ''DeepSeek service was unavailable''
      else if status \<ge> 400 then providerError ''provider_rejected'' ''DeepSeek rejected the request or model configuration''
      else ds_protocolError ''DeepSeek rejected the request'')"

definition chat_request :: "dsAdapter \<Rightarrow> wireMessage list \<Rightarrow> chatRequest" where
  "chat_request a messages = \<lparr>cr_Model = da_modelID a, cr_Messages = messages, cr_Tools = [ToolRemoteExec], cr_Stream = True,
     cr_IncludeUsage = True, cr_MaximumTokens = defaultMaximumTokens, cr_Thinking = ''enabled'', cr_ReasoningEffort = ''high''\<rparr>"

definition timed_out :: agent_err where
  "timed_out = providerError ''provider_unavailable'' ''DeepSeek stream timed out''"

definition complete :: "ds_lib \<Rightarrow> dsAdapter \<Rightarrow> (chatRequest \<Rightarrow> ds_response) \<Rightarrow> wireMessage list \<Rightarrow> streamResult after \<Rightarrow> behaviour" where
  "complete k a answers messages c =
     (case dl_request k (chat_request a messages) of
        None \<Rightarrow> c (Inl (ds_protocolError ''DeepSeek request exceeds limit''))
      | Some encoded \<Rightarrow>
          if length encoded > maximumRequestBytes then c (Inl (ds_protocolError ''DeepSeek request exceeds limit''))
          else (case answers (chat_request a messages) of
            BuildFails \<Rightarrow> c (Inl (ds_protocolError ''build DeepSeek request''))
          | TransportFails idle \<Rightarrow> CheckCtx (\<lambda>e. case e of Some e \<Rightarrow> c (Inl e)
              | None \<Rightarrow> c (Inl (if idle then timed_out else providerError ''provider_unavailable'' ''DeepSeek transport failed'')))
          | Response status contentType body \<Rightarrow>
              if status \<noteq> 200 then c (Inl (classifyHTTPStatus status))
              else (case dl_mediaType k contentType of
                None \<Rightarrow> c (Inl (ds_protocolError ''DeepSeek response is not SSE''))
              | Some mediaType \<Rightarrow>
                  if \<not> EqualFold (dl_fold k) mediaType ''text/event-stream'' then c (Inl (ds_protocolError ''DeepSeek response is not SSE''))
                  else consumeStream k body (\<lambda>r. case r of
                    Inr result \<Rightarrow> c (Inr result)
                  | Inl err \<Rightarrow> CheckCtx (\<lambda>e. case e of Some e \<Rightarrow> c (Inl e)
                      | None \<Rightarrow> c (Inl (if db_idle body \<noteq> None then timed_out else err)))))))"

fun ds_tools :: "ds_lib \<Rightarrow> wireToolCall list \<Rightarrow> wireMessage list \<Rightarrow> (wireMessage list \<Rightarrow> behaviour) \<Rightarrow> behaviour" where
  "ds_tools k [] messages c = c messages"
| "ds_tools k (call # calls) messages c = DoTool \<lparr>tr_Name = wc_Name call, tr_Arguments = wc_Arguments call\<rparr> (\<lambda>r. case r of
     Inl err \<Rightarrow> Ret (Some (if err_is err AgInvalidTool then ds_protocolError ''DeepSeek returned invalid remote tool arguments'' else err))
   | Inr result \<Rightarrow> (case dl_result k result of
       None \<Rightarrow> Ret (Some (ds_protocolError ''encode remote tool result''))
     | Some encoded \<Rightarrow> ds_tools k calls
         (messages @ [\<lparr>wm_Role = ''tool'', wm_Content = encoded, wm_Reasoning = [], wm_ToolCalls = [], wm_ToolCallID = wc_ID call\<rparr>]) c))"

definition assistant_message :: "streamResult \<Rightarrow> wireMessage" where
  "assistant_message result = \<lparr>wm_Role = ''assistant'', wm_Content = sr_content result, wm_Reasoning = sr_reasoning result,
     wm_ToolCalls = sr_toolCalls result, wm_ToolCallID = []\<rparr>"

definition ds_reply :: "ds_lib \<Rightarrow> streamResult \<Rightarrow> wireMessage list \<Rightarrow> (wireMessage list \<Rightarrow> behaviour) \<Rightarrow> behaviour" where
  "ds_reply k result messages c =
     (if sr_finish result = ''stop'' then
        if sr_toolCalls result \<noteq> [] \<or> TrimSpace (sr_content result) = []
        then Ret (Some (ds_protocolError ''DeepSeek stopped without a final answer'')) else Ret None
      else if sr_finish result = ''tool_calls'' then
        if sr_toolCalls result = [] then Ret (Some (ds_protocolError ''DeepSeek declared tool calls without a tool''))
        else DoState ''tool_calls'' (\<lambda>err. case err of Some e \<Rightarrow> Ret (Some e)
          | None \<Rightarrow> ds_tools k (sr_toolCalls result) (messages @ [assistant_message result]) c)
      else if sr_finish result = ''insufficient_system_resource''
      then Ret (Some (providerError ''provider_unavailable'' ''DeepSeek lacked inference capacity''))
      else if sr_finish result = ''length'' \<or> sr_finish result = ''content_filter''
      then Ret (Some (ds_protocolError ''DeepSeek returned an incomplete answer''))
      else Ret (Some (ds_protocolError ''DeepSeek returned an unknown finish reason'')))"

definition ds_round :: "ds_lib \<Rightarrow> dsAdapter \<Rightarrow> (chatRequest \<Rightarrow> ds_response) \<Rightarrow> wireMessage list \<Rightarrow> (wireMessage list \<Rightarrow> behaviour) \<Rightarrow> behaviour" where
  "ds_round k a answers messages c = CheckCtx (\<lambda>err. case err of Some e \<Rightarrow> Ret (Some e)
   | None \<Rightarrow> DoState ''streaming'' (\<lambda>err. case err of Some e \<Rightarrow> Ret (Some e)
     | None \<Rightarrow> complete k a answers messages (\<lambda>r. case r of Inl e \<Rightarrow> Ret (Some e)
       | Inr result \<Rightarrow> ds_reply k result messages c)))"

text \<open>The loop; the continuation of the last round, where the transport fails, is never used.\<close>

fun ds_loop :: "ds_lib \<Rightarrow> dsAdapter \<Rightarrow> (chatRequest \<Rightarrow> ds_response) list \<Rightarrow> wireMessage list \<Rightarrow> behaviour" where
  "ds_loop k a [] messages = ds_round k a (\<lambda>_. TransportFails False) messages (\<lambda>_. Ret (Some timed_out))"
| "ds_loop k a (answers # providers) messages = ds_round k a answers messages (ds_loop k a providers)"

definition deepseek_Run :: "ds_lib \<Rightarrow> dsAdapter \<Rightarrow> (chatRequest \<Rightarrow> ds_response) list \<Rightarrow> bool \<Rightarrow> RunRequest \<Rightarrow> behaviour" where
  "deepseek_Run k a providers connected request =
     (if rq_SessionID request = [] \<or> \<not> connected \<or> \<not> validUserText (rq_UserText request)
      then Ret (Some (ds_protocolError ''invalid DeepSeek run request''))
      else case conversationMessages request of
        Inl e \<Rightarrow> Ret (Some e)
      | Inr messages \<Rightarrow> ds_loop k a providers messages)"

subsection \<open>Runs of the adapter\<close>

text \<open>The callbacks of one run against any answers of the service; a rejected delta is not shown.\<close>

datatype ds_effect = EText string | EReasoning string | EState string | EExternal string | ETool ToolRequest

inductive runs :: "behaviour \<Rightarrow> ds_effect list \<Rightarrow> agent_err option \<Rightarrow> bool" where
  run_ret: "runs (Ret e) [] e"
| run_ctx: "runs (c e) es r \<Longrightarrow> runs (CheckCtx c) es r"
| run_text: "runs (c err) es r \<Longrightarrow> runs (DoText d c) (if err = None then EText d # es else es) r"
| run_reasoning: "runs (c err) es r \<Longrightarrow> runs (DoReasoning d c) (if err = None then EReasoning d # es else es) r"
| run_state: "runs (c err) es r \<Longrightarrow> runs (DoState d c) (EState d # es) r"
| run_external: "runs (c err) es r \<Longrightarrow> runs (DoExternal d c) (EExternal d # es) r"
| run_tool: "runs (c x) es r \<Longrightarrow> runs (DoTool q c) (ETool q # es) r"

inductive_cases runs_Ret: "runs (Ret e) es r"
inductive_cases runs_CheckCtx: "runs (CheckCtx c) es r"
inductive_cases runs_DoText: "runs (DoText d c) es r"
inductive_cases runs_DoReasoning: "runs (DoReasoning d c) es r"
inductive_cases runs_DoState: "runs (DoState d c) es r"
inductive_cases runs_DoTool: "runs (DoTool q c) es r"

fun texts :: "ds_effect list \<Rightarrow> string" where
  "texts [] = []"
| "texts (EText d # es) = d @ texts es"
| "texts (_ # es) = texts es"

fun streamed :: "ds_effect \<Rightarrow> bool" where
  "streamed (EText _) \<longleftrightarrow> True" | "streamed (EReasoning _) \<longleftrightarrow> True" | "streamed _ \<longleftrightarrow> False"

lemma texts_append [simp]: "texts (es @ fs) = texts es @ texts fs"
  by (induction es rule: texts.induct) auto

definition calls_ok :: "(int \<times> wireToolCall) list \<Rightarrow> bool" where
  "calls_ok calls \<longleftrightarrow> distinct (map fst calls) \<and> length calls \<le> maximumToolCallsPerReply \<and>
     (\<forall>call \<in> snd ` set calls. length (wc_Arguments call) \<le> maximumToolArgumentBytes)"

definition stream_ok :: "streamState \<Rightarrow> bool" where
  "stream_ok st \<longleftrightarrow> length (ss_content st) \<le> MaxMessageBytes \<and> length (ss_reasoning st) \<le> MaxMessageBytes \<and> calls_ok (ss_toolCalls st)"

text \<open>What a part of the stream did: it showed deltas, and the content grew by just these.\<close>

definition moved :: "streamState \<Rightarrow> agent_err + streamState \<Rightarrow> ds_effect list \<Rightarrow> bool" where
  "moved st x es \<longleftrightarrow> list_all streamed es \<and>
     (\<forall>st1. x = Inr st1 \<longrightarrow> ss_content st1 = ss_content st @ texts es \<and> (stream_ok st \<longrightarrow> stream_ok st1))"

lemma moved_Inl: "moved st (Inl e) es \<longleftrightarrow> list_all streamed es"
  by (simp add: moved_def)

lemma moved_same: "ss_content st1 = ss_content st \<Longrightarrow> (stream_ok st \<Longrightarrow> stream_ok st1) \<Longrightarrow> moved st (Inr st1) []"
  by (simp add: moved_def)

lemma moved_trans: "moved st (Inr st1) es \<Longrightarrow> moved st1 x fs \<Longrightarrow> moved st x (es @ fs)"
  by (cases x) (simp_all add: moved_def)

definition passes :: "streamState \<Rightarrow> (streamState after \<Rightarrow> behaviour) \<Rightarrow> bool" where
  "passes st m \<longleftrightarrow> (\<forall>c es r. runs (m c) es r \<longrightarrow> (\<exists>es1 es2 x. es = es1 @ es2 \<and> runs (c x) es2 r \<and> moved st x es1))"

lemma passesE:
  assumes "passes st m" and "runs (m c) es r"
  obtains es1 es2 x where "es = es1 @ es2" "runs (c x) es2 r" "moved st x es1"
  using assms unfolding passes_def by blast

lemma passes_now: "moved st x [] \<Longrightarrow> passes st (\<lambda>c. c x)"
  unfolding passes_def
proof (intro allI impI)
  fix c :: "streamState after" and es r
  assume "moved st x []" "runs (c x) es r"
  then show "\<exists>es1 es2 x. es = es1 @ es2 \<and> runs (c x) es2 r \<and> moved st x es1"
    by (intro exI [of _ "[]"] exI [of _ es] exI [of _ x]) simp
qed

lemma passes_bind:
  assumes m: "passes st m" and f: "\<And>st1. passes st1 (f st1)"
  shows "passes st (\<lambda>c. m (\<lambda>r. case r of Inl e \<Rightarrow> c (Inl e) | Inr st1 \<Rightarrow> f st1 c))"
  unfolding passes_def
proof (intro allI impI)
  fix c es r assume "runs (m (\<lambda>r. case r of Inl e \<Rightarrow> c (Inl e) | Inr st1 \<Rightarrow> f st1 c)) es r"
  with m obtain es1 es2 x where x: "es = es1 @ es2" "runs (case x of Inl e \<Rightarrow> c (Inl e) | Inr st1 \<Rightarrow> f st1 c) es2 r" "moved st x es1"
    by (rule passesE)
  show "\<exists>es1 es2 x. es = es1 @ es2 \<and> runs (c x) es2 r \<and> moved st x es1"
  proof (cases x)
    case (Inl e)
    with x show ?thesis by auto
  next
    case (Inr st1)
    with x(2) have "runs (f st1 c) es2 r" by simp
    with f [of st1] obtain fs1 fs2 y where "es2 = fs1 @ fs2" "runs (c y) fs2 r" "moved st1 y fs1" by (rule passesE)
    then show ?thesis using x Inr moved_trans by (intro exI [of _ "es1 @ fs1"] exI [of _ fs2] exI [of _ y]) auto
  qed
qed

lemma passes_sink_rejected: "passes st (sink_rejected idle st0 message)"
  unfolding passes_def sink_rejected_def streamCtxErr_def
proof (intro allI impI)
  fix c :: "streamState after" and es r
  assume "runs (CheckCtx (\<lambda>e. case e of
      None \<Rightarrow> (case if fired idle st0 then Some (AgCtx Canceled) else None of None \<Rightarrow> c (Inl (ds_protocolError message)) | Some e \<Rightarrow> c (Inl e))
    | Some e \<Rightarrow> (case Some e of None \<Rightarrow> c (Inl (ds_protocolError message)) | Some e \<Rightarrow> c (Inl e)))) es r"
  then obtain e where "runs (c (Inl e)) es r"
    by (elim runs_CheckCtx) (auto split: option.splits if_splits)
  then show "\<exists>es1 es2 x. es = es1 @ es2 \<and> runs (c x) es2 r \<and> moved st x es1"
    by (intro exI [of _ "[]"] exI [of _ es] exI [of _ "Inl e"]) (simp add: moved_Inl)
qed

lemma within_limit: "\<not> over_limit old delta \<Longrightarrow> length (old @ delta) \<le> MaxMessageBytes"
  by (auto simp: over_limit_def)

lemma passes_text:
  assumes "passes st rejected" and "moved st (Inr st1) [EText d]"
  shows "passes st (\<lambda>c. DoText d (\<lambda>err. case err of None \<Rightarrow> c (Inr st1) | Some _ \<Rightarrow> rejected c))"
  unfolding passes_def
proof (intro allI impI)
  fix c :: "streamState after" and es r
  assume "runs (DoText d (\<lambda>err. case err of None \<Rightarrow> c (Inr st1) | Some _ \<Rightarrow> rejected c)) es r"
  then show "\<exists>es1 es2 x. es = es1 @ es2 \<and> runs (c x) es2 r \<and> moved st x es1"
  proof (rule runs_DoText)
    fix err fs
    assume f: "es = (if err = None then EText d # fs else fs)" "runs (case err of None \<Rightarrow> c (Inr st1) | Some _ \<Rightarrow> rejected c) fs r"
    show ?thesis
    proof (cases err)
      case None
      with f assms(2) show ?thesis by (intro exI [of _ "[EText d]"] exI [of _ fs] exI [of _ "Inr st1"]) simp
    next
      case (Some e)
      with f assms(1) show ?thesis by (auto elim!: passesE)
    qed
  qed
qed

lemma passes_reason:
  assumes "passes st rejected" and "moved st (Inr st1) [EReasoning d]"
  shows "passes st (\<lambda>c. DoReasoning d (\<lambda>err. case err of None \<Rightarrow> c (Inr st1) | Some _ \<Rightarrow> rejected c))"
  unfolding passes_def
proof (intro allI impI)
  fix c :: "streamState after" and es r
  assume "runs (DoReasoning d (\<lambda>err. case err of None \<Rightarrow> c (Inr st1) | Some _ \<Rightarrow> rejected c)) es r"
  then show "\<exists>es1 es2 x. es = es1 @ es2 \<and> runs (c x) es2 r \<and> moved st x es1"
  proof (rule runs_DoReasoning)
    fix err fs
    assume f: "es = (if err = None then EReasoning d # fs else fs)" "runs (case err of None \<Rightarrow> c (Inr st1) | Some _ \<Rightarrow> rejected c) fs r"
    show ?thesis
    proof (cases err)
      case None
      with f assms(2) show ?thesis by (intro exI [of _ "[EReasoning d]"] exI [of _ fs] exI [of _ "Inr st1"]) simp
    next
      case (Some e)
      with f assms(1) show ?thesis by (auto elim!: passesE)
    qed
  qed
qed

lemma passes_fail: "passes st (\<lambda>c. c (Inl e))"
  by (rule passes_now) (simp add: moved_Inl)

lemma passes_same: "ss_content st1 = ss_content st \<Longrightarrow> (stream_ok st \<Longrightarrow> stream_ok st1) \<Longrightarrow> passes st (\<lambda>c. c (Inr st1))"
  by (rule passes_now) (rule moved_same)

lemma passes_if: "(b \<Longrightarrow> passes st m) \<Longrightarrow> (\<not> b \<Longrightarrow> passes st n) \<Longrightarrow> passes st (\<lambda>c. if b then m c else n c)"
  by (cases b) simp_all

lemma passes_option: "(v = None \<Longrightarrow> passes st m) \<Longrightarrow> (\<And>x. v = Some x \<Longrightarrow> passes st (n x)) \<Longrightarrow> passes st (\<lambda>c. case v of None \<Rightarrow> m c | Some x \<Rightarrow> n x c)"
  by (cases v) simp_all

lemma passes_sum: "(\<And>e. v = Inl e \<Longrightarrow> passes st (m e)) \<Longrightarrow> (\<And>x. v = Inr x \<Longrightarrow> passes st (n x)) \<Longrightarrow> passes st (\<lambda>c. case v of Inl e \<Rightarrow> m e c | Inr x \<Rightarrow> n x c)"
  by (cases v) simp_all

lemmas passes_rules = passes_if passes_option passes_sum passes_fail

lemma passes_reasoning: "passes st (ds_reasoning idle v st)"
  unfolding ds_reasoning_def [abs_def]
  by (intro passes_rules passes_same passes_reason passes_sink_rejected)
     (auto simp: moved_def stream_ok_def dest: within_limit)

lemma passes_content: "passes st (ds_content idle v st)"
  unfolding ds_content_def [abs_def]
  by (intro passes_rules passes_same passes_text passes_sink_rejected)
     (auto simp: moved_def stream_ok_def dest: within_limit)

lemma merge_call_ok: "merge_call delta call = Inr call1 \<Longrightarrow> length (wc_Arguments call1) \<le> maximumToolArgumentBytes"
  by (auto simp: merge_call_def Let_def split: if_splits)

lemma ds_calls_ok: "ds_calls deltas calls = Inr calls1 \<Longrightarrow> calls_ok calls \<Longrightarrow> calls_ok calls1"
proof (induction deltas arbitrary: calls)
  case (Cons delta deltas)
  then obtain i call1 where i: "sd_Index delta = Some i" "\<not> (map_of calls i = None \<and> length calls \<ge> maximumToolCallsPerReply)"
    "ds_calls deltas (AList.update i call1 calls) = Inr calls1" "length (wc_Arguments call1) \<le> maximumToolArgumentBytes"
    by (auto simp: Let_def split: option.splits if_splits sum.splits dest: merge_call_ok)
  have "length (AList.update i call1 calls) = (if map_of calls i = None then Suc (length calls) else length calls)"
    by (induction calls) auto
  then have "length (AList.update i call1 calls) \<le> maximumToolCallsPerReply"
    using Cons.prems(2) i(2) unfolding calls_ok_def by (metis Suc_leI not_le_imp_less)
  moreover have "snd ` set (AList.update i call1 calls) \<subseteq> insert call1 (snd ` set calls)" by (induction calls) auto
  then have "\<forall>call \<in> snd ` set (AList.update i call1 calls). length (wc_Arguments call) \<le> maximumToolArgumentBytes"
    using Cons.prems(2) i(4) unfolding calls_ok_def by blast
  ultimately have "calls_ok (AList.update i call1 calls)"
    using Cons.prems(2) by (simp add: calls_ok_def distinct_update)
  then show ?case by (rule Cons.IH [OF i(3)])
qed simp

lemma ds_finish_ok: "ds_finish reason st = Inr st1 \<Longrightarrow> ss_content st1 = ss_content st \<and> (stream_ok st \<longrightarrow> stream_ok st1)"
  by (auto simp: ds_finish_def stream_ok_def split: option.splits if_splits)

lemma passes_pure:
  assumes "\<And>st1. x = Inr st1 \<Longrightarrow> ss_content st1 = ss_content st \<and> (stream_ok st \<longrightarrow> stream_ok st1)"
  shows "passes st (\<lambda>c. c x)"
proof (cases x)
  case (Inr st1)
  then show ?thesis using assms by (simp add: passes_same)
qed (simp add: passes_fail)

text \<open>The pure part of a choice.\<close>

definition settle :: "streamChoice \<Rightarrow> streamState \<Rightarrow> agent_err + streamState" where
  "settle choice st = (case ds_calls (sc_ToolCalls choice) (ss_toolCalls st) of Inl e \<Rightarrow> Inl e
     | Inr calls \<Rightarrow> ds_finish (sc_FinishReason choice) (st\<lparr>ss_toolCalls := calls\<rparr>))"

lemma settle_ok: "settle choice st = Inr st1 \<Longrightarrow> ss_content st1 = ss_content st \<and> (stream_ok st \<longrightarrow> stream_ok st1)"
  by (auto simp: settle_def stream_ok_def ds_calls_ok dest!: ds_finish_ok split: sum.splits)

lemma ds_choices_settle:
  "ds_choices idle (choice # choices) st =
     (\<lambda>c. if sc_Index choice \<noteq> 0 then c (Inl (ds_protocolError ''unexpected DeepSeek stream choice''))
      else ds_reasoning idle (sc_Reasoning choice) st (\<lambda>r. case r of Inl e \<Rightarrow> c (Inl e) | Inr st1 \<Rightarrow>
        ds_content idle (sc_Content choice) st1 (\<lambda>r. case r of Inl e \<Rightarrow> c (Inl e) | Inr st2 \<Rightarrow>
          (case settle choice st2 of Inl e \<Rightarrow> c (Inl e) | Inr st3 \<Rightarrow> ds_choices idle choices st3 c))))"
  by (rule ext) (simp add: settle_def sum.case_distrib [of "case_sum _ _"] cong: sum.case_cong)

lemma passes_choices: "passes st (ds_choices idle choices st)"
proof (induction choices arbitrary: st)
  case Nil
  show ?case using passes_same [of st st] by simp
next
  case (Cons choice choices)
  have "passes st2 (\<lambda>c. case settle choice st2 of Inl e \<Rightarrow> c (Inl e) | Inr st3 \<Rightarrow> ds_choices idle choices st3 c)" for st2
    using passes_bind [of st2 "\<lambda>c. c (settle choice st2)" "ds_choices idle choices"] passes_pure settle_ok Cons.IH by blast
  from passes_bind [OF passes_reasoning passes_bind [OF passes_content this]]
  show ?case unfolding ds_choices_settle by (intro passes_if passes_fail)
qed

lemma passes_start: "ss_content st1 = ss_content st \<Longrightarrow> (stream_ok st \<Longrightarrow> stream_ok st1) \<Longrightarrow> passes st1 m \<Longrightarrow> passes st m"
  unfolding passes_def moved_def by (metis (no_types, lifting))

lemma passes_record: "passes st (consumeRecord k idle encoded st)"
proof -
  let ?st = "st\<lparr>ss_records := ss_records st + 1\<rparr>"
  have "passes st (ds_choices idle choices ?st)" for choices by (rule passes_start [OF _ _ passes_choices]) (simp_all add: stream_ok_def)
  then show ?thesis unfolding consumeRecord_def [abs_def] Let_def case_prod_beta
    by (intro passes_rules passes_same) (simp_all add: stream_ok_def)
qed

text \<open>A step of the stream, with what it returns besides the state.\<close>

definition passed :: "streamState \<Rightarrow> ((streamState \<times> 'a) after \<Rightarrow> behaviour) \<Rightarrow> bool" where
  "passed st m \<longleftrightarrow> (\<forall>c es r. runs (m c) es r \<longrightarrow> (\<exists>es1 es2 x. es = es1 @ es2 \<and> runs (c x) es2 r \<and> moved st (map_sum id fst x) es1))"

lemma passed_now: "moved st (map_sum id fst x) [] \<Longrightarrow> passed st (\<lambda>c. c x)"
  unfolding passed_def
proof (intro allI impI)
  fix c :: "(streamState \<times> 'a) after" and es r
  assume "moved st (map_sum id fst x) []" "runs (c x) es r"
  then show "\<exists>es1 es2 x. es = es1 @ es2 \<and> runs (c x) es2 r \<and> moved st (map_sum id fst x) es1"
    by (intro exI [of _ "[]"] exI [of _ es] exI [of _ x]) simp
qed

lemma passed_fail: "passed st (\<lambda>c. c (Inl e))"
  by (rule passed_now) (simp add: moved_Inl)

lemma passed_bind:
  assumes m: "passes st m" and f: "\<And>st1. passed st1 (f st1)"
  shows "passed st (\<lambda>c. m (\<lambda>r. case r of Inl e \<Rightarrow> c (Inl e) | Inr st1 \<Rightarrow> f st1 c))"
  unfolding passed_def
proof (intro allI impI)
  fix c :: "(streamState \<times> 'a) after" and es r
  assume "runs (m (\<lambda>r. case r of Inl e \<Rightarrow> c (Inl e) | Inr st1 \<Rightarrow> f st1 c)) es r"
  with m obtain es1 es2 x where x: "es = es1 @ es2" "runs (case x of Inl e \<Rightarrow> c (Inl e) | Inr st1 \<Rightarrow> f st1 c) es2 r" "moved st x es1"
    by (rule passesE)
  show "\<exists>es1 es2 x. es = es1 @ es2 \<and> runs (c x) es2 r \<and> moved st (map_sum id fst x) es1"
  proof (cases x)
    case (Inl e)
    with x show ?thesis by (intro exI [of _ es1] exI [of _ es2] exI [of _ "Inl e"]) simp
  next
    case (Inr st1)
    with x(2) have "runs (f st1 c) es2 r" by simp
    with f [of st1] obtain fs1 fs2 y where "es2 = fs1 @ fs2" "runs (c y) fs2 r" "moved st1 (map_sum id fst y) fs1"
      unfolding passed_def by blast
    then show ?thesis using x Inr moved_trans by (intro exI [of _ "es1 @ fs1"] exI [of _ fs2] exI [of _ y]) auto
  qed
qed

lemma passed_ctx:
  assumes "passed st m"
  shows "passed st (\<lambda>c. streamCtxErr idle st0 (\<lambda>e. case e of Some e \<Rightarrow> c (Inl e) | None \<Rightarrow> m c))"
  unfolding passed_def streamCtxErr_def
proof (intro allI impI)
  fix c :: "(streamState \<times> 'a) after" and es r
  assume "runs (CheckCtx (\<lambda>e. case e of
      None \<Rightarrow> (case if fired idle st0 then Some (AgCtx Canceled) else None of None \<Rightarrow> m c | Some e \<Rightarrow> c (Inl e))
    | Some e \<Rightarrow> (case Some e of None \<Rightarrow> m c | Some e \<Rightarrow> c (Inl e)))) es r"
  then have "runs (m c) es r \<or> (\<exists>e. runs (c (Inl e)) es r)"
    by (elim runs_CheckCtx) (auto split: option.splits if_splits)
  then show "\<exists>es1 es2 x. es = es1 @ es2 \<and> runs (c x) es2 r \<and> moved st (map_sum id fst x) es1"
  proof
    assume "runs (m c) es r"
    then show ?thesis using assms unfolding passed_def by blast
  next
    assume "\<exists>e. runs (c (Inl e)) es r"
    then obtain e where "runs (c (Inl e)) es r" ..
    then show ?thesis by (intro exI [of _ "[]"] exI [of _ es] exI [of _ "Inl e"]) (simp add: moved_Inl)
  qed
qed

lemma passed_if: "(b \<Longrightarrow> passed st m) \<Longrightarrow> (\<not> b \<Longrightarrow> passed st n) \<Longrightarrow> passed st (\<lambda>c. if b then m c else n c)"
  by (cases b) simp_all

lemma passed_start: "ss_content st1 = ss_content st \<Longrightarrow> (stream_ok st \<Longrightarrow> stream_ok st1) \<Longrightarrow> passed st1 m \<Longrightarrow> passed st m"
  unfolding passed_def moved_def by (metis (no_types, lifting))

lemma passes_start_record: "passes st (consumeRecord k idle encoded (st\<lparr>ss_lines := n\<rparr>))"
  by (rule passes_start [OF _ _ passes_record]) (simp_all add: stream_ok_def)

lemma passed_lines: "passed st (ds_lines k idle p ls st)"
proof (induction ls arbitrary: p st)
  case Nil
  show ?case using passed_now [of st "Inr (st, p, True)"] by (simp add: moved_same)
next
  case (Cons l ls)
  show ?case
  proof (cases l)
    case (Line line)
    have later: "passed st (ds_lines k idle q ls (st\<lparr>ss_lines := n\<rparr>))" for q n
      by (rule passed_start [OF _ _ Cons.IH]) (simp_all add: stream_ok_def)
    have stop: "passed st2 (\<lambda>c. c (Inr (st2, [], ls = [])))" for st2 by (rule passed_now) (simp add: moved_same)
    have "passed st (\<lambda>c. consumeRecord k idle p (st\<lparr>ss_lines := ss_lines st + 1\<rparr>) (\<lambda>r. case r of Inl e \<Rightarrow> c (Inl e) | Inr st2 \<Rightarrow>
        if ss_doneMarker st2 then c (Inr (st2, [], ls = [])) else ds_lines k idle [] ls st2 c))"
      by (rule passed_bind [OF passes_start_record passed_if [OF stop Cons.IH]])
    moreover have "ds_lines k idle p (l # ls) st = (\<lambda>c. streamCtxErr idle st (\<lambda>e. case e of Some e \<Rightarrow> c (Inl e) | None \<Rightarrow>
       (if line = [] then
          if p = [] then ds_lines k idle p ls (st\<lparr>ss_lines := ss_lines st + 1\<rparr>) c
          else consumeRecord k idle p (st\<lparr>ss_lines := ss_lines st + 1\<rparr>) (\<lambda>r. case r of Inl e \<Rightarrow> c (Inl e) | Inr st2 \<Rightarrow>
            if ss_doneMarker st2 then c (Inr (st2, [], ls = [])) else ds_lines k idle [] ls st2 c)
        else if hd line = CHR '':'' \<or> \<not> HasPrefix line ''data:'' then ds_lines k idle p ls (st\<lparr>ss_lines := ss_lines st + 1\<rparr>) c
        else if length (if p \<noteq> [] then p @ [newline] else p) + length (data_of line) > maximumSSERecordBytes
          then c (Inl (ds_protocolError ''DeepSeek SSE record exceeds limit''))
          else ds_lines k idle ((if p \<noteq> [] then p @ [newline] else p) @ data_of line) ls (st\<lparr>ss_lines := ss_lines st + 1\<rparr>) c)))"
      by (rule ext) (simp only: Line ds_lines.simps Let_def)
    ultimately show ?thesis by (simp only:) (intro passed_ctx passed_if later passed_fail)
  qed (simp add: passed_fail)
qed

subsection \<open>Replies\<close>

definition calls_good :: "wireToolCall list \<Rightarrow> bool" where
  "calls_good calls \<longleftrightarrow> distinct (map wc_ID calls) \<and> list_all (\<lambda>call. wc_Name call = ToolRemoteExec \<and> json_Valid (wc_Arguments call) \<and> wc_ID call \<noteq> []) calls"

lemma check_calls_good: "check_calls ids calls = None \<Longrightarrow> calls_good calls \<and> set (map wc_ID calls) \<inter> set ids = {}"
  by (induction ids calls rule: check_calls.induct)
     (auto simp: calls_good_def validVisibleASCII_def split: if_splits)

definition calls_bounded :: "wireToolCall list \<Rightarrow> bool" where
  "calls_bounded calls \<longleftrightarrow> length calls \<le> maximumToolCallsPerReply \<and> (\<forall>call \<in> set calls. length (wc_Arguments call) \<le> maximumToolArgumentBytes)"

lemma ordered_calls_good:
  assumes "ordered_calls calls = Inr good"
  shows "calls_good good" and "calls_ok calls \<Longrightarrow> calls_bounded good"
proof -
  let ?n = "length (takeWhile (\<lambda>(i, e). i = e) (zip (sort (map fst calls)) (map int [0..<length (sort (map fst calls))])))"
  have g: "good = map (\<lambda>i. the (map_of calls i)) (take ?n (sort (map fst calls)))" "check_calls [] good = None" "\<not> ?n < length (sort (map fst calls))"
    using assms by (auto simp: ordered_calls_def Let_def split: option.splits if_splits)
  show "calls_good good" using check_calls_good [OF g(2)] by simp
  assume ok: "calls_ok calls"
  have all: "good = map (\<lambda>i. the (map_of calls i)) (sort (map fst calls))" using g(1,3) by simp
  have "call \<in> snd ` set calls" if "call \<in> set good" for call
  proof -
    from that all obtain i where i: "i \<in> fst ` set calls" "call = the (map_of calls i)" by auto
    then obtain v where "map_of calls i = Some v" by (metis map_of_eq_None_iff not_None_eq)
    with i(2) show ?thesis by (metis image_eqI map_of_SomeD option.sel snd_conv)
  qed
  then show "calls_bounded good" using ok all unfolding calls_ok_def calls_bounded_def by auto
qed

definition reply_ok :: "streamResult \<Rightarrow> ds_effect list \<Rightarrow> bool" where
  "reply_ok result es \<longleftrightarrow> sr_content result = texts es \<and> length (sr_content result) \<le> MaxMessageBytes \<and>
     calls_good (sr_toolCalls result) \<and> calls_bounded (sr_toolCalls result)"

lemma finish_reply: "moved new_stream (Inr st) es \<Longrightarrow> finish_stream st = Inr result \<Longrightarrow> reply_ok result es"
proof -
  assume m: "moved new_stream (Inr st) es" and f: "finish_stream st = Inr result"
  have "stream_ok new_stream" by (simp add: stream_ok_def new_stream_def calls_ok_def)
  with m have st: "ss_content st = texts es" "stream_ok st" by (simp_all add: moved_def new_stream_def)
  from f obtain calls where "ordered_calls (ss_toolCalls st) = Inr calls" "sr_toolCalls result = calls" "sr_content result = ss_content st"
    by (auto simp: finish_stream_def split: if_splits sum.splits)
  with st ordered_calls_good [OF this(1)] show ?thesis by (simp add: reply_ok_def stream_ok_def)
qed

definition replies :: "(streamResult after \<Rightarrow> behaviour) \<Rightarrow> bool" where
  "replies m \<longleftrightarrow> (\<forall>c es r. runs (m c) es r \<longrightarrow> (\<exists>es1 es2 x. es = es1 @ es2 \<and> runs (c x) es2 r \<and> list_all streamed es1 \<and>
     (\<forall>result. x = Inr result \<longrightarrow> reply_ok result es1)))"

lemma repliesI:
  "es = es1 @ es2 \<Longrightarrow> runs (c x) es2 r \<Longrightarrow> list_all streamed es1 \<Longrightarrow> (\<And>result. x = Inr result \<Longrightarrow> reply_ok result es1) \<Longrightarrow>
    \<exists>es1 es2 x. es = es1 @ es2 \<and> runs (c x) es2 r \<and> list_all streamed es1 \<and> (\<forall>result. x = Inr result \<longrightarrow> reply_ok result es1)"
  by blast

lemma replies_fail: "replies (\<lambda>c. c (Inl e))"
  unfolding replies_def by (intro allI impI, rule repliesI [of _ "[]"]) auto

lemma replies_stream: "replies (consumeStream k body)"
  unfolding replies_def
proof (intro allI impI)
  fix c es r assume "runs (consumeStream k body c) es r"
  then obtain es1 es2 x where x: "es = es1 @ es2" "moved new_stream (map_sum id fst x) es1"
    "runs (case x of Inl e \<Rightarrow> c (Inl e) | Inr (st, p, ended) \<Rightarrow>
       (case (if \<not> ss_doneMarker st \<or> ended \<and> unterminated (db_reads body) then db_err body else None) of
          Some e \<Rightarrow> c (Inl e)
        | None \<Rightarrow>
            if p \<noteq> [] then consumeRecord k (db_idle body) p st (\<lambda>r. case r of Inl e \<Rightarrow> c (Inl e) | Inr st1 \<Rightarrow> c (finish_stream st1))
            else c (finish_stream st))) es2 r"
    using passed_lines [of new_stream k "db_idle body" "[]" "scan [] (db_reads body)"] unfolding passed_def consumeStream_def by blast
  show "\<exists>es1 es2 x. es = es1 @ es2 \<and> runs (c x) es2 r \<and> list_all streamed es1 \<and> (\<forall>result. x = Inr result \<longrightarrow> reply_ok result es1)"
  proof (cases x)
    case (Inl e)
    with x show ?thesis by (intro repliesI [of _ es1 es2 c "Inl e"]) (simp_all add: moved_Inl)
  next
    case (Inr y)
    obtain st p ended where y: "y = (st, p, ended)" by (cases y) auto
    with Inr x have m: "moved new_stream (Inr st) es1" by simp
    then have s1: "list_all streamed es1" by (simp add: moved_def)
    from x(3) Inr y consider e where "runs (c (Inl e)) es2 r" | "runs (c (finish_stream st)) es2 r"
      | "runs (consumeRecord k (db_idle body) p st (\<lambda>r. case r of Inl e \<Rightarrow> c (Inl e) | Inr st1 \<Rightarrow> c (finish_stream st1))) es2 r"
      by (auto split: option.splits if_splits)
    then show ?thesis
    proof cases
      case (1 e)
      then show ?thesis using x(1) s1 by (intro repliesI [of _ es1 es2 c "Inl e"]) simp_all
    next
      case 2
      then show ?thesis using x(1) s1 finish_reply [OF m] by (intro repliesI [of _ es1 es2 c "finish_stream st"]) simp_all
    next
      case 3
      with passes_record obtain fs1 fs2 z where z: "es2 = fs1 @ fs2" "moved st z fs1"
        "runs (case z of Inl e \<Rightarrow> c (Inl e) | Inr st1 \<Rightarrow> c (finish_stream st1)) fs2 r" by (rule passesE)
      note mz = moved_trans [OF m z(2)]
      show ?thesis
      proof (cases z)
        case (Inl e)
        then show ?thesis using z x(1) mz by (intro repliesI [of _ "es1 @ fs1" fs2 c "Inl e"]) (simp_all add: moved_Inl)
      next
        case (Inr st1)
        then show ?thesis using z x(1) mz finish_reply [of st1 "es1 @ fs1"]
          by (intro repliesI [of _ "es1 @ fs1" fs2 c "finish_stream st1"]) (simp_all add: moved_def)
      qed
    qed
  qed
qed

lemma replies_ctx:
  assumes "replies m"
  shows "replies (\<lambda>c. m (\<lambda>r. case r of Inr result \<Rightarrow> c (Inr result) | Inl err \<Rightarrow> CheckCtx (\<lambda>e. case e of Some e \<Rightarrow> c (Inl e) | None \<Rightarrow> c (Inl (f err)))))"
  unfolding replies_def
proof (intro allI impI)
  fix c es r
  assume "runs (m (\<lambda>r. case r of Inr result \<Rightarrow> c (Inr result) | Inl err \<Rightarrow> CheckCtx (\<lambda>e. case e of Some e \<Rightarrow> c (Inl e) | None \<Rightarrow> c (Inl (f err))))) es r"
  with assms obtain es1 es2 x where x: "es = es1 @ es2" "list_all streamed es1" "\<forall>result. x = Inr result \<longrightarrow> reply_ok result es1"
    "runs (case x of Inr result \<Rightarrow> c (Inr result) | Inl err \<Rightarrow> CheckCtx (\<lambda>e. case e of Some e \<Rightarrow> c (Inl e) | None \<Rightarrow> c (Inl (f err)))) es2 r"
    unfolding replies_def by blast
  show "\<exists>es1 es2 x. es = es1 @ es2 \<and> runs (c x) es2 r \<and> list_all streamed es1 \<and> (\<forall>result. x = Inr result \<longrightarrow> reply_ok result es1)"
  proof (cases x)
    case (Inl err)
    with x(4) obtain e where "runs (c (Inl e)) es2 r" by (auto elim!: runs_CheckCtx split: option.splits)
    then show ?thesis using x by (intro repliesI [of _ es1 es2 c "Inl e"]) simp_all
  next
    case (Inr result)
    then show ?thesis using x by (intro repliesI [of _ es1 es2 c x]) simp_all
  qed
qed

lemma replies_if: "(b \<Longrightarrow> replies m) \<Longrightarrow> (\<not> b \<Longrightarrow> replies n) \<Longrightarrow> replies (\<lambda>c. if b then m c else n c)"
  by (cases b) simp_all

lemma replies_option: "replies m \<Longrightarrow> (\<And>x. replies (n x)) \<Longrightarrow> replies (\<lambda>c. case v of None \<Rightarrow> m c | Some x \<Rightarrow> n x c)"
  by (cases v) simp_all

lemma replies_response:
  "replies f \<Longrightarrow> (\<And>i. replies (g i)) \<Longrightarrow> (\<And>s t b. replies (h s t b)) \<Longrightarrow>
    replies (\<lambda>c. case v of BuildFails \<Rightarrow> f c | TransportFails i \<Rightarrow> g i c | Response s t b \<Rightarrow> h s t b c)"
  by (cases v) simp_all

lemma replies_late: "replies (\<lambda>c. CheckCtx (\<lambda>e. case e of Some e \<Rightarrow> c (Inl e) | None \<Rightarrow> c (Inl err)))"
  using replies_ctx [OF replies_fail, where f = "\<lambda>_. err"] by simp

lemma replies_complete: "replies (complete k a answers messages)"
  unfolding complete_def [abs_def]
  by (intro replies_option replies_if replies_response replies_fail replies_late replies_ctx [OF replies_stream])

subsection \<open>Turns\<close>

definition tool_ok :: "ds_effect \<Rightarrow> bool" where
  "tool_ok e \<longleftrightarrow> (\<forall>q. e = ETool q \<longrightarrow> tr_Name q = ToolRemoteExec \<and> json_Valid (tr_Arguments q) \<and> length (tr_Arguments q) \<le> maximumToolArgumentBytes)"

text \<open>The end of a successful turn: one last reply, with an answer.\<close>

definition answered :: "ds_effect list \<Rightarrow> bool" where
  "answered es \<longleftrightarrow> (\<exists>pre ds. es = pre @ EState ''streaming'' # ds \<and> list_all streamed ds \<and> TrimSpace (texts ds) \<noteq> [] \<and>
     length (texts ds) \<le> MaxMessageBytes)"

definition turn_ok :: "ds_effect list \<Rightarrow> agent_err option \<Rightarrow> bool" where
  "turn_ok es r \<longleftrightarrow> list_all tool_ok es \<and> (r = None \<longrightarrow> answered es)"

lemma streamed_tool_ok: "list_all streamed es \<Longrightarrow> list_all tool_ok es"
  by (induction es) (auto simp: tool_ok_def)

lemma answered_later: "answered fs \<Longrightarrow> answered (es @ fs)"
  unfolding answered_def by (metis append.assoc)

lemma turn_ok_later: "list_all tool_ok es \<Longrightarrow> turn_ok fs r \<Longrightarrow> turn_ok (es @ fs) r"
  by (simp add: turn_ok_def answered_later)

lemma runs_tools:
  assumes "runs (ds_tools k calls messages c) es r" and "calls_good calls" and "calls_bounded calls"
    and c: "\<And>ms es r. runs (c ms) es r \<Longrightarrow> turn_ok es r"
  shows "turn_ok es r"
  using assms(1-3)
proof (induction calls arbitrary: messages es)
  case Nil
  then show ?case using c by simp
next
  case (Cons call calls)
  from Cons.prems(2,3) have good: "calls_good calls" "calls_bounded calls"
    and call: "tool_ok (ETool \<lparr>tr_Name = wc_Name call, tr_Arguments = wc_Arguments call\<rparr>)"
    by (auto simp: calls_good_def calls_bounded_def tool_ok_def)
  from Cons.prems(1) obtain fs x where f: "es = ETool \<lparr>tr_Name = wc_Name call, tr_Arguments = wc_Arguments call\<rparr> # fs"
    "runs (case x of Inl err \<Rightarrow> Ret (Some (if err_is err AgInvalidTool then ds_protocolError ''DeepSeek returned invalid remote tool arguments'' else err))
     | Inr result \<Rightarrow> (case dl_result k result of
         None \<Rightarrow> Ret (Some (ds_protocolError ''encode remote tool result''))
       | Some encoded \<Rightarrow> ds_tools k calls
           (messages @ [\<lparr>wm_Role = ''tool'', wm_Content = encoded, wm_Reasoning = [], wm_ToolCalls = [], wm_ToolCallID = wc_ID call\<rparr>]) c)) fs r"
    by (auto elim: runs_DoTool)
  have "turn_ok fs r"
  proof (cases x)
    case (Inl err)
    with f(2) show ?thesis by (auto elim!: runs_Ret simp: turn_ok_def)
  next
    case (Inr result)
    show ?thesis
    proof (cases "dl_result k result")
      case None
      with Inr f(2) show ?thesis by (auto elim!: runs_Ret simp: turn_ok_def)
    next
      case (Some encoded)
      with Inr f(2) show ?thesis using Cons.IH [OF _ good] by simp
    qed
  qed
  then show ?case using call f(1) turn_ok_later [of "[ETool \<lparr>tr_Name = wc_Name call, tr_Arguments = wc_Arguments call\<rparr>]" fs r] by simp
qed

lemma runs_round:
  assumes "runs (ds_round k a answers messages c) es r" and c: "\<And>ms es r. runs (c ms) es r \<Longrightarrow> turn_ok es r"
  shows "turn_ok es r"
proof -
  have fail: "turn_ok fs r" if "runs (Ret (Some e)) fs r" for fs e using that by (auto elim!: runs_Ret simp: turn_ok_def)
  have state: "list_all tool_ok [EState x]" for x by (simp add: tool_ok_def)
  from assms(1) consider e where "runs (Ret (Some e)) es r"
    | "runs (DoState ''streaming'' (\<lambda>err. case err of Some e \<Rightarrow> Ret (Some e) | None \<Rightarrow> complete k a answers messages (\<lambda>r. case r of Inl e \<Rightarrow> Ret (Some e)
       | Inr result \<Rightarrow> ds_reply k result messages c))) es r"
    unfolding ds_round_def by (elim runs_CheckCtx) (auto split: option.splits)
  then show ?thesis
  proof cases
    case 2
    then obtain err fs where f: "es = EState ''streaming'' # fs"
      "runs (case err of Some e \<Rightarrow> Ret (Some e) | None \<Rightarrow> complete k a answers messages (\<lambda>r. case r of Inl e \<Rightarrow> Ret (Some e)
       | Inr result \<Rightarrow> ds_reply k result messages c)) fs r" by (elim runs_DoState) auto
    show ?thesis
    proof (cases err)
      case (Some e)
      with f show ?thesis using fail [of e fs] turn_ok_later [OF state, of fs r] by simp
    next
      case None
      with f(2) replies_complete [of k a answers messages] obtain es1 es2 x where x: "fs = es1 @ es2" "list_all streamed es1"
        "\<forall>result. x = Inr result \<longrightarrow> reply_ok result es1" "runs (case x of Inl e \<Rightarrow> Ret (Some e) | Inr result \<Rightarrow> ds_reply k result messages c) es2 r"
        unfolding replies_def by (metis (no_types, lifting) option.case(1))
      note later = turn_ok_later [OF state, of fs r] turn_ok_later [OF streamed_tool_ok [OF x(2)], of es2 r]
      show ?thesis
      proof (cases x)
        case (Inl e)
        with x(4) fail [of e es2] later f(1) x(1) show ?thesis by simp
      next
        case (Inr result)
        with x(3,4) have ok: "reply_ok result es1" and run: "runs (ds_reply k result messages c) es2 r" by simp_all
        show ?thesis
        proof (cases "sr_finish result = ''stop'' \<and> sr_toolCalls result = [] \<and> TrimSpace (sr_content result) \<noteq> []")
          case True
          then have "es2 = []" "r = None" using run by (auto simp: ds_reply_def elim!: runs_Ret)
          then have "answered es" using f(1) x(1,2) ok True
            unfolding answered_def reply_ok_def by - (rule exI [of _ "[]"], rule exI [of _ es1], auto)
          then show ?thesis using f(1) x(1) \<open>es2 = []\<close> streamed_tool_ok [OF x(2)] state by (simp add: turn_ok_def)
        next
          case False
          with run consider e where "runs (Ret (Some e)) es2 r"
            | "runs (DoState ''tool_calls'' (\<lambda>err. case err of Some e \<Rightarrow> Ret (Some e)
                | None \<Rightarrow> ds_tools k (sr_toolCalls result) (messages @ [assistant_message result]) c)) es2 r"
            unfolding ds_reply_def by (auto split: if_splits)
          then have "turn_ok es2 r"
          proof cases
            case 2
            then obtain err gs where g: "es2 = EState ''tool_calls'' # gs" "runs (case err of Some e \<Rightarrow> Ret (Some e)
                | None \<Rightarrow> ds_tools k (sr_toolCalls result) (messages @ [assistant_message result]) c) gs r" by (elim runs_DoState) auto
            then have "turn_ok gs r" using fail runs_tools [OF _ _ _ c] ok by (cases err) (auto simp: reply_ok_def)
            then show ?thesis using g(1) turn_ok_later [OF state, of gs r] by simp
          qed (rule fail)
          then show ?thesis using later f(1) x(1) by simp
        qed
      qed
    qed
  qed (rule fail)
qed

lemma runs_loop: "runs (ds_loop k a providers messages) es r \<Longrightarrow> turn_ok es r"
proof (induction providers arbitrary: messages es r)
  case Nil
  have "runs (Ret (Some timed_out)) es r \<Longrightarrow> turn_ok es r" for es r by (auto elim!: runs_Ret simp: turn_ok_def)
  then show ?case using runs_round [of k a _ messages "\<lambda>_. Ret (Some timed_out)"] Nil by simp
next
  case (Cons p ps)
  then show ?case using runs_round [of k a p messages "ds_loop k a ps"] by simp
qed


subsection \<open>Requests\<close>

text \<open>
  A dialogue DeepSeek accepts: the system prompt, earlier messages, and rounds in which an assistant
  message with tool calls is followed by one result for each of them, in their order.
\<close>

definition plain :: "wireMessage \<Rightarrow> bool" where
  "plain m \<longleftrightarrow> wm_Role m \<in> {''user'', ''assistant''} \<and> wm_ToolCalls m = [] \<and> wm_ToolCallID m = []"

definition results_for :: "wireToolCall list \<Rightarrow> wireMessage list \<Rightarrow> bool" where
  "results_for calls ms \<longleftrightarrow> map wm_ToolCallID ms = map wc_ID calls \<and> list_all (\<lambda>m. wm_Role m = ''tool'' \<and> wm_ToolCalls m = []) ms"

inductive dialogue :: "wireMessage list \<Rightarrow> bool" where
  dialogue_start: "list_all plain ms \<Longrightarrow> dialogue (plain_message ''system'' systemPrompt # ms)"
| dialogue_round: "\<lbrakk>dialogue ms; wm_Role m = ''assistant''; wm_ToolCalls m \<noteq> []; calls_good (wm_ToolCalls m); results_for (wm_ToolCalls m) ts\<rbrakk>
    \<Longrightarrow> dialogue (ms @ m # ts)"

lemma ds_tools_cong:
  "(\<And>ts. results_for calls ts \<Longrightarrow> c (ms @ ts) = c' (ms @ ts)) \<Longrightarrow> ds_tools k calls ms c = ds_tools k calls ms c'"
proof (induction calls arbitrary: ms)
  case Nil
  then show ?case by (simp add: results_for_def)
next
  case (Cons call calls)
  let ?m = "\<lambda>encoded. \<lparr>wm_Role = ''tool'', wm_Content = encoded, wm_Reasoning = [], wm_ToolCalls = [], wm_ToolCallID = wc_ID call\<rparr>"
  have "ds_tools k calls (ms @ [?m encoded]) c = ds_tools k calls (ms @ [?m encoded]) c'" for encoded
  proof (rule Cons.IH)
    fix ts assume "results_for calls ts"
    then have "results_for (call # calls) (?m encoded # ts)" by (simp add: results_for_def)
    from Cons.prems [OF this] show "c ((ms @ [?m encoded]) @ ts) = c' ((ms @ [?m encoded]) @ ts)" by simp
  qed
  then show ?case by (simp cong: sum.case_cong option.case_cong)
qed

lemma ds_reply_cong:
  assumes "calls_good (sr_toolCalls result)" and "dialogue ms" and "\<And>ms. dialogue ms \<Longrightarrow> c ms = c' ms"
  shows "ds_reply k result ms c = ds_reply k result ms c'"
proof (cases "sr_toolCalls result = []")
  case False
  have "ds_tools k (sr_toolCalls result) (ms @ [assistant_message result]) c = ds_tools k (sr_toolCalls result) (ms @ [assistant_message result]) c'"
    using dialogue_round [OF assms(2), of "assistant_message result"] False assms(1,3)
    by (intro ds_tools_cong) (simp add: assistant_message_def)
  then show ?thesis by (simp add: ds_reply_def cong: option.case_cong)
qed (simp add: ds_reply_def)

lemma consumeStream_cong:
  assumes "\<And>x. (\<And>result. x = Inr result \<Longrightarrow> calls_good (sr_toolCalls result)) \<Longrightarrow> c x = c' x"
  shows "consumeStream k body c = consumeStream k body c'"
proof -
  have "c (finish_stream st) = c' (finish_stream st)" for st
    by (rule assms) (auto simp: finish_stream_def dest!: ordered_calls_good(1) split: if_splits sum.splits)
  moreover have "c (Inl e) = c' (Inl e)" for e by (rule assms) simp
  ultimately show ?thesis by (simp add: consumeStream_def cong: sum.case_cong option.case_cong if_cong)
qed

lemma complete_cong:
  assumes "answers (chat_request a ms) = answers' (chat_request a ms)"
    and "\<And>x. (\<And>result. x = Inr result \<Longrightarrow> calls_good (sr_toolCalls result)) \<Longrightarrow> c x = c' x"
  shows "complete k a answers ms c = complete k a answers' ms c'"
proof -
  have i: "c (Inl e) = c' (Inl e)" for e by (rule assms(2)) simp
  have B: "consumeStream k body (\<lambda>r. case r of Inr result \<Rightarrow> c (Inr result)
      | Inl err \<Rightarrow> CheckCtx (\<lambda>e. case e of Some e \<Rightarrow> c (Inl e) | None \<Rightarrow> c (Inl (if db_idle body \<noteq> None then timed_out else err))))
    = consumeStream k body (\<lambda>r. case r of Inr result \<Rightarrow> c' (Inr result)
      | Inl err \<Rightarrow> CheckCtx (\<lambda>e. case e of Some e \<Rightarrow> c' (Inl e) | None \<Rightarrow> c' (Inl (if db_idle body \<noteq> None then timed_out else err))))" for body
    by (rule consumeStream_cong) (auto simp: i intro: assms(2) split: sum.split)
  show ?thesis unfolding complete_def assms(1) unfolding B unfolding i ..
qed

lemma ds_loop_cong:
  assumes "dialogue ms" and "list_all2 (\<lambda>p q. \<forall>ms. dialogue ms \<longrightarrow> p (chat_request a ms) = q (chat_request a ms)) ps qs"
  shows "ds_loop k a ps ms = ds_loop k a qs ms"
  using assms(2,1)
proof (induction arbitrary: ms rule: list_all2_induct)
  case (Cons p ps q qs)
  have "complete k a p ms (\<lambda>r. case r of Inl e \<Rightarrow> Ret (Some e) | Inr result \<Rightarrow> ds_reply k result ms (ds_loop k a ps)) =
    complete k a q ms (\<lambda>r. case r of Inl e \<Rightarrow> Ret (Some e) | Inr result \<Rightarrow> ds_reply k result ms (ds_loop k a qs))"
    by (rule complete_cong) (use Cons in \<open>auto split: sum.split intro!: ds_reply_cong\<close>)
  then show ?case by (simp add: ds_round_def cong: option.case_cong)
qed simp

lemma plain_message [simp]: "plain (plain_message role content) \<longleftrightarrow> role = ''user'' \<or> role = ''assistant''"
  by (simp add: plain_def plain_message_def)

lemma history_plain:
  "history_messages hs ms n = Inr ms' \<Longrightarrow> \<exists>rest. ms' = ms @ rest \<and> list_all plain rest"
proof (induction hs ms n rule: history_messages.induct)
  case (2 h hs ms n)
  then obtain rest where "ms' = (ms @ [plain_message (cm_Role h) (cm_Content h)]) @ rest" "list_all plain rest"
    and "cm_Role h = ''user'' \<or> cm_Role h = ''assistant''"
    by (auto simp: Let_def split: if_splits)
  then show ?case by (intro exI [of _ "plain_message (cm_Role h) (cm_Content h) # rest"]) auto
qed simp

lemma conversation_dialogue: "conversationMessages request = Inr ms \<Longrightarrow> dialogue ms"
  by (auto simp: conversationMessages_def dest!: history_plain split: sum.splits if_splits intro!: dialogue_start)

text \<open>
  C27: DeepSeek is only ever sent well-formed dialogues: what it would answer to any other request makes no
  difference to the turn.  So in every request the tool results follow the assistant message that
  asked for them, one for each call, in order and under its identifier, the call identifiers of a
  message are distinct, and the only tool offered is \<^verbatim>\<open>remote_exec\<close>.
\<close>

theorem deepseek_requests_well_formed:
  "deepseek_Run k a (map (\<lambda>p rq. if dialogue (cr_Messages rq) \<and> cr_Tools rq = [ToolRemoteExec] \<and> cr_Model rq = da_modelID a
      then p rq else other rq) providers) connected request
   = deepseek_Run k a providers connected request"
proof -
  have "list_all2 (\<lambda>p q. \<forall>ms. dialogue ms \<longrightarrow> p (chat_request a ms) = q (chat_request a ms))
    (map (\<lambda>p rq. if dialogue (cr_Messages rq) \<and> cr_Tools rq = [ToolRemoteExec] \<and> cr_Model rq = da_modelID a then p rq else other rq) providers) providers"
    by (induction providers) (simp_all add: chat_request_def)
  then show ?thesis using ds_loop_cong [OF conversation_dialogue]
    by (simp add: deepseek_Run_def split: sum.split)
qed

subsection \<open>A concrete turn\<close>

text \<open>The run in which the service accepts everything and every command fails.\<close>

primrec quiet :: "behaviour \<Rightarrow> ds_effect list \<times> agent_err option" where
  "quiet (Ret e) = ([], e)"
| "quiet (CheckCtx c) = quiet (c None)"
| "quiet (DoReasoning d c) = (case quiet (c None) of (es, r) \<Rightarrow> (EReasoning d # es, r))"
| "quiet (DoText d c) = (case quiet (c None) of (es, r) \<Rightarrow> (EText d # es, r))"
| "quiet (DoState d c) = (case quiet (c None) of (es, r) \<Rightarrow> (EState d # es, r))"
| "quiet (DoExternal d c) = (case quiet (c None) of (es, r) \<Rightarrow> (EExternal d # es, r))"
| "quiet (DoTool q c) = (case quiet (c (Inl (AgOther []))) of (es, r) \<Rightarrow> (ETool q # es, r))"

lemma quiet_runs: "quiet b = (es, r) \<Longrightarrow> runs b es r"
proof (induction b arbitrary: es r)
  case (DoText d c)
  then show ?case using run_text [of c None] by (auto split: prod.splits)
next
  case (DoReasoning d c)
  then show ?case using run_reasoning [of c None] by (auto split: prod.splits)
next
  case (CheckCtx c)
  then show ?case using run_ctx [of c None] by auto
next
  case (DoState d c)
  then show ?case using run_state [of c None] by (auto split: prod.splits)
next
  case (DoExternal d c)
  then show ?case using run_external [of c None] by (auto split: prod.splits)
next
  case (DoTool q c)
  then show ?case using run_tool [of c "Inl (AgOther [])"] by (auto split: prod.splits)
qed (simp add: run_ret)

definition dx_lib :: ds_lib where
  "dx_lib = \<lparr>dl_request = \<lambda>_. Some [], dl_chunk = \<lambda>s. if s = ''t'' then Some ([\<lparr>sc_Index = 0, sc_Content = Some ''done'', sc_Reasoning = None,
     sc_ToolCalls = [], sc_FinishReason = Some ''stop''\<rparr>], []) else None, dl_result = \<lambda>_. Some [], dl_mediaType = \<lambda>s. Some s, dl_fold = \<lambda>s. s\<rparr>"

definition dx_adapter :: dsAdapter where
  "dx_adapter = \<lparr>da_endpoint = \<lparr>pu_Scheme = ''https'', pu_Opaque = [], pu_User = False, pu_Host = ''h'', pu_Path = ''/chat/completions'', pu_RawPath = [],
     pu_RawQuery = [], pu_Fragment = []\<rparr>, da_apiKey = ''k'', da_modelID = ''m'', da_streamIdleTimeout = defaultStreamIdleTimeout\<rparr>"

definition dx_answers :: "chatRequest \<Rightarrow> ds_response" where
  "dx_answers _ = Response 200 ''text/event-stream'' \<lparr>db_reads = [''data: t'' @ [newline, newline], ''data: [DONE]'' @ [newline, newline]],
     db_err = None, db_idle = None\<rparr>"

definition dx_request :: RunRequest where
  "dx_request = \<lparr>rq_SessionID = ''s'', rq_ExternalSessionID = [], rq_UserText = ''hi'', rq_History = [],
     rq_Target = \<lparr>et_Platform = ''linux'', et_Arch = ''amd64'', et_Shell = ''sh'', et_PathFlavor = ''posix'', et_DefaultCWDPolicy = ''home''\<rparr>\<rparr>"

lemma dx_quiet: "quiet (deepseek_Run dx_lib dx_adapter [dx_answers] True dx_request) = ([EState ''streaming'', EText ''done''], None)"
  by code_simp


end
