(* ===== verification/Workspace.thy ===== *)
theory Workspace
  imports Ident "HOL-Library.AList" "HOL-Library.Sublist" "HOL-Library.Char_ord" "HOL-Library.List_Lexorder"
begin

text \<open>
  \<^verbatim>\<open>internal/opencode/workspace.go\<close>: the private directory an OpenCode session runs in, over an explicit file
  system: an association list from paths, lists of names, to nodes.  A list of faults decides which
  system calls fail; a failing write stores a prefix.  Nobody else changes the tree during a call.
  SHA-256, \<^verbatim>\<open>filepath.Abs\<close>, the umask and the two embedded templates are parameters.
\<close>

subsection \<open>File system\<close>

type_synonym fpath = "string list"

datatype fnode = FDir nat | FFile nat string | FSymlink | FOther nat

datatype fs_err = FNotExist | FExist | FIO

record fsworld =
  fs_nodes :: "(fpath \<times> fnode) list"
  fs_faults :: "nat option list"       \<comment> \<open>for each call: None, or failure after that many bytes\<close>
  fs_mode :: "nat \<Rightarrow> nat"              \<comment> \<open>the permission bits of a new node\<close>

type_synonym 'a fsm = "(fsworld, string, 'a) em"

definition fault :: "nat option fsm" where
  "fault w = (case fs_faults w of [] \<Rightarrow> (Inr None, w) | f # fs \<Rightarrow> (Inr f, w\<lparr>fs_faults := fs\<rparr>))"

definition node_at :: "fpath \<Rightarrow> fsworld \<Rightarrow> fnode option" where
  "node_at p w = map_of (fs_nodes w) p"

definition put_node :: "fpath \<Rightarrow> fnode \<Rightarrow> unit fsm" where
  "put_node p n = emodify (\<lambda>w. w\<lparr>fs_nodes := AList.update p n (fs_nodes w)\<rparr>)"

definition Lstat :: "fpath \<Rightarrow> (fs_err + fnode) fsm" where
  "Lstat p = ebind fault (\<lambda>f. if f \<noteq> None then ereturn (Inl FIO)
     else eget (\<lambda>w. case node_at p w of None \<Rightarrow> Inl FNotExist | Some n \<Rightarrow> Inr n))"

definition is_dir :: "fnode option \<Rightarrow> bool" where
  "is_dir n = (case n of Some (FDir _) \<Rightarrow> True | _ \<Rightarrow> False)"

definition new_node :: "fpath \<Rightarrow> (fsworld \<Rightarrow> fnode) \<Rightarrow> (fs_err + unit) fsm" where
  "new_node p n = ebind fault (\<lambda>f. if f \<noteq> None then ereturn (Inl FIO)
     else ebind (eget (node_at p)) (\<lambda>old. if old \<noteq> None then ereturn (Inl FExist)
     else ebind (eget (\<lambda>w. is_dir (node_at (butlast p) w))) (\<lambda>ok. if \<not> ok then ereturn (Inl FNotExist)
     else ebind (eget n) (\<lambda>node. ebind (put_node p node) (\<lambda>_. ereturn (Inr ()))))))"

definition Mkdir :: "fpath \<Rightarrow> (fs_err + unit) fsm" where
  "Mkdir p = new_node p (\<lambda>w. FDir (fs_mode w 0x1C0))"

definition CreateExclusive :: "fpath \<Rightarrow> (fs_err + unit) fsm" where
  "CreateExclusive p = new_node p (\<lambda>w. FFile (fs_mode w 0x180) [])"

definition WriteFile :: "fpath \<Rightarrow> string \<Rightarrow> bool fsm" where
  "WriteFile p contents = ebind fault (\<lambda>f. ebind (eget (node_at p)) (\<lambda>n.
     let written = (case f of None \<Rightarrow> contents | Some k \<Rightarrow> take k contents);
         perm = (case n of Some (FFile perm _) \<Rightarrow> perm | _ \<Rightarrow> 0) in
     ebind (put_node p (FFile perm written)) (\<lambda>_. ereturn (f = None))))"

definition ReadFile :: "fpath \<Rightarrow> (fs_err + string) fsm" where
  "ReadFile p = ebind fault (\<lambda>f. if f \<noteq> None then ereturn (Inl FIO)
     else eget (\<lambda>w. case node_at p w of Some (FFile _ c) \<Rightarrow> Inr c | None \<Rightarrow> Inl FNotExist | _ \<Rightarrow> Inl FIO))"

subsection \<open>Checks\<close>

definition privateDir :: nat where "privateDir = 0x1C0"      \<comment> \<open>\<^verbatim>\<open>0o700\<close>\<close>
definition privateFile :: nat where "privateFile = 0x180"    \<comment> \<open>\<^verbatim>\<open>0o600\<close>\<close>

definition check_component :: "fpath \<Rightarrow> unit fsm" where
  "check_component p = ebind (Lstat p) (\<lambda>r. case r of
     Inr FSymlink \<Rightarrow> ethrow ''opencode workspace path contains a symlink''
   | Inl FIO \<Rightarrow> ethrow ''inspect opencode workspace path''
   | Inl FExist \<Rightarrow> ethrow ''inspect opencode workspace path''
   | _ \<Rightarrow> ereturn ())"

text \<open>The path from its last component up to the root.\<close>

fun reject_up :: "fpath \<Rightarrow> unit fsm" where
  "reject_up [] = check_component []"
| "reject_up (c # cs) = ebind (check_component (rev (c # cs))) (\<lambda>_. reject_up cs)"

definition rejectSymlinkComponents :: "fpath \<Rightarrow> unit fsm" where
  "rejectSymlinkComponents p = reject_up (rev p)"

definition ensurePrivateDirectory :: "fpath \<Rightarrow> bool \<Rightarrow> unit fsm" where
  "ensurePrivateDirectory p create = ebind (Lstat p) (\<lambda>r.
     ebind (if r = Inl FNotExist \<and> create
            then ebind (Mkdir p) (\<lambda>m. if m \<noteq> Inr () \<and> m \<noteq> Inl FExist then ethrow ''create private opencode directory'' else Lstat p)
            else ereturn r) (\<lambda>info. case info of
       Inl _ \<Rightarrow> ethrow ''inspect private opencode directory''
     | Inr n \<Rightarrow> if n \<noteq> FDir privateDir then ethrow ''opencode workspace directory is not a private real directory'' else ereturn ()))"

definition createFile :: "fpath \<Rightarrow> string \<Rightarrow> (fs_err + fnode) fsm" where
  "createFile p expected = ebind (CreateExclusive p) (\<lambda>c. if c \<noteq> Inr () then ethrow ''create opencode workspace file''
     else ebind (WriteFile p expected) (\<lambda>ok. ebind fault (\<lambda>closeErr.
       if \<not> ok then ethrow ''write opencode workspace file''
       else if closeErr \<noteq> None then ethrow ''close opencode workspace file''
       else Lstat p)))"

definition ensureExactFile :: "fpath \<Rightarrow> string \<Rightarrow> unit fsm" where
  "ensureExactFile p expected = ebind (Lstat p) (\<lambda>r.
     ebind (if r = Inl FNotExist then createFile p expected else ereturn r) (\<lambda>info. case info of
       Inl _ \<Rightarrow> ethrow ''inspect opencode workspace file''
     | Inr n \<Rightarrow> if (case n of FFile perm _ \<Rightarrow> perm \<noteq> privateFile | _ \<Rightarrow> True)
         then ethrow ''opencode workspace file is not a private regular file''
         else ebind (ReadFile p) (\<lambda>actual. case actual of
             Inl _ \<Rightarrow> ethrow ''read opencode workspace file''
           | Inr c \<Rightarrow> if c \<noteq> expected then ethrow ''opencode workspace template differs from reviewed content'' else ereturn ())))"

text \<open>The two templates, the relative paths they are for, and the directories.\<close>

record templates =
  tm_config :: string
  tm_tool :: string

definition configRelativePath :: fpath where "configRelativePath = [''opencode.json'']"
definition toolRelativePath :: fpath where "toolRelativePath = [''.opencode'', ''tools'', ''remote_exec.ts'']"

definition allowedWorkspaceFiles :: "templates \<Rightarrow> (fpath \<times> string) list" where
  "allowedWorkspaceFiles t = [(configRelativePath, tm_config t), (toolRelativePath, tm_tool t)]"

definition allowedDirectories :: "fpath list" where
  "allowedDirectories = [[], [''.opencode''], [''.opencode'', ''tools'']]"

text \<open>One entry of \<^verbatim>\<open>filepath.WalkDir\<close>, with the read of a directory after it; True for a file.\<close>

definition visit :: "templates \<Rightarrow> fpath \<Rightarrow> fpath \<Rightarrow> (fpath + fpath) fsm" where
  "visit t workspace p = ebind (Lstat p) (\<lambda>r. case r of
     Inl _ \<Rightarrow> ethrow ''opencode workspace walk failed''
   | Inr FSymlink \<Rightarrow> ethrow ''opencode workspace contains a symlink''
   | Inr (FDir perm) \<Rightarrow>
       if drop (length workspace) p \<notin> set allowedDirectories \<or> perm \<noteq> privateDir
       then ethrow ''opencode workspace contains an unexpected directory''
       else ebind fault (\<lambda>f. if f \<noteq> None then ethrow ''opencode workspace walk failed'' else ereturn (Inl (drop (length workspace) p)))
   | Inr n \<Rightarrow> (case map_of (allowedWorkspaceFiles t) (drop (length workspace) p) of
       None \<Rightarrow> ethrow ''opencode workspace contains an unexpected file''
     | Some expected \<Rightarrow>
         if (case n of FFile perm _ \<Rightarrow> perm \<noteq> privateFile | _ \<Rightarrow> True) then ethrow ''opencode workspace contains an unexpected file''
         else ebind (ReadFile p) (\<lambda>actual. if actual \<noteq> Inr expected then ethrow ''opencode workspace template differs from reviewed content''
           else ereturn (Inr (drop (length workspace) p)))))"

text \<open>What was seen: directories and files.\<close>

fun walk :: "templates \<Rightarrow> fpath \<Rightarrow> fpath list \<Rightarrow> (fpath + fpath) list fsm" where
  "walk t workspace [] = ereturn []"
| "walk t workspace (p # ps) = ebind (visit t workspace p) (\<lambda>x. ebind (walk t workspace ps) (\<lambda>xs. ereturn (x # xs)))"

definition walk_order :: "fpath \<Rightarrow> fsworld \<Rightarrow> fpath list" where
  "walk_order workspace w = sort (remdups (filter (prefix workspace) (map fst (fs_nodes w))))"

definition verifyWorkspaceAllowlist :: "templates \<Rightarrow> fpath \<Rightarrow> unit fsm" where
  "verifyWorkspaceAllowlist t workspace =
     ebind fault (\<lambda>f. if f \<noteq> None then ethrow ''opencode workspace walk failed''
     else ebind (eget (walk_order workspace)) (\<lambda>order. ebind (walk t workspace order) (\<lambda>seen.
       let dirs = [d. Inl d \<leftarrow> seen]; files = [f. Inr f \<leftarrow> seen] in
       if length (remdups dirs) \<noteq> length allowedDirectories \<or> length (remdups files) \<noteq> length (allowedWorkspaceFiles t)
       then ethrow ''opencode workspace allowlist is incomplete'' else ereturn ())))"

subsection \<open>The manager\<close>

definition newWorkspaceManager :: "(string \<Rightarrow> fpath option) \<Rightarrow> string \<Rightarrow> fpath fsm" where
  "newWorkspaceManager absolute_of root =
     (if root = [] \<or> CHR 0x00 \<in> set root then ethrow ''opencode workspace root is required''
      else case absolute_of root of
        None \<Rightarrow> ethrow ''resolve opencode workspace root''
      | Some absolute \<Rightarrow> ebind (rejectSymlinkComponents absolute) (\<lambda>_. ebind (ensurePrivateDirectory absolute True) (\<lambda>_. ereturn absolute)))"

definition session_directory :: "(string \<Rightarrow> string) \<Rightarrow> fpath \<Rightarrow> string \<Rightarrow> fpath" where
  "session_directory sha256 root productSessionID = root @ [''session-'' @ base32_lower (sha256 productSessionID)]"

fun each :: "('a \<Rightarrow> unit fsm) \<Rightarrow> 'a list \<Rightarrow> unit fsm" where
  "each f [] = ereturn ()"
| "each f (x # xs) = ebind (f x) (\<lambda>_. each f xs)"

text \<open>\<open>order\<close> is the order in which Go's map of the templates is walked.\<close>

definition fillWorkspace :: "templates \<Rightarrow> bool \<Rightarrow> fpath \<Rightarrow> unit fsm" where
  "fillWorkspace t order workspace =
     ebind (ensurePrivateDirectory workspace False) (\<lambda>_.
     ebind (each (\<lambda>d. ensurePrivateDirectory (workspace @ d) True) [[''.opencode''], [''.opencode'', ''tools'']]) (\<lambda>_.
     ebind (each (\<lambda>(rel, contents). ensureExactFile (workspace @ rel) contents)
       (if order then allowedWorkspaceFiles t else rev (allowedWorkspaceFiles t))) (\<lambda>_.
     verifyWorkspaceAllowlist t workspace)))"

definition prepare :: "(string \<Rightarrow> string) \<Rightarrow> templates \<Rightarrow> bool \<Rightarrow> fpath \<Rightarrow> string \<Rightarrow> fpath fsm" where
  "prepare sha256 t order root productSessionID =
     (if productSessionID = [] \<or> CHR 0x00 \<in> set productSessionID then ethrow ''invalid product session id''
      else let workspace = session_directory sha256 root productSessionID in
        ebind (rejectSymlinkComponents root) (\<lambda>_.
        ebind (ensurePrivateDirectory root False) (\<lambda>_.
        ebind (Lstat workspace) (\<lambda>inspect. case inspect of
            Inr _ \<Rightarrow> ebind (ensurePrivateDirectory workspace False) (\<lambda>_.
                ebind (verifyWorkspaceAllowlist t workspace) (\<lambda>_. ereturn workspace))
          | Inl FNotExist \<Rightarrow> ebind (Mkdir workspace) (\<lambda>m. if m \<noteq> Inr () then ethrow ''create private opencode workspace''
                else ebind (fillWorkspace t order workspace) (\<lambda>_. ereturn workspace))
          | Inl _ \<Rightarrow> ethrow ''inspect opencode workspace''))))"

subsection \<open>What reads and what writes\<close>

definition same_tree :: "fsworld \<Rightarrow> fsworld \<Rightarrow> bool" where
  "same_tree w v \<longleftrightarrow> fs_nodes v = fs_nodes w"

interpretation tree: step_order same_tree
  by unfold_locales (simp_all add: same_tree_def)

lemma fault_same: "moves same_tree fault"
  by (rule movesI) (simp add: fault_def same_tree_def split: list.split)

lemma fault_nodes: "fault w = (r, v) \<Longrightarrow> fs_nodes v = fs_nodes w"
  using moves_result [OF fault_same] by (simp add: same_tree_def)

lemma Lstat_same: "moves same_tree (Lstat p)"
  unfolding Lstat_def by (intro tree.moves_rules fault_same)

lemma ReadFile_same: "moves same_tree (ReadFile p)"
  unfolding ReadFile_def by (intro tree.moves_rules fault_same)

lemma check_component_same: "moves same_tree (check_component p)"
  unfolding check_component_def
  by (intro tree.moves_bind Lstat_same) (auto split: sum.split fs_err.split fnode.split intro: tree.moves_rules)

lemma reject_same: "moves same_tree (rejectSymlinkComponents p)"
proof -
  have "moves same_tree (reject_up q)" for q
    by (induction q) (auto intro!: tree.moves_bind check_component_same)
  then show ?thesis by (simp add: rejectSymlinkComponents_def)
qed

lemma ensurePrivateDirectory_same: "moves same_tree (ensurePrivateDirectory p False)"
  unfolding ensurePrivateDirectory_def by (simp, intro tree.moves_rules Lstat_same)

lemma visit_same: "moves same_tree (visit t ws p)"
  unfolding visit_def
  by (intro tree.moves_bind Lstat_same)
     (auto split: sum.split fnode.split option.split intro!: tree.moves_rules fault_same ReadFile_same)

lemma walk_same: "moves same_tree (walk t ws ps)"
  by (induction ps) (auto intro!: tree.moves_rules visit_same)

lemma verify_same: "moves same_tree (verifyWorkspaceAllowlist t ws)"
  unfolding verifyWorkspaceAllowlist_def Let_def by (intro tree.moves_rules fault_same walk_same)

lemma tree_bind:
  assumes w: "same_tree w v" and m: "moves same_tree m" and n: "\<And>u. same_tree w u \<Longrightarrow> same_tree w (snd (n u))"
  shows "same_tree w (snd (ebind m (\<lambda>_. n) v))"
proof -
  obtain r u where ru: "m v = (r, u)" by fastforce
  have "same_tree w u" using w moves_result [OF m ru] by (simp add: same_tree_def)
  then show ?thesis using ru n by (cases r) (simp_all add: ebind_apply)
qed

subsection \<open>The verified tree\<close>

definition expected :: "templates \<Rightarrow> fpath \<Rightarrow> fnode option" where
  "expected t rel = (if rel \<in> set allowedDirectories then Some (FDir privateDir)
     else map_option (FFile privateFile) (map_of (allowedWorkspaceFiles t) rel))"

lemma Lstat_node: "Lstat p w = (Inr (Inr n), w') \<Longrightarrow> node_at p w = Some n \<and> fs_nodes w' = fs_nodes w"
  by (auto simp: Lstat_def em_simps fault_def node_at_def split: list.splits if_splits option.splits)

lemma Lstat_total: "\<exists>r u. Lstat p w = (Inr r, u)"
proof -
  obtain f v where "fault w = (Inr f, v)" by (cases "fs_faults w") (auto simp: fault_def)
  then show ?thesis by (cases f) (simp_all add: Lstat_def em_simps)
qed

lemma ReadFile_node: "ReadFile p w = (Inr (Inr c), w') \<Longrightarrow> \<exists>perm. node_at p w = Some (FFile perm c)"
  by (auto simp: ReadFile_def em_simps fault_def node_at_def split: list.splits if_splits option.splits fnode.splits)

lemma allowed_disjoint: "map_of (allowedWorkspaceFiles t) rel = Some e \<Longrightarrow> rel \<notin> set allowedDirectories"
  by (auto simp: allowedWorkspaceFiles_def allowedDirectories_def configRelativePath_def toolRelativePath_def split: if_splits)

lemma visit_ok:
  assumes "visit t ws p w = (Inr x, w')"
  shows "node_at p w = expected t (drop (length ws) p) \<and> node_at p w \<noteq> None \<and>
    x = (if drop (length ws) p \<in> set allowedDirectories then Inl (drop (length ws) p) else Inr (drop (length ws) p))"
proof -
  obtain r v where l: "Lstat p w = (r, v)" by fastforce
  with assms obtain n where n: "r = Inr (Inr n)"
    by (auto simp: visit_def ebind_apply em_simps split: sum.splits)
  note node = Lstat_node [OF l [unfolded n]]
  have at: "node_at q v = node_at q w" for q using node by (simp add: node_at_def)
  show ?thesis
  proof (cases n)
    case (FDir perm)
    with assms l n node show ?thesis
      by (auto simp: visit_def ebind_apply em_simps expected_def fault_def split: if_splits list.splits)
  next
    case (FFile perm c)
    with assms l n obtain e where e: "map_of (allowedWorkspaceFiles t) (drop (length ws) p) = Some e" "perm = privateFile"
      "x = Inr (drop (length ws) p)" "\<exists>u. ReadFile p v = (Inr (Inr e), u)"
      by (auto simp: visit_def ebind_apply em_simps split: if_splits option.splits sum.splits prod.splits)
    then have "c = e" using ReadFile_node [of p v e] at node FFile by auto
    then show ?thesis using e node FFile allowed_disjoint [OF e(1)] by (simp add: expected_def)
  qed (use assms l n in \<open>auto simp: visit_def ebind_apply em_simps split: if_splits option.splits\<close>)
qed

lemma walk_ok:
  "walk t ws ps w = (Inr xs, w') \<Longrightarrow>
    (\<forall>p \<in> set ps. node_at p w = expected t (drop (length ws) p) \<and> node_at p w \<noteq> None) \<and>
    xs = map (\<lambda>p. if drop (length ws) p \<in> set allowedDirectories then Inl (drop (length ws) p) else Inr (drop (length ws) p)) ps"
proof (induction ps arbitrary: w xs)
  case (Cons p ps)
  from Cons.prems obtain x v ys where x: "visit t ws p w = (Inr x, v)" "walk t ws ps v = (Inr ys, w')" "xs = x # ys"
    by (auto simp: ebind_apply em_simps split: prod.splits sum.splits)
  have "node_at q v = node_at q w" for q
    using moves_result [OF visit_same x(1)] by (simp add: same_tree_def node_at_def)
  then show ?case using visit_ok [OF x(1)] Cons.IH [OF x(2)] x(3) by (simp del: not_None_eq) metis
qed (simp add: em_simps)

lemma expected_Some: "expected t rel \<noteq> None \<Longrightarrow> rel \<in> set allowedDirectories \<or> rel \<in> set (map fst (allowedWorkspaceFiles t))"
  by (auto simp: expected_def dest: map_of_SomeD intro: rev_image_eqI split: if_splits)

lemma verify_ok:
  assumes "verifyWorkspaceAllowlist t ws w = (Inr (), w')" and "prefix ws p"
  shows "node_at p w = expected t (drop (length ws) p)"
proof -
  let ?rel = "drop (length ws)"
  let ?f = "\<lambda>p. if ?rel p \<in> set allowedDirectories then Inl (?rel p) else Inr (?rel p)"
  from assms(1) obtain v seen u where v: "fs_nodes v = fs_nodes w" "walk t ws (walk_order ws v) v = (Inr seen, u)"
    and dirs: "length (remdups [d. Inl d \<leftarrow> seen]) = length allowedDirectories"
    and files: "length (remdups [f. Inr f \<leftarrow> seen]) = length (allowedWorkspaceFiles t)"
    unfolding verifyWorkspaceAllowlist_def Let_def
    by (elim ebind_InrE) (auto simp: em_simps split: if_splits prod.splits sum.splits dest: fault_nodes)
  let ?order = "set (walk_order ws v)"
  note walked = walk_ok [OF v(2)]
  have at: "node_at q v = node_at q w" for q using v(1) by (simp add: node_at_def)
  have order: "q \<in> ?order \<longleftrightarrow> prefix ws q \<and> node_at q w \<noteq> None" for q
    using v(1) by (auto simp: walk_order_def node_at_def map_of_eq_None_iff)
  have seen: "seen = map ?f (walk_order ws v)" using walked by blast
  have D: "set [d. Inl d \<leftarrow> seen] = ?rel ` ?order \<inter> set allowedDirectories" by (auto simp: seen split: if_splits)
  have F: "set [f. Inr f \<leftarrow> seen] = ?rel ` ?order - set allowedDirectories" by (auto simp: seen split: if_splits)
  have "card (?rel ` ?order \<inter> set allowedDirectories) = card (set allowedDirectories)"
    using dirs unfolding length_remdups_card_conv D by (simp add: allowedDirectories_def)
  then have allD: "set allowedDirectories \<subseteq> ?rel ` ?order" by (metis Int_lower2 card_subset_eq inf.absorb_iff2 List.finite_set)
  have sub: "?rel ` ?order - set allowedDirectories \<subseteq> set (map fst (allowedWorkspaceFiles t))"
    using walked expected_Some at by (smt (verit, ccfv_threshold) DiffE imageE subsetI)
  have "card (?rel ` ?order - set allowedDirectories) = card (set (map fst (allowedWorkspaceFiles t)))"
    using files unfolding length_remdups_card_conv F by (simp add: allowedWorkspaceFiles_def configRelativePath_def toolRelativePath_def)
  then have allF: "set (map fst (allowedWorkspaceFiles t)) \<subseteq> ?rel ` ?order" using card_subset_eq [OF _ sub] by auto
  show ?thesis
  proof (cases "node_at p w")
    case None
    have "expected t (?rel p) = None"
    proof (rule ccontr)
      assume "expected t (?rel p) \<noteq> None"
      then have "?rel p \<in> ?rel ` ?order" using expected_Some allD allF by blast
      then obtain q where q: "q \<in> ?order" "?rel q = ?rel p" by auto
      then have "q = p" using order [of q] assms(2) by (metis append_take_drop_id prefixE append_eq_conv_conj)
      with q None order show False by simp
    qed
    with None show ?thesis by simp
  next
    case (Some n)
    then have "p \<in> ?order" using order assms(2) by simp
    then show ?thesis using walked at by metis
  qed
qed

text \<open>
  C28: A workspace that \<^verbatim>\<open>prepare\<close> returns is exactly the reviewed one, whatever was there before and whichever
  system calls fail: below it there are the three private directories, the two private files with
  the embedded contents, and nothing else, no link and no other file.
\<close>

theorem workspace_is_reviewed:
  assumes "prepare sha256 t order root sid w = (Inr ws, w')"
  shows "ws = session_directory sha256 root sid \<and> (\<forall>p. prefix ws p \<longrightarrow> node_at p w' = expected t (drop (length ws) p))"
proof -
  let ?ws = "session_directory sha256 root sid"
  from assms obtain v u where v: "ws = ?ws" "verifyWorkspaceAllowlist t ?ws v = (Inr (), u)" "w' = u"
    unfolding prepare_def fillWorkspace_def Let_def
    by (auto simp: ebind_apply em_simps split: prod.splits sum.splits if_splits fs_err.splits)
  have "node_at q w' = node_at q v" for q using moves_result [OF verify_same v(2)] v(3) by (simp add: same_tree_def node_at_def)
  then show ?thesis using v(1) verify_ok [OF v(2)] by simp
qed

text \<open>An empty root: the workspace is made, and a second call accepts it.\<close>

definition demo_templates :: templates where "demo_templates = \<lparr>tm_config = ''{}'', tm_tool = ''t''\<rparr>"

definition demo_fs :: fsworld where
  "demo_fs = \<lparr>fs_nodes = [([], FDir 0x1ED), ([''r''], FDir 0x1C0)], fs_faults = [], fs_mode = id\<rparr>"

definition demo_prepare :: "fpath fsm" where
  "demo_prepare = prepare (\<lambda>_. []) demo_templates True [''r''] ''s''"

theorem workspace_is_reviewed_witness:
  "\<exists>w'. demo_prepare demo_fs = (Inr [''r'', ''session-''], w') \<and>
    node_at [''r'', ''session-'', ''opencode.json''] w' = Some (FFile 0x180 ''{}'') \<and>
    node_at [''r'', ''session-'', ''extra''] w' = None"
proof -
  have ok: "fst (demo_prepare demo_fs) = Inr [''r'', ''session-'']" by code_simp
  then obtain w' where w': "demo_prepare demo_fs = (Inr [''r'', ''session-''], w')" by (metis prod.collapse)
  note all = workspace_is_reviewed [OF w' [unfolded demo_prepare_def], THEN conjunct2, rule_format]
  have "expected demo_templates [''opencode.json''] = Some (FFile 0x180 ''{}'')" "expected demo_templates [''extra''] = None"
    by code_simp+
  then show ?thesis using w' all [of "[''r'', ''session-'', ''opencode.json'']"] all [of "[''r'', ''session-'', ''extra'']"] by simp
qed

text \<open>
  C29: An existing workspace is never repaired: when the directory of a session is there, \<^verbatim>\<open>prepare\<close> leaves the
  whole file system as it is, whether it accepts the workspace or not.
\<close>

theorem workspace_never_repaired:
  assumes "node_at (session_directory sha256 root sid) w \<noteq> None"
  shows "fs_nodes (snd (prepare sha256 t order root sid w)) = fs_nodes w"
proof -
  let ?ws = "session_directory sha256 root sid"
  let ?last = "\<lambda>r. case r of
            Inr _ \<Rightarrow> ebind (ensurePrivateDirectory ?ws False) (\<lambda>_. ebind (verifyWorkspaceAllowlist t ?ws) (\<lambda>_. ereturn ?ws))
          | Inl FNotExist \<Rightarrow> ebind (Mkdir ?ws) (\<lambda>m. if m \<noteq> Inr () then ethrow ''create private opencode workspace''
                else ebind (fillWorkspace t order ?ws) (\<lambda>_. ereturn ?ws))
          | Inl _ \<Rightarrow> ethrow ''inspect opencode workspace''"
  have last: "same_tree v (snd (ebind (Lstat ?ws) ?last v))" if v: "same_tree w v" for v
  proof -
    obtain r u where l: "Lstat ?ws v = (Inr r, u)" using Lstat_total by blast
    have "r \<noteq> Inl FNotExist"
      using l assms v by (auto simp: Lstat_def em_simps fault_def node_at_def same_tree_def split: list.splits if_splits option.splits)
    then have "moves same_tree (?last r)"
      by (cases r) (auto split: fs_err.split intro!: tree.moves_rules ensurePrivateDirectory_same verify_same)
    then show ?thesis using l moves_result [OF Lstat_same l] movesD [of same_tree "?last r" u]
      by (simp add: ebind_apply same_tree_def)
  qed
  have tail: "same_tree w (snd (ebind (Lstat ?ws) ?last v))" if "same_tree w v" for v
    using last [OF that] that by (simp add: same_tree_def)
  have refl: "same_tree w w" by (simp add: same_tree_def)
  have all: "same_tree w (snd (ebind (rejectSymlinkComponents root) (\<lambda>_. ebind (ensurePrivateDirectory root False) (\<lambda>_. ebind (Lstat ?ws) ?last)) w))"
    by (rule tree_bind [OF refl reject_same], rule tree_bind [OF _ ensurePrivateDirectory_same], assumption, erule tail)
  have "same_tree w (snd (prepare sha256 t order root sid w))"
  proof (cases "sid = [] \<or> CHR 0x00 \<in> set sid")
    case True
    then show ?thesis by (auto simp: prepare_def em_simps same_tree_def)
  next
    case False
    then show ?thesis unfolding prepare_def Let_def if_not_P [OF False] by (rule_tac all)
  qed
  then show ?thesis by (simp add: same_tree_def)
qed

theorem workspace_never_repaired_witness:
  "fst (demo_prepare (demo_fs\<lparr>fs_nodes := fs_nodes demo_fs @ [([''r'', ''session-''], FDir 0x1C0)]\<rparr>)) =
      Inl ''opencode workspace allowlist is incomplete'' \<and>
   fs_nodes (snd (demo_prepare (demo_fs\<lparr>fs_nodes := fs_nodes demo_fs @ [([''r'', ''session-''], FDir 0x1C0)]\<rparr>))) =
      fs_nodes demo_fs @ [([''r'', ''session-''], FDir 0x1C0)]"
  (is "fst (demo_prepare ?w) = _ \<and> _")
proof -
  have there: "node_at (session_directory (\<lambda>_. []) [''r''] ''s'') ?w \<noteq> None" by code_simp
  have "fst (demo_prepare ?w) = Inl ''opencode workspace allowlist is incomplete''" by code_simp
  then show ?thesis using workspace_never_repaired [OF there] by (simp add: demo_prepare_def)
qed

end
