(* ===== verification/Spec2Isabelle.thy ===== *)
theory Spec2Isabelle
  imports Store_Props Control Auth Pairing DeviceGate SourceLimiter AgentGuarantees GatewayProps TunnelClient DeviceService OpenCodeSse TerminalSession Bridge DeepSeek Workspace
begin

text \<open>
  AISummoner: a self-hosted server that lets a user run an agent and a terminal on remote
  devices.  A device opens an outbound tunnel to the server and is paired with a user by a
  one-time code; the user opens agent sessions on the device, and every command an agent
  provider asks for is stored, approved and executed over the device's tunnel.  This
  development models the Go code under \<^verbatim>\<open>src/internal\<close> and proves what its parts promise.

  \<^bold>\<open>Shared.\<close>  \<open>Prelude\<close>: errors as values, the state-and-error functions \<open>em\<close>, the locale
  \<open>step_order\<close> of preorders carried through such functions, invariants of step relations
  (\<open>invariant_of\<close>), tables.  \<open>GoText\<close> and \<open>GoJson\<close>: UTF-8, trimming, decimal numbers and the
  JSON syntax check of Go's library.

  \<^bold>\<open>The store\<close> (\<^verbatim>\<open>store/\<close>).  \<open>Store_Types\<close> has the rows and the constraints of the migrations,
  \<open>Store_Sql\<close> statements and transactions with a list of failures that decides which of
  them fail, \<open>Store_Users\<close>, \<open>Store_Devices\<close> and \<open>Store_Agent\<close> the methods, statement by statement
  and with their owner predicates.  \<open>Store_Steps\<close> shows that every call changes the
  database by at most one atomic step; \<open>Store_Inv\<close> and \<open>Store_Runs\<close> prove invariants and
  preorders of these steps (revoked sessions stay revoked, tool calls only move forward,
  pairing codes are used once) and \<open>Store_Props\<close> the properties.

  \<^bold>\<open>Identifiers, login and pairing.\<close>  \<open>Ident\<close> (\<^verbatim>\<open>id/id.go\<close>), \<open>Password\<close> and \<open>Auth\<close> (\<^verbatim>\<open>auth/\<close>), \<open>Pairing\<close>
  (\<^verbatim>\<open>pairing/service.go\<close>): random identifiers from a stream of bytes, the encoded password hash
  and its bounds, bootstrap, login with bounded verification, sessions, pairing codes.
  Argon2, HMAC and SHA-256 are parameters.

  \<^bold>\<open>Tunnel.\<close>  \<open>Control\<close> (\<^verbatim>\<open>protocol/control.go\<close>): frames and messages with bounded reads.
  \<open>TunnelManager\<close> (\<^verbatim>\<open>tunnel/manager.go\<close>): connections as objects on a heap and the registry, one
  step per critical section or goroutine step, with the callers of \<^verbatim>\<open>OpenSSH\<close>: the registry
  is consistent, the newest connection wins, detaching is final, a stream and its signer
  belong to one connection, \<^verbatim>\<open>CloseAll\<close> can always finish.  \<open>SourceLimiter\<close>
  (\<^verbatim>\<open>tunnel/server.go\<close>): the rate limiter per source address, bounded to 4096 entries, whose
  verdicts do not depend on Go's map order.  \<open>DeviceGate\<close> (\<^verbatim>\<open>devicegate/gate.go\<close>): the lock per
  device as steps of interleaved callers, a mutual exclusion that leaks no entry.
  \<open>RequestSource\<close> (\<^verbatim>\<open>requestsource/resolver.go\<close>): the source address of a request, with the parser and
  printer of addresses.  \<open>Gateway\<close> (\<^verbatim>\<open>tunnel/server.go\<close>): admission, handshake, publication and
  heartbeat of one device, as a function that lets concurrent handlers change the shared state
  between any two of its steps; \<open>GatewayProps\<close>: a device is published only with a proof, a failed
  publication changes nothing, admission tokens are returned, and what a handler does to the
  registry are steps of \<open>TunnelManager\<close>.  \<open>TunnelClient\<close> (\<^verbatim>\<open>tunnel/client.go\<close>): the other side; its
  answer to a challenge passes the gateway's checks.

  \<^bold>\<open>Devices and terminals.\<close>  \<open>DeviceService\<close> (\<^verbatim>\<open>device/service.go\<close>): views, and unpairing across store,
  agent service, tunnel registry and terminals.  \<open>Terminal\<close> (\<^verbatim>\<open>terminal/handler.go\<close>): the registry of
  live terminals as interleaved steps; a terminal belongs to the owner of its device.
  \<open>TerminalSession\<close> (\<^verbatim>\<open>terminal/session.go\<close> and the checks of a request): input reaches the PTY byte
  for byte, and a terminal opens only for an authenticated owner.

  \<^bold>\<open>Agent service\<close> (\<^verbatim>\<open>agent/\<close>).  \<open>AgentTypes\<close>: constants, error values, validation, output and
  history limits.  \<open>EventHub\<close> (\<^verbatim>\<open>hub.go\<close>): live subscriptions without gaps.  \<open>AgentService\<close>
  (\<^verbatim>\<open>service.go\<close>): the state of the service and its exported methods.  \<open>AgentTurn\<close>: the event
  sink, the tool invoker with approval, execution and finalization, \<^verbatim>\<open>runTurn\<close>, and the
  scripted adapter (\<^verbatim>\<open>fake.go\<close>).  A call runs in a world: the shared state (database, maps of
  the service, tunnel registry) and the list of what concurrent callers do to it before
  each of its store calls and critical sections; a provider is an arbitrary tree of
  callbacks.  \<open>AgentProps\<close> follows one tool call through such a run and \<open>AgentFinish\<close> its
  finalization; \<open>AgentGuarantees\<close> states that a turn executes only commands that were stored
  and, where the session asks for it, approved, that a revoked session executes nothing,
  that reported statuses are the durable ones, and shows two error paths on concrete runs.

  \<^bold>\<open>OpenCode event stream.\<close>  \<open>OpenCodeSse\<close> (\<^verbatim>\<open>opencode/sse.go\<close>): the line scanner with its split function,
  the framing of records and the tracker that turns provider events into text.  What is shown of
  a part is its text, the tables stay within their limits, success needs a final message, and
  the lines do not depend on how the transport cuts a stream of short lines; the line limit does.

  \<^bold>\<open>Bounds.\<close>  The retry loops of the service make two attempts and are recursive functions on
  that number; the loops over rows, messages and map entries are structural recursions on
  lists; the loops of \<^verbatim>\<open>heartbeatLoop\<close>, \<^verbatim>\<open>writeAll\<close> and of the scanner end by measures (the answers of the
  device left, the bytes left, the buffer and the reads left); no function needs fuel.  Times are integers in nanoseconds, the observation order
  of the limiter is a 64 bit word that wraps.

  \<^bold>\<open>Abstractions.\<close>  A store call is atomic with respect to the other callers, as SQLite
  serializes it, and fails at any statement the list of failures says.  A method's value
  next to an error is dropped where no caller reads it.  The entry of the map \<^verbatim>\<open>pending\<close> stands
  for the object it points to.  Callbacks of one adapter are sequential, as the gate of the
  invoker makes them.  Setting \<^verbatim>\<open>closed\<close> and closing \<^verbatim>\<open>done\<close> of a connection are one step.  Logging
  is left out.

  \<^bold>\<open>Not modelled.\<close>  Opening and migrating the database file; the HTTP layers and the wiring of the
  services; the configuration; the providers DeepSeek and DSH and the requests of the OpenCode
  adapter; SSH, processes, pipes and files of the operating system; the desktop client.
\<close>

end
